(* ===== verification/Npu_Prelude.thy ===== *)
theory Npu_Prelude
  imports Main "HOL-Library.Word" "HOL-Library.Monad_Syntax"
begin

text \<open>
  Shared vocabulary of the development: the machine integers of the C sources, counted C
  loops as \<open>for_range\<close>, busy-wait loops as \<open>spin_while\<close> (whose value is \<open>None\<close> when the
  loop never ends), bytes of words, and the \<open>errno\<close> values of the C library that the
  board support package returns.
\<close>

unbundle bit_operations_syntax

section \<open>Machine integers\<close>

type_synonym u8 = "8 word"
type_synonym u16 = "16 word"
type_synonym u32 = "32 word"
type_synonym u64 = "64 word"

text \<open>Facts that evaluate register masks, and rewrite rules for register effects.\<close>

named_theorems mask_simps "bits of the register masks"
named_theorems io_simps "what an operation leaves unchanged"

section \<open>Counted loops\<close>

text \<open>\<open>for (i = a; i < b; i++) body\<close>, with the variables the body assigns as the state.\<close>

definition for_range :: "nat \<Rightarrow> nat \<Rightarrow> (nat \<Rightarrow> 's \<Rightarrow> 's) \<Rightarrow> 's \<Rightarrow> 's" where
  "for_range a b body s = fold body [a..<b] s"

lemma for_range_empty [simp]: "b \<le> a \<Longrightarrow> for_range a b body s = s"
  by (simp add: for_range_def)

lemma for_range_Suc: "a \<le> b \<Longrightarrow> for_range a (Suc b) body s = body b (for_range a b body s)"
  by (simp add: for_range_def)

lemma for_range_first: "a < b \<Longrightarrow> for_range a b body s = for_range (Suc a) b body (body a s)"
  by (simp add: for_range_def upt_conv_Cons)

text \<open>The Hoare rule of the counted loop.\<close>

lemma for_range_inv:
  assumes "P a s" and "\<And>i t. a \<le> i \<Longrightarrow> i < b \<Longrightarrow> P i t \<Longrightarrow> P (Suc i) (body i t)" and "a \<le> b"
  shows "P b (for_range a b body s)"
  using assms
proof (induction "b - a" arbitrary: a s)
  case 0
  then show ?case by simp
next
  case (Suc n)
  then have "a < b" by simp
  with Suc.prems have "P (Suc a) (body a s)" by simp
  moreover have "n = b - Suc a" "Suc a \<le> b" using Suc.hyps(2) \<open>a < b\<close> by simp_all
  ultimately have "P b (for_range (Suc a) b body (body a s))"
    using Suc.hyps(1) Suc.prems(2) by simp
  with \<open>a < b\<close> show ?case by (simp add: for_range_first)
qed

lemma for_range_cong:
  "(\<And>i s. a \<le> i \<Longrightarrow> i < b \<Longrightarrow> f i s = g i s) \<Longrightarrow> for_range a b f s = for_range a b g s"
  unfolding for_range_def by (rule fold_cong) (auto simp: fun_eq_iff)

text \<open>A loop that only stores one value per index is a map over the range.\<close>

lemma for_range_upd: "for_range 0 n (\<lambda>i f. f(i := g i)) f = (\<lambda>i. if i < n then g i else f i)"
  by (induction n) (auto simp: for_range_Suc)

lemma for_range_count:
  "for_range 0 n (\<lambda>i k. if p i then Suc k else k) k = k + card {i. i < n \<and> p i}"
proof (induction n)
  case (Suc n)
  have "{j. j < Suc n \<and> p j} = (if p n then insert n {j. j < n \<and> p j} else {j. j < n \<and> p j})"
    by (auto simp: less_Suc_eq)
  with Suc show ?case by (simp add: for_range_Suc)
qed simp

section \<open>Busy-wait loops\<close>

text \<open>
  \<open>while (cond(read())) ;\<close>: every read may change the state (time passes, the hardware
  moves on). The loop may never end, which is the value \<open>None\<close>.
\<close>

partial_function (option) spin_while ::
  "('s \<Rightarrow> 'v \<times> 's) \<Rightarrow> ('v \<Rightarrow> bool) \<Rightarrow> 's \<Rightarrow> ('v \<times> 's) option" where
  "spin_while rd c s = (case rd s of (v, s') \<Rightarrow> if c v then spin_while rd c s' else Some (v, s'))"

declare spin_while.simps [code]

text \<open>The state after \<open>n\<close> reads.\<close>

definition after_reads :: "('s \<Rightarrow> 'v \<times> 's) \<Rightarrow> nat \<Rightarrow> 's \<Rightarrow> 's" where
  "after_reads rd n s = ((\<lambda>t. snd (rd t)) ^^ n) s"

lemma after_reads_0 [simp]: "after_reads rd 0 s = s"
  by (simp add: after_reads_def)

lemma after_reads_Suc: "after_reads rd (Suc n) s = after_reads rd n (snd (rd s))"
  by (simp add: after_reads_def funpow_Suc_right del: funpow.simps)

lemma spin_while_stops:
  assumes "\<And>i. i < n \<Longrightarrow> c (fst (rd (after_reads rd i s)))"
    and "\<not> c (fst (rd (after_reads rd n s)))"
  shows "spin_while rd c s = Some (rd (after_reads rd n s))"
  using assms
proof (induction n arbitrary: s)
  case 0
  then show ?case by (subst spin_while.simps) (auto split: prod.splits)
next
  case (Suc n)
  from Suc.prems(1)[of 0] have "c (fst (rd s))" by simp
  moreover have "spin_while rd c (snd (rd s)) = Some (rd (after_reads rd n (snd (rd s))))"
    using Suc.prems by (intro Suc.IH) (auto simp flip: after_reads_Suc)
  ultimately show ?case
    by (subst spin_while.simps) (auto simp: after_reads_Suc split: prod.splits)
qed

lemma spin_while_None:
  assumes "spin_while rd c s = Some r"
  shows "\<exists>n. \<not> c (fst (rd (after_reads rd n s)))"
proof (rule spin_while.raw_induct
    [where P = "\<lambda>rd c s r. \<exists>n. \<not> c (fst (rd (after_reads rd n s)))", OF _ assms])
  fix spin rd c s r
  assume IH: "\<And>rd c s r. spin rd c s = Some r \<Longrightarrow> \<exists>n. \<not> c (fst (rd (after_reads rd n s)))"
    and eq: "(case rd s of (v, s') \<Rightarrow> if c v then spin rd c s' else Some (v, s')) = Some r"
  show "\<exists>n. \<not> c (fst (rd (after_reads rd n s)))"
  proof (cases "c (fst (rd s))")
    case True
    with eq have "spin rd c (snd (rd s)) = Some r" by (auto split: prod.splits)
    from IH [OF this] show ?thesis by (auto simp flip: after_reads_Suc)
  next
    case False
    then show ?thesis by (intro exI[of _ 0]) simp
  qed
qed

lemma spin_while_Some:
  assumes "spin_while rd c s = Some r"
  shows "\<exists>n. (\<forall>i<n. c (fst (rd (after_reads rd i s)))) \<and>
    \<not> c (fst (rd (after_reads rd n s))) \<and> r = rd (after_reads rd n s)"
proof -
  from spin_while_None [OF assms] obtain n where n: "\<not> c (fst (rd (after_reads rd n s)))"
    and less: "\<And>i. i < n \<Longrightarrow> c (fst (rd (after_reads rd i s)))"
    using exists_least_iff [of "\<lambda>n. \<not> c (fst (rd (after_reads rd n s)))"] by auto
  have "spin_while rd c s = Some (rd (after_reads rd n s))"
    using less n by (rule spin_while_stops)
  with assms have "r = rd (after_reads rd n s)" by simp
  with less n show ?thesis by blast
qed

lemma after_reads_Suc_back: "after_reads rd (Suc n) s = snd (rd (after_reads rd n s))"
  by (simp add: after_reads_def)

lemma spin_while_iff:
  "spin_while rd c s = Some r \<longleftrightarrow>
     (\<exists>n. (\<forall>i<n. c (fst (rd (after_reads rd i s)))) \<and>
        \<not> c (fst (rd (after_reads rd n s))) \<and> r = rd (after_reads rd n s))"
proof
  assume "spin_while rd c s = Some r"
  then show "\<exists>n. (\<forall>i<n. c (fst (rd (after_reads rd i s)))) \<and>
    \<not> c (fst (rd (after_reads rd n s))) \<and> r = rd (after_reads rd n s)"
    by (rule spin_while_Some)
next
  assume "\<exists>n. (\<forall>i<n. c (fst (rd (after_reads rd i s)))) \<and>
    \<not> c (fst (rd (after_reads rd n s))) \<and> r = rd (after_reads rd n s)"
  then show "spin_while rd c s = Some r" by (auto intro: spin_while_stops)
qed

text \<open>The loop returns exactly when some read shows the condition false.\<close>

lemma spin_while_returns_iff:
  "(\<exists>r. spin_while rd c s = Some r) \<longleftrightarrow> (\<exists>n. \<not> c (fst (rd (after_reads rd n s))))"
proof
  assume "\<exists>n. \<not> c (fst (rd (after_reads rd n s)))"
  then obtain n where "\<not> c (fst (rd (after_reads rd n s)))"
    and "\<And>i. i < n \<Longrightarrow> c (fst (rd (after_reads rd i s)))"
    using exists_least_iff [of "\<lambda>n. \<not> c (fst (rd (after_reads rd n s)))"] by auto
  then have "spin_while rd c s = Some (rd (after_reads rd n s))"
    by (intro spin_while_stops)
  then show "\<exists>r. spin_while rd c s = Some r" ..
next
  assume "\<exists>r. spin_while rd c s = Some r"
  then show "\<exists>n. \<not> c (fst (rd (after_reads rd n s)))" using spin_while_None by fastforce
qed

text \<open>A property kept by every read holds when the loop ends.\<close>

lemma after_reads_inv: "P s \<Longrightarrow> (\<And>t. P t \<Longrightarrow> P (snd (rd t))) \<Longrightarrow> P (after_reads rd n s)"
  by (induction n arbitrary: s) (auto simp: after_reads_Suc)

lemma spin_while_inv:
  assumes "spin_while rd c s = Some (v, s')" and "P s" and "\<And>t. P t \<Longrightarrow> P (snd (rd t))"
  shows "P s' \<and> \<not> c v"
proof -
  from spin_while_Some [OF assms(1)] obtain n where
    "\<not> c (fst (rd (after_reads rd n s)))" "(v, s') = rd (after_reads rd n s)" by blast
  then show ?thesis using after_reads_inv [of P s rd n] assms(2,3)
    by (metis fst_conv snd_conv)
qed

section \<open>Bytes of words\<close>

definition byte_of :: "nat \<Rightarrow> 'a::len word \<Rightarrow> u8" where
  "byte_of i w = ucast (drop_bit (8 * i) w)"

definition pack4 :: "u8 \<Rightarrow> u8 \<Rightarrow> u8 \<Rightarrow> u8 \<Rightarrow> u32" where
  "pack4 b0 b1 b2 b3 =
     ucast b0 OR push_bit 8 (ucast b1) OR push_bit 16 (ucast b2) OR push_bit 24 (ucast b3)"

text \<open>The compiler's \<open>__builtin_bswap32\<close>.\<close>

definition bswap32 :: "u32 \<Rightarrow> u32" where
  "bswap32 w = pack4 (byte_of 3 w) (byte_of 2 w) (byte_of 1 w) (byte_of 0 w)"

lemma bit_u8_ge: "8 \<le> n \<Longrightarrow> \<not> bit (b :: u8) n"
  using bit_imp_le_length by fastforce

lemma byte_of_pack4 [simp]:
  "byte_of 0 (pack4 b0 b1 b2 b3) = b0"
  "byte_of (Suc 0) (pack4 b0 b1 b2 b3) = b1"
  "byte_of 2 (pack4 b0 b1 b2 b3) = b2"
  "byte_of 3 (pack4 b0 b1 b2 b3) = b3"
  by (rule bit_word_eqI; auto simp: byte_of_def pack4_def bit_simps bit_u8_ge)+

lemma pack4_bytes [simp]:
  "pack4 (byte_of 0 w) (byte_of (Suc 0) w) (byte_of 2 w) (byte_of 3 w) = w"
proof (rule bit_word_eqI)
  fix n
  assume "n < LENGTH(32)"
  then consider "n < 8" | "8 \<le> n" "n < 16" | "16 \<le> n" "n < 24" | "24 \<le> n" "n < 32"
    by fastforce
  then show "bit (pack4 (byte_of 0 w) (byte_of (Suc 0) w) (byte_of 2 w) (byte_of 3 w)) n = bit w n"
    by cases (auto simp: byte_of_def pack4_def bit_simps)
qed

lemma ucast_and_FF [simp]: "ucast ((v :: u32) AND 0xFF) = (ucast v :: u8)"
proof -
  have "(0xFF :: u32) = mask 8" by (simp add: mask_eq_exp_minus_1)
  then have "ucast (v AND 0xFF) = (ucast (take_bit 8 v) :: u8)" by (simp add: take_bit_eq_mask)
  also have "\<dots> = ucast v" by (rule bit_word_eqI) (auto simp: bit_simps)
  finally show ?thesis .
qed

lemma unat_u32_to_u64 [simp]: "unat (ucast (w :: u32) :: u64) = unat w"
proof -
  have "unat w < 2 ^ 32" using unsigned_less [of w] by simp
  then have "unat w < 2 ^ 64" by simp
  then show ?thesis by (simp add: unsigned_ucast_eq take_bit_nat_eq_self_iff)
qed

lemma bswap32_pack4 [simp]: "bswap32 (pack4 a b c d) = pack4 d c b a"
  by (simp add: bswap32_def)

lemma bswap32_bswap32 [simp]: "bswap32 (bswap32 w) = w"
  by (subst (2) bswap32_def) (simp del: bswap32_pack4 add: bswap32_def)

text \<open>The sign of a 32-bit integer.\<close>

lemma uint_int_unat: "uint w = int (unat w)"
  by simp

lemma sint_u32_less_0: "sint (w :: u32) < 0 \<longleftrightarrow> 2 ^ 31 \<le> unat w"
proof -
  have lt: "unat w < 2 ^ 32" using unsigned_less [of w] by simp
  have "sint w < 0 \<longleftrightarrow> bit (uint w) 31" by (simp add: sint_uint signed_take_bit_negative_iff)
  also have "\<dots> \<longleftrightarrow> bit (unat w) 31" unfolding uint_int_unat by (rule bit_of_nat_iff_bit)
  also have "\<dots> \<longleftrightarrow> odd (unat w div 2 ^ 31)" by (rule bit_iff_odd)
  also have "\<dots> \<longleftrightarrow> 2 ^ 31 \<le> unat w"
  proof
    assume "odd (unat w div 2 ^ 31)"
    then show "2 ^ 31 \<le> unat w" by (metis div_less even_zero not_le)
  next
    assume "2 ^ 31 \<le> unat w"
    with lt have "unat w div 2 ^ 31 = 1" by simp
    then show "odd (unat w div 2 ^ 31)" by simp
  qed
  finally show ?thesis .
qed

lemma sint_u32_small:
  assumes "unat (w :: u32) < 2 ^ 31"
  shows "sint w = int (unat w)"
proof -
  have "sint w = signed_take_bit 31 (int (unat w))" by (simp add: sint_uint)
  also have "\<dots> = int (unat w)"
  proof (rule signed_take_bit_int_eq_self)
    have "int (unat w) < int (2 ^ 31)" using assms by (rule iffD2 [OF of_nat_less_iff])
    then show "int (unat w) < 2 ^ 31" by simp
    show "- (2 ^ 31) \<le> int (unat w)" by (rule order_trans [OF _ of_nat_0_le_iff]) simp
  qed
  finally show ?thesis .
qed

lemma unat_u32_bound: "unat (w :: u32) < 2 ^ 32"
  using unsigned_less [of w] by simp


lemma sint_u32_neg:
  assumes "sint (w :: u32) < 0"
  shows "sint w = int (unat w) - 2 ^ 32"
proof -
  have "uint w = take_bit 32 (sint w)" by (simp add: uint_sint)
  also have "\<dots> = sint w mod 2 ^ 32" by (simp add: take_bit_eq_mod)
  also have "\<dots> = (sint w + 2 ^ 32) mod 2 ^ 32" by simp
  also have "\<dots> = sint w + 2 ^ 32"
    using assms sint_greater_eq [of w] by (intro mod_pos_pos_trivial) simp_all
  finally show ?thesis unfolding uint_int_unat by linarith
qed

section \<open>Error numbers of the C library\<close>

definition EPERM :: int where "EPERM = 1"
definition EIO :: int where "EIO = 5"
definition EAGAIN :: int where "EAGAIN = 11"
definition EWOULDBLOCK :: int where "EWOULDBLOCK = EAGAIN"
definition EACCES :: int where "EACCES = 13"
definition EBUSY :: int where "EBUSY = 16"
definition ENODEV :: int where "ENODEV = 19"
definition EINVAL :: int where "EINVAL = 22"
definition EMFILE :: int where "EMFILE = 24"
definition ENOTTY :: int where "ENOTTY = 25"
definition ENOSPC :: int where "ENOSPC = 28"
definition ETIME :: int where "ETIME = 62"
definition EBADFD :: int where "EBADFD = 81"
definition ENOSYS :: int where "ENOSYS = 88"
definition ENOTSUP :: int where "ENOTSUP = 134"

lemmas errno_defs = EPERM_def EIO_def EAGAIN_def EWOULDBLOCK_def EACCES_def EBUSY_def
  ENODEV_def EINVAL_def EMFILE_def ENOTTY_def ENOSPC_def ETIME_def EBADFD_def ENOSYS_def
  ENOTSUP_def

end
