(* ===== verification/Soc_Bus.thy ===== *)
theory Soc_Bus
  imports Npu_Prelude
begin

text \<open>
  The machine the C code runs on. The devices behind the memory bus are not part of the
  repository's C code: they are the record \<open>'h bus\<close> of bus operations over a hardware
  state \<open>'h\<close>, a parameter of every definition that does I/O. The processor's own state is
  the \<open>'h machine\<close>: the hardware, the Nios II \<open>status\<close> register and what was printed.
\<close>

section \<open>The bus and the processor\<close>

text \<open>
  A read may change the device (it may pop a FIFO, and time passes), so it returns the new
  hardware state. \<open>bus_delay us\<close> is time spent in a calibrated busy loop;
  \<open>bus_dcache_flush_all\<close> writes the data cache back to memory.
\<close>

record 'h bus =
  bus_rd32 :: "u32 \<Rightarrow> 'h \<Rightarrow> u32 \<times> 'h"
  bus_wr32 :: "u32 \<Rightarrow> u32 \<Rightarrow> 'h \<Rightarrow> 'h"
  bus_wr16 :: "u32 \<Rightarrow> u16 \<Rightarrow> 'h \<Rightarrow> 'h"
  bus_wr8 :: "u32 \<Rightarrow> u8 \<Rightarrow> 'h \<Rightarrow> 'h"
  bus_delay :: "nat \<Rightarrow> 'h \<Rightarrow> 'h"
  bus_dcache_flush_all :: "'h \<Rightarrow> 'h"

text \<open>What a call of the C library's \<open>printf\<close> prints: its format and its arguments.\<close>

datatype console_event = Printf string "int list"

record 'h machine =
  hw :: 'h
  cpu_status :: u32
  console :: "console_event list"

definition printf :: "string \<Rightarrow> int list \<Rightarrow> 'h machine \<Rightarrow> 'h machine" where
  "printf fmt args s = s\<lparr>console := console s @ [Printf fmt args]\<rparr>"

section \<open>The access macros of io.h\<close>

definition IO_CALC_ADDRESS_NATIVE :: "u32 \<Rightarrow> nat \<Rightarrow> u32" where
  "IO_CALC_ADDRESS_NATIVE base regnum = base + of_nat (regnum * (32 div 8))"

definition IORD_32DIRECT :: "'h bus \<Rightarrow> u32 \<Rightarrow> u32 \<Rightarrow> 'h machine \<Rightarrow> u32 \<times> 'h machine" where
  "IORD_32DIRECT B base off s =
     (case bus_rd32 B (base + off) (hw s) of (v, h) \<Rightarrow> (v, s\<lparr>hw := h\<rparr>))"

definition IOWR_32DIRECT :: "'h bus \<Rightarrow> u32 \<Rightarrow> u32 \<Rightarrow> u32 \<Rightarrow> 'h machine \<Rightarrow> 'h machine" where
  "IOWR_32DIRECT B base off v s = s\<lparr>hw := bus_wr32 B (base + off) v (hw s)\<rparr>"

definition IOWR_16DIRECT :: "'h bus \<Rightarrow> u32 \<Rightarrow> u32 \<Rightarrow> u16 \<Rightarrow> 'h machine \<Rightarrow> 'h machine" where
  "IOWR_16DIRECT B base off v s = s\<lparr>hw := bus_wr16 B (base + off) v (hw s)\<rparr>"

definition IOWR_8DIRECT :: "'h bus \<Rightarrow> u32 \<Rightarrow> u32 \<Rightarrow> u8 \<Rightarrow> 'h machine \<Rightarrow> 'h machine" where
  "IOWR_8DIRECT B base off v s = s\<lparr>hw := bus_wr8 B (base + off) v (hw s)\<rparr>"

definition IORD :: "'h bus \<Rightarrow> u32 \<Rightarrow> nat \<Rightarrow> 'h machine \<Rightarrow> u32 \<times> 'h machine" where
  "IORD B base reg s =
     (case bus_rd32 B (IO_CALC_ADDRESS_NATIVE base reg) (hw s) of (v, h) \<Rightarrow> (v, s\<lparr>hw := h\<rparr>))"

definition IOWR :: "'h bus \<Rightarrow> u32 \<Rightarrow> nat \<Rightarrow> u32 \<Rightarrow> 'h machine \<Rightarrow> 'h machine" where
  "IOWR B base reg v s = s\<lparr>hw := bus_wr32 B (IO_CALC_ADDRESS_NATIVE base reg) v (hw s)\<rparr>"

text \<open>Accesses change the hardware only.\<close>

lemma IO_frame [simp, io_simps]:
  "cpu_status (IOWR_32DIRECT B b off v s) = cpu_status s"
  "cpu_status (IOWR_16DIRECT B b off w s) = cpu_status s"
  "cpu_status (IOWR_8DIRECT B b off x s) = cpu_status s"
  "cpu_status (IOWR B b r v s) = cpu_status s"
  "cpu_status (printf f a s) = cpu_status s"
  "console (IOWR_32DIRECT B b off v s) = console s"
  "console (IOWR_16DIRECT B b off w s) = console s"
  "console (IOWR_8DIRECT B b off x s) = console s"
  "console (IOWR B b r v s) = console s"
  "hw (printf f a s) = hw s"
  by (simp_all add: IOWR_32DIRECT_def IOWR_16DIRECT_def IOWR_8DIRECT_def IOWR_def printf_def)

lemma IORD_frame [simp, io_simps]:
  "cpu_status (snd (IORD_32DIRECT B b off s)) = cpu_status s"
  "console (snd (IORD_32DIRECT B b off s)) = console s"
  "cpu_status (snd (IORD B b r s)) = cpu_status s"
  "console (snd (IORD B b r s)) = console s"
  by (simp_all add: IORD_32DIRECT_def IORD_def split: prod.splits)

lemma hw_IOWR [simp, io_simps]:
  "hw (IOWR_32DIRECT B b off v s) = bus_wr32 B (b + off) v (hw s)"
  "hw (IOWR_16DIRECT B b off w s) = bus_wr16 B (b + off) w (hw s)"
  "hw (IOWR_8DIRECT B b off x s) = bus_wr8 B (b + off) x (hw s)"
  "hw (IOWR B b r v s) = bus_wr32 B (b + of_nat (r * 4)) v (hw s)"
  by (simp_all add: IOWR_32DIRECT_def IOWR_16DIRECT_def IOWR_8DIRECT_def IOWR_def
      IO_CALC_ADDRESS_NATIVE_def)

lemma hw_IORD [simp, io_simps]:
  "hw (snd (IORD_32DIRECT B b off s)) = snd (bus_rd32 B (b + off) (hw s))"
  "fst (IORD_32DIRECT B b off s) = fst (bus_rd32 B (b + off) (hw s))"
  "hw (snd (IORD B b r s)) = snd (bus_rd32 B (b + of_nat (r * 4)) (hw s))"
  "fst (IORD B b r s) = fst (bus_rd32 B (b + of_nat (r * 4)) (hw s))"
  by (simp_all add: IORD_32DIRECT_def IORD_def IO_CALC_ADDRESS_NATIVE_def split: prod.splits)

lemma IORD_32DIRECT_frameD:
  "IORD_32DIRECT B b off s = (v, s') \<Longrightarrow>
     cpu_status s' = cpu_status s \<and> console s' = console s"
  by (auto simp: IORD_32DIRECT_def split: prod.splits)

lemma IORD_frameD:
  "IORD B b r s = (v, s') \<Longrightarrow> cpu_status s' = cpu_status s \<and> console s' = console s"
  by (auto simp: IORD_def split: prod.splits)

section \<open>Interrupt enable and busy sleep\<close>

definition NIOS2_STATUS_PIE_MSK :: u32 where "NIOS2_STATUS_PIE_MSK = 1"

definition alt_irq_disable_all :: "'h machine \<Rightarrow> u32 \<times> 'h machine" where
  "alt_irq_disable_all s =
     (let context = cpu_status s
      in (context, s\<lparr>cpu_status := context AND NOT NIOS2_STATUS_PIE_MSK\<rparr>))"

text \<open>
  The processor of \<open>system.h\<close> has no shadow register set, no external interrupt controller,
  no MMU and no MPU, so the preprocessor keeps the second branch: the saved context is
  written back as it is.
\<close>

definition alt_irq_enable_all :: "u32 \<Rightarrow> 'h machine \<Rightarrow> 'h machine" where
  "alt_irq_enable_all context s = s\<lparr>cpu_status := context\<rparr>"

definition alt_irq_enabled :: "'h machine \<Rightarrow> u32" where
  "alt_irq_enabled s = cpu_status s AND NIOS2_STATUS_PIE_MSK"

text \<open>The assembly loop of \<open>alt_busy_sleep\<close> only lets time pass; it returns 0.\<close>

definition alt_busy_sleep :: "'h bus \<Rightarrow> nat \<Rightarrow> 'h machine \<Rightarrow> 'h machine" where
  "alt_busy_sleep B us s = s\<lparr>hw := bus_delay B us (hw s)\<rparr>"

definition alt_dcache_flush_all :: "'h bus \<Rightarrow> 'h machine \<Rightarrow> 'h machine" where
  "alt_dcache_flush_all B s = s\<lparr>hw := bus_dcache_flush_all B (hw s)\<rparr>"

lemma irq_all_simps [simp, io_simps]:
  "fst (alt_irq_disable_all s) = cpu_status s"
  "cpu_status (snd (alt_irq_disable_all s)) = cpu_status s AND NOT 1"
  "hw (snd (alt_irq_disable_all s)) = hw s"
  "console (snd (alt_irq_disable_all s)) = console s"
  "cpu_status (alt_irq_enable_all c s) = c"
  "hw (alt_irq_enable_all c s) = hw s"
  "console (alt_irq_enable_all c s) = console s"
  "cpu_status (alt_busy_sleep B us s) = cpu_status s"
  "console (alt_busy_sleep B us s) = console s"
  "hw (alt_busy_sleep B us s) = bus_delay B us (hw s)"
  "cpu_status (alt_dcache_flush_all B s) = cpu_status s"
  "console (alt_dcache_flush_all B s) = console s"
  "hw (alt_dcache_flush_all B s) = bus_dcache_flush_all B (hw s)"
  by (simp_all add: alt_irq_disable_all_def alt_irq_enable_all_def alt_busy_sleep_def
      alt_dcache_flush_all_def NIOS2_STATUS_PIE_MSK_def Let_def)

lemma mask_pie [simp, mask_simps]: "(x AND NOT 1) AND 1 = (0 :: u32)"
  by (rule bit_word_eqI) (auto simp: bit_simps)

lemma alt_irq_enabled_disabled [simp]: "alt_irq_enabled (snd (alt_irq_disable_all s)) = 0"
  unfolding alt_irq_enabled_def irq_all_simps NIOS2_STATUS_PIE_MSK_def by (rule mask_pie)

section \<open>Memory behind the bus\<close>

text \<open>
  What the code relies on where it uses a region of the address space as plain memory: a
  word read returns the last word written there, and neither reads nor writes of the region
  disturb its other words. \<open>peek\<close> is the content, \<open>win\<close> the word addresses of the region.
\<close>

locale ram_window =
  fixes B :: "'h bus" and peek :: "'h \<Rightarrow> u32 \<Rightarrow> u32" and win :: "u32 set"
  assumes rd_val: "a \<in> win \<Longrightarrow> fst (bus_rd32 B a h) = peek h a"
    and rd_keep: "a \<in> win \<Longrightarrow> b \<in> win \<Longrightarrow> peek (snd (bus_rd32 B a h)) b = peek h b"
    and wr_same: "a \<in> win \<Longrightarrow> peek (bus_wr32 B a v h) a = v"
    and wr_other: "a \<in> win \<Longrightarrow> b \<in> win \<Longrightarrow> a \<noteq> b \<Longrightarrow> peek (bus_wr32 B a v h) b = peek h b"
begin

lemma IORD_val: "b + off \<in> win \<Longrightarrow> fst (IORD_32DIRECT B b off s) = peek (hw s) (b + off)"
  by (simp add: rd_val)

lemma IORD_keep:
  "b + off \<in> win \<Longrightarrow> a \<in> win \<Longrightarrow>
     peek (hw (snd (IORD_32DIRECT B b off s))) a = peek (hw s) a"
  by (simp add: rd_keep)

lemma IOWR_peek:
  "b + off \<in> win \<Longrightarrow> a \<in> win \<Longrightarrow>
     peek (hw (IOWR_32DIRECT B b off v s)) a = (if a = b + off then v else peek (hw s) a)"
  using wr_same wr_other by (metis hw_IOWR(1))

end

section \<open>The hardware as a history of accesses\<close>

text \<open>
  The most general hardware the code can meet: its state is the history of the accesses the
  processor made, and a read is answered by an arbitrary function \<open>resp\<close> of that history and
  of the address. Every deterministic device, with whatever internal state, is such a function.
\<close>

datatype access = Rd u32 u32 | Wr32 u32 u32 | Wr16 u32 u16 | Wr8 u32 u8 | Delay nat | FlushAll

definition trace_bus :: "(access list \<Rightarrow> u32 \<Rightarrow> u32) \<Rightarrow> access list bus" where
  "trace_bus resp =
     \<lparr>bus_rd32 = (\<lambda>a h. (resp h a, h @ [Rd a (resp h a)])),
      bus_wr32 = (\<lambda>a v h. h @ [Wr32 a v]), bus_wr16 = (\<lambda>a v h. h @ [Wr16 a v]),
      bus_wr8 = (\<lambda>a v h. h @ [Wr8 a v]), bus_delay = (\<lambda>us h. h @ [Delay us]),
      bus_dcache_flush_all = (\<lambda>h. h @ [FlushAll])\<rparr>"

lemma trace_bus_simps [simp]:
  "bus_rd32 (trace_bus resp) a h = (resp h a, h @ [Rd a (resp h a)])"
  "bus_wr32 (trace_bus resp) a v h = h @ [Wr32 a v]"
  "bus_wr16 (trace_bus resp) a w h = h @ [Wr16 a w]"
  "bus_wr8 (trace_bus resp) a x h = h @ [Wr8 a x]"
  "bus_delay (trace_bus resp) us h = h @ [Delay us]"
  "bus_dcache_flush_all (trace_bus resp) h = h @ [FlushAll]"
  by (simp_all add: trace_bus_def)

lemma trace_IO:
  "IORD_32DIRECT (trace_bus resp) b off s =
     (resp (hw s) (b + off), s\<lparr>hw := hw s @ [Rd (b + off) (resp (hw s) (b + off))]\<rparr>)"
  "IOWR_32DIRECT (trace_bus resp) b off v s = s\<lparr>hw := hw s @ [Wr32 (b + off) v]\<rparr>"
  "IOWR_16DIRECT (trace_bus resp) b off w s = s\<lparr>hw := hw s @ [Wr16 (b + off) w]\<rparr>"
  "IOWR_8DIRECT (trace_bus resp) b off x s = s\<lparr>hw := hw s @ [Wr8 (b + off) x]\<rparr>"
  "alt_busy_sleep (trace_bus resp) us s = s\<lparr>hw := hw s @ [Delay us]\<rparr>"
  by (simp_all add: IORD_32DIRECT_def IOWR_32DIRECT_def IOWR_16DIRECT_def IOWR_8DIRECT_def
      alt_busy_sleep_def)

lemma trace_IO_reg:
  "IORD (trace_bus resp) b r s =
     (resp (hw s) (b + of_nat (r * 4)),
      s\<lparr>hw := hw s @ [Rd (b + of_nat (r * 4)) (resp (hw s) (b + of_nat (r * 4)))]\<rparr>)"
  "IOWR (trace_bus resp) b r v s = s\<lparr>hw := hw s @ [Wr32 (b + of_nat (r * 4)) v]\<rparr>"
  by (simp_all add: IORD_def IOWR_def IO_CALC_ADDRESS_NATIVE_def)

text \<open>The writes among the accesses, in their order.\<close>

fun is_write :: "access \<Rightarrow> bool" where
  "is_write (Wr32 a v) = True"
| "is_write (Wr16 a w) = True"
| "is_write (Wr8 a x) = True"
| "is_write _ = False"

definition writes :: "access list \<Rightarrow> access list" where
  "writes h = filter is_write h"

lemma writes_append [simp]: "writes (h @ h') = writes h @ writes h'"
  by (simp add: writes_def)

lemma writes_simps [simp]:
  "writes [] = []" "writes (Rd a v # h) = writes h" "writes (Delay us # h) = writes h"
  "writes (FlushAll # h) = writes h" "writes (Wr32 a v # h) = Wr32 a v # writes h"
  "writes (Wr16 a w # h) = Wr16 a w # writes h" "writes (Wr8 a x # h) = Wr8 a x # writes h"
  by (simp_all add: writes_def)

text \<open>A machine in its reset state, for concrete runs.\<close>

definition reset_machine :: "'h \<Rightarrow> 'h machine" where
  "reset_machine h = \<lparr>hw = h, cpu_status = 1, console = []\<rparr>"

text \<open>
  Hardware with a region \<open>win\<close> of plain memory among arbitrary devices \<open>dev\<close>: a read of the
  region gives the last word written there, any other read what the devices answer.
\<close>

fun last_write :: "access list \<Rightarrow> u32 \<Rightarrow> u32" where
  "last_write [] a = 0"
| "last_write (Wr32 b v # h) a = (if b = a then v else last_write h a)"
| "last_write (_ # h) a = last_write h a"

definition mem_peek :: "access list \<Rightarrow> u32 \<Rightarrow> u32" where
  "mem_peek h a = last_write (rev h) a"

definition mem_resp :: "u32 set \<Rightarrow> (access list \<Rightarrow> u32 \<Rightarrow> u32) \<Rightarrow> access list \<Rightarrow> u32 \<Rightarrow> u32" where
  "mem_resp win dev h a = (if a \<in> win then mem_peek h a else dev h a)"

interpretation mem: ram_window "trace_bus (mem_resp win dev)" mem_peek win
  by unfold_locales (auto simp: mem_resp_def mem_peek_def)

end
