(* ===== verification/Npu_Format.thy ===== *)
theory Npu_Format
  imports Soc_Bus
begin

text \<open>
  The data-formatting functions of \<open>software/npu/main.c\<close> and the reference multiplication of
  \<open>linux_software/npu_test/main.c\<close>. A C matrix \<open>signed char m[8][8]\<close> is a function from row
  and column to the byte stored there, its value as a number \<open>sint\<close>; \<open>alt_u32 m[8][8]\<close> is a
  function to 32-bit words. Only the indices below 8 mean anything.
\<close>

type_synonym mat8 = "nat \<Rightarrow> nat \<Rightarrow> u8"
type_synonym mat32 = "nat \<Rightarrow> nat \<Rightarrow> u32"

definition NPU_MAT_SIZE :: nat where "NPU_MAT_SIZE = 8"
definition NPU_MAT_BYTES :: nat where "NPU_MAT_BYTES = NPU_MAT_SIZE * 8"
definition NPU_OUT_BYTES :: nat where "NPU_OUT_BYTES = NPU_MAT_SIZE * 32"

section \<open>The code\<close>

text \<open>\<open>((alt_u32)(unsigned char)b) << n\<close>\<close>

definition shl_byte :: "u8 \<Rightarrow> nat \<Rightarrow> u32" where
  "shl_byte b n = push_bit n (ucast b)"

definition npu_format_inputs :: "'h bus \<Rightarrow> u32 \<Rightarrow> mat8 \<Rightarrow> 'h machine \<Rightarrow> 'h machine" where
  "npu_format_inputs B dst_addr src_matrix s =
     for_range 0 8 (\<lambda>r s.
       let (low_32, high_32) =
             for_range 0 4 (\<lambda>c (low_32, high_32).
               (low_32 OR shl_byte (src_matrix r c) (c * 8),
                high_32 OR shl_byte (src_matrix r (c + 4)) (c * 8))) (0, 0);
           s = IOWR_32DIRECT B dst_addr (of_nat (r * 8 + 0)) low_32 s
       in IOWR_32DIRECT B dst_addr (of_nat (r * 8 + 4)) high_32 s) s"

definition npu_format_weights :: "'h bus \<Rightarrow> u32 \<Rightarrow> mat8 \<Rightarrow> 'h machine \<Rightarrow> 'h machine" where
  "npu_format_weights B dst_addr src_matrix s =
     for_range 0 8 (\<lambda>t s.
       let c = 7 - t;
           (low_32, high_32) =
             for_range 0 4 (\<lambda>r (low_32, high_32).
               (low_32 OR shl_byte (src_matrix r c) (r * 8),
                high_32 OR shl_byte (src_matrix (r + 4) c) (r * 8))) (0, 0);
           s = IOWR_32DIRECT B dst_addr (of_nat (t * 8 + 0)) low_32 s
       in IOWR_32DIRECT B dst_addr (of_nat (t * 8 + 4)) high_32 s) s"

definition mat_upd :: "(nat \<Rightarrow> nat \<Rightarrow> 'a) \<Rightarrow> nat \<Rightarrow> nat \<Rightarrow> 'a \<Rightarrow> nat \<Rightarrow> nat \<Rightarrow> 'a" where
  "mat_upd m r c v = m(r := (m r)(c := v))"

text \<open>\<open>c ^ 1\<close> swaps the even and odd columns.\<close>

definition npu_parse_output ::
  "'h bus \<Rightarrow> u32 \<Rightarrow> mat32 \<Rightarrow> 'h machine \<Rightarrow> mat32 \<times> 'h machine" where
  "npu_parse_output B src_addr dst_matrix s =
     for_range 0 8 (\<lambda>r (m, s).
       for_range 0 8 (\<lambda>c (m, s).
         let hw_c = c XOR 1;
             (raw, s) = IORD_32DIRECT B src_addr (of_nat ((r * 8 + hw_c) * 4)) s
         in (mat_upd m r c (bswap32 raw), s)) (m, s)) (dst_matrix, s)"

text \<open>\<open>int32_t\<close> is the two's complement word: signed addition and multiplication that stay in
  range are the word operations.\<close>

definition cpu_matmul_8x8 :: "mat8 \<Rightarrow> mat8 \<Rightarrow> mat32 \<Rightarrow> mat32" where
  "cpu_matmul_8x8 A Bm C =
     for_range 0 8 (\<lambda>i C.
       for_range 0 8 (\<lambda>j C.
         let sum = for_range 0 8 (\<lambda>k sum. sum + scast (A i k) * scast (Bm k j)) 0
         in mat_upd C i j sum) C) C"

section \<open>What the formatting functions store\<close>

text \<open>The eight bytes of a line of the matrix as the two words that are written.\<close>

definition row_low :: "(nat \<Rightarrow> u8) \<Rightarrow> u32" where
  "row_low f = pack4 (f 0) (f 1) (f 2) (f 3)"

definition row_high :: "(nat \<Rightarrow> u8) \<Rightarrow> u32" where
  "row_high f = pack4 (f 4) (f 5) (f 6) (f 7)"

lemmas row_defs = row_low_def row_high_def

lemma pack_loop:
  "for_range 0 4 (\<lambda>c (l, h). (l OR shl_byte (f c) (c * 8), h OR shl_byte (f (c + 4)) (c * 8)))
     (0, 0) = (row_low f, row_high f)"
  by (simp add: for_range_def upt_rec row_defs pack4_def shl_byte_def numeral_eq_Suc or.assoc)

text \<open>
  Both functions store lines of eight bytes; a weight line is a column, the last one first.
  Word number \<open>j\<close> of a buffer at \<open>d\<close> has the address \<open>word_addr d j\<close>.
\<close>

definition word_addr :: "u32 \<Rightarrow> nat \<Rightarrow> u32" where
  "word_addr d j = d + of_nat (j * 4)"

definition line_word :: "(nat \<Rightarrow> u8) \<Rightarrow> nat \<Rightarrow> u32" where
  "line_word f h = (if h = 0 then row_low f else row_high f)"

fun store_words :: "'h bus \<Rightarrow> u32 \<Rightarrow> nat \<Rightarrow> (nat \<Rightarrow> u32) \<Rightarrow> 'h machine \<Rightarrow> 'h machine" where
  "store_words B d 0 g s = s"
| "store_words B d (Suc n) g s =
     IOWR_32DIRECT B d (of_nat (n * 4)) (g n) (store_words B d n g s)"

lemma store_lines:
  "for_range 0 n (\<lambda>r s. IOWR_32DIRECT B d (of_nat (r * 8 + 4)) (row_high (f r))
       (IOWR_32DIRECT B d (of_nat (r * 8)) (row_low (f r)) s)) s =
   store_words B d (2 * n) (\<lambda>j. line_word (f (j div 2)) (j mod 2)) s"
proof (induction n)
  case (Suc n)
  have "Suc (2 * n) div 2 = n" "Suc (2 * n) mod 2 = 1" by presburger+
  with Suc show ?case by (simp add: for_range_Suc line_word_def algebra_simps)
qed simp

lemma npu_format_inputs_words:
  "npu_format_inputs B d m s = store_words B d 16 (\<lambda>j. line_word (m (j div 2)) (j mod 2)) s"
  unfolding npu_format_inputs_def
  using store_lines [of 8 B d m s] by (simp add: pack_loop)

lemma npu_format_weights_words:
  "npu_format_weights B d m s =
     store_words B d 16 (\<lambda>j. line_word (\<lambda>r. m r (7 - j div 2)) (j mod 2)) s"
  unfolding npu_format_weights_def
  using store_lines [of 8 B d "\<lambda>t r. m r (7 - t)" s]
  by (simp add: pack_loop [of "\<lambda>r. m r c" for c] Let_def)

lemma store_words_frame [simp, io_simps]:
  "cpu_status (store_words B d n f s) = cpu_status s"
  "console (store_words B d n f s) = console s"
  by (induction n) simp_all

lemma word_addr_inj:
  assumes "word_addr d i = word_addr d j" and "i < 2 ^ 30" and "j < 2 ^ 30"
  shows "i = j"
proof -
  have "(of_nat (i * 4) :: u32) = of_nat (j * 4)" using assms(1) by (simp add: word_addr_def)
  then have "unat (of_nat (i * 4) :: u32) = unat (of_nat (j * 4) :: u32)" by simp
  then show ?thesis using assms(2,3) by (simp only: unat_of_nat) simp
qed

context ram_window
begin

lemma IOWR_word_peek:
  "word_addr d j \<in> win \<Longrightarrow> a \<in> win \<Longrightarrow>
     peek (hw (IOWR_32DIRECT B d (of_nat (j * 4)) v s)) a =
       (if a = word_addr d j then v else peek (hw s) a)"
  unfolding word_addr_def by (rule IOWR_peek)

text \<open>Each word of the buffer holds what was stored, and the rest of the window is kept.\<close>

lemma store_words_other:
  "\<forall>j<n. word_addr d j \<in> win \<Longrightarrow> a \<in> win \<Longrightarrow> \<forall>j<n. a \<noteq> word_addr d j \<Longrightarrow>
     peek (hw (store_words B d n g s)) a = peek (hw s) a"
  by (induction n) (simp_all add: IOWR_word_peek del: hw_IOWR of_nat_mult)

lemma store_words_at:
  "\<forall>j<n. word_addr d j \<in> win \<Longrightarrow> n \<le> 2 ^ 30 \<Longrightarrow> k < n \<Longrightarrow>
     peek (hw (store_words B d n g s)) (word_addr d k) = g k"
proof (induction n)
  case (Suc n)
  show ?case
  proof (cases "k = n")
    case True
    with Suc.prems show ?thesis by (simp add: IOWR_word_peek del: hw_IOWR of_nat_mult)
  next
    case False
    with Suc.prems have "k < n" "word_addr d k \<noteq> word_addr d n"
      using word_addr_inj [of d k n] by auto
    with Suc show ?thesis by (simp add: IOWR_word_peek del: hw_IOWR of_nat_mult)
  qed
qed simp

text \<open>The double loop of the parser reads every cell of its range and keeps the memory.\<close>

lemma parse_row:
  assumes "\<forall>c<n. word_addr d (r * 8 + (c XOR 1)) \<in> win"
  shows "\<exists>s'. for_range 0 n (\<lambda>c (m, s).
      let hw_c = c XOR 1; (raw, s) = IORD_32DIRECT B d (of_nat ((r * 8 + hw_c) * 4)) s
      in (mat_upd m r c (bswap32 raw), s)) (m, s) =
    ((\<lambda>r' c. if r' = r \<and> c < n
        then bswap32 (peek (hw s) (word_addr d (r * 8 + (c XOR 1)))) else m r' c), s') \<and>
    (\<forall>a\<in>win. peek (hw s') a = peek (hw s) a) \<and> cpu_status s' = cpu_status s \<and>
    console s' = console s"
  using assms
proof (induction n)
  case 0
  then show ?case by (simp add: fun_eq_iff)
next
  case (Suc n)
  then obtain s' where IH: "for_range 0 n (\<lambda>c (m, s).
      let hw_c = c XOR 1; (raw, s) = IORD_32DIRECT B d (of_nat ((r * 8 + hw_c) * 4)) s
      in (mat_upd m r c (bswap32 raw), s)) (m, s) =
    ((\<lambda>r' c. if r' = r \<and> c < n
        then bswap32 (peek (hw s) (word_addr d (r * 8 + (c XOR 1)))) else m r' c), s')"
    and k: "\<forall>a\<in>win. peek (hw s') a = peek (hw s) a" "cpu_status s' = cpu_status s"
      "console s' = console s" by auto
  let ?off = "of_nat ((r * 8 + (n XOR 1)) * 4) :: u32"
  obtain v s2 where rd: "IORD_32DIRECT B d ?off s' = (v, s2)" by (rule prod.exhaust)
  have in_win: "d + ?off \<in> win" using Suc.prems unfolding word_addr_def by blast
  from IORD_val [OF in_win, of s'] k(1) in_win have v: "v = peek (hw s) (d + ?off)"
    by (simp only: rd fst_conv)
  have keep: "\<forall>a\<in>win. peek (hw s2) a = peek (hw s) a"
    using IORD_keep [OF in_win, of _ s'] k(1) by (simp only: rd snd_conv) blast
  have fr: "cpu_status s2 = cpu_status s" "console s2 = console s"
    using IORD_32DIRECT_frameD [OF rd] k by simp_all
  let ?cell = "\<lambda>c (m, s).
      let hw_c = c XOR 1; (raw, s) = IORD_32DIRECT B d (of_nat ((r * 8 + hw_c) * 4)) s
      in (mat_upd m r c (bswap32 raw), s)"
  have "for_range 0 (Suc n) ?cell (m, s) = ?cell n (for_range 0 n ?cell (m, s))"
    by (rule for_range_Suc) simp
  also have "\<dots> = ((\<lambda>r' c. if r' = r \<and> c < Suc n
        then bswap32 (peek (hw s) (word_addr d (r * 8 + (c XOR 1)))) else m r' c), s2)"
    unfolding IH unfolding Let_def prod.case rd v
    by (simp add: mat_upd_def word_addr_def fun_eq_iff less_Suc_eq del: of_nat_mult of_nat_add)
  finally show ?case using keep fr by blast
qed

lemma parse_rows:
  assumes "\<forall>r<n. \<forall>c<8. word_addr d (r * 8 + (c XOR 1)) \<in> win"
  shows "\<exists>s'. for_range 0 n (\<lambda>r (m, s). for_range 0 8 (\<lambda>c (m, s).
      let hw_c = c XOR 1; (raw, s) = IORD_32DIRECT B d (of_nat ((r * 8 + hw_c) * 4)) s
      in (mat_upd m r c (bswap32 raw), s)) (m, s)) (m, s) =
    ((\<lambda>r c. if r < n \<and> c < 8
        then bswap32 (peek (hw s) (word_addr d (r * 8 + (c XOR 1)))) else m r c), s') \<and>
    (\<forall>a\<in>win. peek (hw s') a = peek (hw s) a) \<and> cpu_status s' = cpu_status s \<and>
    console s' = console s"
  using assms
proof (induction n)
  case 0
  then show ?case by (simp add: fun_eq_iff)
next
  case (Suc n)
  let ?row = "\<lambda>r (m, s). for_range 0 8 (\<lambda>c (m, s).
      let hw_c = c XOR 1; (raw, s) = IORD_32DIRECT B d (of_nat ((r * 8 + hw_c) * 4)) s
      in (mat_upd m r c (bswap32 raw), s)) (m, s)"
  from Suc obtain s' where IH: "for_range 0 n ?row (m, s) =
    ((\<lambda>r c. if r < n \<and> c < 8
        then bswap32 (peek (hw s) (word_addr d (r * 8 + (c XOR 1)))) else m r c), s')"
    (is "_ = (?m, s')")
    and k: "\<forall>a\<in>win. peek (hw s') a = peek (hw s) a" "cpu_status s' = cpu_status s"
      "console s' = console s" by auto
  have in_win: "\<forall>c<8. word_addr d (n * 8 + (c XOR 1)) \<in> win" using Suc.prems by simp
  from parse_row [OF in_win, of ?m s'] obtain s2 where
    row: "?row n (?m, s') = ((\<lambda>r' c. if r' = n \<and> c < 8
        then bswap32 (peek (hw s') (word_addr d (n * 8 + (c XOR 1)))) else ?m r' c), s2)"
    and k2: "\<forall>a\<in>win. peek (hw s2) a = peek (hw s') a" "cpu_status s2 = cpu_status s'"
      "console s2 = console s'" by auto
  have "for_range 0 (Suc n) ?row (m, s) = ?row n (for_range 0 n ?row (m, s))"
    by (rule for_range_Suc) simp
  also have "\<dots> = ((\<lambda>r c. if r < Suc n \<and> c < 8
        then bswap32 (peek (hw s) (word_addr d (r * 8 + (c XOR 1)))) else m r c), s2)"
    unfolding IH row using in_win k(1) by (auto simp: fun_eq_iff less_Suc_eq)
  finally show ?case using k k2 by (intro exI [of _ s2]) simp
qed

end

lemma xor_1_less: "c < 8 \<Longrightarrow> (c::nat) XOR 1 < 8"
proof -
  assume "c < 8"
  then have "c = 0 \<or> c = 1 \<or> c = 2 \<or> c = 3 \<or> c = 4 \<or> c = 5 \<or> c = 6 \<or> c = 7"
    by linarith
  then show ?thesis by (elim disjE) simp_all
qed

context ram_window
begin

text \<open>The parser returns every word of the 64, bytes reversed and columns swapped in pairs.\<close>

lemma npu_parse_output_peek:
  assumes "\<forall>j<64. word_addr d j \<in> win"
  shows "fst (npu_parse_output B d m s) =
      (\<lambda>r c. if r < 8 \<and> c < 8
        then bswap32 (peek (hw s) (word_addr d (r * 8 + (c XOR 1)))) else m r c)"
    and "a \<in> win \<Longrightarrow> peek (hw (snd (npu_parse_output B d m s))) a = peek (hw s) a"
    and "cpu_status (snd (npu_parse_output B d m s)) = cpu_status s"
    and "console (snd (npu_parse_output B d m s)) = console s"
proof -
  have "\<forall>r<8. \<forall>c<8. word_addr d (r * 8 + (c XOR 1)) \<in> win"
  proof (intro allI impI)
    fix r c :: nat
    assume "r < 8" "c < 8"
    with xor_1_less [of c] have "r * 8 + (c XOR 1) < 64" by linarith
    with assms show "word_addr d (r * 8 + (c XOR 1)) \<in> win" by blast
  qed
  from parse_rows [OF this, of m s] show
    "fst (npu_parse_output B d m s) =
      (\<lambda>r c. if r < 8 \<and> c < 8
        then bswap32 (peek (hw s) (word_addr d (r * 8 + (c XOR 1)))) else m r c)"
    "a \<in> win \<Longrightarrow> peek (hw (snd (npu_parse_output B d m s))) a = peek (hw s) a"
    "cpu_status (snd (npu_parse_output B d m s)) = cpu_status s"
    "console (snd (npu_parse_output B d m s)) = console s"
    unfolding npu_parse_output_def by auto
qed

end

section \<open>The reference multiplication\<close>

text \<open>The number a cell stands for.\<close>

definition dot8 :: "mat8 \<Rightarrow> mat8 \<Rightarrow> nat \<Rightarrow> nat \<Rightarrow> int" where
  "dot8 A Bm i j = (\<Sum>k<8. sint (A i k) * sint (Bm k j))"

lemma dot_loop:
  "for_range 0 n (\<lambda>k sum. sum + scast (f k :: u8) * scast (g k :: u8)) 0 =
     (of_int (\<Sum>k<n. sint (f k) * sint (g k)) :: u32)"
  by (induction n) (simp_all add: for_range_Suc)

lemma sint_u8_bounds: "- 128 \<le> sint (x :: u8)" "sint (x :: u8) \<le> 127"
  using sint_ge [of x] sint_lt [of x] by simp_all

lemma u8_prod_bound: "\<bar>sint (x :: u8) * sint (y :: u8)\<bar> \<le> 16384"
proof -
  have "\<bar>sint x\<bar> \<le> 128" "\<bar>sint y\<bar> \<le> 128"
    using sint_u8_bounds [of x] sint_u8_bounds [of y] by simp_all
  then have "\<bar>sint x\<bar> * \<bar>sint y\<bar> \<le> 128 * 128" by (intro mult_mono) simp_all
  then show ?thesis by (simp add: abs_mult)
qed

lemma dot8_bound: "\<bar>dot8 A Bm i j\<bar> \<le> 131072"
proof -
  have "\<bar>dot8 A Bm i j\<bar> \<le> (\<Sum>k<8. \<bar>sint (A i k) * sint (Bm k j)\<bar>)"
    unfolding dot8_def by (rule sum_abs)
  also have "\<dots> \<le> (\<Sum>k<(8::nat). 16384)" by (intro sum_mono u8_prod_bound)
  finally show ?thesis by simp
qed

lemma sint_of_int_u32: "- (2 ^ 31) \<le> x \<Longrightarrow> x < 2 ^ 31 \<Longrightarrow> sint (of_int x :: u32) = x"
  by (simp add: sint_uint take_bit_int_eq_self_iff signed_take_bit_int_eq_self_iff
      signed_take_bit_take_bit unsigned_of_int)

lemma sint_of_dot8 [simp]: "sint (of_int (dot8 A Bm i j) :: u32) = dot8 A Bm i j"
  using dot8_bound [of A Bm i j] by (intro sint_of_int_u32) (simp_all add: abs_le_iff)

lemma mat_upd_row:
  "for_range 0 n (\<lambda>j C. mat_upd C i j (f j)) C =
     (\<lambda>i' j. if i' = i \<and> j < n then f j else C i' j)"
  by (induction n) (auto simp: for_range_Suc mat_upd_def fun_eq_iff)

lemma mat_upd_grid:
  "for_range 0 m (\<lambda>i C. for_range 0 n (\<lambda>j C. mat_upd C i j (f i j)) C) C =
     (\<lambda>i j. if i < m \<and> j < n then f i j else C i j)"
  by (induction m) (auto simp: for_range_Suc mat_upd_row fun_eq_iff)

lemma cpu_matmul_8x8_eq:
  "cpu_matmul_8x8 A Bm C = (\<lambda>i j. if i < 8 \<and> j < 8 then of_int (dot8 A Bm i j) else C i j)"
  unfolding cpu_matmul_8x8_def Let_def dot_loop dot8_def by (rule mat_upd_grid)

section \<open>Properties\<close>

lemma byte_of_row:
  assumes "c < 8"
  shows "byte_of (c mod 4) (line_word f (c div 4)) = f c"
proof -
  from assms have "c = 0 \<or> c = 1 \<or> c = 2 \<or> c = 3 \<or> c = 4 \<or> c = 5 \<or> c = 6 \<or> c = 7"
    by linarith
  then show ?thesis by (elim disjE) (simp_all add: line_word_def row_defs)
qed

lemma line_index [simp]: "(c::nat) < 8 \<Longrightarrow> c div 4 div 2 = 0" "(c::nat) < 8 \<Longrightarrow> c div 4 mod 2 = c div 4"
  by auto

text \<open>After npu_format_inputs, byte c of line r of the DMA buffer (little endian in its
  two words) is the matrix element in row r and column c.\<close>

theorem npu_format_inputs_bytes:
  assumes "\<forall>j<16. word_addr d j \<in> win" and "r < 8" and "c < 8"
  shows "byte_of (c mod 4)
      (mem_peek (hw (npu_format_inputs (trace_bus (mem_resp win dev)) d m s))
        (word_addr d (2 * r + c div 4))) = m r c"
proof -
  have "2 * r + c div 4 < 16" using assms(2,3) by auto
  with assms(1) show ?thesis
    unfolding npu_format_inputs_words
    by (subst mem.store_words_at) (simp_all add: assms(3) byte_of_row)
qed

theorem npu_format_inputs_bytes_witness:
  "byte_of (5 mod 4)
      (mem_peek (hw (npu_format_inputs (trace_bus (mem_resp UNIV (\<lambda>_ _. 0))) 0x88001000
          (\<lambda>r c. of_nat (8 * r + c)) (reset_machine [])))
        (word_addr 0x88001000 (2 * 3 + 5 div 4))) = of_nat (8 * 3 + 5)"
  by (rule npu_format_inputs_bytes) simp_all

text \<open>After npu_format_weights, byte r of line t of the DMA buffer is the matrix element in
  row r and column 7 - t: the columns are sent last first.\<close>

theorem npu_format_weights_bytes:
  assumes "\<forall>j<16. word_addr d j \<in> win" and "t < 8" and "r < 8"
  shows "byte_of (r mod 4)
      (mem_peek (hw (npu_format_weights (trace_bus (mem_resp win dev)) d m s))
        (word_addr d (2 * t + r div 4))) = m r (7 - t)"
proof -
  have "2 * t + r div 4 < 16" using assms(2,3) by auto
  with assms(1) show ?thesis
    unfolding npu_format_weights_words
    by (subst mem.store_words_at) (simp_all add: assms(3) byte_of_row)
qed

theorem npu_format_weights_bytes_witness:
  "byte_of (2 mod 4)
      (mem_peek (hw (npu_format_weights (trace_bus (mem_resp UNIV (\<lambda>_ _. 0))) 0x88000000
          (\<lambda>r c. of_nat (8 * r + c)) (reset_machine [])))
        (word_addr 0x88000000 (2 * 1 + 2 div 4))) = of_nat (8 * 2 + (7 - 1))"
  by (rule npu_format_weights_bytes) simp_all

text \<open>C18: npu_parse_output undoes what the 64-bit stream-to-memory bridge does to a result
  matrix (the two columns of a beat swapped, the bytes of each reversed) and leaves the memory
  and the cells outside the 8 x 8 range as they were.\<close>

theorem npu_parse_output_bridge:
  assumes "\<forall>j<64. word_addr src j \<in> win"
    and "\<forall>r<8. \<forall>c<8. mem_peek (hw s) (word_addr src (r * 8 + c)) = bswap32 (Y r (c XOR 1))"
  shows "fst (npu_parse_output (trace_bus (mem_resp win dev)) src m s) =
      (\<lambda>r c. if r < 8 \<and> c < 8 then Y r c else m r c) \<and>
    (\<forall>a\<in>win. mem_peek (hw (snd (npu_parse_output (trace_bus (mem_resp win dev)) src m s))) a =
      mem_peek (hw s) a)"
proof
  have "bswap32 (mem_peek (hw s) (word_addr src (r * 8 + (c XOR 1)))) = Y r c"
    if "r < 8" "c < 8" for r c
    using assms(2) that xor_1_less [of c] by (simp add: xor.assoc)
  then show "fst (npu_parse_output (trace_bus (mem_resp win dev)) src m s) =
      (\<lambda>r c. if r < 8 \<and> c < 8 then Y r c else m r c)"
    unfolding mem.npu_parse_output_peek(1) [OF assms(1)] by (auto simp: fun_eq_iff)
  show "\<forall>a\<in>win. mem_peek (hw (snd (npu_parse_output (trace_bus (mem_resp win dev)) src m s))) a =
      mem_peek (hw s) a"
    using mem.npu_parse_output_peek(2) [OF assms(1)] by blast
qed

lemma mem_peek_empty [simp]: "mem_peek [] a = 0"
  by (simp add: mem_peek_def)

theorem npu_parse_output_bridge_witness:
  "fst (npu_parse_output (trace_bus (mem_resp UNIV (\<lambda>_ _. 0))) 0x88002000 (\<lambda>_ _. 7)
      (reset_machine [])) = (\<lambda>r c. if r < 8 \<and> c < 8 then 0 else 7)"
  using npu_parse_output_bridge 
    [where src = "0x88002000" and win = UNIV and s = "reset_machine []" and Y = "\<lambda>_ _. 0"
      and dev = "\<lambda>_ _. 0" and m = "\<lambda>_ _. 7"]
  by (simp add: reset_machine_def bswap32_def pack4_def byte_of_def)

text \<open>C27: The reference multiplication computes the exact matrix product of the signed bytes:
  neither the result nor a partial sum leaves the int32 range.\<close>

theorem cpu_matmul_8x8_exact:
  assumes "i < 8" and "j < 8"
  shows "sint (cpu_matmul_8x8 A Bm C i j) = (\<Sum>k<8. sint (A i k) * sint (Bm k j)) \<and>
    (\<forall>n\<le>8. \<bar>\<Sum>k<n. sint (A i k) * sint (Bm k j)\<bar> \<le> 131072)"
proof
  show "sint (cpu_matmul_8x8 A Bm C i j) = (\<Sum>k<8. sint (A i k) * sint (Bm k j))"
    using assms by (simp add: cpu_matmul_8x8_eq flip: dot8_def)
  show "\<forall>n\<le>8. \<bar>\<Sum>k<n. sint (A i k) * sint (Bm k j)\<bar> \<le> 131072"
  proof (intro allI impI)
    fix n :: nat
    assume "n \<le> 8"
    have "\<bar>\<Sum>k<n. sint (A i k) * sint (Bm k j)\<bar> \<le>
        (\<Sum>k<n. \<bar>sint (A i k) * sint (Bm k j)\<bar>)" by (rule sum_abs)
    also have "\<dots> \<le> (\<Sum>k<n. 16384)" by (intro sum_mono u8_prod_bound)
    also have "\<dots> \<le> 131072" using \<open>n \<le> 8\<close> by simp
    finally show "\<bar>\<Sum>k<n. sint (A i k) * sint (Bm k j)\<bar> \<le> 131072" .
  qed
qed

theorem cpu_matmul_8x8_exact_witness:
  "sint (cpu_matmul_8x8 (\<lambda>i k. of_nat (i + k)) (\<lambda>k j. - 1) (\<lambda>_ _. 0) 2 3) =
     (\<Sum>k<8. sint (of_nat (2 + k) :: u8) * sint (- 1 :: u8))"
  using cpu_matmul_8x8_exact [of 2 3 "\<lambda>i k. of_nat (i + k)" "\<lambda>k j. - 1" "\<lambda>_ _. 0"] by simp

end
