(* ===== verification/Npu_Driver.thy ===== *)
theory Npu_Driver
  imports Npu_Format
begin

text \<open>
  The drivers of the application: \<open>software/npu/common.c\<close> (polled console, cycle counter,
  MSGDMA register writes) and the NPU control functions of \<open>software/npu/main.c\<close>. A function
  that waits for the hardware has an optional result, \<open>None\<close> when it never returns.
\<close>

section \<open>Base addresses\<close>

text \<open>The macros of \<open>system.h\<close> and \<open>common.h\<close> as one record, so that the same code can be
  read with the base addresses of another platform.\<close>

record board =
  NPU_CTRL_BASE :: u32
  DDR_READ_ST_CSR_BASE :: u32
  DDR_READ_ST_DESCRIPTOR_SLAVE_BASE :: u32
  DDR_WRITE_ST_CSR_BASE :: u32
  DDR_WRITE_ST_DESCRIPTOR_SLAVE_BASE :: u32
  DDR3_WINDOW_BASE :: u32

definition JTAG_UART_BASE :: u32 where "JTAG_UART_BASE = 0x70000"
definition TIMER_0_BASE :: u32 where "TIMER_0_BASE = 0x60"
definition ADDRESS_SPAN_EXTENDER_0_CNTL_BASE :: u32 where
  "ADDRESS_SPAN_EXTENDER_0_CNTL_BASE = 0x80"
definition ADDRESS_SPAN_EXTENDER_0_WINDOWED_SLAVE_BASE :: u32 where
  "ADDRESS_SPAN_EXTENDER_0_WINDOWED_SLAVE_BASE = 0x8000000"
definition CACHE_BYPASS_MASK :: u32 where "CACHE_BYPASS_MASK = 0x80000000"

definition nios_board :: board where
  "nios_board = \<lparr>NPU_CTRL_BASE = 0x30000, DDR_READ_ST_CSR_BASE = 0x31000,
     DDR_READ_ST_DESCRIPTOR_SLAVE_BASE = 0x31040, DDR_WRITE_ST_CSR_BASE = 0x31020,
     DDR_WRITE_ST_DESCRIPTOR_SLAVE_BASE = 0x31050,
     DDR3_WINDOW_BASE = ADDRESS_SPAN_EXTENDER_0_WINDOWED_SLAVE_BASE OR CACHE_BYPASS_MASK\<rparr>"

definition REG_CTRL :: nat where "REG_CTRL = 0"
definition REG_STATUS :: nat where "REG_STATUS = 1"
definition REG_SEQ_ROWS :: nat where "REG_SEQ_ROWS = 6"
definition REG_LATCH :: nat where "REG_LATCH = 7"
definition REG_PE_CTRL :: nat where "REG_PE_CTRL = 8"
definition REG_PE_X_IN :: nat where "REG_PE_X_IN = 9"
definition REG_PE_Y_IN :: nat where "REG_PE_Y_IN = 10"
definition REG_PE_Y_OUT :: nat where "REG_PE_Y_OUT = 11"

lemmas board_defs = nios_board_def CACHE_BYPASS_MASK_def
  ADDRESS_SPAN_EXTENDER_0_WINDOWED_SLAVE_BASE_def ADDRESS_SPAN_EXTENDER_0_CNTL_BASE_def
lemmas reg_defs = REG_CTRL_def REG_STATUS_def REG_SEQ_ROWS_def REG_LATCH_def REG_PE_CTRL_def
  REG_PE_X_IN_def REG_PE_Y_IN_def REG_PE_Y_OUT_def

section \<open>common.c: the console and the cycle counter\<close>

definition UART_RVALID_MSK :: u32 where "UART_RVALID_MSK = 0x8000"
definition UART_DATA_MSK :: u32 where "UART_DATA_MSK = 0xFF"

definition get_char_polled :: "'h bus \<Rightarrow> 'h machine \<Rightarrow> (u8 \<times> 'h machine) option" where
  "get_char_polled B s = do {
     (data, s) \<leftarrow> spin_while (IORD B JTAG_UART_BASE 0) (\<lambda>data. data AND UART_RVALID_MSK = 0) s;
     Some (ucast (data AND UART_DATA_MSK), s) }"

definition get_char_async :: "'h bus \<Rightarrow> 'h machine \<Rightarrow> u8 \<times> 'h machine" where
  "get_char_async B s =
     (let (data, s) = IORD B JTAG_UART_BASE 0 s
      in if data AND UART_RVALID_MSK \<noteq> 0 then (ucast (data AND UART_DATA_MSK), s) else (0, s))"

text \<open>
  \<open>alt_nticks()\<close> reads a counter that the timer interrupt increments at any time; \<open>nticks h\<close>
  is its value when the hardware is in state \<open>h\<close>. One pass of the \<open>do\<close> loop gives the tick
  counts before and after the snapshot and the snapshot.
\<close>

definition cycles_pass :: "'h bus \<Rightarrow> ('h \<Rightarrow> u32) \<Rightarrow> 'h machine \<Rightarrow> (u32 \<times> u32 \<times> u32) \<times> 'h machine" where
  "cycles_pass B nticks s =
     (let t1 = nticks (hw s);
          s = IOWR B TIMER_0_BASE 4 0 s;
          (low, s) = IORD B TIMER_0_BASE 4 s;
          (high, s) = IORD B TIMER_0_BASE 5 s;
          snap = push_bit 16 high OR low;
          t2 = nticks (hw s)
      in ((t1, snap, t2), s))"

definition get_total_cycles ::
  "'h bus \<Rightarrow> ('h \<Rightarrow> u32) \<Rightarrow> 'h machine \<Rightarrow> (u64 \<times> 'h machine) option" where
  "get_total_cycles B nticks s = do {
     ((t1, snap, t2), s) \<leftarrow> spin_while (cycles_pass B nticks) (\<lambda>(t1, snap, t2). t1 \<noteq> t2) s;
     let cycles = (ucast t1 * 50000 :: u64);
     let cycles = cycles + ucast (49999 - snap);
     Some (cycles, s) }"

section \<open>common.c: the MSGDMA registers\<close>

definition msgdma_init :: "'h bus \<Rightarrow> u32 \<Rightarrow> 'h machine \<Rightarrow> 'h machine" where
  "msgdma_init B csr_base s =
     (let s = IOWR_32DIRECT B csr_base 0x00 0xFFFFFFFF s
      in IOWR_32DIRECT B csr_base 0x04 0x00000000 s)"

definition msgdma_read_stream_push ::
  "'h bus \<Rightarrow> u32 \<Rightarrow> u32 \<Rightarrow> u32 \<Rightarrow> 'h machine \<Rightarrow> 'h machine" where
  "msgdma_read_stream_push B descriptor_base src_addr len s =
     (let s = IOWR_32DIRECT B descriptor_base 0x00 src_addr s;
          s = IOWR_32DIRECT B descriptor_base 0x04 0x00000000 s;
          s = IOWR_32DIRECT B descriptor_base 0x08 len s
      in IOWR_32DIRECT B descriptor_base 0x0C 0x80000300 s)"

definition msgdma_write_stream_push ::
  "'h bus \<Rightarrow> u32 \<Rightarrow> u32 \<Rightarrow> u32 \<Rightarrow> 'h machine \<Rightarrow> 'h machine" where
  "msgdma_write_stream_push B descriptor_base dst_addr len s =
     (let s = IOWR_32DIRECT B descriptor_base 0x00 0x00000000 s;
          s = IOWR_32DIRECT B descriptor_base 0x04 dst_addr s;
          s = IOWR_32DIRECT B descriptor_base 0x08 len s
      in IOWR_32DIRECT B descriptor_base 0x0C 0x80001000 s)"

section \<open>main.c: NPU control\<close>

text \<open>\<open>while ((IORD_32DIRECT(csr, 0) & 0x01) != 0);\<close> and the same on the NPU status.\<close>

definition poll_dma_idle :: "'h bus \<Rightarrow> u32 \<Rightarrow> 'h machine \<Rightarrow> 'h machine option" where
  "poll_dma_idle B csr_base s =
     map_option snd (spin_while (IORD_32DIRECT B csr_base 0) (\<lambda>v. v AND 0x01 \<noteq> 0) s)"

definition poll_npu_idle :: "'h bus \<Rightarrow> board \<Rightarrow> 'h machine \<Rightarrow> 'h machine option" where
  "poll_npu_idle B bd s =
     map_option snd (spin_while (IORD B (NPU_CTRL_BASE bd) REG_STATUS) (\<lambda>v. v AND 0x01 \<noteq> 0) s)"

definition npu_load_weights ::
  "'h bus \<Rightarrow> board \<Rightarrow> u32 \<Rightarrow> nat \<Rightarrow> 'h machine \<Rightarrow> 'h machine option" where
  "npu_load_weights B bd weights_addr num_matrices s = do {
     let s = IOWR B (NPU_CTRL_BASE bd) REG_CTRL 0x00000003 s;
     let s = msgdma_read_stream_push B (DDR_READ_ST_DESCRIPTOR_SLAVE_BASE bd) weights_addr
               (of_nat (NPU_MAT_BYTES * num_matrices)) s;
     s \<leftarrow> poll_dma_idle B (DDR_READ_ST_CSR_BASE bd) s;
     s \<leftarrow> poll_npu_idle B bd s;
     let s = IOWR B (NPU_CTRL_BASE bd) REG_LATCH 1 s;
     Some (IOWR B (NPU_CTRL_BASE bd) REG_LATCH 0 s) }"

definition npu_get_matrix :: "'h bus \<Rightarrow> board \<Rightarrow> u32 \<Rightarrow> nat \<Rightarrow> 'h machine \<Rightarrow> 'h machine" where
  "npu_get_matrix B bd dst_addr num_matrices s =
     msgdma_write_stream_push B (DDR_WRITE_ST_DESCRIPTOR_SLAVE_BASE bd) dst_addr
       (of_nat (NPU_OUT_BYTES * num_matrices)) s"

definition npu_load_matrix :: "'h bus \<Rightarrow> board \<Rightarrow> u32 \<Rightarrow> nat \<Rightarrow> 'h machine \<Rightarrow> 'h machine" where
  "npu_load_matrix B bd inputs_addr num_matrices s =
     (let s = IOWR B (NPU_CTRL_BASE bd) REG_CTRL 0x00000001 s
      in msgdma_read_stream_push B (DDR_READ_ST_DESCRIPTOR_SLAVE_BASE bd) inputs_addr
           (of_nat (NPU_MAT_BYTES * num_matrices)) s)"

definition npu_wait_execution :: "'h bus \<Rightarrow> board \<Rightarrow> 'h machine \<Rightarrow> 'h machine option" where
  "npu_wait_execution B bd s = do {
     s \<leftarrow> poll_dma_idle B (DDR_WRITE_ST_CSR_BASE bd) s;
     poll_npu_idle B bd s }"

section \<open>Polling\<close>

lemma poll_frame:
  assumes "map_option snd (spin_while (IORD B b r) c s) = Some s'"
  shows "cpu_status s' = cpu_status s \<and> console s' = console s"
proof -
  from assms obtain v where "spin_while (IORD B b r) c s = Some (v, s')" by auto
  from spin_while_inv [OF this, of "\<lambda>t. cpu_status t = cpu_status s \<and> console t = console s"]
  show ?thesis by simp
qed

lemma poll_npu_idle_frame:
  "poll_npu_idle B bd s = Some s' \<Longrightarrow> cpu_status s' = cpu_status s \<and> console s' = console s"
  unfolding poll_npu_idle_def by (rule poll_frame)

lemma IORD_as_32DIRECT: "IORD_32DIRECT B b 0 = IORD B b 0"
  by (simp add: fun_eq_iff IORD_32DIRECT_def IORD_def IO_CALC_ADDRESS_NATIVE_def)

lemma poll_dma_idle_frame:
  "poll_dma_idle B b s = Some s' \<Longrightarrow> cpu_status s' = cpu_status s \<and> console s' = console s"
  unfolding poll_dma_idle_def IORD_as_32DIRECT by (rule poll_frame)

text \<open>
  On arbitrary hardware a polling loop adds to the history busy reads and one idle read of its
  register; it returns exactly when the register is idle after finitely many busy reads.
\<close>

fun busy_reads :: "(access list \<Rightarrow> u32 \<Rightarrow> u32) \<Rightarrow> u32 \<Rightarrow> access list \<Rightarrow> nat \<Rightarrow> access list" where
  "busy_reads resp a h 0 = h"
| "busy_reads resp a h (Suc n) =
     (let h = busy_reads resp a h n in h @ [Rd a (resp h a)])"

definition polled :: "(access list \<Rightarrow> u32 \<Rightarrow> u32) \<Rightarrow> u32 \<Rightarrow> access list \<Rightarrow> access list \<Rightarrow> bool" where
  "polled resp a h h' \<longleftrightarrow>
     (\<exists>n. (\<forall>i<n. resp (busy_reads resp a h i) a AND 1 \<noteq> 0) \<and>
        resp (busy_reads resp a h n) a AND 1 = 0 \<and> h' = busy_reads resp a h (Suc n))"

lemma after_reads_trace:
  "after_reads (IORD (trace_bus resp) b r) n s =
     s\<lparr>hw := busy_reads resp (IO_CALC_ADDRESS_NATIVE b r) (hw s) n\<rparr>"
  by (induction n) (simp_all add: after_reads_Suc_back IORD_def Let_def)

lemma poll_trace:
  "map_option snd (spin_while (IORD (trace_bus resp) b r) (\<lambda>v. v AND 1 \<noteq> 0) s) = Some s' \<longleftrightarrow>
     (\<exists>h'. polled resp (IO_CALC_ADDRESS_NATIVE b r) (hw s) h' \<and> s' = s\<lparr>hw := h'\<rparr>)"
  unfolding polled_def
  by (auto simp: spin_while_iff after_reads_trace IORD_def Let_def)

lemma poll_dma_idle_trace:
  "poll_dma_idle (trace_bus resp) b s = Some s' \<longleftrightarrow>
     (\<exists>h'. polled resp b (hw s) h' \<and> s' = s\<lparr>hw := h'\<rparr>)"
  unfolding poll_dma_idle_def IORD_as_32DIRECT poll_trace
  by (simp add: IO_CALC_ADDRESS_NATIVE_def)

lemma poll_npu_idle_trace:
  "poll_npu_idle (trace_bus resp) bd s = Some s' \<longleftrightarrow>
     (\<exists>h'. polled resp (NPU_CTRL_BASE bd + 4) (hw s) h' \<and> s' = s\<lparr>hw := h'\<rparr>)"
  unfolding poll_npu_idle_def poll_trace
  by (simp add: IO_CALC_ADDRESS_NATIVE_def reg_defs)

lemma bind_poll_trace:
  "Option.bind (poll_dma_idle (trace_bus resp) b s) f = Some s' \<longleftrightarrow>
     (\<exists>h'. polled resp b (hw s) h' \<and> f (s\<lparr>hw := h'\<rparr>) = Some s')"
  "Option.bind (poll_npu_idle (trace_bus resp) bd s) f = Some s' \<longleftrightarrow>
     (\<exists>h'. polled resp (NPU_CTRL_BASE bd + 4) (hw s) h' \<and> f (s\<lparr>hw := h'\<rparr>) = Some s')"
  unfolding bind_eq_Some_conv poll_dma_idle_trace poll_npu_idle_trace by blast+

lemma polled_appends: "polled resp a h h' \<Longrightarrow> \<exists>t. h' = h @ t \<and> (\<forall>x\<in>set t. \<exists>v. x = Rd a v)"
proof -
  have "\<exists>t. busy_reads resp a h n = h @ t \<and> (\<forall>x\<in>set t. \<exists>v. x = Rd a v)" for n
    by (induction n) (auto simp: Let_def)
  then show "polled resp a h h' \<Longrightarrow> ?thesis" unfolding polled_def by blast
qed

text \<open>Busy forever is exactly not returning.\<close>

lemma polled_ex:
  "(\<exists>h'. polled resp a h h') \<longleftrightarrow> (\<exists>n. resp (busy_reads resp a h n) a AND 1 = 0)"
  unfolding polled_def
  using exists_least_iff [of "\<lambda>n. resp (busy_reads resp a h n) a AND 1 = 0"] by auto

section \<open>The accesses of the driver calls\<close>

definition push_trace :: "u32 \<Rightarrow> u32 \<Rightarrow> u32 \<Rightarrow> u32 \<Rightarrow> u32 \<Rightarrow> access list" where
  "push_trace base src dst len ctrl =
     [Wr32 base src, Wr32 (base + 4) dst, Wr32 (base + 8) len, Wr32 (base + 12) ctrl]"

lemma msgdma_trace [simp]:
  "msgdma_init (trace_bus resp) b s =
     s\<lparr>hw := hw s @ [Wr32 b 0xFFFFFFFF, Wr32 (b + 4) 0]\<rparr>"
  "msgdma_read_stream_push (trace_bus resp) b src len s =
     s\<lparr>hw := hw s @ push_trace b src 0 len 0x80000300\<rparr>"
  "msgdma_write_stream_push (trace_bus resp) b dst len s =
     s\<lparr>hw := hw s @ push_trace b 0 dst len 0x80001000\<rparr>"
  by (simp_all add: msgdma_init_def msgdma_read_stream_push_def msgdma_write_stream_push_def
      IOWR_32DIRECT_def Let_def push_trace_def)

lemma npu_control_trace:
  "npu_get_matrix (trace_bus resp) bd dst n s =
     s\<lparr>hw := hw s @ push_trace (DDR_WRITE_ST_DESCRIPTOR_SLAVE_BASE bd) 0 dst
       (of_nat (256 * n)) 0x80001000\<rparr>"
  "npu_load_matrix (trace_bus resp) bd src n s =
     s\<lparr>hw := hw s @ Wr32 (NPU_CTRL_BASE bd) 1 #
       push_trace (DDR_READ_ST_DESCRIPTOR_SLAVE_BASE bd) src 0 (of_nat (64 * n)) 0x80000300\<rparr>"
  by (simp_all add: npu_get_matrix_def npu_load_matrix_def NPU_OUT_BYTES_def NPU_MAT_BYTES_def
      NPU_MAT_SIZE_def IOWR_def IO_CALC_ADDRESS_NATIVE_def reg_defs Let_def)

lemma npu_load_weights_alt:
  "npu_load_weights (trace_bus resp) bd w n s =
     Option.bind (poll_dma_idle (trace_bus resp) (DDR_READ_ST_CSR_BASE bd)
       (s\<lparr>hw := hw s @ Wr32 (NPU_CTRL_BASE bd) 3 #
         push_trace (DDR_READ_ST_DESCRIPTOR_SLAVE_BASE bd) w 0 (of_nat (64 * n)) 0x80000300\<rparr>))
     (\<lambda>s. Option.bind (poll_npu_idle (trace_bus resp) bd s)
       (\<lambda>s. Some (s\<lparr>hw := hw s @ [Wr32 (NPU_CTRL_BASE bd + 28) 1, Wr32 (NPU_CTRL_BASE bd + 28) 0]\<rparr>)))"
  by (simp add: npu_load_weights_def NPU_MAT_BYTES_def NPU_MAT_SIZE_def IOWR_def
      IO_CALC_ADDRESS_NATIVE_def reg_defs Let_def)

section \<open>Properties\<close>

text \<open>C17: On arbitrary hardware npu_load_weights returns exactly when the read DMA and then the
  NPU report idle after finitely many polls, and then its accesses are, in this order: the
  weight mode, the four descriptor words (GO last) for 64 bytes per matrix, the busy polls of
  the DMA, the busy polls of the NPU, and one pulse on the latch register.\<close>

theorem npu_load_weights_accesses:
  "npu_load_weights (trace_bus resp) bd w n s = Some s' \<longleftrightarrow>
     (\<exists>h1 h2. polled resp (DDR_READ_ST_CSR_BASE bd)
          (hw s @ Wr32 (NPU_CTRL_BASE bd) 3 #
            push_trace (DDR_READ_ST_DESCRIPTOR_SLAVE_BASE bd) w 0 (of_nat (64 * n)) 0x80000300) h1 \<and>
        polled resp (NPU_CTRL_BASE bd + 4) h1 h2 \<and>
        s' = s\<lparr>hw := h2 @ [Wr32 (NPU_CTRL_BASE bd + 28) 1, Wr32 (NPU_CTRL_BASE bd + 28) 0]\<rparr>)"
  unfolding npu_load_weights_alt bind_poll_trace by (simp add: eq_commute)

text \<open>npu_wait_execution reads nothing but the write DMA's status until it is idle, then
  nothing but the NPU's status until that is idle, writes nothing, and never returns if one of
  them stays busy.\<close>

theorem npu_wait_execution_accesses:
  "npu_wait_execution (trace_bus resp) bd s = Some s' \<longleftrightarrow>
     (\<exists>h1 h2. polled resp (DDR_WRITE_ST_CSR_BASE bd) (hw s) h1 \<and>
        polled resp (NPU_CTRL_BASE bd + 4) h1 h2 \<and> s' = s\<lparr>hw := h2\<rparr>)"
  unfolding npu_wait_execution_def bind_poll_trace poll_npu_idle_trace by simp

text \<open>The cycle count that get_total_cycles returns belongs to one instant: the tick count
  was the same before and after the timer snapshot it uses, and with a snapshot within the
  timer's period of 50000 the 64-bit result is exact, without wrap-around.\<close>

theorem get_total_cycles_coherent:
  assumes "get_total_cycles B nticks s = Some (c, s')"
  shows "\<exists>s0 snap. cycles_pass B nticks s0 = ((nticks (hw s0), snap, nticks (hw s')), s') \<and>
    nticks (hw s') = nticks (hw s0) \<and>
    (snap \<le> 49999 \<longrightarrow> unat c = unat (nticks (hw s0)) * 50000 + (49999 - unat snap))"
proof -
  from assms obtain t1 snap t2 where
    loop: "spin_while (cycles_pass B nticks) (\<lambda>(t1, snap, t2). t1 \<noteq> t2) s = Some ((t1, snap, t2), s')"
    and c: "c = ucast t1 * 50000 + ucast (49999 - snap)"
    by (auto simp: get_total_cycles_def bind_eq_Some_conv Let_def)
  from loop obtain s0 where pass: "cycles_pass B nticks s0 = ((t1, snap, t2), s')" and "t1 = t2"
    by (auto simp: spin_while_iff) (metis (mono_tags, lifting) case_prod_conv fst_conv)
  from pass have t: "t1 = nticks (hw s0)" "t2 = nticks (hw s')"
    by (auto simp: cycles_pass_def Let_def split: prod.splits)
  have "unat c = unat t1 * 50000 + (49999 - unat snap)" if "snap \<le> 49999"
  proof -
    have d: "unat (49999 - snap) = 49999 - unat snap" using that by (simp add: unat_sub)
    have t1: "unat t1 < 2 ^ 32" using unsigned_less [of t1] by simp
    have "unat (ucast t1 * 50000 :: u64) = unat t1 * 50000"
      using t1 by (simp add: unat_word_ariths)
    moreover have "unat (ucast (49999 - snap) :: u64) = 49999 - unat snap"
      using d by simp
    ultimately show ?thesis using t1 by (simp add: c unat_word_ariths)
  qed
  with pass t \<open>t1 = t2\<close> show ?thesis by metis
qed

theorem get_total_cycles_coherent_witness:
  "\<exists>s0 snap. cycles_pass (trace_bus (\<lambda>_ a. if a = 0x70 then 9999 else 0)) (\<lambda>_. 3) s0 =
      ((3, snap, 3), reset_machine [Wr32 0x70 0, Rd 0x70 9999, Rd 0x74 0]) \<and>
    (snap \<le> 49999 \<longrightarrow> unat (190000 :: u64) = 150000 + (49999 - unat snap))"
proof -
  have "get_total_cycles (trace_bus (\<lambda>_ a. if a = 0x70 then 9999 else 0)) (\<lambda>_. 3)
      (reset_machine []) =
    Some (190000, reset_machine [Wr32 0x70 0, Rd 0x70 9999, Rd 0x74 0])"
    unfolding get_total_cycles_def
    by (subst spin_while.simps)
      (simp add: cycles_pass_def Let_def IORD_def IOWR_def IO_CALC_ADDRESS_NATIVE_def
        TIMER_0_BASE_def reset_machine_def)
  from get_total_cycles_coherent [OF this] show ?thesis by (auto simp: reset_machine_def)
qed

text \<open>The first read of register \<open>a\<close> whose value is acceptable, after history \<open>h\<close>.\<close>

definition first_read ::
  "(u32 \<Rightarrow> bool) \<Rightarrow> (access list \<Rightarrow> u32 \<Rightarrow> u32) \<Rightarrow> u32 \<Rightarrow> access list \<Rightarrow> u32 \<Rightarrow> access list \<Rightarrow> bool"
where
  "first_read ok resp a h v h' \<longleftrightarrow>
     (\<exists>n. (\<forall>i<n. \<not> ok (resp (busy_reads resp a h i) a)) \<and>
        v = resp (busy_reads resp a h n) a \<and> ok v \<and> h' = busy_reads resp a h (Suc n))"

text \<open>get_char_polled returns exactly when the JTAG UART has data after finitely many
  empty reads; it returns the data byte of the first valid read and takes no other.\<close>

theorem get_char_polled_first:
  "get_char_polled (trace_bus resp) s = Some (ch, s') \<longleftrightarrow>
     (\<exists>v h'. first_read (\<lambda>v. v AND 0x8000 \<noteq> 0) resp 0x70000 (hw s) v h' \<and>
        ch = byte_of 0 v \<and> s' = s\<lparr>hw := h'\<rparr>)"
proof -
  show ?thesis
    unfolding get_char_polled_def bind_eq_Some_conv spin_while_iff first_read_def
    by (auto simp: after_reads_trace IORD_def IO_CALC_ADDRESS_NATIVE_def JTAG_UART_BASE_def
        UART_RVALID_MSK_def UART_DATA_MSK_def byte_of_def Let_def)
qed

end
