(* ===== verification/Msgdma.thy ===== *)
theory Msgdma
  imports Soc_Bus
begin

text \<open>
  The mSGDMA dispatcher driver, \<open>npu_bsp/drivers/src/altera_msgdma.c\<close> without its prefetcher
  part: descriptor construction, descriptor writes, the interrupt handler, and the blocking and
  non-blocking transfers. A pointer parameter that may be \<open>NULL\<close> is an option; an \<open>int\<close> status
  is an integer, \<open>0\<close> or \<open>- errno\<close>. In the single-threaded HAL the semaphore macros are empty.
\<close>

section \<open>Data\<close>

text \<open>The members of \<open>alt_msgdma_dev\<close> the driver reads. A callback gets its context and runs
  on the machine.\<close>

record 'h msgdma_dev =
  csr_base :: u32
  descriptor_base :: u32
  prefetcher_base :: u32
  descriptor_fifo_depth :: u32
  callback :: "(u32 \<Rightarrow> 'h machine \<Rightarrow> 'h machine) option"
  callback_context :: u32
  dev_control :: u32
  max_byte :: u32
  max_stride :: u64
  enhanced_features :: u8
  prefetcher_enable :: u8

record std_descriptor =
  read_address :: u32
  write_address :: u32
  transfer_length :: u32
  desc_control :: u32

record ext_descriptor =
  read_address_low :: u32
  write_address_low :: u32
  ext_transfer_length :: u32
  sequence_number :: u16
  read_burst_count :: u8
  write_burst_count :: u8
  read_stride :: u16
  write_stride :: u16
  read_address_high :: u32
  write_address_high :: u32
  ext_control :: u32

section \<open>Registers\<close>

definition CSR_BUSY_MASK :: u32 where "CSR_BUSY_MASK = 0x1"
definition CSR_DESCRIPTOR_BUFFER_FULL_MASK :: u32 where "CSR_DESCRIPTOR_BUFFER_FULL_MASK = 0x4"
definition CSR_STOP_STATE_MASK :: u32 where "CSR_STOP_STATE_MASK = 0x20"
definition CSR_RESET_STATE_MASK :: u32 where "CSR_RESET_STATE_MASK = 0x40"
definition CSR_STOPPED_ON_ERROR_MASK :: u32 where "CSR_STOPPED_ON_ERROR_MASK = 0x80"
definition CSR_STOPPED_ON_EARLY_TERMINATION_MASK :: u32 where
  "CSR_STOPPED_ON_EARLY_TERMINATION_MASK = 0x100"
definition CSR_IRQ_SET_MASK :: u32 where "CSR_IRQ_SET_MASK = 0x200"
definition CSR_RESET_MASK :: u32 where "CSR_RESET_MASK = 0x2"
definition CSR_STOP_ON_ERROR_MASK :: u32 where "CSR_STOP_ON_ERROR_MASK = 0x4"
definition CSR_GLOBAL_INTERRUPT_MASK :: u32 where "CSR_GLOBAL_INTERRUPT_MASK = 0x10"
definition CSR_STOP_DESCRIPTORS_MASK :: u32 where "CSR_STOP_DESCRIPTORS_MASK = 0x20"
definition DESCRIPTOR_CONTROL_GO_MASK :: u32 where "DESCRIPTOR_CONTROL_GO_MASK = 0x80000000"
definition PREFETCHER_CTRL_GLOBAL_INTR_EN_SET_MASK :: u32 where
  "PREFETCHER_CTRL_GLOBAL_INTR_EN_SET_MASK = 0x8"
definition PREFETCHER_CTRL_GLOBAL_INTR_EN_CLR_MASK :: u32 where
  "PREFETCHER_CTRL_GLOBAL_INTR_EN_CLR_MASK = 0xFFFFFFF7"
definition PREFETCHER_STATUS_IRQ_SET_MASK :: u32 where "PREFETCHER_STATUS_IRQ_SET_MASK = 0x1"

lemmas csr_masks = CSR_BUSY_MASK_def CSR_DESCRIPTOR_BUFFER_FULL_MASK_def CSR_STOP_STATE_MASK_def
  CSR_RESET_STATE_MASK_def CSR_STOPPED_ON_ERROR_MASK_def
  CSR_STOPPED_ON_EARLY_TERMINATION_MASK_def CSR_IRQ_SET_MASK_def CSR_RESET_MASK_def
  CSR_STOP_ON_ERROR_MASK_def CSR_GLOBAL_INTERRUPT_MASK_def CSR_STOP_DESCRIPTORS_MASK_def
  DESCRIPTOR_CONTROL_GO_MASK_def PREFETCHER_CTRL_GLOBAL_INTR_EN_SET_MASK_def
  PREFETCHER_CTRL_GLOBAL_INTR_EN_CLR_MASK_def PREFETCHER_STATUS_IRQ_SET_MASK_def

abbreviation IORD_CSR_STATUS :: "'h bus \<Rightarrow> u32 \<Rightarrow> 'h machine \<Rightarrow> u32 \<times> 'h machine" where
  "IORD_CSR_STATUS B csr \<equiv> IORD_32DIRECT B csr 0x0"
abbreviation IOWR_CSR_STATUS :: "'h bus \<Rightarrow> u32 \<Rightarrow> u32 \<Rightarrow> 'h machine \<Rightarrow> 'h machine" where
  "IOWR_CSR_STATUS B csr \<equiv> IOWR_32DIRECT B csr 0x0"
abbreviation IORD_CSR_CONTROL :: "'h bus \<Rightarrow> u32 \<Rightarrow> 'h machine \<Rightarrow> u32 \<times> 'h machine" where
  "IORD_CSR_CONTROL B csr \<equiv> IORD_32DIRECT B csr 0x4"
abbreviation IOWR_CSR_CONTROL :: "'h bus \<Rightarrow> u32 \<Rightarrow> u32 \<Rightarrow> 'h machine \<Rightarrow> 'h machine" where
  "IOWR_CSR_CONTROL B csr \<equiv> IOWR_32DIRECT B csr 0x4"
abbreviation IORD_CSR_FILL_LEVEL :: "'h bus \<Rightarrow> u32 \<Rightarrow> 'h machine \<Rightarrow> u32 \<times> 'h machine" where
  "IORD_CSR_FILL_LEVEL B csr \<equiv> IORD_32DIRECT B csr 0x8"

section \<open>Writing a descriptor\<close>

definition alt_msgdma_write_standard_descriptor ::
  "'h bus \<Rightarrow> u32 \<Rightarrow> u32 \<Rightarrow> std_descriptor \<Rightarrow> 'h machine \<Rightarrow> int \<times> 'h machine" where
  "alt_msgdma_write_standard_descriptor B csr descr_base d s =
     (let (status, s) = IORD_CSR_STATUS B csr s
      in if status AND CSR_DESCRIPTOR_BUFFER_FULL_MASK \<noteq> 0 then (- ENOSPC, s)
         else let s = IOWR_32DIRECT B descr_base 0x0 (read_address d) s;
                  s = IOWR_32DIRECT B descr_base 0x4 (write_address d) s;
                  s = IOWR_32DIRECT B descr_base 0x8 (transfer_length d) s;
                  s = IOWR_32DIRECT B descr_base 0xC (desc_control d) s
              in (0, s))"

definition alt_msgdma_write_extended_descriptor ::
  "'h bus \<Rightarrow> u32 \<Rightarrow> u32 \<Rightarrow> ext_descriptor \<Rightarrow> 'h machine \<Rightarrow> int \<times> 'h machine" where
  "alt_msgdma_write_extended_descriptor B csr descr_base d s =
     (let (status, s) = IORD_CSR_STATUS B csr s
      in if status AND CSR_DESCRIPTOR_BUFFER_FULL_MASK \<noteq> 0 then (- ENOSPC, s)
         else let s = IOWR_32DIRECT B descr_base 0x0 (read_address_low d) s;
                  s = IOWR_32DIRECT B descr_base 0x4 (write_address_low d) s;
                  s = IOWR_32DIRECT B descr_base 0x8 (ext_transfer_length d) s;
                  s = IOWR_16DIRECT B descr_base 0xC (sequence_number d) s;
                  s = IOWR_8DIRECT B descr_base 0xE (read_burst_count d) s;
                  s = IOWR_8DIRECT B descr_base 0xF (write_burst_count d) s;
                  s = IOWR_16DIRECT B descr_base 0x10 (read_stride d) s;
                  s = IOWR_16DIRECT B descr_base 0x12 (write_stride d) s;
                  s = IOWR_32DIRECT B descr_base 0x14 0 s;
                  s = IOWR_32DIRECT B descr_base 0x18 0 s;
                  s = IOWR_32DIRECT B descr_base 0x1C (ext_control d) s
              in (0, s))"

section \<open>The interrupt handler\<close>

abbreviation IORD_PREFETCHER_CONTROL :: "'h bus \<Rightarrow> u32 \<Rightarrow> 'h machine \<Rightarrow> u32 \<times> 'h machine" where
  "IORD_PREFETCHER_CONTROL B base \<equiv> IORD_32DIRECT B base 0x0"
abbreviation IOWR_PREFETCHER_CONTROL :: "'h bus \<Rightarrow> u32 \<Rightarrow> u32 \<Rightarrow> 'h machine \<Rightarrow> 'h machine" where
  "IOWR_PREFETCHER_CONTROL B base \<equiv> IOWR_32DIRECT B base 0x0"
abbreviation IORD_PREFETCHER_STATUS :: "'h bus \<Rightarrow> u32 \<Rightarrow> 'h machine \<Rightarrow> u32 \<times> 'h machine" where
  "IORD_PREFETCHER_STATUS B base \<equiv> IORD_32DIRECT B base 0x10"
abbreviation IOWR_PREFETCHER_STATUS :: "'h bus \<Rightarrow> u32 \<Rightarrow> u32 \<Rightarrow> 'h machine \<Rightarrow> 'h machine" where
  "IOWR_PREFETCHER_STATUS B base \<equiv> IOWR_32DIRECT B base 0x10"

definition alt_msgdma_irq :: "'h bus \<Rightarrow> 'h msgdma_dev \<Rightarrow> 'h machine \<Rightarrow> 'h machine" where
  "alt_msgdma_irq B dev s =
     (let s =
        (if prefetcher_enable dev \<noteq> 0
         then let (v, s) = IORD_PREFETCHER_CONTROL B (prefetcher_base dev) s;
                  temporary_control = v AND PREFETCHER_CTRL_GLOBAL_INTR_EN_CLR_MASK;
                  s = IOWR_PREFETCHER_CONTROL B (prefetcher_base dev) temporary_control s
              in IOWR_PREFETCHER_STATUS B (prefetcher_base dev) PREFETCHER_STATUS_IRQ_SET_MASK s
         else let (v, s) = IORD_CSR_CONTROL B (csr_base dev) s;
                  temporary_control = v AND NOT CSR_GLOBAL_INTERRUPT_MASK;
                  s = IOWR_CSR_CONTROL B (csr_base dev) temporary_control s
              in IOWR_CSR_STATUS B (csr_base dev) CSR_IRQ_SET_MASK s);
      s =
        (case callback dev of
           Some f \<Rightarrow>
             (let (cpu_sr, s) = alt_irq_disable_all s;
                  s = f (callback_context dev) s
              in alt_irq_enable_all cpu_sr s)
         | None \<Rightarrow> s)
      in if prefetcher_enable dev \<noteq> 0
         then let (v, s) = IORD_PREFETCHER_CONTROL B (prefetcher_base dev) s
              in IOWR_PREFETCHER_CONTROL B (prefetcher_base dev)
                   (v OR PREFETCHER_CTRL_GLOBAL_INTR_EN_SET_MASK) s
         else let (v, s) = IORD_CSR_CONTROL B (csr_base dev) s
              in IOWR_CSR_CONTROL B (csr_base dev) (v OR CSR_GLOBAL_INTERRUPT_MASK) s)"

section \<open>Constructing descriptors\<close>

text \<open>The descriptor the pointer argument refers to is passed in and returned.\<close>

definition alt_msgdma_construct_standard_descriptor ::
  "'h msgdma_dev \<Rightarrow> std_descriptor \<Rightarrow> u32 \<Rightarrow> u32 \<Rightarrow> u32 \<Rightarrow> u32 \<Rightarrow> int \<times> std_descriptor" where
  "alt_msgdma_construct_standard_descriptor dev d rd_addr wr_addr len control =
     (if max_byte dev < len \<or> enhanced_features dev \<noteq> 0 then (- EINVAL, d)
      else (0, d\<lparr>read_address := rd_addr, write_address := wr_addr, transfer_length := len,
                 desc_control := control OR DESCRIPTOR_CONTROL_GO_MASK\<rparr>))"

definition alt_msgdma_construct_extended_descriptor ::
  "'h msgdma_dev \<Rightarrow> ext_descriptor \<Rightarrow> u32 \<Rightarrow> u32 \<Rightarrow> u32 \<Rightarrow> u32 \<Rightarrow> u16 \<Rightarrow> u8 \<Rightarrow> u8 \<Rightarrow> u16 \<Rightarrow> u16 \<Rightarrow>
     int \<times> ext_descriptor" where
  "alt_msgdma_construct_extended_descriptor dev d rd_addr wr_addr len control seqno rd_burst
     wr_burst rd_stride wr_stride =
     (if max_byte dev < len \<or> max_stride dev < ucast rd_stride \<or>
         max_stride dev < ucast wr_stride \<or> enhanced_features dev \<noteq> 1
      then (- EINVAL, d)
      else (0, d\<lparr>read_address_low := rd_addr, write_address_low := wr_addr,
                 ext_transfer_length := len, sequence_number := seqno,
                 read_burst_count := rd_burst, write_burst_count := wr_burst,
                 read_stride := rd_stride, write_stride := wr_stride,
                 read_address_high := 0, write_address_high := 0,
                 ext_control := control OR DESCRIPTOR_CONTROL_GO_MASK\<rparr>))"

definition alt_msgdma_construct_standard_st_to_mm_descriptor ::
  "'h msgdma_dev \<Rightarrow> std_descriptor \<Rightarrow> u32 \<Rightarrow> u32 \<Rightarrow> u32 \<Rightarrow> int \<times> std_descriptor" where
  "alt_msgdma_construct_standard_st_to_mm_descriptor dev d wr_addr len control =
     alt_msgdma_construct_standard_descriptor dev d 0 wr_addr len control"

definition alt_msgdma_construct_standard_mm_to_st_descriptor ::
  "'h msgdma_dev \<Rightarrow> std_descriptor \<Rightarrow> u32 \<Rightarrow> u32 \<Rightarrow> u32 \<Rightarrow> int \<times> std_descriptor" where
  "alt_msgdma_construct_standard_mm_to_st_descriptor dev d rd_addr len control =
     alt_msgdma_construct_standard_descriptor dev d rd_addr 0 len control"

definition alt_msgdma_construct_standard_mm_to_mm_descriptor ::
  "'h msgdma_dev \<Rightarrow> std_descriptor \<Rightarrow> u32 \<Rightarrow> u32 \<Rightarrow> u32 \<Rightarrow> u32 \<Rightarrow> int \<times> std_descriptor" where
  "alt_msgdma_construct_standard_mm_to_mm_descriptor dev d rd_addr wr_addr len control =
     alt_msgdma_construct_standard_descriptor dev d rd_addr wr_addr len control"

definition alt_msgdma_construct_extended_st_to_mm_descriptor ::
  "'h msgdma_dev \<Rightarrow> ext_descriptor \<Rightarrow> u32 \<Rightarrow> u32 \<Rightarrow> u32 \<Rightarrow> u16 \<Rightarrow> u8 \<Rightarrow> u16 \<Rightarrow> int \<times> ext_descriptor"
where
  "alt_msgdma_construct_extended_st_to_mm_descriptor dev d wr_addr len control seqno wr_burst
     wr_stride =
     alt_msgdma_construct_extended_descriptor dev d 0 wr_addr len control seqno 0 wr_burst 0
       wr_stride"

definition alt_msgdma_construct_extended_mm_to_st_descriptor ::
  "'h msgdma_dev \<Rightarrow> ext_descriptor \<Rightarrow> u32 \<Rightarrow> u32 \<Rightarrow> u32 \<Rightarrow> u16 \<Rightarrow> u8 \<Rightarrow> u16 \<Rightarrow> int \<times> ext_descriptor"
where
  "alt_msgdma_construct_extended_mm_to_st_descriptor dev d rd_addr len control seqno rd_burst
     rd_stride =
     alt_msgdma_construct_extended_descriptor dev d rd_addr 0 len control seqno rd_burst 0
       rd_stride 0"

definition alt_msgdma_construct_extended_mm_to_mm_descriptor ::
  "'h msgdma_dev \<Rightarrow> ext_descriptor \<Rightarrow> u32 \<Rightarrow> u32 \<Rightarrow> u32 \<Rightarrow> u32 \<Rightarrow> u16 \<Rightarrow> u8 \<Rightarrow> u8 \<Rightarrow> u16 \<Rightarrow> u16 \<Rightarrow>
     int \<times> ext_descriptor" where
  "alt_msgdma_construct_extended_mm_to_mm_descriptor dev d rd_addr wr_addr len control seqno
     rd_burst wr_burst rd_stride wr_stride =
     alt_msgdma_construct_extended_descriptor dev d rd_addr wr_addr len control seqno rd_burst
       wr_burst rd_stride wr_stride"

section \<open>Transfers\<close>

text \<open>
  The retry loop of both transfer functions, \<open>while (0 != write(...)) { alt_busy_sleep(1);
  if (5000 <= counter) ...; counter++; }\<close> with its 16-bit counter: \<open>True\<close> when a write
  succeeded, \<open>False\<close> when the loop gave up.
\<close>

function retry_write ::
  "'h bus \<Rightarrow> ('h machine \<Rightarrow> int \<times> 'h machine) \<Rightarrow> u16 \<Rightarrow> 'h machine \<Rightarrow> bool \<times> 'h machine" where
  "retry_write B wr counter s =
     (let (r, s) = wr s
      in if r = 0 then (True, s)
         else let s = alt_busy_sleep B 1 s
              in if 5000 \<le> counter then (False, s) else retry_write B wr (counter + 1) s)"
  by pat_completeness auto

lemma counter_decreases:
  "\<not> 5000 \<le> (c :: u16) \<Longrightarrow> unat (c + 1) = Suc (unat c) \<and> unat c < 5000"
  by (auto simp: word_le_nat_alt unat_word_ariths)

termination retry_write
  by (relation "measure (\<lambda>(B, wr, counter, s). 5000 - unat counter)")
    (auto dest!: counter_decreases)

declare retry_write.simps [simp del]

text \<open>The two fill levels, each from its own read of the register.\<close>

definition read_fill_levels :: "'h bus \<Rightarrow> 'h msgdma_dev \<Rightarrow> 'h machine \<Rightarrow> (u32 \<times> u32) \<times> 'h machine"
where
  "read_fill_levels B dev s =
     (let (v, s) = IORD_CSR_FILL_LEVEL B (csr_base dev) s;
          fifo_read_fill_level = v AND 0xFFFF;
          (v, s) = IORD_CSR_FILL_LEVEL B (csr_base dev) s;
          fifo_write_fill_level = drop_bit 16 (v AND 0xFFFF0000)
      in ((fifo_read_fill_level, fifo_write_fill_level), s))"

definition fifo_full :: "'h msgdma_dev \<Rightarrow> u32 \<times> u32 \<Rightarrow> bool" where
  "fifo_full dev lv \<longleftrightarrow> descriptor_fifo_depth dev \<le> snd lv \<or> descriptor_fifo_depth dev \<le> fst lv"

text \<open>Stop the dispatcher and clear its status.\<close>

definition stop_and_clear :: "'h bus \<Rightarrow> 'h msgdma_dev \<Rightarrow> u32 \<Rightarrow> 'h machine \<Rightarrow> 'h machine" where
  "stop_and_clear B dev control s =
     (let s = IOWR_CSR_CONTROL B (csr_base dev) control s;
          (status, s) = IORD_CSR_STATUS B (csr_base dev) s
      in IOWR_CSR_STATUS B (csr_base dev) status s)"

definition alt_msgdma_descriptor_async_transfer ::
  "'h bus \<Rightarrow> 'h msgdma_dev \<Rightarrow> std_descriptor option \<Rightarrow> ext_descriptor option \<Rightarrow> 'h machine \<Rightarrow>
     int \<times> 'h machine" where
  "alt_msgdma_descriptor_async_transfer B dev standard_desc extended_desc s =
     (let (lv, s) = read_fill_levels B dev s
      in if fifo_full dev lv then (- ENOSPC, s)
         else
           let control = CSR_STOP_DESCRIPTORS_MASK;
               (context, s) = alt_irq_disable_all s;
               s = stop_and_clear B dev control s;
               s = alt_irq_enable_all context s;
               start = (\<lambda>s.
                 case callback dev of
                   Some f \<Rightarrow>
                     (let control = control OR (dev_control dev OR CSR_STOP_ON_ERROR_MASK OR
                            CSR_GLOBAL_INTERRUPT_MASK);
                          control = control AND NOT CSR_STOP_DESCRIPTORS_MASK;
                          (context, s) = alt_irq_disable_all s;
                          s = IOWR_CSR_CONTROL B (csr_base dev) control s
                      in (0, alt_irq_enable_all context s))
                 | None \<Rightarrow>
                     (let control = control OR (dev_control dev OR CSR_STOP_ON_ERROR_MASK);
                          control = control AND (NOT CSR_STOP_DESCRIPTORS_MASK AND
                            NOT CSR_GLOBAL_INTERRUPT_MASK);
                          (context, s) = alt_irq_disable_all s;
                          s = IOWR_CSR_CONTROL B (csr_base dev) control s
                      in (0, alt_irq_enable_all context s)))
           in case (standard_desc, extended_desc) of
                (Some d, None) \<Rightarrow>
                  (case retry_write B
                     (alt_msgdma_write_standard_descriptor B (csr_base dev) (descriptor_base dev) d)
                     0 s of
                     (False, s) \<Rightarrow> (- ETIME,
                        printf ''time out after 5 msec while waiting free FIFO buffer for storing standard descriptor\<newline>'' [] s)
                   | (True, s) \<Rightarrow> start s)
              | (None, Some d) \<Rightarrow>
                  (case retry_write B
                     (alt_msgdma_write_extended_descriptor B (csr_base dev) (descriptor_base dev) d)
                     0 s of
                     (False, s) \<Rightarrow> (- ETIME,
                        printf ''time out after 5 msec while waiting free FIFO buffer for storing extended descriptor\<newline>'' [] s)
                   | (True, s) \<Rightarrow> start s)
              | _ \<Rightarrow> (- EPERM, s))"

text \<open>The first loop of the blocking transfer: wait for room in the descriptor FIFOs.\<close>

function wait_fifo_space ::
  "'h bus \<Rightarrow> 'h msgdma_dev \<Rightarrow> u32 \<times> u32 \<Rightarrow> u16 \<Rightarrow> 'h machine \<Rightarrow> bool \<times> 'h machine" where
  "wait_fifo_space B dev lv counter s =
     (if fifo_full dev lv
      then let s = alt_busy_sleep B 1 s
           in if 5000 \<le> counter then (False, s)
              else let (lv, s) = read_fill_levels B dev s
                   in wait_fifo_space B dev lv (counter + 1) s
      else (True, s))"
  by pat_completeness auto

termination wait_fifo_space
  by (relation "measure (\<lambda>(B, dev, lv, counter, s). 5000 - unat counter)")
    (auto dest!: counter_decreases)

declare wait_fifo_space.simps [simp del]

text \<open>The last loop: wait until the dispatcher is idle or has stopped on an error.\<close>

definition sync_error_mask :: u32 where
  "sync_error_mask = CSR_STOPPED_ON_ERROR_MASK OR CSR_STOPPED_ON_EARLY_TERMINATION_MASK OR
     CSR_STOP_STATE_MASK OR CSR_RESET_STATE_MASK"

function wait_complete ::
  "'h bus \<Rightarrow> 'h msgdma_dev \<Rightarrow> u32 \<Rightarrow> u16 \<Rightarrow> 'h machine \<Rightarrow> u32 option \<times> 'h machine" where
  "wait_complete B dev csr_status counter s =
     (if csr_status AND sync_error_mask = 0 \<and> csr_status AND CSR_BUSY_MASK \<noteq> 0
      then let s = alt_busy_sleep B 1 s
           in if 5000 \<le> counter then (None, s)
              else let (csr_status, s) = IORD_CSR_STATUS B (csr_base dev) s
                   in wait_complete B dev csr_status (counter + 1) s
      else (Some csr_status, s))"
  by pat_completeness auto

termination wait_complete
  by (relation "measure (\<lambda>(B, dev, st, counter, s). 5000 - unat counter)")
    (auto dest!: counter_decreases)

declare wait_complete.simps [simp del]

text \<open>The part of the blocking transfer after the descriptor is written: start the dispatcher,
  restore the interrupts, wait, and stop the dispatcher again.\<close>

definition sync_run :: "'h bus \<Rightarrow> 'h msgdma_dev \<Rightarrow> u32 \<Rightarrow> 'h machine \<Rightarrow> int \<times> 'h machine" where
  "sync_run B dev context s =
     (let s = IOWR_CSR_CONTROL B (csr_base dev)
                ((dev_control dev OR CSR_STOP_ON_ERROR_MASK) AND
                 NOT CSR_STOP_DESCRIPTORS_MASK AND NOT CSR_GLOBAL_INTERRUPT_MASK) s;
          s = alt_irq_enable_all context s;
          (csr_status, s) = IORD_CSR_STATUS B (csr_base dev) s
      in case wait_complete B dev csr_status 0 s of
           (None, s) \<Rightarrow> (- ETIME,
             printf ''time out after 5 msec while waiting for any pending transfer complete\<newline>'' [] s)
         | (Some csr_status, s) \<Rightarrow>
             if csr_status AND sync_error_mask \<noteq> 0 then (uint sync_error_mask, s)
             else let (v, s) = IORD_CSR_CONTROL B (csr_base dev) s;
                      control = v OR CSR_STOP_DESCRIPTORS_MASK;
                      (context, s) = alt_irq_disable_all s;
                      s = stop_and_clear B dev control s
                  in (0, alt_irq_enable_all context s))"

definition alt_msgdma_descriptor_sync_transfer ::
  "'h bus \<Rightarrow> 'h msgdma_dev \<Rightarrow> std_descriptor option \<Rightarrow> ext_descriptor option \<Rightarrow> 'h machine \<Rightarrow>
     int \<times> 'h machine" where
  "alt_msgdma_descriptor_sync_transfer B dev standard_desc extended_desc s =
     (let (lv, s) = read_fill_levels B dev s
      in case wait_fifo_space B dev lv 0 s of
           (False, s) \<Rightarrow> (- ETIME,
                        printf ''time out after 5 msec while waiting free FIFO buffer for storing descriptor\<newline>'' [] s)
         | (True, s) \<Rightarrow>
           let (context, s) = alt_irq_disable_all s;
               s = stop_and_clear B dev CSR_STOP_DESCRIPTORS_MASK s
           in case (standard_desc, extended_desc) of
                (Some d, None) \<Rightarrow>
                  (case retry_write B
                     (alt_msgdma_write_standard_descriptor B (csr_base dev) (descriptor_base dev) d)
                     0 s of
                     (False, s) \<Rightarrow> (- ETIME,
                        printf ''time out after 5 msec while writing standard descriptor to FIFO\<newline>'' [] s)
                   | (True, s) \<Rightarrow> sync_run B dev context s)
              | (None, Some d) \<Rightarrow>
                  (case retry_write B
                     (alt_msgdma_write_extended_descriptor B (csr_base dev) (descriptor_base dev) d)
                     0 s of
                     (False, s) \<Rightarrow> (- ETIME,
                        printf ''time out after 5 msec while writing extended descriptor to FIFO\<newline>'' [] s)
                   | (True, s) \<Rightarrow> sync_run B dev context s)
              | _ \<Rightarrow> (- EPERM, s))"

definition alt_msgdma_register_callback ::
  "'h msgdma_dev \<Rightarrow> (u32 \<Rightarrow> 'h machine \<Rightarrow> 'h machine) option \<Rightarrow> u32 \<Rightarrow> u32 \<Rightarrow> 'h msgdma_dev" where
  "alt_msgdma_register_callback dev f control context =
     dev\<lparr>callback := f, callback_context := context, dev_control := control\<rparr>"

definition alt_msgdma_standard_descriptor_async_transfer ::
  "'h bus \<Rightarrow> 'h msgdma_dev \<Rightarrow> std_descriptor \<Rightarrow> 'h machine \<Rightarrow> int \<times> 'h machine" where
  "alt_msgdma_standard_descriptor_async_transfer B dev desc =
     alt_msgdma_descriptor_async_transfer B dev (Some desc) None"

definition alt_msgdma_extended_descriptor_async_transfer ::
  "'h bus \<Rightarrow> 'h msgdma_dev \<Rightarrow> ext_descriptor \<Rightarrow> 'h machine \<Rightarrow> int \<times> 'h machine" where
  "alt_msgdma_extended_descriptor_async_transfer B dev desc =
     alt_msgdma_descriptor_async_transfer B dev None (Some desc)"

definition alt_msgdma_standard_descriptor_sync_transfer ::
  "'h bus \<Rightarrow> 'h msgdma_dev \<Rightarrow> std_descriptor \<Rightarrow> 'h machine \<Rightarrow> int \<times> 'h machine" where
  "alt_msgdma_standard_descriptor_sync_transfer B dev desc =
     alt_msgdma_descriptor_sync_transfer B dev (Some desc) None"

definition alt_msgdma_extended_descriptor_sync_transfer ::
  "'h bus \<Rightarrow> 'h msgdma_dev \<Rightarrow> ext_descriptor \<Rightarrow> 'h machine \<Rightarrow> int \<times> 'h machine" where
  "alt_msgdma_extended_descriptor_sync_transfer B dev desc =
     alt_msgdma_descriptor_sync_transfer B dev None (Some desc)"

section \<open>The retry loop\<close>

text \<open>The state after \<open>n\<close> refused attempts.\<close>

definition refused ::
  "'h bus \<Rightarrow> ('h machine \<Rightarrow> int \<times> 'h machine) \<Rightarrow> nat \<Rightarrow> 'h machine \<Rightarrow> 'h machine" where
  "refused B wr n s = ((\<lambda>s. alt_busy_sleep B 1 (snd (wr s))) ^^ n) s"

lemma refused_0 [simp]: "refused B wr 0 s = s"
  by (simp add: refused_def)

lemma refused_Suc: "refused B wr (Suc n) s = refused B wr n (alt_busy_sleep B 1 (snd (wr s)))"
  by (simp add: refused_def funpow_Suc_right del: funpow.simps)

lemma refused_Suc_back: "refused B wr (Suc n) s = alt_busy_sleep B 1 (snd (wr (refused B wr n s)))"
  by (simp add: refused_def)

text \<open>The loop makes at most 5001 attempts; it stops at the first that succeeds.\<close>

lemma retry_write_from:
  assumes "unat c \<le> 5000" and "k = 5000 - unat c"
  shows "(\<exists>n\<le>k. (\<forall>i<n. fst (wr (refused B wr i s)) \<noteq> 0) \<and> fst (wr (refused B wr n s)) = 0 \<and>
        retry_write B wr c s = (True, snd (wr (refused B wr n s)))) \<or>
     ((\<forall>i\<le>k. fst (wr (refused B wr i s)) \<noteq> 0) \<and>
        retry_write B wr c s = (False, refused B wr (Suc k) s))"
  using assms
proof (induction k arbitrary: c s)
  case 0
  then have "5000 \<le> c" by (simp add: word_le_nat_alt)
  then show ?case
    by (subst (1 2) retry_write.simps) (auto simp: refused_Suc Let_def split: prod.splits)
next
  case (Suc k)
  show ?case
  proof (cases "fst (wr s) = 0")
    case True
    then have "retry_write B wr c s = (True, snd (wr s))"
      by (subst retry_write.simps) (auto split: prod.splits)
    with True show ?thesis by (intro disjI1 exI[of _ 0]) simp
  next
    case False
    let ?s = "alt_busy_sleep B 1 (snd (wr s))"
    from Suc.prems have c: "\<not> 5000 \<le> c" by (simp add: word_le_nat_alt)
    with False have eq: "retry_write B wr c s = retry_write B wr (c + 1) ?s"
      by (subst retry_write.simps) (auto split: prod.splits)
    from counter_decreases [OF c] Suc.prems have "unat (c + 1) \<le> 5000" "k = 5000 - unat (c + 1)"
      by auto
    from Suc.IH [OF this, of ?s] show ?thesis
    proof
      assume "\<exists>n\<le>k. (\<forall>i<n. fst (wr (refused B wr i ?s)) \<noteq> 0) \<and>
        fst (wr (refused B wr n ?s)) = 0 \<and>
        retry_write B wr (c + 1) ?s = (True, snd (wr (refused B wr n ?s)))"
      then obtain n where "n \<le> k" and less: "\<forall>i<n. fst (wr (refused B wr i ?s)) \<noteq> 0"
        and n: "fst (wr (refused B wr n ?s)) = 0"
          "retry_write B wr (c + 1) ?s = (True, snd (wr (refused B wr n ?s)))" by blast
      have "\<forall>i<Suc n. fst (wr (refused B wr i s)) \<noteq> 0"
        using less False by (auto simp: less_Suc_eq_0_disj refused_Suc)
      with n \<open>n \<le> k\<close> show ?thesis
        unfolding eq by (intro disjI1 exI[of _ "Suc n"]) (simp add: refused_Suc)
    next
      assume less: "(\<forall>i\<le>k. fst (wr (refused B wr i ?s)) \<noteq> 0) \<and>
        retry_write B wr (c + 1) ?s = (False, refused B wr (Suc k) ?s)"
      have "fst (wr (refused B wr i s)) \<noteq> 0" if "i \<le> Suc k" for i
        using that less False by (cases i) (auto simp: refused_Suc)
      with less show ?thesis unfolding eq by (simp add: refused_Suc)
    qed
  qed
qed

lemma retry_write_cases:
  obtains (written) n where "n \<le> 5000" "\<forall>i<n. fst (wr (refused B wr i s)) \<noteq> 0"
    "fst (wr (refused B wr n s)) = 0" "retry_write B wr 0 s = (True, snd (wr (refused B wr n s)))"
  | (timeout) "\<forall>i\<le>5000. fst (wr (refused B wr i s)) \<noteq> 0"
    "retry_write B wr 0 s = (False, refused B wr 5001 s)"
  using retry_write_from [of 0 5000 wr B s] by auto

lemma refused_inv:
  "P s \<Longrightarrow> (\<And>s. P s \<Longrightarrow> P (alt_busy_sleep B 1 (snd (wr s)))) \<Longrightarrow> P (refused B wr n s)"
  by (induction n) (simp_all add: refused_Suc_back)

section \<open>Interrupt state\<close>

lemma write_descriptor_frame [simp]:
  "cpu_status (snd (alt_msgdma_write_standard_descriptor B csr db d s)) = cpu_status s"
  "cpu_status (snd (alt_msgdma_write_extended_descriptor B csr db e s)) = cpu_status s"
  by (auto simp: alt_msgdma_write_standard_descriptor_def alt_msgdma_write_extended_descriptor_def
      Let_def dest!: IORD_32DIRECT_frameD split: prod.splits)

lemma retry_write_frame:
  assumes "\<And>s. cpu_status (snd (wr s)) = cpu_status s"
  shows "cpu_status (snd (retry_write B wr 0 s)) = cpu_status s"
proof -
  have "cpu_status (refused B wr n s) = cpu_status s" for n
    by (rule refused_inv) (simp_all add: assms)
  then show ?thesis by (cases rule: retry_write_cases [of wr B s]) (simp_all add: assms)
qed

lemma retry_descriptor_frame:
  "retry_write B (alt_msgdma_write_standard_descriptor B csr db d) 0 s = (r, s') \<Longrightarrow>
     cpu_status s' = cpu_status s"
  "retry_write B (alt_msgdma_write_extended_descriptor B csr db e) 0 s = (r, s') \<Longrightarrow>
     cpu_status s' = cpu_status s"
  using retry_write_frame [of "alt_msgdma_write_standard_descriptor B csr db d" B s]
    retry_write_frame [of "alt_msgdma_write_extended_descriptor B csr db e" B s] by simp_all

lemma read_fill_levels_frame: "read_fill_levels B dev s = (lv, s') \<Longrightarrow> cpu_status s' = cpu_status s"
  by (auto simp: read_fill_levels_def dest!: IORD_32DIRECT_frameD split: prod.splits)

lemma wait_fifo_space_frame:
  "wait_fifo_space B dev lv c s = (r, s') \<Longrightarrow> cpu_status s' = cpu_status s"
proof (induction B dev lv c s rule: wait_fifo_space.induct)
  case (1 B dev lv c s)
  from 1 show ?case
    by (subst (asm) (2) wait_fifo_space.simps)
      (auto simp: Let_def dest!: read_fill_levels_frame split: if_splits prod.splits)
qed

lemma wait_complete_frame:
  "wait_complete B dev st c s = (r, s') \<Longrightarrow> cpu_status s' = cpu_status s"
proof (induction B dev st c s rule: wait_complete.induct)
  case (1 B dev st c s)
  from 1 show ?case
    by (subst (asm) (2) wait_complete.simps)
      (auto simp: Let_def dest!: IORD_32DIRECT_frameD split: if_splits prod.splits)
qed

lemma stop_and_clear_frame [simp]: "cpu_status (stop_and_clear B dev c s) = cpu_status s"
  by (auto simp: stop_and_clear_def dest!: IORD_32DIRECT_frameD split: prod.splits)

lemmas msgdma_frames = retry_descriptor_frame read_fill_levels_frame wait_fifo_space_frame
  wait_complete_frame IORD_32DIRECT_frameD

lemma disable_all_eq:
  "alt_irq_disable_all s = (cpu_status s, s\<lparr>cpu_status := cpu_status s AND NOT 1\<rparr>)"
  by (simp add: alt_irq_disable_all_def NIOS2_STATUS_PIE_MSK_def Let_def)

lemma irq_masked: "cpu_status s = x AND NOT 1 \<Longrightarrow> alt_irq_enabled s = 0"
  by (simp only: alt_irq_enabled_def NIOS2_STATUS_PIE_MSK_def mask_pie)

section \<open>What the transfers write\<close>

definition std_words :: "u32 \<Rightarrow> std_descriptor \<Rightarrow> access list" where
  "std_words db d = [Wr32 db (read_address d), Wr32 (db + 4) (write_address d),
     Wr32 (db + 8) (transfer_length d), Wr32 (db + 12) (desc_control d)]"

definition ext_words :: "u32 \<Rightarrow> ext_descriptor \<Rightarrow> access list" where
  "ext_words db d = [Wr32 db (read_address_low d), Wr32 (db + 4) (write_address_low d),
     Wr32 (db + 8) (ext_transfer_length d), Wr16 (db + 12) (sequence_number d),
     Wr8 (db + 14) (read_burst_count d), Wr8 (db + 15) (write_burst_count d),
     Wr16 (db + 16) (read_stride d), Wr16 (db + 18) (write_stride d),
     Wr32 (db + 20) 0, Wr32 (db + 24) 0, Wr32 (db + 28) (ext_control d)]"

section \<open>What the waiting loops read\<close>

text \<open>
  The three loops have one shape: an attempt \<open>rd v\<close>, and a sleep of one microsecond while its answer \<open>v\<close> asks for
  another one. With \<open>k\<close> repetitions allowed, the loop is given up after the sleep that follows attempt \<open>k + 1\<close>, or
  it ends with the first answer \<open>v\<close> that does not ask for another attempt.
\<close>

definition gave_up :: "nat \<Rightarrow> ('v \<Rightarrow> access list) \<Rightarrow> ('v \<Rightarrow> bool) \<Rightarrow> access list \<Rightarrow> bool" where
  "gave_up k rd again tr \<longleftrightarrow> (\<exists>vs. length vs = Suc k \<and> list_all again vs \<and>
     tr = concat (map (\<lambda>v. rd v @ [Delay 1]) vs))"

definition settled :: "nat \<Rightarrow> ('v \<Rightarrow> access list) \<Rightarrow> ('v \<Rightarrow> bool) \<Rightarrow> access list \<Rightarrow> 'v \<Rightarrow> bool" where
  "settled k rd again tr v \<longleftrightarrow> (\<exists>vs. length vs \<le> k \<and> list_all again vs \<and> \<not> again v \<and>
     tr = concat (map (\<lambda>v. rd v @ [Delay 1]) vs) @ rd v)"

lemma gave_up_0: "again v \<Longrightarrow> gave_up 0 rd again (rd v @ [Delay 1])"
  unfolding gave_up_def by (rule exI [of _ "[v]"]) simp

lemma gave_up_Suc: "again v \<Longrightarrow> gave_up k rd again tr \<Longrightarrow> gave_up (Suc k) rd again (rd v @ Delay 1 # tr)"
  unfolding gave_up_def by (elim exE, rename_tac vs, rule_tac x = "v # vs" in exI) simp

lemma settled_now: "\<not> again v \<Longrightarrow> settled k rd again (rd v) v"
  unfolding settled_def by (rule exI [of _ "[]"]) simp

lemma settled_Suc: "again v \<Longrightarrow> settled k rd again tr w \<Longrightarrow> settled (Suc k) rd again (rd v @ Delay 1 # tr) w"
  unfolding settled_def by (elim exE, rename_tac vs, rule_tac x = "v # vs" in exI) simp

lemmas attempts = gave_up_0 [unfolded One_nat_def] gave_up_Suc [unfolded One_nat_def]
  settled_now settled_Suc [unfolded One_nat_def]

text \<open>The attempts: both fill levels, each compared with the depth of the buffers; the status, for the flag of a full
  buffer, and for a dispatcher that is busy without an error.\<close>

definition rd_levels :: "'h msgdma_dev \<Rightarrow> u32 \<times> u32 \<Rightarrow> access list" where
  "rd_levels dev v = [Rd (csr_base dev + 8) (fst v), Rd (csr_base dev + 8) (snd v)]"

definition levels_full :: "'h msgdma_dev \<Rightarrow> u32 \<times> u32 \<Rightarrow> bool" where
  "levels_full dev v \<longleftrightarrow> unat (descriptor_fifo_depth dev) \<le> unat (fst v) mod 2 ^ 16 \<or>
     unat (descriptor_fifo_depth dev) \<le> unat (snd v) div 2 ^ 16"

definition rd_status :: "u32 \<Rightarrow> u32 \<Rightarrow> access list" where
  "rd_status csr v = [Rd csr v]"

definition buffer_full :: "u32 \<Rightarrow> bool" where
  "buffer_full v \<longleftrightarrow> bit v 2"

definition stopped_on_error :: "u32 \<Rightarrow> bool" where
  "stopped_on_error v \<longleftrightarrow> bit v 5 \<or> bit v 6 \<or> bit v 7 \<or> bit v 8"

definition still_busy :: "u32 \<Rightarrow> bool" where
  "still_busy v \<longleftrightarrow> bit v 0 \<and> \<not> stopped_on_error v"

lemma dispatcher_status_bits:
  "v AND CSR_DESCRIPTOR_BUFFER_FULL_MASK = 0 \<longleftrightarrow> \<not> buffer_full v"
  "v AND sync_error_mask = 0 \<longleftrightarrow> \<not> stopped_on_error v"
  "v AND CSR_BUSY_MASK = 0 \<longleftrightarrow> \<not> bit v 0"
proof -
  show "v AND CSR_DESCRIPTOR_BUFFER_FULL_MASK = 0 \<longleftrightarrow> \<not> buffer_full v"
    using and_exp_eq_0_iff_not_bit [of v 2] by (simp add: csr_masks buffer_full_def)
  show "v AND CSR_BUSY_MASK = 0 \<longleftrightarrow> \<not> bit v 0"
    using and_exp_eq_0_iff_not_bit [of v 0] by (simp add: csr_masks)
  have m: "sync_error_mask = 2 ^ 5 OR 2 ^ 6 OR 2 ^ 7 OR 2 ^ 8" by (simp add: sync_error_mask_def csr_masks)
  have "v AND sync_error_mask = (v AND 2 ^ 5) OR (v AND 2 ^ 6) OR (v AND 2 ^ 7) OR (v AND 2 ^ 8)"
    unfolding m by (simp only: bit.conj_disj_distrib or.assoc)
  moreover have "x OR y = 0 \<longleftrightarrow> x = 0 \<and> y = 0" for x y :: u32 by (rule or_eq_0_iff)
  ultimately show "v AND sync_error_mask = 0 \<longleftrightarrow> \<not> stopped_on_error v"
    by (simp only: and_exp_eq_0_iff_not_bit stopped_on_error_def) blast
qed

lemma fill_levels_trace:
  "read_fill_levels (trace_bus resp) dev s = (lv, s') \<Longrightarrow>
     \<exists>v. s' = s\<lparr>hw := hw s @ rd_levels dev v\<rparr> \<and> (fifo_full dev lv \<longleftrightarrow> levels_full dev v)"
proof -
  have "unat (v AND 0xFFFF) = unat v mod 2 ^ 16" for v :: u32
  proof -
    have "v AND 0xFFFF = take_bit 16 v" by (simp add: take_bit_eq_mask mask_eq_exp_minus_1)
    then show ?thesis by (simp only: unsigned_take_bit_eq) (simp add: take_bit_eq_mod)
  qed
  moreover have "drop_bit 16 (v AND 0xFFFF0000) = drop_bit 16 v" for v :: u32
  proof -
    have m: "(0xFFFF0000 :: u32) = push_bit 16 (mask 16)" by (simp add: mask_eq_exp_minus_1)
    show ?thesis unfolding m by (rule bit_word_eqI) (auto simp: bit_simps dest: bit_imp_le_length)
  qed
  moreover have "unat (drop_bit 16 v) = unat v div 2 ^ 16" for v :: u32
    by (simp only: unat_drop_bit_eq) (simp add: drop_bit_eq_div)
  moreover define a where "a = resp (hw s) (csr_base dev + 8)"
  moreover define b where "b = resp (hw s @ [Rd (csr_base dev + 8) a]) (csr_base dev + 8)"
  moreover assume "read_fill_levels (trace_bus resp) dev s = (lv, s')"
  ultimately show ?thesis
    by (intro exI [of _ "(a, b)"])
      (auto simp: read_fill_levels_def trace_IO rd_levels_def fifo_full_def levels_full_def word_le_nat_alt)
qed

lemma wait_fifo_space_trace:
  assumes "wait_fifo_space (trace_bus resp) dev lv c s = (ok, s')" and "unat c \<le> 5000"
    and "fifo_full dev lv \<longleftrightarrow> levels_full dev v" and "hw s = h @ rd_levels dev v"
  shows "\<exists>tr. s' = s\<lparr>hw := h @ tr\<rparr> \<and>
    (if ok then \<exists>w. settled (5000 - unat c) (rd_levels dev) (levels_full dev) tr w
     else gave_up (5000 - unat c) (rd_levels dev) (levels_full dev) tr)"
  using assms
proof (induction "trace_bus resp" dev lv c s arbitrary: v h rule: wait_fifo_space.induct)
  case (1 dev lv c s)
  note run = 1(2) [unfolded wait_fifo_space.simps [of _ _ lv] trace_IO Let_def]
  consider (room) "\<not> fifo_full dev lv" | (last) "fifo_full dev lv" "5000 \<le> c"
    | (again) "fifo_full dev lv" "\<not> 5000 \<le> c" by blast
  then show ?case
  proof cases
    case room
    with run 1(4,5) show ?thesis
      by (intro exI [of _ "rd_levels dev v"]) (auto intro!: exI [of _ v] intro: attempts simp del: split_paired_Ex)
  next
    case last
    with 1(3) have "unat c = 5000" by (simp add: word_le_nat_alt)
    with last run 1(4,5) show ?thesis
      by (intro exI [of _ "rd_levels dev v @ [Delay 1]"]) (auto intro: attempts)
  next
    case again
    let ?s = "s\<lparr>hw := hw s @ [Delay 1]\<rparr>"
    obtain lv' t where fl: "read_fill_levels (trace_bus resp) dev ?s = (lv', t)" by (rule prod.exhaust)
    from fill_levels_trace [OF fl] obtain w where w: "t = ?s\<lparr>hw := hw ?s @ rd_levels dev w\<rparr>"
      "fifo_full dev lv' \<longleftrightarrow> levels_full dev w" by blast
    from counter_decreases [OF again(2)] have k: "unat (c + 1) \<le> 5000" "5000 - unat c = Suc (5000 - unat (c + 1))"
      by auto
    have run': "wait_fifo_space (trace_bus resp) dev lv' (c + 1) t = (ok, s')" using run again fl by simp
    have hw: "hw t = (h @ rd_levels dev v @ [Delay 1]) @ rd_levels dev w" using w(1) 1(5) by simp
    have fl': "(lv', t) = read_fill_levels (trace_bus resp) dev (alt_busy_sleep (trace_bus resp) 1 s)"
      using fl by (simp add: trace_IO)
    from 1(1) [OF again(1) refl again(2) fl' refl run' k(1) w(2) hw]
    obtain tr where tr: "s' = t\<lparr>hw := (h @ rd_levels dev v @ [Delay 1]) @ tr\<rparr>"
      "if ok then \<exists>w. settled (5000 - unat (c + 1)) (rd_levels dev) (levels_full dev) tr w
       else gave_up (5000 - unat (c + 1)) (rd_levels dev) (levels_full dev) tr" by blast
    have full: "levels_full dev v" using again(1) 1(4) by simp
    show ?thesis
    proof (intro exI [of _ "rd_levels dev v @ Delay 1 # tr"] conjI)
      show "s' = s\<lparr>hw := h @ rd_levels dev v @ Delay 1 # tr\<rparr>" using tr(1) w(1) by simp
      show "if ok then \<exists>w. settled (5000 - unat c) (rd_levels dev) (levels_full dev) (rd_levels dev v @ Delay 1 # tr) w
        else gave_up (5000 - unat c) (rd_levels dev) (levels_full dev) (rd_levels dev v @ Delay 1 # tr)"
        using tr(2) settled_Suc [of "levels_full dev" v, OF full] gave_up_Suc [of "levels_full dev" v, OF full]
        unfolding k(2) by (cases ok) (metis, metis)
    qed
  qed
qed

lemma wait_complete_trace:
  assumes "wait_complete (trace_bus resp) dev v c s = (q, s')" and "unat c \<le> 5000"
    and "hw s = h @ rd_status (csr_base dev) v"
  shows "\<exists>tr. s' = s\<lparr>hw := h @ tr\<rparr> \<and>
    (case q of Some w \<Rightarrow> settled (5000 - unat c) (rd_status (csr_base dev)) still_busy tr w
     | None \<Rightarrow> gave_up (5000 - unat c) (rd_status (csr_base dev)) still_busy tr)"
  using assms
proof (induction "trace_bus resp" dev v c s arbitrary: h rule: wait_complete.induct)
  case (1 dev v c s)
  have busy: "v AND sync_error_mask = 0 \<and> v AND CSR_BUSY_MASK \<noteq> 0 \<longleftrightarrow> still_busy v"
    by (auto simp: dispatcher_status_bits still_busy_def)
  note run = 1(2) [unfolded wait_complete.simps [of _ _ v] trace_IO Let_def busy]
  consider (finished) "\<not> still_busy v" | (last) "still_busy v" "5000 \<le> c"
    | (again) "still_busy v" "\<not> 5000 \<le> c" by blast
  then show ?case
  proof cases
    case finished
    with run 1(4) show ?thesis
      by (intro exI [of _ "rd_status (csr_base dev) v"]) (auto intro: attempts)
  next
    case last
    with 1(3) have "unat c = 5000" by (simp add: word_le_nat_alt)
    with last run 1(4) show ?thesis
      by (intro exI [of _ "rd_status (csr_base dev) v @ [Delay 1]"]) (auto intro: attempts)
  next
    case again
    let ?s = "s\<lparr>hw := hw s @ [Delay 1]\<rparr>"
    let ?w = "resp (hw ?s) (csr_base dev)"
    let ?t = "?s\<lparr>hw := hw ?s @ [Rd (csr_base dev) ?w]\<rparr>"
    from counter_decreases [OF again(2)] have k: "unat (c + 1) \<le> 5000" "5000 - unat c = Suc (5000 - unat (c + 1))"
      by auto
    have "wait_complete (trace_bus resp) dev ?w (c + 1) ?t = (q, s')" using run again by simp
    moreover have "hw ?t = (h @ rd_status (csr_base dev) v @ [Delay 1]) @ rd_status (csr_base dev) ?w"
      using 1(4) by (simp add: rd_status_def)
    ultimately obtain tr where tr: "s' = ?t\<lparr>hw := (h @ rd_status (csr_base dev) v @ [Delay 1]) @ tr\<rparr>"
      "case q of Some w \<Rightarrow> settled (5000 - unat (c + 1)) (rd_status (csr_base dev)) still_busy tr w
       | None \<Rightarrow> gave_up (5000 - unat (c + 1)) (rd_status (csr_base dev)) still_busy tr"
      using 1(1) [OF busy [THEN iffD2, OF again(1)] _ again(2) _ refl, OF _ _ _ k(1)]
      by (fastforce simp: trace_IO)
    with again(1) show ?thesis unfolding k(2)
      by (intro exI [of _ "rd_status (csr_base dev) v @ Delay 1 # tr"])
        (auto intro: attempts split: option.splits)
  qed
qed

text \<open>Writing a descriptor, where a refused attempt has read the status and nothing more.\<close>

lemma retry_write_trace:
  assumes "retry_write (trace_bus resp) wr c s = (ok, s')" and "unat c \<le> 5000"
    and "\<And>s. wr s = (if buffer_full (resp (hw s) csr) then (- ENOSPC, s\<lparr>hw := hw s @ [Rd csr (resp (hw s) csr)]\<rparr>)
      else (0, s\<lparr>hw := hw s @ Rd csr (resp (hw s) csr) # words\<rparr>))"
  shows "\<exists>tr. s' = s\<lparr>hw := hw s @ tr @ (if ok then words else [])\<rparr> \<and>
    (if ok then \<exists>w. settled (5000 - unat c) (rd_status csr) buffer_full tr w
     else gave_up (5000 - unat c) (rd_status csr) buffer_full tr)"
  using assms
proof (induction "trace_bus resp" wr c s rule: retry_write.induct)
  case (1 wr c s)
  let ?v = "resp (hw s) csr"
  note wr = 1(4) [of s]
  note run = 1(2) [unfolded retry_write.simps [of _ _ _ s] trace_IO Let_def]
  consider (room) "\<not> buffer_full ?v" | (last) "buffer_full ?v" "5000 \<le> c"
    | (again) "buffer_full ?v" "\<not> 5000 \<le> c" by blast
  then show ?case
  proof cases
    case room
    with run wr settled_now [of buffer_full ?v "5000 - unat c" "rd_status csr"] show ?thesis
      by (intro exI [of _ "rd_status csr ?v"]) (auto simp: rd_status_def)
  next
    case last
    with 1(3) have "unat c = 5000" by (simp add: word_le_nat_alt)
    with last run wr show ?thesis
      by (intro exI [of _ "rd_status csr ?v @ [Delay 1]"])
        (auto intro: attempts simp: errno_defs simp flip: rd_status_def)
  next
    case again
    let ?t = "s\<lparr>hw := hw s @ [Rd csr ?v, Delay 1]\<rparr>"
    from counter_decreases [OF again(2)] have k: "unat (c + 1) \<le> 5000" "5000 - unat c = Suc (5000 - unat (c + 1))"
      by auto
    have "retry_write (trace_bus resp) wr (c + 1) ?t = (ok, s')" using run again wr by (simp add: errno_defs)
    then obtain tr where tr: "s' = ?t\<lparr>hw := hw ?t @ tr @ (if ok then words else [])\<rparr>"
      "if ok then \<exists>w. settled (5000 - unat (c + 1)) (rd_status csr) buffer_full tr w
       else gave_up (5000 - unat (c + 1)) (rd_status csr) buffer_full tr"
      using 1(1) [OF wr [symmetric, unfolded if_P [OF again(1)]] refl] again k(1) 1(4) by (auto simp: errno_defs trace_IO)
    show ?thesis
    proof (intro exI [of _ "rd_status csr ?v @ Delay 1 # tr"] conjI)
      show "s' = s\<lparr>hw := hw s @ (rd_status csr ?v @ Delay 1 # tr) @ (if ok then words else [])\<rparr>"
        using tr(1) by (simp add: rd_status_def)
      show "if ok then \<exists>w. settled (5000 - unat c) (rd_status csr) buffer_full (rd_status csr ?v @ Delay 1 # tr) w
        else gave_up (5000 - unat c) (rd_status csr) buffer_full (rd_status csr ?v @ Delay 1 # tr)"
        using tr(2) settled_Suc [of buffer_full ?v, OF again(1)] gave_up_Suc [of buffer_full ?v, OF again(1)]
        unfolding k(2) by (cases ok) (metis, metis)
    qed
  qed
qed

lemma write_descriptor_trace:
  "alt_msgdma_write_standard_descriptor (trace_bus resp) csr db d s =
    (if buffer_full (resp (hw s) csr) then (- ENOSPC, s\<lparr>hw := hw s @ [Rd csr (resp (hw s) csr)]\<rparr>)
     else (0, s\<lparr>hw := hw s @ Rd csr (resp (hw s) csr) # std_words db d\<rparr>))"
  "alt_msgdma_write_extended_descriptor (trace_bus resp) csr db e s =
    (if buffer_full (resp (hw s) csr) then (- ENOSPC, s\<lparr>hw := hw s @ [Rd csr (resp (hw s) csr)]\<rparr>)
     else (0, s\<lparr>hw := hw s @ Rd csr (resp (hw s) csr) # ext_words db e\<rparr>))"
  by (simp_all add: alt_msgdma_write_standard_descriptor_def alt_msgdma_write_extended_descriptor_def
      trace_IO dispatcher_status_bits std_words_def ext_words_def)

text \<open>The control word that starts the dispatcher after a non-blocking transfer.\<close>

definition async_run_control :: "'h msgdma_dev \<Rightarrow> u32" where
  "async_run_control dev =
     (if callback dev = None
      then (0x20 OR (dev_control dev OR 0x4)) AND (NOT 0x20 AND NOT 0x10)
      else (0x20 OR (dev_control dev OR 0x4 OR 0x10)) AND NOT 0x20)"

section \<open>Properties\<close>

text \<open>Whatever the hardware does and whatever the descriptors are, a non-blocking transfer
  returns with the processor's interrupt state as it was.\<close>

theorem async_transfer_restores_interrupts:
  "cpu_status (snd (alt_msgdma_descriptor_async_transfer B dev sd ed s)) = cpu_status s"
  unfolding alt_msgdma_descriptor_async_transfer_def
  by (auto simp: Let_def disable_all_eq dest!: msgdma_frames
      split: prod.splits option.splits bool.splits)

lemma async_run_control_eq:
  "callback dev = Some f \<Longrightarrow>
     (CSR_STOP_DESCRIPTORS_MASK OR (dev_control dev OR CSR_STOP_ON_ERROR_MASK OR
       CSR_GLOBAL_INTERRUPT_MASK)) AND NOT CSR_STOP_DESCRIPTORS_MASK = async_run_control dev"
  "callback dev = None \<Longrightarrow>
     (CSR_STOP_DESCRIPTORS_MASK OR (dev_control dev OR CSR_STOP_ON_ERROR_MASK)) AND
       (NOT CSR_STOP_DESCRIPTORS_MASK AND NOT CSR_GLOBAL_INTERRUPT_MASK) = async_run_control dev"
  by (simp_all add: async_run_control_def csr_masks)

definition desc_words :: "u32 \<Rightarrow> std_descriptor option \<Rightarrow> ext_descriptor option \<Rightarrow> access list" where
  "desc_words db sd ed =
     (case (sd, ed) of (Some d, None) \<Rightarrow> std_words db d | (None, Some e) \<Rightarrow> ext_words db e | _ \<Rightarrow> [])"

lemma retry_descriptor_trace:
  "retry_write (trace_bus resp) (alt_msgdma_write_standard_descriptor (trace_bus resp) csr db d) 0 s = (ok, s') \<Longrightarrow>
    \<exists>tr. s' = s\<lparr>hw := hw s @ tr @ (if ok then std_words db d else [])\<rparr> \<and>
      (if ok then \<exists>w. settled 5000 (rd_status csr) buffer_full tr w else gave_up 5000 (rd_status csr) buffer_full tr)"
  "retry_write (trace_bus resp) (alt_msgdma_write_extended_descriptor (trace_bus resp) csr db e) 0 s = (ok, s') \<Longrightarrow>
    \<exists>tr. s' = s\<lparr>hw := hw s @ tr @ (if ok then ext_words db e else [])\<rparr> \<and>
      (if ok then \<exists>w. settled 5000 (rd_status csr) buffer_full tr w else gave_up 5000 (rd_status csr) buffer_full tr)"
  using retry_write_trace [where c = 0 and resp = resp and csr = csr, unfolded unat_0 minus_nat.diff_0,
      OF _ le0 write_descriptor_trace(1) [where resp = resp and csr = csr]]
    retry_write_trace [where c = 0 and resp = resp and csr = csr, unfolded unat_0 minus_nat.diff_0,
      OF _ le0 write_descriptor_trace(2) [where resp = resp and csr = csr]]
  by blast+

lemmas loop_traces = wait_fifo_space_trace [where c = 0, unfolded unat_0 minus_nat.diff_0, OF _ le0]
  wait_complete_trace [where c = 0, unfolded unat_0 minus_nat.diff_0, OF _ le0] retry_descriptor_trace

text \<open>What stops the dispatcher, with the status that is read and written back.\<close>

definition stop_trace :: "'h msgdma_dev \<Rightarrow> u32 \<Rightarrow> u32 \<Rightarrow> access list" where
  "stop_trace dev control v = [Wr32 (csr_base dev + 4) control, Rd (csr_base dev) v, Wr32 (csr_base dev) v]"

lemma stop_and_clear_trace:
  "\<exists>v. stop_and_clear (trace_bus resp) dev control s = s\<lparr>hw := hw s @ stop_trace dev control v\<rparr>"
  unfolding stop_and_clear_def trace_IO Let_def prod.case stop_trace_def
  by (rule exI [of _ "resp (hw s @ [Wr32 (csr_base dev + 4) control]) (csr_base dev)"]) simp

abbreviation (input) storing_std :: string where
  "storing_std \<equiv> ''time out after 5 msec while waiting free FIFO buffer for storing standard descriptor\<newline>''"
abbreviation (input) storing_ext :: string where
  "storing_ext \<equiv> ''time out after 5 msec while waiting free FIFO buffer for storing extended descriptor\<newline>''"
abbreviation (input) writing_std :: string where
  "writing_std \<equiv> ''time out after 5 msec while writing standard descriptor to FIFO\<newline>''"
abbreviation (input) writing_ext :: string where
  "writing_ext \<equiv> ''time out after 5 msec while writing extended descriptor to FIFO\<newline>''"
abbreviation (input) storing_any :: string where
  "storing_any \<equiv> ''time out after 5 msec while waiting free FIFO buffer for storing descriptor\<newline>''"

text \<open>The middle of both transfers: the descriptor that is given is written, and the rest \<open>f\<close> follows.\<close>

definition descriptor_then ::
  "'h bus \<Rightarrow> 'h msgdma_dev \<Rightarrow> std_descriptor option \<Rightarrow> ext_descriptor option \<Rightarrow> string \<Rightarrow> string \<Rightarrow>
     ('h machine \<Rightarrow> int \<times> 'h machine) \<Rightarrow> 'h machine \<Rightarrow> int \<times> 'h machine" where
  "descriptor_then B dev sd ed m m' f s =
     (case (sd, ed) of
        (Some d, None) \<Rightarrow>
          (case retry_write B (alt_msgdma_write_standard_descriptor B (csr_base dev) (descriptor_base dev) d) 0 s of
             (False, s) \<Rightarrow> (- ETIME, printf m [] s)
           | (True, s) \<Rightarrow> f s)
      | (None, Some d) \<Rightarrow>
          (case retry_write B (alt_msgdma_write_extended_descriptor B (csr_base dev) (descriptor_base dev) d) 0 s of
             (False, s) \<Rightarrow> (- ETIME, printf m' [] s)
           | (True, s) \<Rightarrow> f s)
      | _ \<Rightarrow> (- EPERM, s))"

lemma descriptor_then_conflict:
  "(sd = None \<longleftrightarrow> ed = None) \<Longrightarrow> descriptor_then B dev sd ed m m' f s = (- EPERM, s)"
  by (auto simp: descriptor_then_def split: option.splits)

lemma descriptor_then_one:
  assumes "sd = None \<longleftrightarrow> ed \<noteq> None"
  obtains (written) tr w where "settled 5000 (rd_status (csr_base dev)) buffer_full tr w"
      "descriptor_then (trace_bus resp) dev sd ed m m' f s =
        f (s\<lparr>hw := hw s @ tr @ desc_words (descriptor_base dev) sd ed\<rparr>)"
    | (refused) tr t where "gave_up 5000 (rd_status (csr_base dev)) buffer_full tr"
      "descriptor_then (trace_bus resp) dev sd ed m m' f s = (- ETIME, t)" "hw t = hw s @ tr"
      "cpu_status t = cpu_status s"
proof -
  define wr where "wr = (case sd of
      Some d \<Rightarrow> alt_msgdma_write_standard_descriptor (trace_bus resp) (csr_base dev) (descriptor_base dev) d
    | None \<Rightarrow> alt_msgdma_write_extended_descriptor (trace_bus resp) (csr_base dev) (descriptor_base dev) (the ed))"
  obtain ok s3 where rt: "retry_write (trace_bus resp) wr 0 s = (ok, s3)" by (rule prod.exhaust)
  have then_eq: "descriptor_then (trace_bus resp) dev sd ed m m' f s =
      (if ok then f s3 else (- ETIME, printf (if sd = None then m' else m) [] s3))"
    using assms rt by (auto simp: descriptor_then_def wr_def split: option.splits)
  have "\<exists>tr. s3 = s\<lparr>hw := hw s @ tr @ (if ok then desc_words (descriptor_base dev) sd ed else [])\<rparr> \<and>
    (if ok then \<exists>w. settled 5000 (rd_status (csr_base dev)) buffer_full tr w
      else gave_up 5000 (rd_status (csr_base dev)) buffer_full tr)"
  proof (cases sd)
    case None
    then obtain e where e: "ed = Some e" using assms by auto
    show ?thesis using retry_descriptor_trace(2) [OF rt [unfolded wr_def None e option.case option.sel]]
      by (simp only: desc_words_def None e option.case prod.case)
  next
    case (Some d)
    then have e: "ed = None" using assms by auto
    show ?thesis using retry_descriptor_trace(1) [OF rt [unfolded wr_def Some option.case]]
      by (simp only: desc_words_def Some e option.case prod.case)
  qed
  then obtain tr where s3: "s3 = s\<lparr>hw := hw s @ tr @ (if ok then desc_words (descriptor_base dev) sd ed else [])\<rparr>"
    and tr: "if ok then \<exists>w. settled 5000 (rd_status (csr_base dev)) buffer_full tr w
      else gave_up 5000 (rd_status (csr_base dev)) buffer_full tr" by blast
  show ?thesis
  proof (cases ok)
    case True
    with tr obtain w where "settled 5000 (rd_status (csr_base dev)) buffer_full tr w" by auto
    with True show ?thesis using written by (simp add: then_eq s3)
  next
    case False
    with tr show ?thesis using refused by (simp add: then_eq s3)
  qed
qed

lemma async_transfer_eq:
  "alt_msgdma_descriptor_async_transfer (trace_bus resp) dev sd ed s =
    (let (lv, s) = read_fill_levels (trace_bus resp) dev s
     in if fifo_full dev lv then (- ENOSPC, s)
        else let (context, s) = alt_irq_disable_all s;
                 s = stop_and_clear (trace_bus resp) dev CSR_STOP_DESCRIPTORS_MASK s;
                 s = alt_irq_enable_all context s
             in descriptor_then (trace_bus resp) dev sd ed storing_std storing_ext
               (\<lambda>s. (0, s\<lparr>hw := hw s @ [Wr32 (csr_base dev + 4) (async_run_control dev)]\<rparr>)) s)"
proof -
  have start: "(\<lambda>s. case callback dev of
      Some f \<Rightarrow>
        (let control = CSR_STOP_DESCRIPTORS_MASK OR (dev_control dev OR CSR_STOP_ON_ERROR_MASK OR
               CSR_GLOBAL_INTERRUPT_MASK);
             control = control AND NOT CSR_STOP_DESCRIPTORS_MASK;
             (context, s) = alt_irq_disable_all s;
             s = IOWR_CSR_CONTROL (trace_bus resp) (csr_base dev) control s
         in (0, alt_irq_enable_all context s))
    | None \<Rightarrow>
        (let control = CSR_STOP_DESCRIPTORS_MASK OR (dev_control dev OR CSR_STOP_ON_ERROR_MASK);
             control = control AND (NOT CSR_STOP_DESCRIPTORS_MASK AND NOT CSR_GLOBAL_INTERRUPT_MASK);
             (context, s) = alt_irq_disable_all s;
             s = IOWR_CSR_CONTROL (trace_bus resp) (csr_base dev) control s
         in (0, alt_irq_enable_all context s))) =
      (\<lambda>s. (0 :: int, s\<lparr>hw := hw s @ [Wr32 (csr_base dev + 4) (async_run_control dev)]\<rparr>))"
  proof (cases "callback dev")
    case None
    then show ?thesis
      by (simp add: fun_eq_iff async_run_control_eq(2) [OF None] trace_IO disable_all_eq alt_irq_enable_all_def Let_def)
  next
    case (Some f)
    then show ?thesis
      by (simp add: fun_eq_iff async_run_control_eq(1) [OF Some] trace_IO disable_all_eq alt_irq_enable_all_def Let_def)
  qed
  show ?thesis
    unfolding alt_msgdma_descriptor_async_transfer_def descriptor_then_def Let_def [of CSR_STOP_DESCRIPTORS_MASK]
      start Let_def [of "\<lambda>s. (0 :: int, s\<lparr>hw := hw s @ [Wr32 (csr_base dev + 4) (async_run_control dev)]\<rparr>)"] ..
qed

lemma sync_transfer_eq:
  "alt_msgdma_descriptor_sync_transfer (trace_bus resp) dev sd ed s =
    (let (lv, s) = read_fill_levels (trace_bus resp) dev s
     in case wait_fifo_space (trace_bus resp) dev lv 0 s of
          (False, s) \<Rightarrow> (- ETIME, printf storing_any [] s)
        | (True, s) \<Rightarrow>
            let (context, s) = alt_irq_disable_all s;
                s = stop_and_clear (trace_bus resp) dev CSR_STOP_DESCRIPTORS_MASK s
            in descriptor_then (trace_bus resp) dev sd ed writing_std writing_ext
              (sync_run (trace_bus resp) dev context) s)"
  by (simp only: alt_msgdma_descriptor_sync_transfer_def descriptor_then_def)

text \<open>
  The accesses of a non-blocking transfer and its result, as a relation: each rule is one way through, with the answers
  of the hardware that lead to it.
\<close>

inductive async_outcome ::
  "'h msgdma_dev \<Rightarrow> std_descriptor option \<Rightarrow> ext_descriptor option \<Rightarrow> access list \<Rightarrow> int \<Rightarrow> bool"
  for dev sd ed where
  async_full: "levels_full dev lv \<Longrightarrow> async_outcome dev sd ed (rd_levels dev lv) (- ENOSPC)"
| async_conflict: "\<not> levels_full dev lv \<Longrightarrow> (sd = None \<longleftrightarrow> ed = None) \<Longrightarrow>
    async_outcome dev sd ed (rd_levels dev lv @ stop_trace dev 0x20 v) (- EPERM)"
| async_timeout: "\<not> levels_full dev lv \<Longrightarrow> (sd = None \<longleftrightarrow> ed \<noteq> None) \<Longrightarrow>
    gave_up 5000 (rd_status (csr_base dev)) buffer_full tr \<Longrightarrow>
    async_outcome dev sd ed (rd_levels dev lv @ stop_trace dev 0x20 v @ tr) (- ETIME)"
| async_started: "\<not> levels_full dev lv \<Longrightarrow> (sd = None \<longleftrightarrow> ed \<noteq> None) \<Longrightarrow>
    settled 5000 (rd_status (csr_base dev)) buffer_full tr w \<Longrightarrow>
    async_outcome dev sd ed (rd_levels dev lv @ stop_trace dev 0x20 v @ tr @
      desc_words (descriptor_base dev) sd ed @ [Wr32 (csr_base dev + 4) (async_run_control dev)]) 0"

text \<open>C11: On arbitrary hardware, what a non-blocking transfer does is decided by what it reads. It reads the two
  fill levels; when one has reached the depth of the buffers, and only then, it returns -ENOSPC and has written
  nothing. Otherwise it stops the dispatcher and clears its status, and returns -EPERM if not exactly one of the two
  descriptors is given. If one is, it tries to write it: after 5001 answers that the descriptor buffer is full it
  returns -ETIME and leaves the dispatcher stopped; at the first answer that there is room, among as many, it writes
  the descriptor once, its control word last, starts the dispatcher, and returns 0. There is no other access, and the
  processor's interrupt state is as before.\<close>

theorem async_transfer_outcomes:
  "case alt_msgdma_descriptor_async_transfer (trace_bus resp) dev sd ed s of (r, s') \<Rightarrow>
     cpu_status s' = cpu_status s \<and> (\<exists>es. hw s' = hw s @ es \<and> async_outcome dev sd ed es r)"
proof -
  obtain lv s0 where fl: "read_fill_levels (trace_bus resp) dev s = (lv, s0)" by (rule prod.exhaust)
  from fill_levels_trace [OF fl] obtain v where s0: "s0 = s\<lparr>hw := hw s @ rd_levels dev v\<rparr>"
    and v: "fifo_full dev lv \<longleftrightarrow> levels_full dev v" by blast
  let ?s = "s0\<lparr>cpu_status := cpu_status s AND NOT 1\<rparr>"
  obtain x where x: "stop_and_clear (trace_bus resp) dev CSR_STOP_DESCRIPTORS_MASK ?s =
      ?s\<lparr>hw := hw ?s @ stop_trace dev CSR_STOP_DESCRIPTORS_MASK x\<rparr>" using stop_and_clear_trace by blast
  define t where "t = s\<lparr>hw := hw s @ rd_levels dev v @ stop_trace dev 0x20 x\<rparr>"
  have t: "alt_irq_enable_all (cpu_status s) (?s\<lparr>hw := hw ?s @ stop_trace dev CSR_STOP_DESCRIPTORS_MASK x\<rparr>) = t"
    by (simp add: alt_irq_enable_all_def s0 csr_masks t_def)
  have st: "cpu_status s0 = cpu_status s" by (simp add: s0)
  note run = async_transfer_eq [of resp dev sd ed s, unfolded fl Let_def prod.case disable_all_eq st x t v]
  consider (full) "levels_full dev v" | (conflict) "\<not> levels_full dev v" "sd = None \<longleftrightarrow> ed = None"
    | (one) "\<not> levels_full dev v" "sd = None \<longleftrightarrow> ed \<noteq> None" by blast
  then show ?thesis
  proof cases
    case full
    then show ?thesis by (simp add: run s0 async_full)
  next
    case conflict
    then show ?thesis using async_conflict [OF conflict, of x] by (simp add: run descriptor_then_conflict t_def)
  next
    case one
    show ?thesis unfolding run if_not_P [OF one(1)]
      by (rule descriptor_then_one [OF one(2), of dev resp storing_std storing_ext
            "\<lambda>s. (0, s\<lparr>hw := hw s @ [Wr32 (csr_base dev + 4) (async_run_control dev)]\<rparr>)" t])
        (simp_all add: t_def async_started [OF one] async_timeout [OF one])
  qed
qed

text \<open>The control word that starts a non-blocking transfer clears the stop bit, sets
  stop-on-error, and enables the dispatcher's interrupt exactly when a callback is registered,
  whatever control word the user registered.\<close>

theorem async_run_control_bits:
  "\<not> bit (async_run_control dev) 5 \<and> bit (async_run_control dev) 2 \<and>
   (bit (async_run_control dev) 4 \<longleftrightarrow> callback dev \<noteq> None)"
proof -
  have b: "bit (0x20 :: u32) 5" "\<not> bit (0x20 :: u32) 2" "\<not> bit (0x10 :: u32) 2"
    "bit (0x4 :: u32) 2" "bit (0x10 :: u32) 4" "\<not> bit (0x20 :: u32) 4" by simp_all
  show ?thesis
  proof (cases "callback dev")
    case None
    then have eq: "async_run_control dev = (0x20 OR (dev_control dev OR 0x4)) AND (NOT 0x20 AND NOT 0x10)"
      by (simp only: async_run_control_def simp_thms if_True)
    show ?thesis unfolding eq bit_and_iff bit_or_iff bit_not_iff_eq using b None by simp
  next
    case (Some f)
    then have eq: "async_run_control dev = (0x20 OR (dev_control dev OR 0x4 OR 0x10)) AND NOT 0x20"
      by (simp only: async_run_control_def option.simps if_False)
    show ?thesis unfolding eq bit_and_iff bit_or_iff bit_not_iff_eq using b Some by simp
  qed
qed

text \<open>The last part of a blocking transfer: run, wait, and stop when there was no error.\<close>

inductive run_outcome :: "'h msgdma_dev \<Rightarrow> access list \<Rightarrow> int \<Rightarrow> bool" for dev where
  run_timeout: "gave_up 5000 (rd_status (csr_base dev)) still_busy tr \<Longrightarrow> run_outcome dev tr (- ETIME)"
| run_error: "settled 5000 (rd_status (csr_base dev)) still_busy tr v \<Longrightarrow> stopped_on_error v \<Longrightarrow>
    run_outcome dev tr 0x1E0"
| run_complete: "settled 5000 (rd_status (csr_base dev)) still_busy tr v \<Longrightarrow> \<not> stopped_on_error v \<Longrightarrow>
    run_outcome dev (tr @ Rd (csr_base dev + 4) c # stop_trace dev (c OR 0x20) u) 0"

definition sync_run_control :: "'h msgdma_dev \<Rightarrow> u32" where
  "sync_run_control dev = (dev_control dev OR 4) AND NOT 0x20 AND NOT 0x10"

lemma sync_run_trace:
  assumes "sync_run (trace_bus resp) dev ctx s = (r, s')"
  shows "cpu_status s' = ctx \<and> (\<exists>tr. hw s' = hw s @ Wr32 (csr_base dev + 4) (sync_run_control dev) # tr \<and>
    run_outcome dev tr r)"
proof -
  have m: "uint sync_error_mask = 0x1E0" by (simp add: sync_error_mask_def csr_masks)
  define s0 where "s0 = s\<lparr>hw := hw s @ [Wr32 (csr_base dev + 4) (sync_run_control dev)], cpu_status := ctx\<rparr>"
  define v where "v = resp (hw s0) (csr_base dev)"
  define s1 where "s1 = s0\<lparr>hw := hw s0 @ [Rd (csr_base dev) v]\<rparr>"
  obtain q s2 where wc: "wait_complete (trace_bus resp) dev v 0 s1 = (q, s2)" by (rule prod.exhaust)
  from loop_traces(2) [OF wc, of "hw s0"] obtain tr where s2: "s2 = s1\<lparr>hw := hw s0 @ tr\<rparr>"
    and tr: "case q of Some w \<Rightarrow> settled 5000 (rd_status (csr_base dev)) still_busy tr w
      | None \<Rightarrow> gave_up 5000 (rd_status (csr_base dev)) still_busy tr"
    by (auto simp: s1_def rd_status_def)
  have run: "sync_run (trace_bus resp) dev ctx s = (case (q, s2) of
      (None, s) \<Rightarrow> (- ETIME, printf ''time out after 5 msec while waiting for any pending transfer complete\<newline>'' [] s)
    | (Some csr_status, s) \<Rightarrow> if csr_status AND sync_error_mask \<noteq> 0 then (uint sync_error_mask, s)
        else let (v, s) = IORD_CSR_CONTROL (trace_bus resp) (csr_base dev) s;
                 control = v OR CSR_STOP_DESCRIPTORS_MASK;
                 (context, s) = alt_irq_disable_all s;
                 s = stop_and_clear (trace_bus resp) dev control s
             in (0, alt_irq_enable_all context s))"
    unfolding wc [symmetric]
    by (simp add: sync_run_def trace_IO Let_def alt_irq_enable_all_def s1_def s0_def v_def
        sync_run_control_def csr_masks)
  show ?thesis
  proof (cases q)
    case None
    with assms run tr show ?thesis by (auto simp: s2 s1_def s0_def intro: run_timeout)
  next
    case (Some w)
    show ?thesis
    proof (cases "stopped_on_error w")
      case True
      with assms run tr Some m show ?thesis by (auto simp: s2 s1_def s0_def dispatcher_status_bits intro: run_error)
    next
      case False
      then show ?thesis using assms [unfolded run] tr Some run_complete [of dev tr w]
        by (auto simp: s2 s1_def s0_def dispatcher_status_bits trace_IO disable_all_eq alt_irq_enable_all_def
            stop_and_clear_def stop_trace_def CSR_STOP_DESCRIPTORS_MASK_def Let_def)
    qed
  qed
qed

text \<open>The whole blocking transfer. The last argument tells whether the processor's interrupts are left disabled.\<close>

inductive sync_outcome ::
  "'h msgdma_dev \<Rightarrow> std_descriptor option \<Rightarrow> ext_descriptor option \<Rightarrow> access list \<Rightarrow> int \<Rightarrow> bool \<Rightarrow> bool"
  for dev sd ed where
  sync_no_room: "gave_up 5000 (rd_levels dev) (levels_full dev) tr \<Longrightarrow> sync_outcome dev sd ed tr (- ETIME) False"
| sync_conflict: "settled 5000 (rd_levels dev) (levels_full dev) tr lv \<Longrightarrow> (sd = None \<longleftrightarrow> ed = None) \<Longrightarrow>
    sync_outcome dev sd ed (tr @ stop_trace dev 0x20 v) (- EPERM) True"
| sync_refused: "settled 5000 (rd_levels dev) (levels_full dev) tr lv \<Longrightarrow> (sd = None \<longleftrightarrow> ed \<noteq> None) \<Longrightarrow>
    gave_up 5000 (rd_status (csr_base dev)) buffer_full tr' \<Longrightarrow>
    sync_outcome dev sd ed (tr @ stop_trace dev 0x20 v @ tr') (- ETIME) True"
| sync_ran: "settled 5000 (rd_levels dev) (levels_full dev) tr lv \<Longrightarrow> (sd = None \<longleftrightarrow> ed \<noteq> None) \<Longrightarrow>
    settled 5000 (rd_status (csr_base dev)) buffer_full tr' w \<Longrightarrow> run_outcome dev tr'' r \<Longrightarrow>
    sync_outcome dev sd ed (tr @ stop_trace dev 0x20 v @ tr' @ desc_words (descriptor_base dev) sd ed @
      Wr32 (csr_base dev + 4) (sync_run_control dev) # tr'') r False"

text \<open>C6: On arbitrary hardware, what a blocking transfer does is decided by what it reads. It waits until both fill
  levels are below the depth of the buffers, and returns -ETIME after 5001 readings that are not. Then it stops the
  dispatcher and clears its status; it returns -EPERM if not exactly one of the two descriptors is given, and -ETIME
  after 5001 answers that the descriptor buffer is full, in both cases with the processor's interrupts left disabled.
  Otherwise it writes the descriptor, starts the dispatcher, restores the interrupts and waits while the status is busy
  and shows no error: -ETIME after 5001 such answers; the constant 0x1E0 when the last status shows that the
  dispatcher has stopped or is in reset; and 0 exactly when it shows neither, after stopping the dispatcher again.
  There is no other access.\<close>

theorem sync_transfer_outcomes:
  "case alt_msgdma_descriptor_sync_transfer (trace_bus resp) dev sd ed s of (r, s') \<Rightarrow>
     \<exists>es masked. hw s' = hw s @ es \<and> sync_outcome dev sd ed es r masked \<and>
       cpu_status s' = (if masked then cpu_status s AND NOT 1 else cpu_status s)"
proof -
  obtain lv s0 where fl: "read_fill_levels (trace_bus resp) dev s = (lv, s0)" by (rule prod.exhaust)
  from fill_levels_trace [OF fl] obtain v where s0: "s0 = s\<lparr>hw := hw s @ rd_levels dev v\<rparr>"
    and v: "fifo_full dev lv \<longleftrightarrow> levels_full dev v" by blast
  obtain ok s1 where ws: "wait_fifo_space (trace_bus resp) dev lv 0 s0 = (ok, s1)" by (rule prod.exhaust)
  from loop_traces(1) [OF ws v, of "hw s"] obtain tr where s1: "s1 = s\<lparr>hw := hw s @ tr\<rparr>"
    and tr: "if ok then \<exists>w. settled 5000 (rd_levels dev) (levels_full dev) tr w
      else gave_up 5000 (rd_levels dev) (levels_full dev) tr" by (auto simp: s0)
  let ?s = "s1\<lparr>cpu_status := cpu_status s AND NOT 1\<rparr>"
  obtain x where x: "stop_and_clear (trace_bus resp) dev CSR_STOP_DESCRIPTORS_MASK ?s =
      ?s\<lparr>hw := hw ?s @ stop_trace dev CSR_STOP_DESCRIPTORS_MASK x\<rparr>" using stop_and_clear_trace by blast
  define t where "t = s\<lparr>hw := hw s @ tr @ stop_trace dev 0x20 x, cpu_status := cpu_status s AND NOT 1\<rparr>"
  have t: "?s\<lparr>hw := hw ?s @ stop_trace dev CSR_STOP_DESCRIPTORS_MASK x\<rparr> = t" by (simp add: s1 csr_masks t_def)
  have st: "cpu_status s1 = cpu_status s" by (simp add: s1)
  note run = sync_transfer_eq [of resp dev sd ed s, unfolded fl ws Let_def prod.case disable_all_eq st x t]
  consider (no_room) "\<not> ok" | (conflict) "ok" "sd = None \<longleftrightarrow> ed = None" | (one) "ok" "sd = None \<longleftrightarrow> ed \<noteq> None" by blast
  then show ?thesis
  proof cases
    case no_room
    with tr show ?thesis by (auto simp: run s1 intro: sync_no_room exI [of _ False])
  next
    case conflict
    with tr obtain w where "settled 5000 (rd_levels dev) (levels_full dev) tr w" by auto
    from sync_conflict [OF this conflict(2), of x] conflict show ?thesis
      by (auto simp: run descriptor_then_conflict t_def intro: exI [of _ True])
  next
    case one
    then obtain w where w: "settled 5000 (rd_levels dev) (levels_full dev) tr w" using tr by auto
    let ?then = "descriptor_then (trace_bus resp) dev sd ed writing_std writing_ext
      (sync_run (trace_bus resp) dev (cpu_status s)) t"
    show ?thesis
    proof (rule descriptor_then_one [OF one(2), of dev resp writing_std writing_ext
          "sync_run (trace_bus resp) dev (cpu_status s)" t])
      fix tr' u assume written: "settled 5000 (rd_status (csr_base dev)) buffer_full tr' u"
        "?then = sync_run (trace_bus resp) dev (cpu_status s) (t\<lparr>hw := hw t @ tr' @ desc_words (descriptor_base dev) sd ed\<rparr>)"
      obtain r s4 where sr: "sync_run (trace_bus resp) dev (cpu_status s)
          (t\<lparr>hw := hw t @ tr' @ desc_words (descriptor_base dev) sd ed\<rparr>) = (r, s4)" by (rule prod.exhaust)
      have "alt_msgdma_descriptor_sync_transfer (trace_bus resp) dev sd ed s = (r, s4)"
        unfolding run using one(1) by (simp add: written(2) sr)
      with sync_run_trace [OF sr] sync_ran [OF w one(2) written(1), where v = x] show ?thesis
        by (auto simp: t_def intro!: exI [of _ False])
    next
      fix tr' t' assume refused: "gave_up 5000 (rd_status (csr_base dev)) buffer_full tr'" "?then = (- ETIME, t')"
        "hw t' = hw t @ tr'" "cpu_status t' = cpu_status t"
      have "alt_msgdma_descriptor_sync_transfer (trace_bus resp) dev sd ed s = (- ETIME, t')"
        unfolding run using one(1) by (simp add: refused(2))
      with refused(3,4) sync_refused [OF w one(2) refused(1), where v = x] show ?thesis
        by (auto simp: t_def intro!: exI [of _ True])
    qed
  qed
qed

definition idle_dev :: "access list msgdma_dev" where
  "idle_dev = \<lparr>csr_base = 0x31000, descriptor_base = 0x31040, prefetcher_base = 0,
     descriptor_fifo_depth = 128, callback = None, callback_context = 0, dev_control = 0,
     max_byte = 4096, max_stride = 0, enhanced_features = 0, prefetcher_enable = 0\<rparr>"

lemma idle_dev_simps [simp]:
  "csr_base idle_dev = 0x31000" "descriptor_base idle_dev = 0x31040"
  "descriptor_fifo_depth idle_dev = 128" "callback idle_dev = None" "dev_control idle_dev = 0"
  by (simp_all add: idle_dev_def)

lemma write_refused:
  "fst (alt_msgdma_write_standard_descriptor (trace_bus (\<lambda>_ _. 4)) csr db d s) = - ENOSPC"
  by (simp add: alt_msgdma_write_standard_descriptor_def trace_IO csr_masks)

lemma retry_refused:
  "\<exists>s'. retry_write (trace_bus (\<lambda>_ _. 4))
      (alt_msgdma_write_standard_descriptor (trace_bus (\<lambda>_ _. 4)) csr db d) 0 s = (False, s')"
  by (cases rule: retry_write_cases [of
        "alt_msgdma_write_standard_descriptor (trace_bus (\<lambda>_ _. 4)) csr db d"
        "trace_bus (\<lambda>_ _. 4)" s])
    (auto simp: write_refused errno_defs)

text \<open>C40: A defect of the blocking transfer: called with no descriptor on idle hardware it
  returns -EPERM, and called while the dispatcher's descriptor buffer stays full it returns
  -ETIME, in both cases with the processor's interrupts, enabled before, left disabled.\<close>

theorem sync_transfer_leaves_interrupts_masked:
  "alt_irq_enabled (reset_machine h) = 1 \<and>
   (case alt_msgdma_descriptor_sync_transfer (trace_bus (\<lambda>_ _. 0)) idle_dev None None
      (reset_machine h) of (r, s') \<Rightarrow> r = - EPERM \<and> alt_irq_enabled s' = 0) \<and>
   (case alt_msgdma_standard_descriptor_sync_transfer (trace_bus (\<lambda>_ _. 4)) idle_dev d
      (reset_machine h) of (r, s') \<Rightarrow> r = - ETIME \<and> alt_irq_enabled s' = 0)"
proof (intro conjI)
  show "alt_irq_enabled (reset_machine h) = 1"
    by (simp add: alt_irq_enabled_def reset_machine_def NIOS2_STATUS_PIE_MSK_def)
  show "case alt_msgdma_descriptor_sync_transfer (trace_bus (\<lambda>_ _. 0)) idle_dev None None
      (reset_machine h) of (r, s') \<Rightarrow> r = - EPERM \<and> alt_irq_enabled s' = 0"
    by (simp add: alt_msgdma_descriptor_sync_transfer_def read_fill_levels_def trace_IO
        fifo_full_def wait_fifo_space.simps disable_all_eq stop_and_clear_def Let_def
        alt_irq_enabled_def NIOS2_STATUS_PIE_MSK_def reset_machine_def)
  show "case alt_msgdma_standard_descriptor_sync_transfer (trace_bus (\<lambda>_ _. 4)) idle_dev d
      (reset_machine h) of (r, s') \<Rightarrow> r = - ETIME \<and> alt_irq_enabled s' = 0"
  proof -
    obtain lv s0 where fl: "read_fill_levels (trace_bus (\<lambda>_ _. 4)) idle_dev (reset_machine h) = (lv, s0)"
      and lv: "\<not> fifo_full idle_dev lv" and s0: "cpu_status s0 = 1"
      by (simp add: read_fill_levels_def trace_IO fifo_full_def Let_def reset_machine_def)
    have ws: "wait_fifo_space (trace_bus (\<lambda>_ _. 4)) idle_dev lv 0 s0 = (True, s0)"
      using lv by (simp add: wait_fifo_space.simps)
    define s2 where "s2 = stop_and_clear (trace_bus (\<lambda>_ _. 4)) idle_dev CSR_STOP_DESCRIPTORS_MASK
      (s0\<lparr>cpu_status := 1 AND NOT 1\<rparr>)"
    obtain s3 where rt: "retry_write (trace_bus (\<lambda>_ _. 4)) (alt_msgdma_write_standard_descriptor
        (trace_bus (\<lambda>_ _. 4)) 0x31000 0x31040 d) 0 s2 = (False, s3)"
      using retry_refused by blast
    have "cpu_status s3 = 1 AND NOT 1"
      using retry_descriptor_frame(1) [OF rt] by (simp add: s2_def)
    then have off: "alt_irq_enabled s3 = 0" by (rule irq_masked)
    then have off': "alt_irq_enabled (printf f a s3) = 0" for f a
      by (simp add: alt_irq_enabled_def)
    show ?thesis
      unfolding alt_msgdma_standard_descriptor_sync_transfer_def
        alt_msgdma_descriptor_sync_transfer_def fl ws Let_def prod.case bool.case disable_all_eq s0
        option.case s2_def [symmetric] idle_dev_simps rt
      using off' by simp
  qed
qed

text \<open>The interrupt handler runs a registered callback once, with the processor's
  interrupts disabled and after the dispatcher's interrupt was masked and acknowledged; it then
  restores the interrupt state, whatever the callback does to it, and unmasks the dispatcher.\<close>

theorem irq_runs_callback_masked:
  assumes "callback dev = Some f" and "prefetcher_enable dev = 0"
  shows "\<exists>s1 v w. writes (hw s1) =
        writes (hw s) @ [Wr32 (csr_base dev + 4) (v AND NOT 0x10), Wr32 (csr_base dev) 0x200] \<and>
      alt_irq_enabled s1 = 0 \<and>
      hw (alt_msgdma_irq (trace_bus resp) dev s) = hw (f (callback_context dev) s1) @
        [Rd (csr_base dev + 4) w, Wr32 (csr_base dev + 4) (w OR 0x10)] \<and>
      cpu_status (alt_msgdma_irq (trace_bus resp) dev s) = cpu_status s"
proof -
  define v where "v = resp (hw s) (csr_base dev + 4)"
  define s1 where "s1 = s\<lparr>hw := hw s @ [Rd (csr_base dev + 4) v,
      Wr32 (csr_base dev + 4) (v AND NOT 0x10), Wr32 (csr_base dev) 0x200],
    cpu_status := cpu_status s AND NOT 1\<rparr>"
  have "alt_irq_enabled s1 = 0" by (rule irq_masked) (simp add: s1_def)
  moreover have "hw (alt_msgdma_irq (trace_bus resp) dev s) = hw (f (callback_context dev) s1) @
      (let w = resp (hw (f (callback_context dev) s1)) (csr_base dev + 4)
       in [Rd (csr_base dev + 4) w, Wr32 (csr_base dev + 4) (w OR 0x10)]) \<and>
    cpu_status (alt_msgdma_irq (trace_bus resp) dev s) = cpu_status s"
    by (simp add: alt_msgdma_irq_def assms trace_IO csr_masks disable_all_eq Let_def
        alt_irq_enable_all_def s1_def v_def)
  moreover have "writes (hw s1) =
      writes (hw s) @ [Wr32 (csr_base dev + 4) (v AND NOT 0x10), Wr32 (csr_base dev) 0x200]"
    by (simp add: s1_def)
  ultimately show ?thesis unfolding Let_def by blast
qed

theorem irq_runs_callback_masked_witness:
  "\<exists>s1 v w. writes (hw s1) =
      [Wr32 0x31004 (v AND NOT 0x10), Wr32 0x31000 0x200] \<and> alt_irq_enabled s1 = 0 \<and>
      hw (alt_msgdma_irq (trace_bus (\<lambda>_ _. 0x10))
          (idle_dev\<lparr>callback := Some (\<lambda>c s. s\<lparr>hw := hw s @ [Delay 7], cpu_status := 5\<rparr>)\<rparr>)
          (reset_machine [])) =
        (hw s1 @ [Delay 7]) @ [Rd 0x31004 w, Wr32 0x31004 (w OR 0x10)] \<and>
      cpu_status (alt_msgdma_irq (trace_bus (\<lambda>_ _. 0x10))
          (idle_dev\<lparr>callback := Some (\<lambda>c s. s\<lparr>hw := hw s @ [Delay 7], cpu_status := 5\<rparr>)\<rparr>)
          (reset_machine [])) = 1"
  using irq_runs_callback_masked
    [of "idle_dev\<lparr>callback := Some (\<lambda>c s. s\<lparr>hw := hw s @ [Delay 7], cpu_status := 5\<rparr>)\<rparr>"
      "\<lambda>c s. s\<lparr>hw := hw s @ [Delay 7], cpu_status := 5\<rparr>" "reset_machine []" "\<lambda>_ _. 0x10"]
  by (simp add: idle_dev_def reset_machine_def)

end
