(* ===== verification/Msgdma_Prefetcher.thy ===== *)
theory Msgdma_Prefetcher
  imports Msgdma
begin

text \<open>
  The prefetcher part of \<open>altera_msgdma.c\<close>: descriptors that live in memory and point to each
  other in a ring, the functions that build and mark such a ring, and the start of the
  prefetcher. The descriptors are a heap \<open>nodes\<close> from addresses to records; the ranges that
  \<open>alt_dcache_flush\<close> was called for are recorded in \<open>flushed\<close>. A list pointer 0 is \<open>NULL\<close>. The
  traversals end only on a ring, so they are partial.
\<close>

section \<open>Data\<close>

record pf_std_descriptor =
  pf_read_address :: u32
  pf_write_address :: u32
  pf_transfer_length :: u32
  next_desc_ptr :: u32
  bytes_transfered :: u32
  pf_status :: u16
  pf_control :: u32

record pf_ext_descriptor =
  pe_read_address_low :: u32
  pe_write_address_low :: u32
  pe_transfer_length :: u32
  next_desc_ptr_low :: u32
  pe_bytes_transfered :: u32
  pe_status :: u16
  pe_sequence_number :: u16
  pe_read_burst_count :: u8
  pe_write_burst_count :: u8
  pe_read_stride :: u16
  pe_write_stride :: u16
  pe_read_address_high :: u32
  pe_write_address_high :: u32
  next_desc_ptr_high :: u32
  pe_control :: u32

record 'd desc_mem =
  nodes :: "u32 \<Rightarrow> 'd"
  flushed :: "(u32 \<times> u32) list"

definition OWN_BY_HW_SET_MASK :: u32 where "OWN_BY_HW_SET_MASK = 0x40000000"
definition OWN_BY_HW_CLR_MASK :: u32 where "OWN_BY_HW_CLR_MASK = 0xBFFFFFFF"

text \<open>\<open>sizeof\<close> of the two packed structures.\<close>

definition pf_std_size :: u32 where "pf_std_size = 32"
definition pf_ext_size :: u32 where "pf_ext_size = 64"

definition alt_dcache_flush :: "u32 \<Rightarrow> u32 \<Rightarrow> 'd desc_mem \<Rightarrow> 'd desc_mem" where
  "alt_dcache_flush start len m = m\<lparr>flushed := flushed m @ [(start, len)]\<rparr>"

section \<open>Constructing descriptors\<close>

definition alt_msgdma_construct_prefetcher_standard_descriptor ::
  "'h msgdma_dev \<Rightarrow> u32 \<Rightarrow> u32 \<Rightarrow> u32 \<Rightarrow> u32 \<Rightarrow> u32 \<Rightarrow> pf_std_descriptor desc_mem \<Rightarrow>
     int \<times> pf_std_descriptor desc_mem" where
  "alt_msgdma_construct_prefetcher_standard_descriptor dev descriptor rd_addr wr_addr len control m =
     (if max_byte dev < len \<or> enhanced_features dev \<noteq> 0 then (- EINVAL, m)
      else let d = (nodes m descriptor)\<lparr>pf_read_address := rd_addr, pf_write_address := wr_addr,
                     pf_transfer_length := len, next_desc_ptr := descriptor,
                     pf_control := (control AND OWN_BY_HW_CLR_MASK) OR DESCRIPTOR_CONTROL_GO_MASK\<rparr>
           in (0, m\<lparr>nodes := (nodes m)(descriptor := d)\<rparr>))"

text \<open>Pointers have 32 bits, so the high word of \<open>node_addr.u64\<close> is 0.\<close>

definition alt_msgdma_construct_prefetcher_extended_descriptor ::
  "'h msgdma_dev \<Rightarrow> u32 \<Rightarrow> u32 \<Rightarrow> u32 \<Rightarrow> u32 \<Rightarrow> u32 \<Rightarrow> u32 \<Rightarrow> u32 \<Rightarrow> u16 \<Rightarrow> u8 \<Rightarrow> u8 \<Rightarrow> u16 \<Rightarrow> u16 \<Rightarrow>
     pf_ext_descriptor desc_mem \<Rightarrow> int \<times> pf_ext_descriptor desc_mem" where
  "alt_msgdma_construct_prefetcher_extended_descriptor dev descriptor rd_high rd_low wr_high wr_low
     len control seqno rd_burst wr_burst rd_stride wr_stride m =
     (if max_byte dev < len \<or> max_stride dev < ucast rd_stride \<or>
         max_stride dev < ucast wr_stride \<or> enhanced_features dev \<noteq> 1
      then (- EINVAL, m)
      else let d = (nodes m descriptor)\<lparr>pe_read_address_high := rd_high,
                     pe_read_address_low := rd_low, pe_write_address_high := wr_high,
                     pe_write_address_low := wr_low, pe_transfer_length := len,
                     pe_sequence_number := seqno, pe_read_burst_count := rd_burst,
                     pe_write_burst_count := wr_burst, pe_read_stride := rd_stride,
                     pe_write_stride := wr_stride, next_desc_ptr_low := descriptor,
                     next_desc_ptr_high := 0,
                     pe_control := (control AND OWN_BY_HW_CLR_MASK) OR DESCRIPTOR_CONTROL_GO_MASK\<rparr>
           in (0, m\<lparr>nodes := (nodes m)(descriptor := d)\<rparr>))"

definition alt_msgdma_construct_prefetcher_standard_mm_to_mm_descriptor ::
  "'h msgdma_dev \<Rightarrow> u32 \<Rightarrow> u32 \<Rightarrow> u32 \<Rightarrow> u32 \<Rightarrow> u32 \<Rightarrow> pf_std_descriptor desc_mem \<Rightarrow>
     int \<times> pf_std_descriptor desc_mem" where
  "alt_msgdma_construct_prefetcher_standard_mm_to_mm_descriptor dev descriptor rd_addr wr_addr len
     control =
     alt_msgdma_construct_prefetcher_standard_descriptor dev descriptor rd_addr wr_addr len control"

definition alt_msgdma_construct_prefetcher_standard_st_to_mm_descriptor ::
  "'h msgdma_dev \<Rightarrow> u32 \<Rightarrow> u32 \<Rightarrow> u32 \<Rightarrow> u32 \<Rightarrow> pf_std_descriptor desc_mem \<Rightarrow>
     int \<times> pf_std_descriptor desc_mem" where
  "alt_msgdma_construct_prefetcher_standard_st_to_mm_descriptor dev descriptor wr_addr len control =
     alt_msgdma_construct_prefetcher_standard_descriptor dev descriptor 0 wr_addr len control"

definition alt_msgdma_construct_prefetcher_standard_mm_to_st_descriptor ::
  "'h msgdma_dev \<Rightarrow> u32 \<Rightarrow> u32 \<Rightarrow> u32 \<Rightarrow> u32 \<Rightarrow> pf_std_descriptor desc_mem \<Rightarrow>
     int \<times> pf_std_descriptor desc_mem" where
  "alt_msgdma_construct_prefetcher_standard_mm_to_st_descriptor dev descriptor rd_addr len control =
     alt_msgdma_construct_prefetcher_standard_descriptor dev descriptor rd_addr 0 len control"

definition alt_msgdma_construct_prefetcher_extended_st_to_mm_descriptor ::
  "'h msgdma_dev \<Rightarrow> u32 \<Rightarrow> u32 \<Rightarrow> u32 \<Rightarrow> u32 \<Rightarrow> u32 \<Rightarrow> u16 \<Rightarrow> u8 \<Rightarrow> u16 \<Rightarrow>
     pf_ext_descriptor desc_mem \<Rightarrow> int \<times> pf_ext_descriptor desc_mem" where
  "alt_msgdma_construct_prefetcher_extended_st_to_mm_descriptor dev descriptor wr_high wr_low len
     control seqno wr_burst wr_stride =
     alt_msgdma_construct_prefetcher_extended_descriptor dev descriptor 0 0 wr_high wr_low len
       control seqno 0 wr_burst 0 wr_stride"

definition alt_msgdma_construct_prefetcher_extended_mm_to_st_descriptor ::
  "'h msgdma_dev \<Rightarrow> u32 \<Rightarrow> u32 \<Rightarrow> u32 \<Rightarrow> u32 \<Rightarrow> u32 \<Rightarrow> u16 \<Rightarrow> u8 \<Rightarrow> u16 \<Rightarrow>
     pf_ext_descriptor desc_mem \<Rightarrow> int \<times> pf_ext_descriptor desc_mem" where
  "alt_msgdma_construct_prefetcher_extended_mm_to_st_descriptor dev descriptor rd_high rd_low len
     control seqno rd_burst rd_stride =
     alt_msgdma_construct_prefetcher_extended_descriptor dev descriptor rd_high rd_low 0 0 len
       control seqno rd_burst 0 rd_stride 0"

definition alt_msgdma_construct_prefetcher_extended_mm_to_mm_descriptor ::
  "'h msgdma_dev \<Rightarrow> u32 \<Rightarrow> u32 \<Rightarrow> u32 \<Rightarrow> u32 \<Rightarrow> u32 \<Rightarrow> u32 \<Rightarrow> u32 \<Rightarrow> u16 \<Rightarrow> u8 \<Rightarrow> u8 \<Rightarrow> u16 \<Rightarrow> u16 \<Rightarrow>
     pf_ext_descriptor desc_mem \<Rightarrow> int \<times> pf_ext_descriptor desc_mem" where
  "alt_msgdma_construct_prefetcher_extended_mm_to_mm_descriptor dev descriptor rd_high rd_low
     wr_high wr_low len control seqno rd_burst wr_burst rd_stride wr_stride =
     alt_msgdma_construct_prefetcher_extended_descriptor dev descriptor rd_high rd_low wr_high
       wr_low len control seqno rd_burst wr_burst rd_stride wr_stride"

section \<open>Lists of descriptors\<close>

text \<open>Whether the next pointer of a descriptor is \<open>a\<close>, where it leads, and setting it.\<close>

definition std_next_is :: "pf_std_descriptor \<Rightarrow> u32 \<Rightarrow> bool" where
  "std_next_is d a \<longleftrightarrow> next_desc_ptr d = a"

definition ext_next_is :: "pf_ext_descriptor \<Rightarrow> u32 \<Rightarrow> bool" where
  "ext_next_is d a \<longleftrightarrow> next_desc_ptr_low d = a \<and> next_desc_ptr_high d = 0"

definition std_set_next :: "u32 \<Rightarrow> pf_std_descriptor \<Rightarrow> pf_std_descriptor" where
  "std_set_next a d = d\<lparr>next_desc_ptr := a\<rparr>"

definition ext_set_next :: "u32 \<Rightarrow> pf_ext_descriptor \<Rightarrow> pf_ext_descriptor" where
  "ext_set_next a d = d\<lparr>next_desc_ptr_low := a, next_desc_ptr_high := 0\<rparr>"

text \<open>
  The \<open>while\<close> loop of the two \<open>add_..._to_list\<close> functions: the last node of the list, or
  \<open>Some None\<close> for the \<open>return -EINVAL\<close> inside the loop.
\<close>

partial_function (option) find_last ::
  "('d \<Rightarrow> u32 \<Rightarrow> bool) \<Rightarrow> ('d \<Rightarrow> u32) \<Rightarrow> (u32 \<Rightarrow> 'd) \<Rightarrow> u32 \<Rightarrow> u32 \<Rightarrow> u32 \<Rightarrow> u32 option option" where
  "find_last next_is goto h root descriptor p =
     (if next_is (h p) root then Some (Some p)
      else if next_is (h p) descriptor then Some None
      else find_last next_is goto h root descriptor (goto (h p)))"

declare find_last.simps [code]

definition alt_msgdma_prefetcher_add_standard_desc_to_list ::
  "u32 \<Rightarrow> u32 \<Rightarrow> pf_std_descriptor desc_mem \<Rightarrow> (int \<times> u32 \<times> pf_std_descriptor desc_mem) option" where
  "alt_msgdma_prefetcher_add_standard_desc_to_list list descriptor m =
     (if descriptor = 0 then Some (- EINVAL, list, m)
      else if next_desc_ptr (nodes m descriptor) \<noteq> descriptor then Some (- EINVAL, list, m)
      else if list = 0 then Some (0, descriptor, m)
      else if list = descriptor then Some (- EINVAL, list, m)
      else do {
        r \<leftarrow> find_last std_next_is next_desc_ptr (nodes m) list descriptor list;
        (case r of
           None \<Rightarrow> Some (- EINVAL, list, m)
         | Some last_descr_ptr \<Rightarrow>
             let h = nodes m;
                 h = h(last_descr_ptr := std_set_next descriptor (h last_descr_ptr));
                 h = h(descriptor := std_set_next list (h descriptor))
             in Some (0, list, m\<lparr>nodes := h\<rparr>)) })"

definition alt_msgdma_prefetcher_add_extended_desc_to_list ::
  "u32 \<Rightarrow> u32 \<Rightarrow> pf_ext_descriptor desc_mem \<Rightarrow> (int \<times> u32 \<times> pf_ext_descriptor desc_mem) option" where
  "alt_msgdma_prefetcher_add_extended_desc_to_list list descriptor m =
     (if descriptor = 0 then Some (- EINVAL, list, m)
      else if next_desc_ptr_low (nodes m descriptor) \<noteq> descriptor \<or>
              next_desc_ptr_high (nodes m descriptor) \<noteq> 0 then Some (- EINVAL, list, m)
      else if list = 0 then Some (0, descriptor, m)
      else if list = descriptor then Some (- EINVAL, list, m)
      else do {
        r \<leftarrow> find_last ext_next_is next_desc_ptr_low (nodes m) list descriptor list;
        (case r of
           None \<Rightarrow> Some (- EINVAL, list, m)
         | Some last_descr_ptr \<Rightarrow>
             let h = nodes m;
                 h = h(last_descr_ptr := ext_set_next descriptor (h last_descr_ptr));
                 h = h(descriptor := ext_set_next list (h descriptor))
             in Some (0, list, m\<lparr>nodes := h\<rparr>)) })"

text \<open>The loop of the two \<open>set_..._own_by_hw_bits\<close> functions: mark every node but the last,
  counting; the result is the heap, the last node and the count.\<close>

partial_function (option) own_walk ::
  "('d \<Rightarrow> u32 \<Rightarrow> bool) \<Rightarrow> ('d \<Rightarrow> u32) \<Rightarrow> ('d \<Rightarrow> 'd) \<Rightarrow> u32 \<Rightarrow> (u32 \<Rightarrow> 'd) \<Rightarrow> u32 \<Rightarrow> u32 \<Rightarrow>
     ((u32 \<Rightarrow> 'd) \<times> u32 \<times> u32) option" where
  "own_walk next_is goto own root h p descriptor_count =
     (if next_is (h p) root then Some (h, p, descriptor_count)
      else let h = h(p := own (h p))
           in own_walk next_is goto own root h (goto (h p)) (descriptor_count + 1))"

declare own_walk.simps [code]

definition std_own :: "pf_std_descriptor \<Rightarrow> pf_std_descriptor" where
  "std_own d = d\<lparr>pf_control := pf_control d OR OWN_BY_HW_SET_MASK\<rparr>"
definition std_disown :: "pf_std_descriptor \<Rightarrow> pf_std_descriptor" where
  "std_disown d = d\<lparr>pf_control := pf_control d AND OWN_BY_HW_CLR_MASK\<rparr>"
definition ext_own :: "pf_ext_descriptor \<Rightarrow> pf_ext_descriptor" where
  "ext_own d = d\<lparr>pe_control := pe_control d OR OWN_BY_HW_SET_MASK\<rparr>"
definition ext_disown :: "pf_ext_descriptor \<Rightarrow> pf_ext_descriptor" where
  "ext_disown d = d\<lparr>pe_control := pe_control d AND OWN_BY_HW_CLR_MASK\<rparr>"

definition alt_msgdma_prefetcher_set_std_list_own_by_hw_bits ::
  "u32 \<Rightarrow> u8 \<Rightarrow> u8 \<Rightarrow> pf_std_descriptor desc_mem \<Rightarrow> (int \<times> pf_std_descriptor desc_mem) option" where
  "alt_msgdma_prefetcher_set_std_list_own_by_hw_bits list last_desc_owned_by_sw
     dcache_flush_desc_list m =
     (if list = 0 then Some (- EINVAL, m)
      else do {
        (h, last_descr_ptr, descriptor_count) \<leftarrow>
          own_walk std_next_is next_desc_ptr std_own list (nodes m) list 0;
        let h = (if last_desc_owned_by_sw \<noteq> 0
                 then h(last_descr_ptr := std_disown (h last_descr_ptr))
                 else h(last_descr_ptr := std_own (h last_descr_ptr)));
        let descriptor_count = descriptor_count + 1;
        let m = m\<lparr>nodes := h\<rparr>;
        Some (0, if dcache_flush_desc_list \<noteq> 0
                 then alt_dcache_flush list (pf_std_size * descriptor_count) m else m) })"

definition alt_msgdma_prefetcher_set_extd_list_own_by_hw_bits ::
  "u32 \<Rightarrow> u8 \<Rightarrow> u8 \<Rightarrow> pf_ext_descriptor desc_mem \<Rightarrow> (int \<times> pf_ext_descriptor desc_mem) option" where
  "alt_msgdma_prefetcher_set_extd_list_own_by_hw_bits list last_desc_owned_by_sw
     dcache_flush_desc_list m =
     (if list = 0 then Some (- EINVAL, m)
      else do {
        (h, last_descr_ptr, descriptor_count) \<leftarrow>
          own_walk ext_next_is next_desc_ptr_low ext_own list (nodes m) list 0;
        let h = (if last_desc_owned_by_sw \<noteq> 0
                 then h(last_descr_ptr := ext_disown (h last_descr_ptr))
                 else h(last_descr_ptr := ext_own (h last_descr_ptr)));
        let descriptor_count = descriptor_count + 1;
        let m = m\<lparr>nodes := h\<rparr>;
        Some (0, if dcache_flush_desc_list \<noteq> 0
                 then alt_dcache_flush list (pf_ext_size * descriptor_count) m else m) })"

section \<open>Starting the prefetcher\<close>

definition PREFETCHER_CTRL_RUN_SET_MASK :: u32 where "PREFETCHER_CTRL_RUN_SET_MASK = 0x1"
definition PREFETCHER_CTRL_DESC_POLL_EN_MASK :: u32 where "PREFETCHER_CTRL_DESC_POLL_EN_MASK = 0x2"
definition PREFETCHER_CTRL_DESC_POLL_EN_CLR_MASK :: u32 where
  "PREFETCHER_CTRL_DESC_POLL_EN_CLR_MASK = 0xFFFFFFFD"
definition PREFETCHER_CTRL_PARK_MODE_SET_MASK :: u32 where "PREFETCHER_CTRL_PARK_MODE_SET_MASK = 0x10"
definition PREFETCHER_CTRL_PARK_MODE_CLR_MASK :: u32 where
  "PREFETCHER_CTRL_PARK_MODE_CLR_MASK = 0xFFFFFFEF"

lemmas prefetcher_masks = PREFETCHER_CTRL_RUN_SET_MASK_def PREFETCHER_CTRL_DESC_POLL_EN_MASK_def
  PREFETCHER_CTRL_DESC_POLL_EN_CLR_MASK_def PREFETCHER_CTRL_PARK_MODE_SET_MASK_def
  PREFETCHER_CTRL_PARK_MODE_CLR_MASK_def

definition alt_msgdma_start_prefetcher_with_list_addr ::
  "'h bus \<Rightarrow> 'h msgdma_dev \<Rightarrow> u64 \<Rightarrow> u8 \<Rightarrow> u8 \<Rightarrow> 'h machine \<Rightarrow> int \<times> 'h machine" where
  "alt_msgdma_start_prefetcher_with_list_addr B dev list_addr park_mode_en poll_en s =
     (let (prefetcher_ctl, s) = IORD_PREFETCHER_CONTROL B (prefetcher_base dev) s
      in if prefetcher_ctl AND 0x1 \<noteq> 0 then (- EBUSY, s)
         else
           let dispatcher_ctl = CSR_STOP_DESCRIPTORS_MASK;
               (context, s) = alt_irq_disable_all s;
               s = stop_and_clear B dev dispatcher_ctl s;
               s = alt_irq_enable_all context s;
               (dispatcher_ctl, prefetcher_ctl) =
                 (case callback dev of
                    Some f \<Rightarrow>
                      ((dispatcher_ctl OR (dev_control dev OR CSR_STOP_ON_ERROR_MASK OR
                         CSR_GLOBAL_INTERRUPT_MASK)) AND NOT CSR_STOP_DESCRIPTORS_MASK,
                       prefetcher_ctl OR PREFETCHER_CTRL_GLOBAL_INTR_EN_SET_MASK)
                  | None \<Rightarrow>
                      ((dispatcher_ctl OR (dev_control dev OR CSR_STOP_ON_ERROR_MASK)) AND
                         (NOT CSR_STOP_DESCRIPTORS_MASK AND NOT CSR_GLOBAL_INTERRUPT_MASK),
                       prefetcher_ctl AND PREFETCHER_CTRL_GLOBAL_INTR_EN_CLR_MASK));
               (context, s) = alt_irq_disable_all s;
               s = IOWR_CSR_CONTROL B (csr_base dev) dispatcher_ctl s;
               s = IOWR_PREFETCHER_CONTROL B (prefetcher_base dev) prefetcher_ctl s;
               s = alt_irq_enable_all context s;
               s = IOWR_32DIRECT B (prefetcher_base dev) 0x04 (ucast list_addr) s;
               s = IOWR_32DIRECT B (prefetcher_base dev) 0x08 (ucast (drop_bit 32 list_addr)) s;
               prefetcher_ctl =
                 (if park_mode_en \<noteq> 0 then prefetcher_ctl OR PREFETCHER_CTRL_PARK_MODE_SET_MASK
                  else prefetcher_ctl AND PREFETCHER_CTRL_PARK_MODE_CLR_MASK);
               (prefetcher_ctl, s) =
                 (if poll_en \<noteq> 0
                  then let prefetcher_ctl = prefetcher_ctl OR PREFETCHER_CTRL_DESC_POLL_EN_MASK;
                           (freq, s) = IORD_32DIRECT B (prefetcher_base dev) 0x0C s
                       in (prefetcher_ctl,
                           if freq = 0 then IOWR_32DIRECT B (prefetcher_base dev) 0x0C 0xFF s else s)
                  else (prefetcher_ctl AND PREFETCHER_CTRL_DESC_POLL_EN_CLR_MASK, s));
               prefetcher_ctl = prefetcher_ctl OR PREFETCHER_CTRL_RUN_SET_MASK;
               s = IOWR_PREFETCHER_CONTROL B (prefetcher_base dev) prefetcher_ctl s
           in (0, s))"

definition alt_msgdma_start_prefetcher_with_std_desc_list ::
  "'h bus \<Rightarrow> 'h msgdma_dev \<Rightarrow> u32 \<Rightarrow> u8 \<Rightarrow> u8 \<Rightarrow> u8 \<Rightarrow> u8 \<Rightarrow> pf_std_descriptor desc_mem \<Rightarrow>
     'h machine \<Rightarrow> (int \<times> pf_std_descriptor desc_mem \<times> 'h machine) option" where
  "alt_msgdma_start_prefetcher_with_std_desc_list B dev list park_mode_en poll_en
     last_desc_owned_by_sw dcache_flush_desc_list m s = do {
     (r, m) \<leftarrow> alt_msgdma_prefetcher_set_std_list_own_by_hw_bits list last_desc_owned_by_sw
                dcache_flush_desc_list m;
     if r \<noteq> 0 then Some (- EINVAL, m, s)
     else let (r, s) = alt_msgdma_start_prefetcher_with_list_addr B dev (ucast list) park_mode_en
                         poll_en s
          in Some (r, m, s) }"

definition alt_msgdma_start_prefetcher_with_extd_desc_list ::
  "'h bus \<Rightarrow> 'h msgdma_dev \<Rightarrow> u32 \<Rightarrow> u8 \<Rightarrow> u8 \<Rightarrow> u8 \<Rightarrow> u8 \<Rightarrow> pf_ext_descriptor desc_mem \<Rightarrow>
     'h machine \<Rightarrow> (int \<times> pf_ext_descriptor desc_mem \<times> 'h machine) option" where
  "alt_msgdma_start_prefetcher_with_extd_desc_list B dev list park_mode_en poll_en
     last_desc_owned_by_sw dcache_flush_desc_list m s = do {
     (r, m) \<leftarrow> alt_msgdma_prefetcher_set_extd_list_own_by_hw_bits list last_desc_owned_by_sw
                dcache_flush_desc_list m;
     if r \<noteq> 0 then Some (- EINVAL, m, s)
     else let (r, s) = alt_msgdma_start_prefetcher_with_list_addr B dev (ucast list) park_mode_en
                         poll_en s
          in Some (r, m, s) }"

section \<open>Rings\<close>

text \<open>The abstraction of a list in memory: its nodes in order, the last leading to the first.\<close>

definition ring :: "('d \<Rightarrow> u32 \<Rightarrow> bool) \<Rightarrow> (u32 \<Rightarrow> 'd) \<Rightarrow> u32 list \<Rightarrow> bool" where
  "ring next_is h xs \<longleftrightarrow> xs \<noteq> [] \<and> distinct xs \<and> 0 \<notin> set xs \<and>
     (\<forall>i<length xs. next_is (h (xs ! i)) (xs ! (Suc i mod length xs)))"

lemma ring_hd: "ring n h xs \<Longrightarrow> hd xs \<noteq> 0 \<and> hd xs \<in> set xs"
  unfolding ring_def by (metis hd_in_set)

text \<open>What marking a list does to the heap, for both layouts.\<close>

definition marked :: "('d \<Rightarrow> 'd) \<Rightarrow> ('d \<Rightarrow> 'd) \<Rightarrow> u32 list \<Rightarrow> u8 \<Rightarrow> (u32 \<Rightarrow> 'd) \<Rightarrow> u32 \<Rightarrow> 'd" where
  "marked own disown xs last_sw h p =
     (if p \<in> set (butlast xs) then own (h p)
      else if p = last xs then (if last_sw \<noteq> 0 then disown (h p) else own (h p))
      else h p)"

text \<open>What the traversals rely on, for both descriptor layouts.\<close>

locale desc_list =
  fixes next_is :: "'d \<Rightarrow> u32 \<Rightarrow> bool" and goto :: "'d \<Rightarrow> u32"
    and set_next :: "u32 \<Rightarrow> 'd \<Rightarrow> 'd" and own :: "'d \<Rightarrow> 'd" and disown :: "'d \<Rightarrow> 'd"
  assumes next_goto: "next_is d a \<Longrightarrow> goto d = a"
    and next_set: "next_is (set_next a d) b \<longleftrightarrow> a = b"
    and next_own: "next_is (own d) a \<longleftrightarrow> next_is d a"
    and goto_own: "goto (own d) = goto d"
    and next_disown: "next_is (disown d) a \<longleftrightarrow> next_is d a"
begin

lemma next_unique: "next_is d a \<Longrightarrow> next_is d b \<Longrightarrow> a = b"
  by (metis next_goto)

lemma ring_next:
  "ring next_is h xs \<Longrightarrow> Suc i < length xs \<Longrightarrow> next_is (h (xs ! i)) (xs ! Suc i)"
proof -
  assume "ring next_is h xs" and i: "Suc i < length xs"
  then have "next_is (h (xs ! i)) (xs ! (Suc i mod length xs))"
    unfolding ring_def by (meson Suc_lessD)
  with i show ?thesis by simp
qed

lemma ring_last: "ring next_is h xs \<Longrightarrow> next_is (h (last xs)) (hd xs)"
proof -
  assume r: "ring next_is h xs"
  then have "xs \<noteq> []" and "length xs - 1 < length xs" by (auto simp: ring_def)
  with r have "next_is (h (xs ! (length xs - 1))) (xs ! (Suc (length xs - 1) mod length xs))"
    unfolding ring_def by blast
  with \<open>xs \<noteq> []\<close> show ?thesis by (simp add: last_conv_nth hd_conv_nth)
qed

lemma ring_inner:
  assumes "ring next_is h xs" and "Suc i < length xs"
  shows "\<not> next_is (h (xs ! i)) (hd xs)" and "goto (h (xs ! i)) = xs ! Suc i"
proof -
  have "xs ! Suc i \<noteq> hd xs"
    using assms by (auto simp: ring_def hd_conv_nth nth_eq_iff_index_eq)
  with ring_next [OF assms] next_unique show "\<not> next_is (h (xs ! i)) (hd xs)" by metis
  show "goto (h (xs ! i)) = xs ! Suc i" using ring_next [OF assms] next_goto by blast
qed

lemma find_last_ring:
  assumes "ring next_is h xs" and "d \<notin> set xs" and "i < length xs"
  shows "find_last next_is goto h (hd xs) d (xs ! i) = Some (Some (last xs))"
  using assms(3)
proof (induction "length xs - Suc i" arbitrary: i)
  case 0
  then have "i = length xs - 1" by simp
  then have "xs ! i = last xs" using assms(1) by (simp add: ring_def last_conv_nth)
  then show ?case using ring_last [OF assms(1)] by (subst find_last.simps) simp
next
  case (Suc k)
  then have i: "Suc i < length xs" by simp
  have "\<not> next_is (h (xs ! i)) d"
    using ring_next [OF assms(1) i] next_unique assms(2) i nth_mem by metis
  then have "find_last next_is goto h (hd xs) d (xs ! i) =
      find_last next_is goto h (hd xs) d (xs ! Suc i)"
    using ring_inner [OF assms(1) i] by (subst find_last.simps) simp
  with Suc i show ?case by simp
qed

lemma find_last_root:
  "ring next_is h xs \<Longrightarrow> d \<notin> set xs \<Longrightarrow>
     find_last next_is goto h (hd xs) d (hd xs) = Some (Some (last xs))"
  using find_last_ring [of h xs d 0] by (auto simp: ring_def hd_conv_nth)

lemma ring_append:
  assumes "ring next_is h xs" and "d \<notin> set xs" and "d \<noteq> 0"
    and h': "h' = h(last xs := set_next d (h (last xs)), d := set_next (hd xs) (h d))"
  shows "ring next_is h' (xs @ [d])"
proof -
  have ne: "xs \<noteq> []" and dist: "distinct xs" using assms(1) by (auto simp: ring_def)
  have "next_is (h' ((xs @ [d]) ! i)) ((xs @ [d]) ! (Suc i mod length (xs @ [d])))"
    if "i < length (xs @ [d])" for i
  proof -
    consider "Suc i < length xs" | "Suc i = length xs" | "i = length xs"
      using \<open>i < length (xs @ [d])\<close> by fastforce
    then show ?thesis
    proof cases
      case 1
      then have "xs ! i \<noteq> last xs" "xs ! i \<noteq> d"
        using dist ne assms(2) by (auto simp: last_conv_nth nth_eq_iff_index_eq)
      with 1 ring_next [OF assms(1) 1] show ?thesis by (simp add: h' nth_append)
    next
      case 2
      then have "xs ! i = last xs" "last xs \<noteq> d"
        using ne assms(2) by (auto simp: last_conv_nth simp flip: 2)
      with 2 show ?thesis by (simp add: h' nth_append next_set)
    next
      case 3
      with ne show ?thesis by (simp add: h' nth_append next_set hd_conv_nth)
    qed
  qed
  then show ?thesis using assms(1-3) by (simp add: ring_def)
qed

lemma own_walk_ring:
  assumes "ring next_is h xs" and "i < length xs"
  shows "own_walk next_is goto own (hd xs) h (xs ! i) c =
    Some (\<lambda>p. if p \<in> set (drop i (butlast xs)) then own (h p) else h p, last xs,
      c + of_nat (length xs - Suc i))"
  using assms
proof (induction "length xs - Suc i" arbitrary: i h c)
  case 0
  then have "i = length xs - 1" by simp
  then have "xs ! i = last xs" "drop i (butlast xs) = []"
    using 0(2) by (simp_all add: ring_def last_conv_nth)
  then show ?case using ring_last [OF 0(2)] 0 by (subst own_walk.simps) simp
next
  case (Suc k)
  then have i: "Suc i < length xs" by simp
  let ?h = "h(xs ! i := own (h (xs ! i)))"
  have r: "ring next_is ?h xs" using Suc.prems(1) by (auto simp: ring_def next_own)
  have goto: "goto (?h (xs ! i)) = xs ! Suc i"
    using ring_inner(2) [OF Suc.prems(1) i] by (simp add: goto_own)
  have "own_walk next_is goto own (hd xs) h (xs ! i) c =
      own_walk next_is goto own (hd xs) ?h (xs ! Suc i) (c + 1)"
    using ring_inner(1) [OF Suc.prems(1) i] goto by (subst own_walk.simps) (simp add: Let_def)
  also have "\<dots> = Some (\<lambda>p. if p \<in> set (drop (Suc i) (butlast xs)) then own (?h p) else ?h p,
      last xs, c + 1 + of_nat (length xs - Suc (Suc i)))"
    using Suc.hyps(2) i by (intro Suc.hyps(1) r) simp_all
  also have "\<dots> = Some (\<lambda>p. if p \<in> set (drop i (butlast xs)) then own (h p) else h p, last xs,
      c + of_nat (length xs - Suc i))"
  proof -
    have bl: "i < length (butlast xs)" and nth: "butlast xs ! i = xs ! i"
      using i by (simp_all add: nth_butlast)
    then have dr: "drop i (butlast xs) = xs ! i # drop (Suc i) (butlast xs)"
      by (metis Cons_nth_drop_Suc)
    have "distinct (drop i (butlast xs))"
      using Suc.prems(1) by (intro distinct_drop distinct_butlast) (simp add: ring_def)
    then have "xs ! i \<notin> set (drop (Suc i) (butlast xs))" by (simp add: dr)
    moreover have "length xs - Suc i = Suc (length xs - Suc (Suc i))" using i by simp
    ultimately show ?thesis by (auto simp: dr fun_eq_iff)
  qed
  finally show ?case .
qed

lemma own_walk_root:
  "ring next_is h xs \<Longrightarrow> own_walk next_is goto own (hd xs) h (hd xs) 0 =
     Some (\<lambda>p. if p \<in> set (butlast xs) then own (h p) else h p, last xs, of_nat (length xs - 1))"
  using own_walk_ring [of h xs 0 0] by (auto simp: ring_def hd_conv_nth)

lemma last_not_butlast: "ring next_is h xs \<Longrightarrow> last xs \<notin> set (butlast xs)"
  by (metis append_butlast_last_id distinct_butlast not_distinct_conv_prefix ring_def)

lemma self_in_ring:
  assumes "ring next_is h xs" and "d \<in> set xs" and "next_is (h d) d"
  shows "xs = [d]"
proof -
  from assms(2) obtain i where i: "i < length xs" "d = xs ! i" by (metis in_set_conv_nth)
  show ?thesis
  proof (cases "Suc i < length xs")
    case True
    then have "xs ! i = xs ! Suc i"
      using ring_next [OF assms(1) True] assms(3) next_unique i by metis
    with True assms(1) show ?thesis by (simp add: ring_def nth_eq_iff_index_eq)
  next
    case False
    with i have "i = length xs - 1" "xs \<noteq> []" by auto
    with i have "d = last xs" by (simp add: last_conv_nth)
    with ring_last [OF assms(1)] assms(3) next_unique have "hd xs = last xs" by metis
    with \<open>d = last xs\<close> assms(1) show ?thesis
      unfolding ring_def by (cases xs) (auto split: if_splits)
  qed
qed

lemma marked_eq:
  assumes "ring next_is h xs"
  shows "last_sw \<noteq> 0 \<Longrightarrow> (\<lambda>p. if p \<in> set (butlast xs) then own (h p) else h p)
      (last xs := disown (h (last xs))) = marked own disown xs last_sw h"
    and "last_sw = 0 \<Longrightarrow> (\<lambda>p. if p \<in> set (butlast xs) then own (h p) else h p)
      (last xs := own (h (last xs))) = marked own disown xs last_sw h"
  using last_not_butlast [OF assms] by (auto simp: marked_def fun_eq_iff)

lemma ring_of_marked: "ring next_is h xs \<Longrightarrow> ring next_is (marked own disown xs last_sw h) xs"
  by (auto simp: ring_def marked_def next_own next_disown)

end

interpretation std: desc_list std_next_is next_desc_ptr std_set_next std_own std_disown
  by unfold_locales (auto simp: std_next_is_def std_set_next_def std_own_def std_disown_def)

interpretation ext: desc_list ext_next_is next_desc_ptr_low ext_set_next ext_own ext_disown
  by unfold_locales (auto simp: ext_next_is_def ext_set_next_def ext_own_def ext_disown_def)

section \<open>Properties\<close>

text \<open>A list variable and the heap hold the nodes \<open>xs\<close> in order.\<close>

definition holds_list :: "('d \<Rightarrow> u32 \<Rightarrow> bool) \<Rightarrow> (u32 \<Rightarrow> 'd) \<Rightarrow> u32 \<Rightarrow> u32 list \<Rightarrow> bool" where
  "holds_list next_is h list xs \<longleftrightarrow>
     (if xs = [] then list = 0 else ring next_is h xs \<and> list = hd xs)"

lemma ring_singleton: "next_is (h d) d \<Longrightarrow> d \<noteq> 0 \<Longrightarrow> ring next_is h [d]"
  by (simp add: ring_def)

text \<open>C16: Adding a standard descriptor to a list always returns. A descriptor that is not
  NULL, points to itself and is not in the list is appended at the end, the list stays a ring
  and no other descriptor and no other field changes; any other call returns -EINVAL and
  changes nothing.\<close>

theorem add_standard_desc_appends:
  assumes "holds_list std_next_is (nodes m) list xs"
  shows "\<exists>r list' m'. alt_msgdma_prefetcher_add_standard_desc_to_list list d m = Some (r, list', m') \<and>
    (if d \<noteq> 0 \<and> next_desc_ptr (nodes m d) = d \<and> d \<notin> set xs
     then r = 0 \<and> holds_list std_next_is (nodes m') list' (xs @ [d]) \<and>
       (\<forall>p. std_set_next 0 (nodes m' p) = std_set_next 0 (nodes m p)) \<and>
       (\<forall>p. p \<notin> set (xs @ [d]) \<longrightarrow> nodes m' p = nodes m p)
     else r = - EINVAL \<and> list' = list \<and> m' = m)"
proof (cases "d \<noteq> 0 \<and> next_desc_ptr (nodes m d) = d")
  case False
  then show ?thesis by (auto simp: alt_msgdma_prefetcher_add_standard_desc_to_list_def)
next
  case True
  then have self: "std_next_is (nodes m d) d" by (simp add: std_next_is_def)
  show ?thesis
  proof (cases "xs = []")
    case True
    with assms \<open>d \<noteq> 0 \<and> _\<close> show ?thesis
      by (simp add: alt_msgdma_prefetcher_add_standard_desc_to_list_def holds_list_def
          ring_singleton self)
  next
    case False
    with assms have r: "ring std_next_is (nodes m) xs" and list: "list = hd xs"
      by (simp_all add: holds_list_def)
    show ?thesis
    proof (cases "d \<in> set xs")
      case True
      with std.self_in_ring [OF r True self] list \<open>d \<noteq> 0 \<and> _\<close> show ?thesis
        by (simp add: alt_msgdma_prefetcher_add_standard_desc_to_list_def)
    next
      case notin: False
      let ?h = "(nodes m)(last xs := std_set_next d (nodes m (last xs)),
        d := std_set_next (hd xs) (nodes m d))"
      have ne: "last xs \<noteq> d" "hd xs \<noteq> d" "hd xs \<noteq> 0"
        using notin False ring_hd [OF r] by auto
      then have "alt_msgdma_prefetcher_add_standard_desc_to_list list d m =
          Some (0, list, m\<lparr>nodes := ?h\<rparr>)"
        using \<open>d \<noteq> 0 \<and> _\<close> std.find_last_root [OF r notin]
        by (simp add: alt_msgdma_prefetcher_add_standard_desc_to_list_def list Let_def)
      moreover have "ring std_next_is ?h (xs @ [d])"
        using std.ring_append [OF r notin] \<open>d \<noteq> 0 \<and> _\<close> by blast
      moreover have "\<forall>p. std_set_next 0 (?h p) = std_set_next 0 (nodes m p)"
        by (simp add: std_set_next_def)
      moreover have "\<forall>p. p \<notin> set (xs @ [d]) \<longrightarrow> ?h p = nodes m p" using False by auto
      ultimately show ?thesis
        using notin \<open>d \<noteq> 0 \<and> _\<close> False by (simp add: holds_list_def list)
    qed
  qed
qed

text \<open>The same for extended descriptors, whose next pointer is a pair of words.\<close>

theorem add_extended_desc_appends:
  assumes "holds_list ext_next_is (nodes m) list xs"
  shows "\<exists>r list' m'. alt_msgdma_prefetcher_add_extended_desc_to_list list d m = Some (r, list', m') \<and>
    (if d \<noteq> 0 \<and> ext_next_is (nodes m d) d \<and> d \<notin> set xs
     then r = 0 \<and> holds_list ext_next_is (nodes m') list' (xs @ [d]) \<and>
       (\<forall>p. ext_set_next 0 (nodes m' p) = ext_set_next 0 (nodes m p)) \<and>
       (\<forall>p. p \<notin> set (xs @ [d]) \<longrightarrow> nodes m' p = nodes m p)
     else r = - EINVAL \<and> list' = list \<and> m' = m)"
proof (cases "d \<noteq> 0 \<and> ext_next_is (nodes m d) d")
  case False
  then show ?thesis
    by (auto simp: alt_msgdma_prefetcher_add_extended_desc_to_list_def ext_next_is_def)
next
  case True
  then have self: "ext_next_is (nodes m d) d" and
    low: "next_desc_ptr_low (nodes m d) = d" "next_desc_ptr_high (nodes m d) = 0"
    by (simp_all add: ext_next_is_def)
  show ?thesis
  proof (cases "xs = []")
    case True
    with assms \<open>d \<noteq> 0 \<and> _\<close> show ?thesis
      by (simp add: alt_msgdma_prefetcher_add_extended_desc_to_list_def holds_list_def
          ring_singleton self low)
  next
    case False
    with assms have r: "ring ext_next_is (nodes m) xs" and list: "list = hd xs"
      by (simp_all add: holds_list_def)
    show ?thesis
    proof (cases "d \<in> set xs")
      case True
      with ext.self_in_ring [OF r True self] list \<open>d \<noteq> 0 \<and> _\<close> show ?thesis
        by (simp add: alt_msgdma_prefetcher_add_extended_desc_to_list_def low)
    next
      case notin: False
      let ?h = "(nodes m)(last xs := ext_set_next d (nodes m (last xs)),
        d := ext_set_next (hd xs) (nodes m d))"
      have ne: "last xs \<noteq> d" "hd xs \<noteq> d" "hd xs \<noteq> 0"
        using notin False ring_hd [OF r] by auto
      then have "alt_msgdma_prefetcher_add_extended_desc_to_list list d m =
          Some (0, list, m\<lparr>nodes := ?h\<rparr>)"
        using \<open>d \<noteq> 0 \<and> _\<close> ext.find_last_root [OF r notin]
        by (simp add: alt_msgdma_prefetcher_add_extended_desc_to_list_def list low Let_def)
      moreover have "ring ext_next_is ?h (xs @ [d])"
        using ext.ring_append [OF r notin] \<open>d \<noteq> 0 \<and> _\<close> by blast
      moreover have "\<forall>p. ext_set_next 0 (?h p) = ext_set_next 0 (nodes m p)"
        by (simp add: ext_set_next_def)
      moreover have "\<forall>p. p \<notin> set (xs @ [d]) \<longrightarrow> ?h p = nodes m p" using False by auto
      ultimately show ?thesis
        using notin \<open>d \<noteq> 0 \<and> _\<close> False by (simp add: holds_list_def list)
    qed
  qed
qed

text \<open>A heap where every descriptor points to itself.\<close>

definition std_desc0 :: pf_std_descriptor where
  "std_desc0 = \<lparr>pf_read_address = 0, pf_write_address = 0, pf_transfer_length = 64,
     next_desc_ptr = 0, bytes_transfered = 0, pf_status = 0, pf_control = 0x80000000\<rparr>"

definition ext_desc0 :: pf_ext_descriptor where
  "ext_desc0 = \<lparr>pe_read_address_low = 0, pe_write_address_low = 0, pe_transfer_length = 64,
     next_desc_ptr_low = 0, pe_bytes_transfered = 0, pe_status = 0, pe_sequence_number = 0,
     pe_read_burst_count = 0, pe_write_burst_count = 0, pe_read_stride = 0, pe_write_stride = 0,
     pe_read_address_high = 0, pe_write_address_high = 0, next_desc_ptr_high = 0,
     pe_control = 0x80000000\<rparr>"

definition std_mem0 :: "pf_std_descriptor desc_mem" where
  "std_mem0 = \<lparr>nodes = (\<lambda>p. std_set_next p std_desc0), flushed = []\<rparr>"

definition ext_mem0 :: "pf_ext_descriptor desc_mem" where
  "ext_mem0 = \<lparr>nodes = (\<lambda>p. ext_set_next p ext_desc0), flushed = []\<rparr>"

lemma mem0_list:
  "holds_list std_next_is (nodes std_mem0) 0x1000 [0x1000]"
  "holds_list ext_next_is (nodes ext_mem0) 0x1000 [0x1000]"
  by (simp_all add: holds_list_def ring_def std_mem0_def ext_mem0_def std_next_is_def
      ext_next_is_def std_set_next_def ext_set_next_def)

theorem add_standard_desc_appends_witness:
  "\<exists>list' m'. alt_msgdma_prefetcher_add_standard_desc_to_list 0x1000 0x2000 std_mem0 =
      Some (0, list', m') \<and> holds_list std_next_is (nodes m') list' [0x1000, 0x2000]"
  using add_standard_desc_appends [OF mem0_list(1), of "0x2000"]
  by (auto simp: std_mem0_def std_set_next_def)

theorem add_extended_desc_appends_witness:
  "\<exists>list' m'. alt_msgdma_prefetcher_add_extended_desc_to_list 0x1000 0x2000 ext_mem0 =
      Some (0, list', m') \<and> holds_list ext_next_is (nodes m') list' [0x1000, 0x2000]"
  using add_extended_desc_appends [OF mem0_list(2), of "0x2000"]
  by (auto simp: ext_mem0_def ext_set_next_def ext_next_is_def)

lemma count_nodes: "xs \<noteq> [] \<Longrightarrow> of_nat (length xs - Suc 0) + 1 = (of_nat (length xs) :: u32)"
  by (cases xs) simp_all

text \<open>Marking a list of standard descriptors always returns 0; it hands every descriptor but
  the last to the hardware, and the last to the hardware or the software as asked, changes no
  other bit, node or link, and asks for one cache flush of as many descriptors as the list has
  from the first one on, when a flush is wanted.\<close>

theorem set_std_list_own_marks:
  assumes "ring std_next_is (nodes m) xs"
  shows "alt_msgdma_prefetcher_set_std_list_own_by_hw_bits (hd xs) last_sw flush m =
      Some (0, m\<lparr>nodes := marked std_own std_disown xs last_sw (nodes m),
        flushed := flushed m @ (if flush \<noteq> 0 then [(hd xs, 32 * of_nat (length xs))] else [])\<rparr>) \<and>
    ring std_next_is (marked std_own std_disown xs last_sw (nodes m)) xs"
proof
  have ne: "xs \<noteq> []" using assms by (simp add: ring_def)
  show "alt_msgdma_prefetcher_set_std_list_own_by_hw_bits (hd xs) last_sw flush m =
      Some (0, m\<lparr>nodes := marked std_own std_disown xs last_sw (nodes m),
        flushed := flushed m @ (if flush \<noteq> 0 then [(hd xs, 32 * of_nat (length xs))] else [])\<rparr>)"
    unfolding alt_msgdma_prefetcher_set_std_list_own_by_hw_bits_def
      std.own_walk_root [OF assms] Let_def
    using ring_hd [OF assms] std.last_not_butlast [OF assms] count_nodes [OF ne]
    by (simp add: std.marked_eq [OF assms] alt_dcache_flush_def pf_std_size_def)
  show "ring std_next_is (marked std_own std_disown xs last_sw (nodes m)) xs"
    by (rule std.ring_of_marked [OF assms])
qed

theorem set_std_list_own_marks_witness:
  "\<exists>m'. alt_msgdma_prefetcher_set_std_list_own_by_hw_bits 0x1000 1 1 std_mem0 = Some (0, m') \<and>
    flushed m' = [(0x1000, 32)]"
  using set_std_list_own_marks [of std_mem0 "[0x1000]" 1 1] mem0_list(1)
  by (simp add: holds_list_def std_mem0_def)

text \<open>The same for extended descriptors of 64 bytes.\<close>

theorem set_extd_list_own_marks:
  assumes "ring ext_next_is (nodes m) xs"
  shows "alt_msgdma_prefetcher_set_extd_list_own_by_hw_bits (hd xs) last_sw flush m =
      Some (0, m\<lparr>nodes := marked ext_own ext_disown xs last_sw (nodes m),
        flushed := flushed m @ (if flush \<noteq> 0 then [(hd xs, 64 * of_nat (length xs))] else [])\<rparr>) \<and>
    ring ext_next_is (marked ext_own ext_disown xs last_sw (nodes m)) xs"
proof
  have ne: "xs \<noteq> []" using assms by (simp add: ring_def)
  show "alt_msgdma_prefetcher_set_extd_list_own_by_hw_bits (hd xs) last_sw flush m =
      Some (0, m\<lparr>nodes := marked ext_own ext_disown xs last_sw (nodes m),
        flushed := flushed m @ (if flush \<noteq> 0 then [(hd xs, 64 * of_nat (length xs))] else [])\<rparr>)"
    unfolding alt_msgdma_prefetcher_set_extd_list_own_by_hw_bits_def
      ext.own_walk_root [OF assms] Let_def
    using ring_hd [OF assms] ext.last_not_butlast [OF assms] count_nodes [OF ne]
    by (simp add: ext.marked_eq [OF assms] alt_dcache_flush_def pf_ext_size_def)
  show "ring ext_next_is (marked ext_own ext_disown xs last_sw (nodes m)) xs"
    by (rule ext.ring_of_marked [OF assms])
qed

theorem set_extd_list_own_marks_witness:
  "\<exists>m'. alt_msgdma_prefetcher_set_extd_list_own_by_hw_bits 0x1000 0 1 ext_mem0 = Some (0, m') \<and>
    flushed m' = [(0x1000, 64)]"
  using set_extd_list_own_marks [of ext_mem0 "[0x1000]" 0 1] mem0_list(2)
  by (simp add: holds_list_def ext_mem0_def)

definition scattered_mem :: "pf_std_descriptor desc_mem" where
  "scattered_mem = \<lparr>nodes = (\<lambda>p. std_set_next (if p = 0x1000 then 0x2000 else 0x1000) std_desc0),
     flushed = []\<rparr>"

text \<open>A defect of the list marking: the flush covers one contiguous range from the first
  descriptor, so a descriptor of the list that lies elsewhere is handed to the hardware with
  its new ownership bit only in the data cache.\<close>

theorem set_std_list_own_flush_misses_node:
  "\<exists>m'. alt_msgdma_prefetcher_set_std_list_own_by_hw_bits 0x1000 0 1 scattered_mem = Some (0, m') \<and>
     pf_control (nodes m' 0x2000) \<noteq> pf_control (nodes scattered_mem 0x2000) \<and>
     flushed m' = [(0x1000, 64)]"
proof -
  have r: "ring std_next_is (nodes scattered_mem) [0x1000, 0x2000]"
    by (auto simp: ring_def scattered_mem_def std_next_is_def std_set_next_def less_Suc_eq)
  note s = std.own_walk_root [OF r]
  show ?thesis
    using s by (simp add: alt_msgdma_prefetcher_set_std_list_own_by_hw_bits_def Let_def
        alt_dcache_flush_def pf_std_size_def std_own_def OWN_BY_HW_SET_MASK_def)
      (simp add: scattered_mem_def std_desc0_def std_set_next_def)
qed

lemma and_1_bit: "(x :: u32) AND 1 = 0 \<longleftrightarrow> \<not> bit x 0"
  by (simp add: and_one_eq bit_0 even_iff_mod_2_eq_zero)

text \<open>The bits of a control word after a flag was set or cleared.\<close>

lemma ctl_bits:
  fixes x :: u32
  assumes "i < 32"
  shows "bit (x OR 0x1) i \<longleftrightarrow> i = 0 \<or> bit x i" "bit (x OR 0x2) i \<longleftrightarrow> i = 1 \<or> bit x i"
    "bit (x OR 0x8) i \<longleftrightarrow> i = 3 \<or> bit x i" "bit (x OR 0x10) i \<longleftrightarrow> i = 4 \<or> bit x i"
    "bit (x AND 0xFFFFFFFD) i \<longleftrightarrow> i \<noteq> 1 \<and> bit x i" "bit (x AND 0xFFFFFFF7) i \<longleftrightarrow> i \<noteq> 3 \<and> bit x i"
    "bit (x AND 0xFFFFFFEF) i \<longleftrightarrow> i \<noteq> 4 \<and> bit x i"
proof -
  have set: "bit (x OR 2 ^ k) i \<longleftrightarrow> i = k \<or> bit x i" and clear: "bit (x AND NOT (2 ^ k)) i \<longleftrightarrow> i \<noteq> k \<and> bit x i"
    for k
    using assms by (auto simp: bit_or_iff bit_and_iff bit_not_iff bit_exp_iff)
  show "bit (x OR 0x1) i \<longleftrightarrow> i = 0 \<or> bit x i" using set [of 0] by simp
  show "bit (x OR 0x2) i \<longleftrightarrow> i = 1 \<or> bit x i" using set [of 1] by simp
  show "bit (x OR 0x8) i \<longleftrightarrow> i = 3 \<or> bit x i" using set [of 3] by simp
  show "bit (x OR 0x10) i \<longleftrightarrow> i = 4 \<or> bit x i" using set [of 4] by simp
  have e: "(0xFFFFFFFD :: u32) = NOT (2 ^ 1)" "(0xFFFFFFF7 :: u32) = NOT (2 ^ 3)" "(0xFFFFFFEF :: u32) = NOT (2 ^ 4)"
    by simp_all
  show "bit (x AND 0xFFFFFFFD) i \<longleftrightarrow> i \<noteq> 1 \<and> bit x i" "bit (x AND 0xFFFFFFF7) i \<longleftrightarrow> i \<noteq> 3 \<and> bit x i"
    "bit (x AND 0xFFFFFFEF) i \<longleftrightarrow> i \<noteq> 4 \<and> bit x i"
    unfolding e by (rule clear)+
qed

text \<open>The control words that are written.\<close>

definition prefetcher_ready :: "'h msgdma_dev \<Rightarrow> u32 \<Rightarrow> u32 \<Rightarrow> bool" where
  "prefetcher_ready dev p0 c \<longleftrightarrow> (\<forall>i<32. bit c i \<longleftrightarrow> (if i = 3 then callback dev \<noteq> None else bit p0 i))"

definition prefetcher_running :: "u8 \<Rightarrow> u8 \<Rightarrow> u32 \<Rightarrow> u32 \<Rightarrow> bool" where
  "prefetcher_running park poll c0 c \<longleftrightarrow> (\<forall>i<32. bit c i \<longleftrightarrow>
     (if i = 0 then True else if i = 1 then poll \<noteq> 0 else if i = 4 then park \<noteq> 0 else bit c0 i))"

text \<open>What is read and written about polling.\<close>

definition period_trace :: "'h msgdma_dev \<Rightarrow> u8 \<Rightarrow> u32 \<Rightarrow> access list" where
  "period_trace dev poll period = (if poll = 0 then [] else Rd (prefetcher_base dev + 12) period #
     (if period = 0 then [Wr32 (prefetcher_base dev + 12) 0xFF] else []))"

text \<open>The accesses and the result, as a relation.\<close>

inductive start_outcome :: "'h msgdma_dev \<Rightarrow> u64 \<Rightarrow> u8 \<Rightarrow> u8 \<Rightarrow> access list \<Rightarrow> int \<Rightarrow> bool"
  for dev list_addr park poll where
  start_busy: "bit p0 0 \<Longrightarrow> start_outcome dev list_addr park poll [Rd (prefetcher_base dev) p0] (- EBUSY)"
| start_done: "\<not> bit p0 0 \<Longrightarrow> prefetcher_ready dev p0 c0 \<Longrightarrow> prefetcher_running park poll c0 c1 \<Longrightarrow>
    start_outcome dev list_addr park poll (Rd (prefetcher_base dev) p0 # stop_trace dev 0x20 v @
      [Wr32 (csr_base dev + 4) (async_run_control dev), Wr32 (prefetcher_base dev) c0,
       Wr32 (prefetcher_base dev + 4) (ucast list_addr),
       Wr32 (prefetcher_base dev + 8) (ucast (drop_bit 32 list_addr))] @
      period_trace dev poll period @ [Wr32 (prefetcher_base dev) c1]) 0"

text \<open>C30: Starting the prefetcher on arbitrary hardware, with every access in its order. If the run bit is set the call
  returns -EBUSY after this one reading. Otherwise it returns 0: it stops the dispatcher, clears its status and starts
  it; writes the prefetcher's control word with the interrupt enabled exactly when there is a callback and the other
  bits, so the run bit, as they were; stores the 64-bit list address; when polling is wanted reads the polling period,
  and sets it to 0xFF exactly when it was 0; and writes the control word again, with the run bit set, the poll and park
  bits as asked and the other bits unchanged. The processor's interrupt state is as before.\<close>

theorem start_prefetcher_protocol:
  "case alt_msgdma_start_prefetcher_with_list_addr (trace_bus resp) dev list_addr park poll s of
     (r, s') \<Rightarrow> cpu_status s' = cpu_status s \<and>
       (\<exists>es. hw s' = hw s @ es \<and> start_outcome dev list_addr park poll es r)"
proof -
  define p0 where "p0 = resp (hw s) (prefetcher_base dev)"
  show ?thesis
  proof (cases "bit p0 0")
    case True
    from start_busy [of p0 dev list_addr park poll, OF True] True show ?thesis
      by (simp add: alt_msgdma_start_prefetcher_with_list_addr_def trace_IO and_1_bit p0_def)
  next
    case False
    define c0 where "c0 = (if callback dev = None then p0 AND 0xFFFFFFF7 else p0 OR 0x8)"
    define c where "c = (if park \<noteq> 0 then c0 OR 0x10 else c0 AND 0xFFFFFFEF)"
    define c1 where "c1 = (if poll \<noteq> 0 then c OR 0x2 else c AND 0xFFFFFFFD) OR 0x1"
    have ready: "prefetcher_ready dev p0 c0" by (simp add: prefetcher_ready_def c0_def ctl_bits)
    have running: "prefetcher_running park poll c0 c1"
      by (auto simp: prefetcher_running_def c1_def c_def ctl_bits)
    have start: "(case callback dev of
        Some f \<Rightarrow> ((CSR_STOP_DESCRIPTORS_MASK OR (dev_control dev OR CSR_STOP_ON_ERROR_MASK OR
            CSR_GLOBAL_INTERRUPT_MASK)) AND NOT CSR_STOP_DESCRIPTORS_MASK,
          p0 OR PREFETCHER_CTRL_GLOBAL_INTR_EN_SET_MASK)
      | None \<Rightarrow> ((CSR_STOP_DESCRIPTORS_MASK OR (dev_control dev OR CSR_STOP_ON_ERROR_MASK)) AND
          (NOT CSR_STOP_DESCRIPTORS_MASK AND NOT CSR_GLOBAL_INTERRUPT_MASK),
          p0 AND PREFETCHER_CTRL_GLOBAL_INTR_EN_CLR_MASK)) = (async_run_control dev, c0)"
      by (simp add: c0_def csr_masks async_run_control_eq(1) async_run_control_def split: option.split)
    define v where "v = resp (hw s @ [Rd (prefetcher_base dev) p0, Wr32 (csr_base dev + 4) 0x20]) (csr_base dev)"
    define h where "h = hw s @ Rd (prefetcher_base dev) p0 # stop_trace dev 0x20 v @
      [Wr32 (csr_base dev + 4) (async_run_control dev),
      Wr32 (prefetcher_base dev) c0, Wr32 (prefetcher_base dev + 4) (ucast list_addr),
      Wr32 (prefetcher_base dev + 8) (ucast (drop_bit 32 list_addr))]"
    define period where "period = resp h (prefetcher_base dev + 12)"
    have "alt_msgdma_start_prefetcher_with_list_addr (trace_bus resp) dev list_addr park poll s =
        (0, s\<lparr>hw := h @ period_trace dev poll period @ [Wr32 (prefetcher_base dev) c1]\<rparr>)"
      using False unfolding alt_msgdma_start_prefetcher_with_list_addr_def trace_IO Let_def prod.case
        add_0_right p0_def [symmetric] start
      by (simp add: trace_IO and_1_bit disable_all_eq alt_irq_enable_all_def stop_and_clear_def stop_trace_def
          CSR_STOP_DESCRIPTORS_MASK_def prefetcher_masks period_trace_def period_def h_def v_def c1_def c_def)
    with start_done [OF False ready running, of list_addr v period] show ?thesis by (simp add: h_def)
  qed
qed

end
