(* ===== verification/Hal_Llist.thy ===== *)
theory Hal_Llist
  imports Npu_Prelude
begin

text \<open>
  The doubly linked lists of the HAL, \<open>HAL/inc/sys/alt_llist.h\<close>: circular through a head
  element. The list elements are addresses; their \<open>next\<close> and \<open>previous\<close> members are a heap.
\<close>

record llist_mem =
  l_next :: "u32 \<Rightarrow> u32"
  l_prev :: "u32 \<Rightarrow> u32"

definition alt_llist_insert :: "u32 \<Rightarrow> u32 \<Rightarrow> llist_mem \<Rightarrow> llist_mem" where
  "alt_llist_insert list entry m =
     (let m = m\<lparr>l_prev := (l_prev m)(entry := list)\<rparr>;
          m = m\<lparr>l_next := (l_next m)(entry := l_next m list)\<rparr>;
          m = m\<lparr>l_prev := (l_prev m)(l_next m list := entry)\<rparr>
      in m\<lparr>l_next := (l_next m)(list := entry)\<rparr>)"

definition alt_llist_remove :: "u32 \<Rightarrow> llist_mem \<Rightarrow> llist_mem" where
  "alt_llist_remove entry m =
     (let m = m\<lparr>l_prev := (l_prev m)(l_next m entry := l_prev m entry)\<rparr>;
          m = m\<lparr>l_next := (l_next m)(l_prev m entry := l_next m entry)\<rparr>;
          m = m\<lparr>l_prev := (l_prev m)(entry := entry)\<rparr>
      in m\<lparr>l_next := (l_next m)(entry := entry)\<rparr>)"

section \<open>Abstraction\<close>

text \<open>From \<open>p\<close> the elements \<open>xs\<close> lead to \<open>q\<close>, and back.\<close>

fun links :: "llist_mem \<Rightarrow> u32 \<Rightarrow> u32 list \<Rightarrow> u32 \<Rightarrow> bool" where
  "links m p [] q \<longleftrightarrow> l_next m p = q \<and> l_prev m q = p"
| "links m p (x # xs) q \<longleftrightarrow> l_next m p = x \<and> l_prev m x = p \<and> links m x xs q"

definition dll :: "llist_mem \<Rightarrow> u32 \<Rightarrow> u32 list \<Rightarrow> bool" where
  "dll m head xs \<longleftrightarrow> distinct (head # xs) \<and> links m head xs head"

lemma links_append: "links m p (xs @ y # ys) q \<longleftrightarrow> links m p xs y \<and> links m y ys q"
  by (induction xs arbitrary: p) auto

lemma links_frame:
  "links m p xs q \<Longrightarrow> \<forall>a\<in>set (p # xs). l_next m' a = l_next m a \<Longrightarrow>
     \<forall>a\<in>set (xs @ [q]). l_prev m' a = l_prev m a \<Longrightarrow> links m' p xs q"
  by (induction xs arbitrary: p) auto

lemma links_ends:
  "links m p xs q \<Longrightarrow> l_prev m q = last (p # xs) \<and> l_next m (last (p # xs)) = q \<and>
     l_next m p = hd (xs @ [q])"
proof (induction xs arbitrary: p)
  case (Cons x xs)
  then have "links m x xs q" by simp
  from Cons.IH [OF this] have "l_prev m q = last (x # xs)" "l_next m (last (x # xs)) = q" by blast+
  moreover have "last (p # x # xs) = last (x # xs)" by simp
  moreover have "l_next m p = hd ((x # xs) @ [q])" using Cons.prems by simp
  ultimately show ?case by metis
qed simp

text \<open>The fields after an insertion and a removal.\<close>

lemma insert_fields:
  assumes "list \<noteq> entry"
  shows "l_next (alt_llist_insert list entry m) = (l_next m)(entry := l_next m list, list := entry)"
    and "l_prev (alt_llist_insert list entry m) =
      (l_prev m)(entry := list, l_next m list := entry)"
proof -
  define m1 where "m1 = m\<lparr>l_prev := (l_prev m)(entry := list)\<rparr>"
  define m2 where "m2 = m1\<lparr>l_next := (l_next m1)(entry := l_next m1 list)\<rparr>"
  define m3 where "m3 = m2\<lparr>l_prev := (l_prev m2)(l_next m2 list := entry)\<rparr>"
  have m: "alt_llist_insert list entry m = m3\<lparr>l_next := (l_next m3)(list := entry)\<rparr>"
    by (simp only: alt_llist_insert_def Let_def m1_def m2_def m3_def)
  have 1: "l_next m1 = l_next m" "l_prev m1 = (l_prev m)(entry := list)" by (simp_all add: m1_def)
  have 2: "l_next m2 = (l_next m)(entry := l_next m list)" "l_prev m2 = l_prev m1"
    by (simp_all add: m2_def 1)
  have 3: "l_next m3 = l_next m2" "l_prev m3 = (l_prev m1)(l_next m list := entry)"
    using assms by (simp_all add: m3_def 2)
  show "l_next (alt_llist_insert list entry m) = (l_next m)(entry := l_next m list, list := entry)"
    by (simp add: m 3 2)
  show "l_prev (alt_llist_insert list entry m) =
      (l_prev m)(entry := list, l_next m list := entry)"
    by (simp add: m 3 1)
qed

lemma dll_insert:
  assumes "dll m head xs" and "e \<noteq> head" and "e \<notin> set xs"
  shows "dll (alt_llist_insert head e m) head (e # xs)"
proof (cases xs)
  case Nil
  with assms show ?thesis by (simp add: dll_def insert_fields)
next
  case (Cons x ys)
  with assms have l: "l_next m head = x" "links m x ys head" by (simp_all add: dll_def)
  have "links (alt_llist_insert head e m) x ys head"
    using assms Cons by (intro links_frame [OF l(2)]) (auto simp: insert_fields dll_def l(1))
  with assms Cons l show ?thesis by (auto simp: dll_def insert_fields)
qed

text \<open>An insertion into one list leaves another one alone.\<close>

lemma dll_insert_other:
  assumes "dll m head xs" and "dll m head' ys" and "set (head # xs) \<inter> set (head' # ys) = {}"
    and "e \<notin> set (head # xs)" and "e \<noteq> head'"
  shows "dll (alt_llist_insert head' e m) head xs"
proof -
  have n: "l_next m head' = hd (ys @ [head'])" using links_ends assms(2) by (fastforce simp: dll_def)
  have "l_next m head' \<in> set (head' # ys)" unfolding n by (cases ys) auto
  then have "l_next m head' \<notin> set (head # xs)" using assms(3) by blast
  with assms show ?thesis unfolding dll_def
    by (auto intro!: links_frame [of m head xs head] simp: insert_fields)
qed

lemma remove_fields:
  assumes "l_prev m e = p" "l_next m e = n" "p \<noteq> e" "n \<noteq> e"
  shows "l_next (alt_llist_remove e m) = (l_next m)(p := n, e := e)"
    and "l_prev (alt_llist_remove e m) = (l_prev m)(n := p, e := e)"
proof -
  define m1 where "m1 = m\<lparr>l_prev := (l_prev m)(l_next m e := l_prev m e)\<rparr>"
  define m2 where "m2 = m1\<lparr>l_next := (l_next m1)(l_prev m1 e := l_next m1 e)\<rparr>"
  define m3 where "m3 = m2\<lparr>l_prev := (l_prev m2)(e := e)\<rparr>"
  have m: "alt_llist_remove e m = m3\<lparr>l_next := (l_next m3)(e := e)\<rparr>"
    by (simp only: alt_llist_remove_def Let_def m1_def m2_def m3_def)
  have 1: "l_next m1 = l_next m" "l_prev m1 = (l_prev m)(n := p)" by (simp_all add: m1_def assms)
  have 2: "l_next m2 = (l_next m)(p := n)" "l_prev m2 = l_prev m1"
    using assms by (simp_all add: m2_def 1)
  have 3: "l_next m3 = l_next m2" "l_prev m3 = (l_prev m1)(e := e)"
    by (simp_all add: m3_def 2)
  show "l_next (alt_llist_remove e m) = (l_next m)(p := n, e := e)" by (simp add: m 3 2)
  show "l_prev (alt_llist_remove e m) = (l_prev m)(n := p, e := e)" by (simp add: m 3 1)
qed

lemma links_remove:
  assumes "links m a xs e" and "links m e ys b"
    and "distinct (xs @ e # ys)" and "a \<notin> set (xs @ e # ys)" and "b \<notin> set (xs @ e # ys)"
  shows "links (alt_llist_remove e m) a (xs @ ys) b"
proof -
  define p where "p = l_prev m e"
  define n where "n = l_next m e"
  have p: "p = last (a # xs)" and n: "n = hd (ys @ [b])"
    using links_ends [OF assms(1)] links_ends [OF assms(2)] by (simp_all add: p_def n_def)
  have pe: "p \<noteq> e" and ne: "n \<noteq> e"
    using assms(3-5) by (auto simp: p n hd_append split: if_splits dest: last_in_set hd_in_set)
  note f = remove_fields [OF p_def [symmetric] n_def [symmetric] pe ne]
  show ?thesis
    using assms(1,3,4,5) p
  proof (induction xs arbitrary: a)
    case Nil
    then have "p = a" by simp
    show ?case
    proof (cases ys)
      case Nil': Nil
      with n have "n = b" by simp
      moreover have "a \<noteq> e" "b \<noteq> e" using Nil.prems assms(5) by auto
      ultimately show ?thesis unfolding Nil' using \<open>p = a\<close> by (simp add: f)
    next
      case (Cons y zs)
      with n have "n = y" by simp
      have "links m y zs b" using assms(2) Cons by simp
      then have "links (alt_llist_remove e m) y zs b"
        by (rule links_frame) (use Cons Nil.prems assms(5) \<open>p = a\<close> \<open>n = y\<close> in \<open>auto simp: f fun_upd_apply\<close>)
      moreover have "a \<noteq> e" "y \<noteq> e" using Cons Nil.prems by auto
      ultimately show ?thesis using \<open>p = a\<close> \<open>n = y\<close> Cons by (simp add: f)
    qed
  next
    case (Cons x xs)
    then have "links (alt_llist_remove e m) x (xs @ ys) b" by (intro Cons.IH) auto
    moreover have "p \<noteq> a" using Cons.prems by (auto dest: last_in_set split: if_splits)
    moreover have "n \<noteq> x" using n Cons.prems by (auto simp: hd_append split: if_splits dest: hd_in_set)
    ultimately show ?case using Cons.prems by (auto simp: f)
  qed
qed

lemma dll_remove:
  assumes "dll m head (xs @ e # ys)"
  shows "dll (alt_llist_remove e m) head (xs @ ys)"
    and "l_next (alt_llist_remove e m) e = e" and "l_prev (alt_llist_remove e m) e = e"
proof -
  from assms have "links m head xs e" "links m e ys head" "distinct (xs @ e # ys)"
    "head \<notin> set (xs @ e # ys)" by (auto simp: dll_def links_append)
  from links_remove [OF this(1-4) this(4)] this show "dll (alt_llist_remove e m) head (xs @ ys)"
    by (auto simp: dll_def)
qed (simp_all add: alt_llist_remove_def Let_def)

text \<open>An element that was removed points to itself, so removing it again is harmless.\<close>

lemma remove_unlinked: "l_next m e = e \<Longrightarrow> l_prev m e = e \<Longrightarrow> alt_llist_remove e m = m"
  by (cases m) (auto simp: alt_llist_remove_def Let_def fun_upd_idem)

lemma dll_member_split: "e \<in> set xs \<Longrightarrow> \<exists>ys zs. xs = ys @ e # zs"
  by (rule split_list)

text \<open>Walking the list.\<close>

lemma dll_next_head: "dll m head xs \<Longrightarrow> l_next m head = hd (xs @ [head])"
  using links_ends by (fastforce simp: dll_def)

lemma dll_next:
  "dll m head (xs @ e # ys) \<Longrightarrow> l_next m e = hd (ys @ [head]) \<and> e \<noteq> head"
  using links_ends [of m e ys head] by (auto simp: dll_def links_append)

section \<open>Properties\<close>

text \<open>Insertion puts a new element at the front and keeps a well-formed circular list.\<close>

theorem llist_insert_front:
  assumes "dll m head xs" and "e \<noteq> head" and "e \<notin> set xs"
  shows "dll (alt_llist_insert head e m) head (e # xs)"
  by (rule dll_insert [OF assms])

theorem llist_insert_front_witness:
  "dll (alt_llist_insert 8 16 \<lparr>l_next = id, l_prev = id\<rparr>) 8 [16]"
  by (rule llist_insert_front) (simp_all add: dll_def)

text \<open>Removal takes exactly one element out of a list wherever it is, keeps the others in
  order, and may be repeated: a second removal of the same element changes nothing.\<close>

theorem llist_remove_any:
  assumes "dll m head (xs @ e # ys)"
  shows "dll (alt_llist_remove e m) head (xs @ ys) \<and>
    alt_llist_remove e (alt_llist_remove e m) = alt_llist_remove e m"
  using dll_remove [OF assms] remove_unlinked by blast

theorem llist_remove_any_witness:
  "dll (alt_llist_remove 16 (alt_llist_insert 8 16 \<lparr>l_next = id, l_prev = id\<rparr>)) 8 []"
  using llist_remove_any [of "alt_llist_insert 8 16 \<lparr>l_next = id, l_prev = id\<rparr>" 8 "[]" 16 "[]"]
  by (simp add: dll_def alt_llist_insert_def Let_def)

end
