(* ===== verification/Hal_Alarm.thy ===== *)
theory Hal_Alarm
  imports Soc_Bus Hal_Llist
begin

text \<open>
  The system clock of the HAL: \<open>alt_alarm_start.c\<close>, \<open>alt_tick.c\<close>, \<open>sys/alt_alarm.h\<close> and the
  interval timer driver \<open>altera_avalon_timer_sc.c\<close>. The abstract specification is a list of
  countdown timers; the code keeps absolute 32-bit times with a roll-over flag, and the
  refinement shows that both count the same ticks, also across the roll-over.
\<close>

section \<open>State\<close>

text \<open>
  The globals and the members of every \<open>alt_alarm\<close> by its address, which is also the address
  of its list element (the first member). \<open>alt_alarm_list\<close> is the address of the list head.
\<close>

record alarms =
  alt_alarm_list :: u32
  al_llist :: llist_mem
  al_time :: "u32 \<Rightarrow> u32"
  al_callback :: "u32 \<Rightarrow> u32"
  al_rollover :: "u32 \<Rightarrow> u8"
  al_context :: "u32 \<Rightarrow> u32"
  alt_tick_rate :: u32
  alt_nticks :: u32

type_synonym 'h tsys = "alarms \<times> 'h machine"

text \<open>The functions that callback pointers stand for: any code of the application.\<close>

type_synonym 'h callbacks = "u32 \<Rightarrow> u32 \<Rightarrow> 'h tsys \<Rightarrow> u32 \<times> 'h tsys"

section \<open>Operations\<close>

definition alt_ticks_per_second :: "alarms \<Rightarrow> u32" where
  "alt_ticks_per_second A = alt_tick_rate A"

definition alt_sysclk_init :: "u32 \<Rightarrow> alarms \<Rightarrow> int \<times> alarms" where
  "alt_sysclk_init n A =
     (if alt_tick_rate A = 0 then (0, A\<lparr>alt_tick_rate := n\<rparr>) else (- 1, A))"

definition alt_alarm_start ::
  "u32 \<Rightarrow> u32 \<Rightarrow> u32 \<Rightarrow> u32 \<Rightarrow> 'h tsys \<Rightarrow> int \<times> 'h tsys" where
  "alt_alarm_start alarm n callback context = (\<lambda>(A, s).
     if alt_ticks_per_second A \<noteq> 0
     then if alarm \<noteq> 0
       then let A = A\<lparr>al_callback := (al_callback A)(alarm := callback)\<rparr>;
                A = A\<lparr>al_context := (al_context A)(alarm := context)\<rparr>;
                (irq_context, s) = alt_irq_disable_all s;
                current_nticks = alt_nticks A;
                A = A\<lparr>al_time := (al_time A)(alarm := n + current_nticks + 1)\<rparr>;
                A = A\<lparr>al_rollover := (al_rollover A)
                       (alarm := if al_time A alarm < current_nticks then 1 else 0)\<rparr>;
                A = A\<lparr>al_llist := alt_llist_insert (alt_alarm_list A) alarm (al_llist A)\<rparr>
            in (0, A, alt_irq_enable_all irq_context s)
       else (- EINVAL, A, s)
     else (- ENOTSUP, A, s))"

definition alt_alarm_stop :: "u32 \<Rightarrow> 'h tsys \<Rightarrow> 'h tsys" where
  "alt_alarm_stop alarm = (\<lambda>(A, s).
     let (irq_context, s) = alt_irq_disable_all s;
         A = A\<lparr>al_llist := alt_llist_remove alarm (al_llist A)\<rparr>
     in (A, alt_irq_enable_all irq_context s))"

text \<open>One alarm at a tick: the body of the loop of \<open>alt_tick\<close> after \<open>next\<close> was saved.\<close>

definition tick_alarm :: "'h callbacks \<Rightarrow> u32 \<Rightarrow> 'h tsys \<Rightarrow> 'h tsys" where
  "tick_alarm cb alarm = (\<lambda>(A, s).
     let A = (if al_rollover A alarm \<noteq> 0 \<and> alt_nticks A = 0
              then A\<lparr>al_rollover := (al_rollover A)(alarm := 0)\<rparr> else A)
     in if al_time A alarm \<le> alt_nticks A \<and> al_rollover A alarm = 0
        then let (next_callback, A, s) = cb (al_callback A alarm) (al_context A alarm) (A, s)
             in if next_callback = 0 then alt_alarm_stop alarm (A, s)
                else let A = A\<lparr>al_time := (al_time A)(alarm := al_time A alarm + next_callback)\<rparr>
                     in if al_time A alarm < alt_nticks A
                        then (A\<lparr>al_rollover := (al_rollover A)(alarm := 1)\<rparr>, s)
                        else (A, s)
        else (A, s))"

text \<open>The loop: \<open>None\<close> when it never reaches the head of the list.\<close>

partial_function (option) tick_loop :: "'h callbacks \<Rightarrow> u32 \<Rightarrow> 'h tsys \<Rightarrow> 'h tsys option" where
  "tick_loop cb alarm st =
     (if alarm = alt_alarm_list (fst st) then Some st
      else let nxt = l_next (al_llist (fst st)) alarm
           in tick_loop cb nxt (tick_alarm cb alarm st))"

declare tick_loop.simps [code]

definition alt_tick :: "'h callbacks \<Rightarrow> 'h tsys \<Rightarrow> 'h tsys option" where
  "alt_tick cb = (\<lambda>(A, s).
     let alarm = l_next (al_llist A) (alt_alarm_list A)
     in tick_loop cb alarm (A\<lparr>alt_nticks := alt_nticks A + 1\<rparr>, s))"

text \<open>The interval timer: its interrupt routine and its initialisation.\<close>

definition TIMER_STATUS_REG :: nat where "TIMER_STATUS_REG = 0"
definition TIMER_CONTROL_REG :: nat where "TIMER_CONTROL_REG = 1"
definition TIMER_ITO_MSK :: u32 where "TIMER_ITO_MSK = 0x1"
definition TIMER_CONT_MSK :: u32 where "TIMER_CONT_MSK = 0x2"
definition TIMER_START_MSK :: u32 where "TIMER_START_MSK = 0x4"

definition alt_avalon_timer_sc_irq ::
  "'h bus \<Rightarrow> 'h callbacks \<Rightarrow> u32 \<Rightarrow> 'h tsys \<Rightarrow> 'h tsys option" where
  "alt_avalon_timer_sc_irq B cb base = (\<lambda>(A, s).
     let s = IOWR B base TIMER_STATUS_REG 0 s;
         (_, s) = IORD B base TIMER_CONTROL_REG s;
         (cpu_sr, s) = alt_irq_disable_all s
     in case alt_tick cb (A, s) of
          None \<Rightarrow> None
        | Some (A, s) \<Rightarrow> Some (A, alt_irq_enable_all cpu_sr s))"

section \<open>The abstract specification: countdown timers\<close>

record timer =
  t_addr :: u32
  t_left :: nat
  t_fn :: u32
  t_ctx :: u32

text \<open>
  One tick: every timer counts down; one that reaches zero calls its function, and the value
  returned is the next period, or ends the timer when it is zero.
\<close>

fun count_down :: "(u32 \<Rightarrow> u32 \<Rightarrow> 's \<Rightarrow> u32 \<times> 's) \<Rightarrow> timer list \<Rightarrow> 's \<Rightarrow> timer list \<times> 's" where
  "count_down f [] s = ([], s)"
| "count_down f (t # ts) s =
     (if t_left t > 1
      then let (r, s) = count_down f ts s in (t\<lparr>t_left := t_left t - 1\<rparr> # r, s)
      else let (v, s) = f (t_fn t) (t_ctx t) s;
               (r, s) = count_down f ts s
           in (if v = 0 then r else t\<lparr>t_left := unat v\<rparr> # r, s))"

text \<open>
  An alarm in the list of the code counts \<open>unat (time - nticks)\<close> ticks: its time differs from
  the tick count, and it lies beyond the roll-over exactly when the flag says so.
\<close>

definition wf_at :: "u32 \<Rightarrow> alarms \<Rightarrow> u32 \<Rightarrow> bool" where
  "wf_at n A x \<longleftrightarrow> x \<noteq> 0 \<and> al_time A x \<noteq> n \<and> (al_rollover A x \<noteq> 0 \<longleftrightarrow> al_time A x < n)"

definition timer_at :: "u32 \<Rightarrow> alarms \<Rightarrow> u32 \<Rightarrow> timer" where
  "timer_at n A x = \<lparr>t_addr = x, t_left = unat (al_time A x - n), t_fn = al_callback A x,
     t_ctx = al_context A x\<rparr>"

definition alarms_wf :: "alarms \<Rightarrow> u32 list \<Rightarrow> bool" where
  "alarms_wf A xs \<longleftrightarrow> dll (al_llist A) (alt_alarm_list A) xs \<and> 
     (\<forall>x\<in>set xs. wf_at (alt_nticks A) A x)"

definition timers :: "alarms \<Rightarrow> u32 list \<Rightarrow> timer list" where
  "timers A xs = map (timer_at (alt_nticks A) A) xs"

text \<open>Callbacks that only act on the machine, and do not touch the alarms themselves.\<close>

definition plain :: "(u32 \<Rightarrow> u32 \<Rightarrow> 'h machine \<Rightarrow> u32 \<times> 'h machine) \<Rightarrow> 'h callbacks" where
  "plain f fn ctx = (\<lambda>(A, s). case f fn ctx s of (v, s) \<Rightarrow> (v, A, s))"

section \<open>Time across the roll-over\<close>

lemma unat_inc: "unat ((n :: u32) + 1) = (if n + 1 = 0 then 0 else unat n + 1)"
proof (cases "n + 1 = 0")
  case False
  then show ?thesis using unatSuc [of n] by (simp add: add.commute)
qed simp

lemma left_not_0: "(t :: u32) \<noteq> n \<Longrightarrow> unat (t - n) \<noteq> 0"
  by (simp add: unat_eq_0)

lemma left_1_iff: "unat ((t :: u32) - n) = 1 \<longleftrightarrow> t = n + 1"
proof -
  have "unat (t - n) = 1 \<longleftrightarrow> t - n = 1" by (simp add: word_unat_eq_iff)
  also have "\<dots> \<longleftrightarrow> t = n + 1" by (metis add.commute diff_add_cancel add_diff_cancel_left')
  finally show ?thesis .
qed

lemma left_dec: "(t :: u32) \<noteq> n \<Longrightarrow> unat (t - (n + 1)) = unat (t - n) - 1"
proof -
  assume "t \<noteq> n"
  then have "unat ((t - n) - 1) = unat (t - n) - 1"
    by (intro unat_minus_one) simp
  then show ?thesis by (simp add: diff_diff_eq)
qed

lemma expired_iff:
  assumes "(t :: u32) \<noteq> n"
  shows "t \<le> n + 1 \<and> (t < n \<longrightarrow> n + 1 = 0) \<longleftrightarrow> t = n + 1"
proof (cases "n + 1 = 0")
  case True
  then show ?thesis by simp
next
  case False
  with assms unat_inc [of n] show ?thesis
    by (auto simp: word_le_nat_alt word_less_nat_alt word_unat_eq_iff)
qed

lemma flag_step:
  assumes "(t :: u32) \<noteq> n" and "t \<noteq> n + 1"
  shows "(t < n \<and> n + 1 \<noteq> 0) \<longleftrightarrow> t < n + 1"
proof (cases "n + 1 = 0")
  case True
  then show ?thesis by simp
next
  case False
  then have "unat (n + 1) = unat n + 1" by (simp add: unat_inc)
  moreover have "unat t \<noteq> unat n" "unat t \<noteq> unat (n + 1)"
    using assms by (simp_all flip: word_unat_eq_iff)
  ultimately have "unat t < unat n \<longleftrightarrow> unat t < unat (n + 1)" by linarith
  with False show ?thesis by (simp only: word_less_nat_alt simp_thms)
qed

section \<open>One alarm at a tick\<close>

lemma stop_eq: "alt_alarm_stop x (A, s) = (A\<lparr>al_llist := alt_llist_remove x (al_llist A)\<rparr>, s)"
  by (simp add: alt_alarm_stop_def alt_irq_disable_all_def alt_irq_enable_all_def Let_def)

text \<open>What the processing of \<open>x\<close> leaves as it was.\<close>

definition only_alarm :: "u32 \<Rightarrow> alarms \<Rightarrow> alarms \<Rightarrow> bool" where
  "only_alarm x A A' \<longleftrightarrow> alt_alarm_list A' = alt_alarm_list A \<and> alt_nticks A' = alt_nticks A \<and>
     alt_tick_rate A' = alt_tick_rate A \<and> al_callback A' = al_callback A \<and>
     al_context A' = al_context A \<and>
     (\<forall>y. y \<noteq> x \<longrightarrow> al_time A' y = al_time A y \<and> al_rollover A' y = al_rollover A y)"

lemma only_alarm_other:
  "only_alarm x A A' \<Longrightarrow> y \<noteq> x \<Longrightarrow> wf_at n A' y = wf_at n A y \<and> timer_at n A' y = timer_at n A y"
  by (simp add: only_alarm_def wf_at_def timer_at_def)

lemma count_down_one:
  "count_down f (t # ts) s =
     (case count_down f [t] s of (r, s) \<Rightarrow> case count_down f ts s of (r', s) \<Rightarrow> (r @ r', s))"
  by (auto split: prod.splits)

lemma tick_alarm_waits:
  assumes "wf_at n A x" and "alt_nticks A = n + 1" and "al_time A x \<noteq> n + 1"
  shows "\<exists>A'. tick_alarm cb x (A, s) = (A', s) \<and> only_alarm x A A' \<and> al_llist A' = al_llist A \<and>
    wf_at (n + 1) A' x \<and> timer_at (n + 1) A' x = timer_at n A x\<lparr>t_left := t_left (timer_at n A x) - 1\<rparr>"
proof -
  let ?t = "al_time A x"
  define A' where "A' = (if al_rollover A x \<noteq> 0 \<and> alt_nticks A = 0
    then A\<lparr>al_rollover := (al_rollover A)(x := 0)\<rparr> else A)"
  from assms have x: "x \<noteq> 0" and t: "?t \<noteq> n" and roll: "al_rollover A x \<noteq> 0 \<longleftrightarrow> ?t < n"
    by (simp_all add: wf_at_def)
  have roll': "al_rollover A' x = 0 \<longleftrightarrow> (?t < n \<longrightarrow> n + 1 = 0)"
    using roll by (auto simp: A'_def assms(2))
  have A': "al_time A' = al_time A" "alt_nticks A' = n + 1" "al_callback A' = al_callback A"
    "al_context A' = al_context A" "al_llist A' = al_llist A" by (simp_all add: A'_def assms(2))
  have "\<not> (?t \<le> n + 1 \<and> al_rollover A' x = 0)"
    using expired_iff [OF t] assms(3) by (simp add: roll')
  then have "tick_alarm cb x (A, s) = (A', s)"
    unfolding tick_alarm_def prod.case Let_def A'_def [symmetric] A' by (rule if_not_P)
  moreover have "only_alarm x A A'" by (simp add: only_alarm_def A'_def)
  moreover have "wf_at (n + 1) A' x"
    using x assms(3) flag_step [OF t assms(3)] by (auto simp: wf_at_def A' roll')
  moreover have "timer_at (n + 1) A' x = timer_at n A x\<lparr>t_left := t_left (timer_at n A x) - 1\<rparr>"
    using left_dec [OF t] by (simp add: timer_at_def A')
  ultimately show ?thesis using A' by blast
qed

lemma tick_alarm_fires:
  assumes "wf_at n A x" and "alt_nticks A = n + 1" and "al_time A x = n + 1"
    and "f (al_callback A x) (al_context A x) s = (v, s')"
  shows "\<exists>A'. tick_alarm (plain f) x (A, s) = (A', s') \<and> only_alarm x A A' \<and>
    al_llist A' = (if v = 0 then alt_llist_remove x (al_llist A) else al_llist A) \<and>
    (v \<noteq> 0 \<longrightarrow> wf_at (n + 1) A' x \<and>
       timer_at (n + 1) A' x = timer_at n A x\<lparr>t_left := unat v\<rparr>)"
proof -
  define A1 where "A1 = (if al_rollover A x \<noteq> 0 \<and> alt_nticks A = 0
    then A\<lparr>al_rollover := (al_rollover A)(x := 0)\<rparr> else A)"
  from assms have x: "x \<noteq> 0" and t: "n + 1 \<noteq> n" and roll: "al_rollover A x \<noteq> 0 \<longleftrightarrow> n + 1 < n"
    by (simp_all add: wf_at_def)
  have roll1: "al_rollover A1 x = 0"
    using roll expired_iff [OF t] by (auto simp: A1_def assms(2))
  have A1: "al_time A1 = al_time A" "alt_nticks A1 = n + 1" "al_callback A1 = al_callback A"
    "al_context A1 = al_context A" "al_llist A1 = al_llist A" by (simp_all add: A1_def assms(2))
  have only: "only_alarm x A A1" by (simp add: only_alarm_def A1_def)
  define A2 where "A2 = A1\<lparr>al_time := (al_time A)(x := n + 1 + v)\<rparr>"
  define A3 where "A3 = (if n + 1 + v < n + 1 then A2\<lparr>al_rollover := (al_rollover A2)(x := 1)\<rparr> else A2)"
  have step: "tick_alarm (plain f) x (A, s) =
      (if v = 0 then alt_alarm_stop x (A1, s') else (A3, s'))"
    unfolding tick_alarm_def prod.case Let_def A1_def [symmetric] A1 roll1 assms(3) plain_def assms(4)
    by (simp add: A3_def A2_def A1)
  show ?thesis
  proof (cases "v = 0")
    case True
    have "only_alarm x A (A1\<lparr>al_llist := alt_llist_remove x (al_llist A)\<rparr>)"
      using only by (simp add: only_alarm_def)
    with True step show ?thesis by (auto simp: stop_eq A1)
  next
    case False
    have "only_alarm x A A3" using only by (auto simp: A3_def A2_def only_alarm_def)
    moreover have "wf_at (n + 1) A3 x" using False x by (auto simp: wf_at_def A3_def A2_def roll1)
    moreover have "timer_at (n + 1) A3 x = timer_at n A x\<lparr>t_left := unat v\<rparr>"
      by (simp add: timer_at_def A3_def A2_def A1)
    moreover have "al_llist A3 = al_llist A" by (simp add: A3_def A2_def A1)
    ultimately show ?thesis using False step by auto
  qed
qed

section \<open>The whole tick\<close>

lemma dll_fresh: "dll m head (ps @ x # ys) \<Longrightarrow> x \<noteq> head \<and> x \<notin> set ps \<and> x \<notin> set ys"
  by (auto simp: dll_def)

lemma tick_loop_step:
  "x \<noteq> alt_alarm_list A \<Longrightarrow>
     tick_loop cb x (A, s) = tick_loop cb (l_next (al_llist A) x) (tick_alarm cb x (A, s))"
  by (subst tick_loop.simps) simp

lemma timers_other:
  "only_alarm x A A' \<Longrightarrow> x \<notin> set ys \<Longrightarrow> map (timer_at n A') ys = map (timer_at n A) ys"
  by (rule map_cong [OF refl]) (metis only_alarm_other)

lemma tick_loop_counts_down:
  assumes "dll (al_llist A) head (ps @ ys)" and "head = alt_alarm_list A"
    and "alt_nticks A = n + 1"
    and "\<forall>x\<in>set ps. wf_at (n + 1) A x" and "\<forall>x\<in>set ys. wf_at n A x"
    and "count_down f (map (timer_at n A) ys) s = (r, s')"
  shows "\<exists>A' zs. tick_loop (plain f) (hd (ys @ [head])) (A, s) = Some (A', s') \<and>
    alt_alarm_list A' = head \<and> alt_nticks A' = n + 1 \<and> alt_tick_rate A' = alt_tick_rate A \<and>
    dll (al_llist A') head (ps @ zs) \<and> (\<forall>x\<in>set (ps @ zs). wf_at (n + 1) A' x) \<and>
    map (timer_at (n + 1) A') ps = map (timer_at (n + 1) A) ps \<and>
    map (timer_at (n + 1) A') zs = r"
  using assms
proof (induction ys arbitrary: A ps s r)
  case Nil
  then show ?case by (intro exI [of _ A] exI [of _ "[]"]) (simp add: tick_loop.simps)
next
  case (Cons x ys)
  have fresh: "x \<noteq> head" "x \<notin> set ps" "x \<notin> set ys" using dll_fresh [OF Cons.prems(1)] by auto
  have nxt: "l_next (al_llist A) x = hd (ys @ [head])" using dll_next [OF Cons.prems(1)] by simp
  have wf: "wf_at n A x" using Cons.prems(5) by simp
  obtain q s1 where one: "count_down f [timer_at n A x] s = (q, s1)" by (rule prod.exhaust)
  obtain r' where rest: "count_down f (map (timer_at n A) ys) s1 = (r', s')" and r: "r = q @ r'"
    using Cons.prems(6) one unfolding list.map by (subst (asm) count_down_one) (auto split: prod.splits)
  have left: "t_left (timer_at n A x) > 1 \<longleftrightarrow> al_time A x \<noteq> n + 1"
    using left_1_iff [of "al_time A x" n] left_not_0 [of "al_time A x" n] wf
    by (auto simp: timer_at_def wf_at_def)
  obtain A1 where step: "tick_alarm (plain f) x (A, s) = (A1, s1)" and only: "only_alarm x A A1"
    and kept: "q = [] \<and> al_llist A1 = alt_llist_remove x (al_llist A) \<or>
      al_llist A1 = al_llist A \<and> wf_at (n + 1) A1 x \<and> q = [timer_at (n + 1) A1 x]"
  proof (cases "al_time A x = n + 1")
    case False
    from tick_alarm_waits [OF wf Cons.prems(3) False, of "plain f" s] one left False that
    show ?thesis by auto
  next
    case True
    obtain v sv where v: "f (al_callback A x) (al_context A x) s = (v, sv)" by (rule prod.exhaust)
    with one left True have q: "q = (if v = 0 then [] else [timer_at n A x\<lparr>t_left := unat v\<rparr>])" "s1 = sv"
      by (auto simp: timer_at_def)
    from tick_alarm_fires [where f = f, OF wf Cons.prems(3) True v] q that show ?thesis
      by (cases "v = 0") auto
  qed
  have head1: "alt_alarm_list A1 = head" "alt_nticks A1 = n + 1" "alt_tick_rate A1 = alt_tick_rate A"
    using only Cons.prems(2,3) by (simp_all add: only_alarm_def)
  have ps1: "\<forall>y\<in>set ps. wf_at (n + 1) A1 y" "map (timer_at (n + 1) A1) ps = map (timer_at (n + 1) A) ps"
    using only_alarm_other [OF only] fresh Cons.prems(4) timers_other [OF only] by (metis, metis)
  have ys1: "\<forall>y\<in>set ys. wf_at n A1 y" "map (timer_at n A1) ys = map (timer_at n A) ys"
    using only_alarm_other [OF only] fresh Cons.prems(5) timers_other [OF only]
    by (metis list.set_intros(2), metis)
  have loop: "tick_loop (plain f) (hd ((x # ys) @ [head])) (A, s) =
      tick_loop (plain f) (hd (ys @ [head])) (A1, s1)"
    using fresh(1) Cons.prems(2) by (simp add: tick_loop_step nxt step)
  from kept show ?case
  proof
    assume k: "q = [] \<and> al_llist A1 = alt_llist_remove x (al_llist A)"
    then have "dll (al_llist A1) head (ps @ ys)" using dll_remove(1) [OF Cons.prems(1)] by simp
    from Cons.IH [OF this head1(1) [symmetric] head1(2) ps1(1) ys1(1), unfolded ys1(2), OF rest]
    show ?thesis using loop head1(3) ps1(2) k r by auto
  next
    assume k: "al_llist A1 = al_llist A \<and> wf_at (n + 1) A1 x \<and> q = [timer_at (n + 1) A1 x]"
    then have d: "dll (al_llist A1) head ((ps @ [x]) @ ys)" using Cons.prems(1) by simp
    have "\<forall>y\<in>set (ps @ [x]). wf_at (n + 1) A1 y" using ps1(1) k by auto
    from Cons.IH [OF d head1(1) [symmetric] head1(2) this ys1(1), unfolded ys1(2), OF rest]
    obtain A' zs where A': "tick_loop (plain f) (hd (ys @ [head])) (A1, s1) = Some (A', s')"
      "alt_alarm_list A' = head" "alt_nticks A' = n + 1" "alt_tick_rate A' = alt_tick_rate A1"
      "dll (al_llist A') head ((ps @ [x]) @ zs)" "\<forall>y\<in>set ((ps @ [x]) @ zs). wf_at (n + 1) A' y"
      "map (timer_at (n + 1) A') (ps @ [x]) = map (timer_at (n + 1) A1) (ps @ [x])"
      "map (timer_at (n + 1) A') zs = r'" by blast
    then show ?thesis using loop head1(3) ps1(2) k r
      by (intro exI [of _ A'] exI [of _ "x # zs"]) auto
  qed
qed

text \<open>
  A callback that stops the alarm behind its own: that one then points to itself, and the loop,
  which already holds its address, never reaches the head of the list again.
\<close>

lemma tick_loop_self:
  assumes "tick_loop cb y st = Some r" and "P st" and "\<And>t. P t \<Longrightarrow> P (tick_alarm cb y t)"
    and "\<And>t. P t \<Longrightarrow> y \<noteq> alt_alarm_list (fst t) \<and> l_next (al_llist (fst t)) y = y"
  shows False
proof -
  have "P st \<longrightarrow> False" if "tick_loop cb y st = Some r" for r
  proof (rule tick_loop.raw_induct [where P = "\<lambda>c z st r. c = cb \<and> z = y \<longrightarrow> P st \<longrightarrow> False",
        OF _ that, THEN mp, OF _ conjI [OF refl refl]])
    fix loop c z st r
    assume IH: "\<And>c z st r. loop c z st = Some r \<Longrightarrow> c = cb \<and> z = y \<longrightarrow> P st \<longrightarrow> False"
      and eq: "(if z = alt_alarm_list (fst st) then Some st
        else let nxt = l_next (al_llist (fst st)) z in loop c nxt (tick_alarm c z st)) = Some r"
    show "c = cb \<and> z = y \<longrightarrow> P st \<longrightarrow> False"
    proof (intro impI)
      assume c: "c = cb \<and> z = y" and P: "P st"
      with eq assms(4) have "loop cb y (tick_alarm cb y st) = Some r" by (simp add: Let_def)
      from IH [OF this] assms(3) [OF P] show False by simp
    qed
  qed
  from this [OF assms(1)] assms(2) show False by simp
qed

text \<open>The state after a successful start.\<close>

definition started :: "alarms \<Rightarrow> u32 \<Rightarrow> u32 \<Rightarrow> u32 \<Rightarrow> u32 \<Rightarrow> alarms" where
  "started A x n fn ctx = A\<lparr>al_callback := (al_callback A)(x := fn),
     al_context := (al_context A)(x := ctx),
     al_time := (al_time A)(x := n + alt_nticks A + 1),
     al_rollover := (al_rollover A)(x := if n + alt_nticks A + 1 < alt_nticks A then 1 else 0),
     al_llist := alt_llist_insert (alt_alarm_list A) x (al_llist A)\<rparr>"

lemma started_simps:
  "al_callback (started A x n fn ctx) = (al_callback A)(x := fn)"
  "al_context (started A x n fn ctx) = (al_context A)(x := ctx)"
  "al_time (started A x n fn ctx) = (al_time A)(x := n + alt_nticks A + 1)"
  "al_rollover (started A x n fn ctx) =
     (al_rollover A)(x := if n + alt_nticks A + 1 < alt_nticks A then 1 else 0)"
  "al_llist (started A x n fn ctx) = alt_llist_insert (alt_alarm_list A) x (al_llist A)"
  "alt_alarm_list (started A x n fn ctx) = alt_alarm_list A"
  "alt_nticks (started A x n fn ctx) = alt_nticks A"
  "alt_tick_rate (started A x n fn ctx) = alt_tick_rate A"
  by (simp_all add: started_def)

lemma alarm_start_eq:
  "alt_alarm_start x n fn ctx (A, s) =
     (if alt_tick_rate A = 0 then (- ENOTSUP, A, s)
      else if x = 0 then (- EINVAL, A, s) else (0, started A x n fn ctx, s))"
  by (cases "alt_tick_rate A = 0"; cases "x = 0")
    (simp_all add: alt_alarm_start_def alt_ticks_per_second_def alt_irq_disable_all_def
      alt_irq_enable_all_def started_def Let_def split del: if_split)

text \<open>An alarm 16 that is due at the next tick, in an otherwise empty list with its head at 8.\<close>

definition alarm16 :: alarms where
  "alarm16 = \<lparr>alt_alarm_list = 8, al_llist = alt_llist_insert 8 16 \<lparr>l_next = id, l_prev = id\<rparr>,
     al_time = (\<lambda>_. 5), al_callback = (\<lambda>_. 1), al_rollover = (\<lambda>_. 0), al_context = (\<lambda>_. 2),
     alt_tick_rate = 100, alt_nticks = 4\<rparr>"

lemma alarm16_wf: "alarms_wf alarm16 [16]"
  using dll_insert [of "\<lparr>l_next = id, l_prev = id\<rparr>" 8 "[]" 16]
  by (simp add: alarms_wf_def alarm16_def wf_at_def dll_def)

lemma alarm16_timers:
  "timers alarm16 [16] = [\<lparr>t_addr = 16, t_left = 1, t_fn = 1, t_ctx = 2\<rparr>]"
  by (simp add: timers_def timer_at_def alarm16_def)

lemma fired_stops_next:
  assumes "\<And>st. cb (al_callback A x) (al_context A x) st = (v, alt_alarm_stop y st)"
    and "al_time A x \<le> alt_nticks A" and "al_rollover A x \<noteq> 0 \<Longrightarrow> alt_nticks A = 0" and "x \<noteq> y"
  shows "\<exists>A'. tick_alarm cb x (A, s) = (A', s) \<and> alt_alarm_list A' = alt_alarm_list A \<and>
    alt_nticks A' = alt_nticks A \<and> al_time A' y = al_time A y \<and>
    al_rollover A' y = al_rollover A y \<and>
    (al_llist A' = alt_llist_remove y (al_llist A) \<or>
     al_llist A' = alt_llist_remove x (alt_llist_remove y (al_llist A)))"
proof -
  define A1 where "A1 = (if al_rollover A x \<noteq> 0 \<and> alt_nticks A = 0
    then A\<lparr>al_rollover := (al_rollover A)(x := 0)\<rparr> else A)"
  have A1: "al_time A1 = al_time A" "alt_nticks A1 = alt_nticks A" "al_callback A1 = al_callback A"
    "al_context A1 = al_context A" "al_llist A1 = al_llist A" "alt_alarm_list A1 = alt_alarm_list A"
    "al_rollover A1 x = 0" "al_rollover A1 y = al_rollover A y"
    using assms(3,4) by (auto simp: A1_def)
  have due: "al_time A x \<le> alt_nticks A \<and> al_rollover A1 x = 0" using assms(2) A1(7) by simp
  note step = tick_alarm_def [of cb x, unfolded Let_def, THEN fun_cong, of "(A, s)", unfolded prod.case,
      folded A1_def, unfolded A1(1-4), unfolded if_P [OF due] assms(1) stop_eq prod.case A1]
  show ?thesis
    unfolding step using assms(2,4) by (simp add: A1)
qed

section \<open>Properties\<close>

text \<open>C10: One clock tick of the code is one tick of the countdown timers: for every list of alarms
  and callbacks that act on the machine it returns, calls exactly the functions of the timers
  that reach zero, in the order of the list and each with its context, re-arms or removes them
  by the value returned, and counts the others down, across the roll-over of the tick count.\<close>

theorem alt_tick_refines:
  assumes "alarms_wf A xs" and "count_down f (timers A xs) s = (r, s')"
  shows "\<exists>A' zs. alt_tick (plain f) (A, s) = Some (A', s') \<and> alarms_wf A' zs \<and>
    timers A' zs = r \<and> alt_nticks A' = alt_nticks A + 1 \<and>
    alt_alarm_list A' = alt_alarm_list A \<and> alt_tick_rate A' = alt_tick_rate A"
proof -
  let ?A = "A\<lparr>alt_nticks := alt_nticks A + 1\<rparr>" and ?n = "alt_nticks A"
  have d: "dll (al_llist ?A) (alt_alarm_list A) ([] @ xs)" and w: "\<forall>x\<in>set xs. wf_at ?n ?A x"
    and t: "map (timer_at ?n ?A) xs = timers A xs"
    using assms(1) by (simp_all add: alarms_wf_def wf_at_def timers_def timer_at_def)
  have "alt_tick (plain f) (A, s) = tick_loop (plain f) (hd (xs @ [alt_alarm_list A])) (?A, s)"
    using dll_next_head [OF d] by (simp add: alt_tick_def)
  with tick_loop_counts_down [OF d _ _ _ w assms(2) [folded t]] show ?thesis
    by (fastforce simp: alarms_wf_def timers_def)
qed

theorem alt_tick_refines_witness:
  "\<exists>A' zs. alt_tick (plain (\<lambda>fn ctx s. (3, s))) (alarm16, reset_machine ()) =
      Some (A', reset_machine ()) \<and>
    timers A' zs = [\<lparr>t_addr = 16, t_left = 3, t_fn = 1, t_ctx = 2\<rparr>]"
  using alt_tick_refines [OF alarm16_wf, of "\<lambda>fn ctx s. (3, s)" "reset_machine ()",
      unfolded alarm16_timers count_down.simps] by auto

text \<open>Starting an alarm puts a timer with one tick more than the requested number in front of
  the running ones and restores the interrupt state; without a system clock or without an
  alarm it changes nothing and reports it.\<close>

theorem alt_alarm_start_adds:
  assumes "alarms_wf A xs" and "x \<noteq> alt_alarm_list A" and "x \<notin> set xs" and "n \<noteq> - 1"
  shows "case alt_alarm_start x n fn ctx (A, s) of (r, A', s') \<Rightarrow> s' = s \<and>
    (if alt_tick_rate A = 0 then r = - ENOTSUP \<and> A' = A
     else if x = 0 then r = - EINVAL \<and> A' = A
     else r = 0 \<and> alarms_wf A' (x # xs) \<and> alt_nticks A' = alt_nticks A \<and>
       timers A' (x # xs) =
         \<lparr>t_addr = x, t_left = unat n + 1, t_fn = fn, t_ctx = ctx\<rparr> # timers A xs)"
proof -
  obtain r A' s' where res: "alt_alarm_start x n fn ctx (A, s) = (r, A', s')" by (rule prod_cases3)
  show ?thesis
  proof (cases "alt_tick_rate A = 0 \<or> x = 0")
    case True
    with res show ?thesis by (auto simp: alt_alarm_start_def alt_ticks_per_second_def)
  next
    case False
    have r: "r = 0" "s' = s" "A' = started A x n fn ctx"
      using res alarm_start_eq [of x n fn ctx A s] False by auto
    note st = started_simps [of A x n fn ctx, folded r(3)]
    have n1: "n + 1 \<noteq> 0" using assms(4) by (simp add: eq_neg_iff_add_eq_0)
    have "n + alt_nticks A + 1 = alt_nticks A + (n + 1)" by (simp add: algebra_simps)
    then have n: "n + alt_nticks A + 1 \<noteq> alt_nticks A" using n1 by (simp only: add_cancel_left_right simp_thms)
    from n1 have left: "unat (n + alt_nticks A + 1 - alt_nticks A) = unat n + 1"
      using unat_inc [of n] by (simp add: algebra_simps)
    have "wf_at (alt_nticks A) A' x" using n False by (simp add: st wf_at_def)
    moreover have "wf_at (alt_nticks A) A' y = wf_at (alt_nticks A) A y \<and>
        timer_at (alt_nticks A) A' y = timer_at (alt_nticks A) A y" if "y \<in> set xs" for y
      using that assms(3) by (auto simp: st wf_at_def timer_at_def)
    moreover have "dll (al_llist A') (alt_alarm_list A') (x # xs)"
      using dll_insert [of _ _ xs x] assms(1-3) by (simp add: st alarms_wf_def)
    moreover have "timer_at (alt_nticks A) A' x =
        \<lparr>t_addr = x, t_left = unat n + 1, t_fn = fn, t_ctx = ctx\<rparr>"
      using left by (simp add: st timer_at_def)
    moreover have "alt_nticks A' = alt_nticks A" by (simp add: st)
    ultimately show ?thesis
      using False res r(1,2) assms(1) by (auto simp: alarms_wf_def timers_def)
  qed
qed

theorem alt_alarm_start_adds_witness:
  "case alt_alarm_start 32 9 1 2 (alarm16, reset_machine ()) of (r, A', s') \<Rightarrow>
     r = 0 \<and> alarms_wf A' [32, 16]"
  using alt_alarm_start_adds [OF alarm16_wf, where x = 32 and n = 9 and fn = 1 and ctx = 2
      and s = "reset_machine ()"]
  by (simp add: alarm16_def split: prod.splits)

text \<open>Stopping an alarm removes its timer and leaves the others and the interrupt state.\<close>

theorem alt_alarm_stop_removes:
  assumes "alarms_wf A (xs @ x # ys)"
  shows "case alt_alarm_stop x (A, s) of (A', s') \<Rightarrow> s' = s \<and> alarms_wf A' (xs @ ys) \<and>
    timers A' (xs @ ys) = timers A xs @ timers A ys"
  using assms dll_remove(1) [of "al_llist A" "alt_alarm_list A" xs x ys]
  by (simp add: stop_eq alarms_wf_def timers_def wf_at_def timer_at_def)

theorem alt_alarm_stop_removes_witness:
  "case alt_alarm_stop 16 (alarm16, reset_machine ()) of (A', s') \<Rightarrow> alarms_wf A' []"
  using alt_alarm_stop_removes [of alarm16 "[]" 16 "[]" "reset_machine ()"] alarm16_wf by auto

text \<open>A defect: the longest request wraps to no wait at all. An alarm started with 2^32 - 1
  ticks (2^32 with the extra one) calls its function at the very next tick.\<close>

theorem alt_alarm_start_longest_fires_at_once:
  assumes "alarms_wf A []" and "alt_tick_rate A \<noteq> 0" and "x \<noteq> 0" and "x \<noteq> alt_alarm_list A"
    and "alt_nticks A \<noteq> - 1"
  shows "case alt_alarm_start x (- 1) fn ctx (A, s) of (r, st) \<Rightarrow> r = 0 \<and>
    (\<exists>A'. alt_tick (plain f) st = Some (A', snd (f fn ctx s)))"
proof -
  let ?A = "started A x (- 1) fn ctx" and ?n = "alt_nticks A"
  let ?B = "?A\<lparr>alt_nticks := ?n + 1\<rparr>"
  obtain v s' where v: "f fn ctx s = (v, s')" by (rule prod.exhaust)
  have "dll (al_llist ?A) (alt_alarm_list A) ([] @ x # [])"
    using dll_insert [of _ _ "[]" x] assms(1,4) by (simp add: started_simps alarms_wf_def)
  note d = dll_next [OF this] dll_next_head [OF this]
  have "?n + 1 \<noteq> 0" using assms(5) by (simp add: eq_neg_iff_add_eq_0)
  then have le: "?n \<le> ?n + 1" using unat_inc [of ?n] by (simp add: word_le_nat_alt)
  have B: "al_rollover ?B x = 0" "al_time ?B x = ?n" "alt_nticks ?B = ?n + 1"
    "al_callback ?B x = fn" "al_context ?B x = ctx" by (simp_all add: started_simps)
  have "\<exists>A'. tick_alarm (plain f) x (?B, s) = (A', s') \<and> alt_alarm_list A' = alt_alarm_list A"
    unfolding tick_alarm_def prod.case Let_def B
    using le by (auto simp: plain_def v B started_simps stop_eq)
  then obtain A' where "tick_alarm (plain f) x (?B, s) = (A', s')" "alt_alarm_list A' = alt_alarm_list A"
    by blast
  then have "alt_tick (plain f) (?A, s) = Some (A', s')"
    using d assms(4) by (simp add: alt_tick_def started_simps tick_loop.simps)
  then show ?thesis using assms(2,3) v by (simp add: alarm_start_eq)
qed

theorem alt_alarm_start_longest_fires_at_once_witness:
  "case alt_alarm_start 32 (- 1) 1 2
       (alarm16\<lparr>al_llist := \<lparr>l_next = id, l_prev = id\<rparr>\<rparr>, reset_machine ()) of (r, st) \<Rightarrow>
     \<exists>A'. alt_tick (plain (\<lambda>fn ctx s. (0, printf ''fired'' [] s))) st =
       Some (A', printf ''fired'' [] (reset_machine ()))"
  using alt_alarm_start_longest_fires_at_once [where x = 32 and fn = 1 and ctx = 2
      and A = "alarm16\<lparr>al_llist := \<lparr>l_next = id, l_prev = id\<rparr>\<rparr>" and s = "reset_machine ()"
      and f = "\<lambda>fn ctx s. (0, printf ''fired'' [] s)"]
  by (auto simp: alarms_wf_def dll_def alarm16_def split: prod.splits)

text \<open>A defect: an alarm function may not stop the alarm behind its own. If it does, the clock
  tick never returns, whatever the rest of the list is.\<close>

theorem alt_tick_callback_stops_next_hangs:
  assumes "alarms_wf A (x # y # ys)" and "al_time A x = alt_nticks A + 1"
    and "al_time A y \<noteq> alt_nticks A + 1"
    and "\<And>st. cb (al_callback A x) (al_context A x) st = (v, alt_alarm_stop y st)"
  shows "alt_tick cb (A, s) = None"
proof -
  let ?h = "alt_alarm_list A" and ?n = "alt_nticks A"
  let ?A = "A\<lparr>alt_nticks := ?n + 1\<rparr>"
  define idle where "idle st \<longleftrightarrow> y \<noteq> alt_alarm_list (fst st) \<and> l_next (al_llist (fst st)) y = y \<and>
    \<not> (al_time (fst st) y \<le> alt_nticks (fst st) \<and>
       (al_rollover (fst st) y = 0 \<or> alt_nticks (fst st) = 0))" for st :: "'a tsys"
  have idle_step: "idle (tick_alarm cb y t)" if "idle t" for t
    using that by (cases t) (auto simp: idle_def tick_alarm_def Let_def)
  have d: "dll (al_llist A) ?h ([] @ x # y # ys)" "dll (al_llist A) ?h ([x] @ y # ys)"
    using assms(1) by (simp_all add: alarms_wf_def)
  note fresh = dll_fresh [OF d(1)] dll_fresh [OF d(2)]
  let ?l = "alt_llist_remove y (al_llist A)"
  note out = dll_remove [OF d(2)]
  have "links ?l ?h ([] @ x # ys) ?h" using out(1) by (simp add: dll_def)
  then have px: "l_prev ?l x = ?h" by simp
  have "l_next ?l x \<noteq> x" using dll_next [of ?l ?h "[]" x ys] out(1) fresh
    by (cases ys) auto
  then have "l_next (alt_llist_remove x ?l) y = y"
    using remove_fields(1) [OF px refl] fresh out(2) by auto
  then have self: "l_next ?l y = y" "l_next (alt_llist_remove x ?l) y = y" using out(2) by blast+
  have first: "tick_loop cb x (?A, s) = tick_loop cb y (tick_alarm cb x (?A, s))"
    using dll_next [OF d(1)] fresh by (simp add: tick_loop_step)
  have roll: "al_rollover A x \<noteq> 0 \<longleftrightarrow> ?n + 1 < ?n" and yw: "al_time A y \<noteq> ?n"
    "al_rollover A y \<noteq> 0 \<longleftrightarrow> al_time A y < ?n"
    using assms(1,2) by (simp_all add: alarms_wf_def wf_at_def)
  have "\<not> (al_time A y \<le> ?n + 1 \<and> (al_rollover A y = 0 \<or> ?n + 1 = 0))"
    using expired_iff [OF yw(1)] assms(3) yw(2) by auto
  moreover have "\<not> (?n + 1 < ?n \<and> ?n + 1 \<noteq> 0)"
    using unat_inc [of ?n] by (auto simp: word_less_nat_alt)
  ultimately have waits: "\<not> (al_time A y \<le> ?n + 1 \<and> (al_rollover A y = 0 \<or> ?n + 1 = 0))"
    and due: "al_rollover ?A x \<noteq> 0 \<Longrightarrow> alt_nticks ?A = 0" using roll by auto
  have cb: "cb (al_callback ?A x) (al_context ?A x) st = (v, alt_alarm_stop y st)" for st
    using assms(4) by simp
  have "al_time ?A x \<le> alt_nticks ?A" "x \<noteq> y" using assms(2) fresh by auto
  from fired_stops_next [of cb ?A x v y s, OF cb this(1) due this(2)] obtain A' where
    A': "tick_alarm cb x (?A, s) = (A', s)" "alt_alarm_list A' = ?h" "alt_nticks A' = ?n + 1"
      "al_time A' y = al_time A y" "al_rollover A' y = al_rollover A y"
      "al_llist A' = ?l \<or> al_llist A' = alt_llist_remove x ?l" by auto
  from A'(6) self have "l_next (al_llist A') y = y" by metis
  moreover have "y \<noteq> ?h" using fresh(2) by blast
  ultimately have "idle (tick_alarm cb x (?A, s))"
    unfolding idle_def A'(1) fst_conv A'(2-5) using waits by blast
  then have "tick_loop cb y (tick_alarm cb x (?A, s)) \<noteq> Some r" for r
    using tick_loop_self [where P = idle, OF _ _ idle_step] unfolding idle_def by blast
  then have "tick_loop cb x (?A, s) = None" using first by (metis not_None_eq)
  then show ?thesis using dll_next_head [OF d(1)] by (simp add: alt_tick_def)
qed

theorem alt_tick_callback_stops_next_hangs_witness:
  "alt_tick (\<lambda>fn ctx st. (7, alt_alarm_stop 16 st))
     (started alarm16 32 0 1 2\<lparr>al_time := (\<lambda>a. if a = 32 then 5 else 9)\<rparr>, reset_machine ()) = None"
proof -
  let ?A = "started alarm16 32 0 1 2\<lparr>al_time := (\<lambda>a. if a = 32 then 5 else 9)\<rparr>"
  have "dll (al_llist ?A) (alt_alarm_list ?A) [32, 16]"
    using dll_insert [of "al_llist alarm16" 8 "[16]" 32] alarm16_wf
    by (simp add: started_simps alarms_wf_def alarm16_def)
  then have "alarms_wf ?A [32, 16]"
    by (simp add: alarms_wf_def wf_at_def started_simps) (simp add: alarm16_def)
  then show ?thesis
    by (rule alt_tick_callback_stops_next_hangs) (simp_all add: started_simps alarm16_def)
qed

text \<open>The timer interrupt clears the timer's interrupt, reads it back, and runs one clock tick
  with the processor's interrupts masked; afterwards they are as before.\<close>

theorem timer_irq_ticks_masked:
  "alt_avalon_timer_sc_irq (trace_bus resp) cb base (A, s) =
     (let h = hw s @ [Wr32 base 0];
          h = h @ [Rd (base + 4) (resp h (base + 4))]
      in map_option (\<lambda>(A, t). (A, t\<lparr>cpu_status := cpu_status s\<rparr>))
           (alt_tick cb (A, s\<lparr>hw := h, cpu_status := cpu_status s AND NOT 1\<rparr>)))"
  by (simp add: alt_avalon_timer_sc_irq_def trace_IO_reg TIMER_STATUS_REG_def
      TIMER_CONTROL_REG_def alt_irq_disable_all_def alt_irq_enable_all_def Let_def
      NIOS2_STATUS_PIE_MSK_def map_option_case split: option.split)

end
