(* ===== verification/Hal_Irq.thy ===== *)
theory Hal_Irq
  imports Soc_Bus
begin

text \<open>
  Interrupts: the internal interrupt controller of the processor with the enhanced and the
  legacy interface (\<open>alt_iic.c\<close>, \<open>alt_iic_isr_register.c\<close>, \<open>alt_irq_register.c\<close>,
  \<open>priv/alt_legacy_irq.h\<close>, \<open>altera_nios2_gen2_irq.c\<close>) and the dispatcher \<open>alt_irq_handler.c\<close>.
  The set of pending interrupts and the code of the registered routines are parameters.
\<close>

section \<open>State\<close>

definition ALT_NIRQ :: nat where "ALT_NIRQ = 32"

text \<open>\<open>ienable\<close> is the control register of the processor; a handler 0 is \<open>NULL\<close>.\<close>

record irq_ctl =
  alt_irq_active :: u32
  alt_priority_mask :: u32
  ienable :: u32
  irq_handler :: "nat \<Rightarrow> u32"
  irq_context :: "nat \<Rightarrow> u32"

type_synonym 'h isys = "irq_ctl \<times> 'h machine"

text \<open>A call either finishes or stores outside the table \<open>alt_irq\<close>, at a negative index.\<close>

datatype 'a outcome = Done 'a | Stores_outside int

section \<open>Single interrupts\<close>

definition altera_nios2_gen2_irq_init :: "'h isys \<Rightarrow> 'h isys" where
  "altera_nios2_gen2_irq_init = (\<lambda>(I, s). (I\<lparr>ienable := 0\<rparr>, s))"

definition alt_irq_cpu_enable_interrupts :: "'h isys \<Rightarrow> 'h isys" where
  "alt_irq_cpu_enable_interrupts = (\<lambda>(I, s). (I, s\<lparr>cpu_status := NIOS2_STATUS_PIE_MSK\<rparr>))"

definition alt_irq_init :: "'h isys \<Rightarrow> 'h isys" where
  "alt_irq_init st = alt_irq_cpu_enable_interrupts (altera_nios2_gen2_irq_init st)"

definition alt_irq_disable :: "u32 \<Rightarrow> 'h isys \<Rightarrow> int \<times> 'h isys" where
  "alt_irq_disable irq_id = (\<lambda>(I, s).
     let (status, s) = alt_irq_disable_all s;
         I = I\<lparr>alt_irq_active := alt_irq_active I AND NOT (push_bit (unat irq_id) 1)\<rparr>;
         I = I\<lparr>ienable := alt_irq_active I\<rparr>
     in (0, I, alt_irq_enable_all status s))"

definition alt_irq_enable :: "u32 \<Rightarrow> 'h isys \<Rightarrow> int \<times> 'h isys" where
  "alt_irq_enable irq_id = (\<lambda>(I, s).
     let (status, s) = alt_irq_disable_all s;
         I = I\<lparr>alt_irq_active := alt_irq_active I OR push_bit (unat irq_id) 1\<rparr>;
         I = I\<lparr>ienable := alt_irq_active I\<rparr>
     in (0, I, alt_irq_enable_all status s))"

definition alt_irq_interruptible :: "u32 \<Rightarrow> 'h isys \<Rightarrow> u32 \<times> 'h isys" where
  "alt_irq_interruptible priority = (\<lambda>(I, s).
     let old_priority = alt_priority_mask I;
         I = I\<lparr>alt_priority_mask := push_bit (unat priority) 1 - 1\<rparr>;
         I = I\<lparr>ienable := alt_irq_active I AND alt_priority_mask I\<rparr>;
         s = s\<lparr>cpu_status := 1\<rparr>
     in (old_priority, I, s))"

definition alt_irq_non_interruptible :: "u32 \<Rightarrow> 'h isys \<Rightarrow> 'h isys" where
  "alt_irq_non_interruptible msk = (\<lambda>(I, s).
     let s = s\<lparr>cpu_status := 0\<rparr>;
         I = I\<lparr>alt_priority_mask := msk\<rparr>;
         I = I\<lparr>ienable := msk AND alt_irq_active I\<rparr>
     in (I, s))"

definition alt_ic_irq_enable :: "u32 \<Rightarrow> u32 \<Rightarrow> 'h isys \<Rightarrow> int \<times> 'h isys" where
  "alt_ic_irq_enable ic_id irq st = alt_irq_enable irq st"

definition alt_ic_irq_disable :: "u32 \<Rightarrow> u32 \<Rightarrow> 'h isys \<Rightarrow> int \<times> 'h isys" where
  "alt_ic_irq_disable ic_id irq st = alt_irq_disable irq st"

definition alt_ic_irq_enabled :: "u32 \<Rightarrow> u32 \<Rightarrow> 'h isys \<Rightarrow> u32" where
  "alt_ic_irq_enabled ic_id irq = (\<lambda>(I, s).
     let irq_enabled = ienable I
     in if irq_enabled AND push_bit (unat irq) 1 \<noteq> 0 then 1 else 0)"

section \<open>Registration\<close>

text \<open>The enhanced interface compares the number as a signed \<open>int\<close>.\<close>

definition alt_iic_isr_register ::
  "u32 \<Rightarrow> u32 \<Rightarrow> u32 \<Rightarrow> u32 \<Rightarrow> 'h isys \<Rightarrow> (int \<times> 'h isys) outcome" where
  "alt_iic_isr_register ic_id irq isr isr_context = (\<lambda>(I, s).
     let irq_id = sint irq
     in if irq_id < int ALT_NIRQ then
          (if irq_id < 0 then Stores_outside irq_id
           else let (status, s) = alt_irq_disable_all s;
                    I = I\<lparr>irq_handler := (irq_handler I)(nat irq_id := isr)\<rparr>;
                    I = I\<lparr>irq_context := (irq_context I)(nat irq_id := isr_context)\<rparr>;
                    (rc, I, s) = (if isr \<noteq> 0 then alt_ic_irq_enable ic_id irq (I, s)
                                  else alt_ic_irq_disable ic_id irq (I, s))
                in Done (rc, I, alt_irq_enable_all status s))
        else Done (- EINVAL, I, s))"

definition alt_ic_isr_register ::
  "u32 \<Rightarrow> u32 \<Rightarrow> u32 \<Rightarrow> u32 \<Rightarrow> 'h isys \<Rightarrow> (int \<times> 'h isys) outcome" where
  "alt_ic_isr_register ic_id irq isr isr_context st = alt_iic_isr_register ic_id irq isr isr_context st"

text \<open>The legacy interface compares it unsigned.\<close>

definition alt_irq_register :: "u32 \<Rightarrow> u32 \<Rightarrow> u32 \<Rightarrow> 'h isys \<Rightarrow> int \<times> 'h isys" where
  "alt_irq_register irq_id context handler = (\<lambda>(I, s).
     if unat irq_id < ALT_NIRQ
     then let (status, s) = alt_irq_disable_all s;
              I = I\<lparr>irq_handler := (irq_handler I)(unat irq_id := handler)\<rparr>;
              I = I\<lparr>irq_context := (irq_context I)(unat irq_id := context)\<rparr>;
              (rc, I, s) = (if handler \<noteq> 0 then alt_irq_enable irq_id (I, s) else alt_irq_disable irq_id (I, s))
          in (rc, I, alt_irq_enable_all status s)
     else (- EINVAL, I, s))"

section \<open>The dispatcher\<close>

text \<open>
  \<open>pending\<close> is \<open>alt_irq_pending()\<close>: the enabled interrupts that are asserted in a state; \<open>isr\<close>
  runs the routine of a handler pointer with its context. The inner loop tests the bits from
  the lowest and has no other exit, so that it never ends on zero.
\<close>

partial_function (option) find_active :: "u32 \<Rightarrow> u32 \<Rightarrow> u32 \<Rightarrow> u32 option" where
  "find_active active msk i =
     (if active AND msk \<noteq> 0 then Some i else find_active active (push_bit 1 msk) (i + 1))"

definition dispatch_one ::
  "(u32 \<Rightarrow> u32 \<Rightarrow> 'h isys \<Rightarrow> 'h isys option) \<Rightarrow> u32 \<Rightarrow> 'h isys \<Rightarrow> 'h isys option" where
  "dispatch_one isr active st = do {
     i \<leftarrow> find_active active 1 0;
     isr (irq_handler (fst st) (unat i)) (irq_context (fst st) (unat i)) st }"

partial_function (option) dispatch_loop ::
  "('h isys \<Rightarrow> u32) \<Rightarrow> (u32 \<Rightarrow> u32 \<Rightarrow> 'h isys \<Rightarrow> 'h isys option) \<Rightarrow> u32 \<Rightarrow> 'h isys \<Rightarrow> 'h isys option" where
  "dispatch_loop pending isr active st =
     Option.bind (dispatch_one isr active st)
       (\<lambda>st. let active = pending st in if active \<noteq> 0 then dispatch_loop pending isr active st else Some st)"

declare find_active.simps [code] dispatch_loop.simps [code]

definition alt_irq_handler ::
  "('h isys \<Rightarrow> u32) \<Rightarrow> (u32 \<Rightarrow> u32 \<Rightarrow> 'h isys \<Rightarrow> 'h isys option) \<Rightarrow> 'h isys \<Rightarrow> 'h isys option" where
  "alt_irq_handler pending isr st = dispatch_loop pending isr (pending st) st"

section \<open>The search for the lowest bit\<close>

definition lowest :: "u32 \<Rightarrow> nat \<Rightarrow> bool" where
  "lowest w i \<longleftrightarrow> bit w i \<and> (\<forall>j<i. \<not> bit w j)"

lemma lowest_ex: "w \<noteq> 0 \<Longrightarrow> \<exists>i. lowest w i"
proof -
  assume "w \<noteq> 0"
  then obtain i where "bit w i" by (auto simp: bit_eq_iff)
  then show ?thesis unfolding lowest_def using exists_least_iff [of "bit w"] by blast
qed

lemma lowest_unique: "lowest w i \<Longrightarrow> lowest w j \<Longrightarrow> i = j"
  unfolding lowest_def by (metis linorder_neqE_nat)

lemma and_pow_2: "((w :: u32) AND 2 ^ j \<noteq> 0) \<longleftrightarrow> bit w j"
  by (simp add: bit_iff_and_push_bit_not_eq_0)

lemma find_active_step:
  "find_active w (2 ^ j) (of_nat j) =
     (if bit w j then Some (of_nat j) else find_active w (2 ^ Suc j) (of_nat (Suc j)))"
proof -
  have "push_bit 1 (2 ^ j) = (2 ^ Suc j :: u32)" "of_nat j + 1 = (of_nat (Suc j) :: u32)"
    by (simp_all add: push_bit_eq_mult)
  then show ?thesis unfolding find_active.simps [of w "2 ^ j"] by (simp only: and_pow_2)
qed

lemma find_active_from:
  assumes "lowest w i" and "j \<le> i"
  shows "find_active w (2 ^ j) (of_nat j) = Some (of_nat i)"
  using assms(2)
proof (induction "i - j" arbitrary: j)
  case 0
  then have "bit w j" "i = j" using assms(1) by (auto simp: lowest_def)
  then show ?case using find_active_step [of w j] by simp
next
  case (Suc n)
  then have "\<not> bit w j" using assms(1) by (simp add: lowest_def)
  moreover have "find_active w (2 ^ Suc j) (of_nat (Suc j)) = Some (of_nat i)"
    using Suc by (intro Suc.hyps(1)) simp_all
  ultimately show ?case using find_active_step [of w j] by simp
qed

lemma find_active_lowest: "lowest w i \<Longrightarrow> find_active w 1 0 = Some (of_nat i)"
  using find_active_from [of w i 0] by simp

lemma find_active_zero: "find_active 0 msk i = None"
proof (cases "find_active 0 msk i")
  case (Some r)
  have "w = 0 \<longrightarrow> False" if "find_active w msk i = Some r" for w
  proof (rule find_active.raw_induct [where P = "\<lambda>w msk i r. w = 0 \<longrightarrow> False", OF _ that])
    fix find w msk i r
    assume "\<And>w msk i r. find w msk i = Some r \<Longrightarrow> w = 0 \<longrightarrow> False"
      and "(if w AND msk \<noteq> 0 then Some i else find w (push_bit 1 msk) (i + 1)) = Some r"
    then show "w = 0 \<longrightarrow> False" by (auto split: if_splits)
  qed
  with Some show ?thesis by blast
qed

text \<open>A run of the dispatcher: the numbers of the interrupts it serves, one after the other.\<close>

fun serves ::
  "('h isys \<Rightarrow> u32) \<Rightarrow> (u32 \<Rightarrow> u32 \<Rightarrow> 'h isys \<Rightarrow> 'h isys option) \<Rightarrow> 'h isys \<Rightarrow> nat list \<Rightarrow> 'h isys \<Rightarrow> bool"
where
  "serves pending isr st [] st' \<longleftrightarrow> pending st = 0 \<and> st' = st"
| "serves pending isr st (i # is) st' \<longleftrightarrow> lowest (pending st) i \<and>
     (\<exists>t. isr (irq_handler (fst st) i) (irq_context (fst st) i) st = Some t \<and>
        serves pending isr t is st')"

lemma lowest_less: "lowest w i \<Longrightarrow> unat (of_nat i :: u32) = i"
  using bit_imp_le_length [of w i] by (simp add: lowest_def unat_of_nat)

lemma dispatch_one_lowest:
  "lowest w i \<Longrightarrow> dispatch_one isr w st = isr (irq_handler (fst st) i) (irq_context (fst st) i) st"
  by (simp add: dispatch_one_def find_active_lowest lowest_less)

lemma dispatch_loop_serves:
  "serves pending isr st is st' \<Longrightarrow> is \<noteq> [] \<Longrightarrow> dispatch_loop pending isr (pending st) st = Some st'"
proof (induction "is" arbitrary: st)
  case (Cons i js)
  then obtain t where i: "lowest (pending st) i"
    and t: "isr (irq_handler (fst st) i) (irq_context (fst st) i) st = Some t"
    and rest: "serves pending isr t js st'" by auto
  show ?case
  proof (cases js)
    case Nil
    with i t rest show ?thesis by (subst dispatch_loop.simps) (simp add: dispatch_one_lowest)
  next
    case (Cons j ks)
    with rest have "pending t \<noteq> 0" by (auto simp: lowest_def)
    with i t Cons Cons.IH [OF rest] show ?thesis
      by (subst dispatch_loop.simps) (simp add: dispatch_one_lowest Let_def)
  qed
qed simp

lemma dispatch_loop_Some:
  assumes "dispatch_loop pending isr (pending st) st = Some st'"
  shows "\<exists>is. is \<noteq> [] \<and> serves pending isr st is st'"
proof -
  have "w = pending st \<longrightarrow> (\<exists>is. is \<noteq> [] \<and> serves pending isr st is r)"
    if "dispatch_loop pending isr w st = Some r" for w st r
  proof (rule dispatch_loop.raw_induct [where P = "\<lambda>p h w st r. p = pending \<and> h = isr \<longrightarrow>
        w = pending st \<longrightarrow> (\<exists>is. is \<noteq> [] \<and> serves pending isr st is r)",
        OF _ that, THEN mp, OF _ conjI [OF refl refl]])
    fix loop p h w st r
    assume IH: "\<And>p h w st r. loop p h w st = Some r \<Longrightarrow> p = pending \<and> h = isr \<longrightarrow>
        w = pending st \<longrightarrow> (\<exists>is. is \<noteq> [] \<and> serves pending isr st is r)"
      and eq: "Option.bind (dispatch_one h w st)
        (\<lambda>st. let active = p st in if active \<noteq> 0 then loop p h active st else Some st) = Some r"
    show "p = pending \<and> h = isr \<longrightarrow> w = pending st \<longrightarrow> (\<exists>is. is \<noteq> [] \<and> serves pending isr st is r)"
    proof (intro impI)
      assume ph: "p = pending \<and> h = isr" and w: "w = pending st"
      from eq obtain t where one: "dispatch_one isr w st = Some t"
        and rest: "(if pending t \<noteq> 0 then loop pending isr (pending t) t else Some t) = Some r"
        using ph by (auto simp: bind_eq_Some_conv Let_def)
      have "w \<noteq> 0" using one find_active_zero [of 1 0] by (auto simp: dispatch_one_def)
      then obtain i where i: "lowest w i" using lowest_ex by blast
      then have t: "isr (irq_handler (fst st) i) (irq_context (fst st) i) st = Some t"
        using one by (simp add: dispatch_one_lowest)
      show "\<exists>is. is \<noteq> [] \<and> serves pending isr st is r"
      proof (cases "pending t = 0")
        case True
        with rest have "serves pending isr st [i] r" using i t w by simp
        then show ?thesis by blast
      next
        case False
        with rest IH [of pending isr "pending t" t r] obtain js where
          "serves pending isr t js r" by auto
        then have "serves pending isr st (i # js) r" using i t w by auto
        then show ?thesis by blast
      qed
    qed
  qed
  from this [OF assms] show ?thesis by simp
qed

lemma sint_index:
  "unat (w :: u32) < 2 ^ 31 \<Longrightarrow> (sint w < 32 \<longleftrightarrow> unat w < 32) \<and> nat (sint w) = unat w \<and> \<not> sint w < 0"
  by (drule sint_u32_small) linarith

lemma isr_register_eq:
  assumes "unat irq < 32"
  shows "alt_ic_isr_register ic irq isr ctx (I, s) =
     (let k = unat irq;
          on = (if isr \<noteq> 0 then alt_irq_active I OR 2 ^ k else alt_irq_active I AND NOT (2 ^ k))
      in Done (0, I\<lparr>irq_handler := (irq_handler I)(k := isr),
           irq_context := (irq_context I)(k := ctx), alt_irq_active := on, ienable := on\<rparr>, s))"
  using assms
  by (simp add: alt_ic_isr_register_def alt_iic_isr_register_def sint_index ALT_NIRQ_def
      alt_ic_irq_enable_def alt_ic_irq_disable_def alt_irq_enable_def alt_irq_disable_def
      alt_irq_disable_all_def alt_irq_enable_all_def Let_def)

section \<open>Properties\<close>

text \<open>C26: The dispatcher returns exactly after serving a non-empty sequence of interrupts: each
  time the lowest-numbered pending one, by its registered routine with its context, until
  none is pending. Entered with none pending, it never returns.\<close>

theorem alt_irq_handler_serves:
  "alt_irq_handler pending isr st = Some st' \<longleftrightarrow> (\<exists>is. is \<noteq> [] \<and> serves pending isr st is st')"
  unfolding alt_irq_handler_def using dispatch_loop_serves dispatch_loop_Some by blast

text \<open>Registration through the enhanced interface: for the 32 interrupts it stores routine and
  context, enables (or with a null routine disables) exactly that interrupt in the processor,
  restores the interrupt state and returns 0; a number from 32 below 2^31 is refused. A defect:
  a number from 2^31 on counts as negative, passes the check and stores outside the table.\<close>

theorem alt_ic_isr_register_outcomes:
  "alt_ic_isr_register ic irq isr ctx (I, s) =
     (let k = unat irq;
          on = (if isr \<noteq> 0 then alt_irq_active I OR 2 ^ k else alt_irq_active I AND NOT (2 ^ k))
      in if k < 32 then Done (0, I\<lparr>irq_handler := (irq_handler I)(k := isr),
           irq_context := (irq_context I)(k := ctx), alt_irq_active := on, ienable := on\<rparr>, s)
         else if k < 2 ^ 31 then Done (- EINVAL, I, s)
         else Stores_outside (sint irq))"
proof (cases "unat irq < 2 ^ 31")
  case True
  then show ?thesis
    by (simp add: alt_ic_isr_register_def alt_iic_isr_register_def sint_index ALT_NIRQ_def
        alt_ic_irq_enable_def alt_ic_irq_disable_def alt_irq_enable_def alt_irq_disable_def
        alt_irq_disable_all_def alt_irq_enable_all_def Let_def)
next
  case False
  then have "sint irq < 0" by (simp add: sint_u32_less_0)
  with False show ?thesis
    by (simp add: alt_ic_isr_register_def alt_iic_isr_register_def ALT_NIRQ_def)
qed

text \<open>The legacy registration is the same on the 32 interrupts and refuses every other number.\<close>

theorem alt_irq_register_agrees:
  "(if unat irq < 32
    then alt_ic_isr_register ic irq isr ctx st = Done (alt_irq_register irq ctx isr st)
    else alt_irq_register irq ctx isr st = (- EINVAL, st))"
proof (cases "unat irq < 32")
  case True
  then have "unat irq < 2 ^ 31" by simp
  with True show ?thesis
    by (simp add: alt_irq_register_def alt_ic_isr_register_def alt_iic_isr_register_def sint_index
        ALT_NIRQ_def alt_ic_irq_enable_def alt_ic_irq_disable_def Let_def split: prod.splits)
qed (auto simp: alt_irq_register_def ALT_NIRQ_def)

text \<open>A routine that made itself interruptible by more urgent interrupts and then enables any
  interrupt loses that protection: the processor's mask is written without the priority mask.\<close>

theorem alt_irq_enable_drops_priority_mask:
  "case alt_irq_interruptible p st of (old, st1) \<Rightarrow>
     (\<forall>q. bit (ienable (fst st1)) q \<longleftrightarrow> bit (alt_irq_active (fst st)) q \<and> bit (push_bit (unat p) 1 - 1 :: u32) q) \<and>
     (case alt_irq_enable i st1 of (_, st2) \<Rightarrow>
        ienable (fst st2) = alt_irq_active (fst st) OR push_bit (unat i) 1 \<and>
        alt_priority_mask (fst st2) = push_bit (unat p) 1 - 1)"
  by (auto simp: alt_irq_interruptible_def alt_irq_enable_def alt_irq_disable_all_def Let_def
      bit_and_iff split: prod.splits)

end
