(* ===== verification/Hal_Fd.thy ===== *)
theory Hal_Fd
  imports Hal_Llist
begin

text \<open>
  File descriptors of the HAL: the pool \<open>alt_fd_list\<close> (\<open>alt_dev.c\<close>, \<open>alt_get_fd.c\<close>,
  \<open>alt_release_fd.c\<close>, \<open>alt_fd_lock.c\<close>, \<open>alt_fd_unlock.c\<close>), the search for devices and file
  systems (\<open>alt_find_dev.c\<close>, \<open>alt_find_file.c\<close>) and the system calls over them. Device
  drivers are a parameter: the functions that an \<open>alt_dev\<close> structure points to.
\<close>

section \<open>State\<close>

definition ALT_MAX_FD :: nat where "ALT_MAX_FD = 32"
definition ALT_FD_EXCL :: u32 where "ALT_FD_EXCL = 0x80000000"
definition ALT_FD_DEV :: u32 where "ALT_FD_DEV = 0x40000000"
definition ALT_FD_FLAGS_MASK :: u32 where "ALT_FD_FLAGS_MASK = ALT_FD_EXCL OR ALT_FD_DEV"
definition O_ACCMODE :: u32 where "O_ACCMODE = 3"
definition O_RDONLY :: u32 where "O_RDONLY = 0"
definition O_WRONLY :: u32 where "O_WRONLY = 1"
definition ALT_FCNTL_FLAGS_MASK :: u32 where "ALT_FCNTL_FLAGS_MASK = 0x0008 OR 0x4000"
definition F_GETFL :: int where "F_GETFL = 3"
definition F_SETFL :: int where "F_SETFL = 4"
definition TIOCEXCL :: u32 where "TIOCEXCL = 0x740d"
definition TIOCNXCL :: u32 where "TIOCNXCL = 0x740e"
definition IFCHR :: u32 where "IFCHR = 0x2000"

record alt_fd =
  fd_dev :: u32
  fd_priv :: u32
  fd_flags :: u32

text \<open>A null device pointer is 0. \<open>fd_errno\<close> is \<open>ALT_ERRNO\<close>; the two lists are head addresses.\<close>

record fds =
  alt_fd_list :: "nat \<Rightarrow> alt_fd"
  alt_max_fd :: int
  dev_llist :: llist_mem
  alt_dev_list :: u32
  alt_fs_list :: u32
  fd_errno :: int

type_synonym 'x fstate = "fds \<times> 'x"

text \<open>A call returns, or it uses a null device pointer, or an element outside the pool, or it
  never returns.\<close>

datatype 'a call = Returns 'a | Null_deref | Out_of_bounds | Never

fun bind_call :: "'a call \<Rightarrow> ('a \<Rightarrow> 'b call) \<Rightarrow> 'b call" where
  "bind_call (Returns a) f = f a"
| "bind_call Null_deref f = Null_deref"
| "bind_call Out_of_bounds f = Out_of_bounds"
| "bind_call Never f = Never"

text \<open>A device structure: a missing operation is a null function pointer.\<close>

record 'x alt_dev =
  dev_name :: string
  dev_open :: "(nat \<Rightarrow> string \<Rightarrow> u32 \<Rightarrow> u32 \<Rightarrow> 'x fstate \<Rightarrow> (int \<times> 'x fstate) call) option"
  dev_close :: "(nat \<Rightarrow> 'x fstate \<Rightarrow> (int \<times> 'x fstate) call) option"
  dev_read :: "(nat \<Rightarrow> nat \<Rightarrow> 'x fstate \<Rightarrow> (int \<times> u8 list \<times> 'x fstate) call) option"
  dev_write :: "(nat \<Rightarrow> u8 list \<Rightarrow> 'x fstate \<Rightarrow> (int \<times> 'x fstate) call) option"
  dev_lseek :: "(nat \<Rightarrow> int \<Rightarrow> int \<Rightarrow> 'x fstate \<Rightarrow> (int \<times> 'x fstate) call) option"
  dev_fstat :: "(nat \<Rightarrow> 'x fstate \<Rightarrow> (int \<times> u32 \<times> 'x fstate) call) option"
  dev_ioctl :: "(nat \<Rightarrow> u32 \<Rightarrow> u32 \<Rightarrow> 'x fstate \<Rightarrow> (int \<times> u32 \<times> 'x fstate) call) option"

type_synonym 'x devices = "u32 \<Rightarrow> 'x alt_dev"

definition set_errno :: "int \<Rightarrow> 'x fstate \<Rightarrow> 'x fstate" where
  "set_errno e = (\<lambda>(F, x). (F\<lparr>fd_errno := e\<rparr>, x))"

definition upd_fd :: "nat \<Rightarrow> (alt_fd \<Rightarrow> alt_fd) \<Rightarrow> fds \<Rightarrow> fds" where
  "upd_fd i f F = F\<lparr>alt_fd_list := (alt_fd_list F)(i := f (alt_fd_list F i))\<rparr>"

text \<open>\<open>fd = (file < 0) ? NULL : &alt_fd_list[file]; if (fd) ... else ...\<close>\<close>

definition with_fd :: "int \<Rightarrow> 'x fstate \<Rightarrow> (nat \<Rightarrow> alt_fd \<Rightarrow> 'b call) \<Rightarrow> 'b call \<Rightarrow> 'b call" where
  "with_fd file st k bad =
     (if file < 0 then bad
      else if nat file \<ge> ALT_MAX_FD then Out_of_bounds
      else k (nat file) (alt_fd_list (fst st) (nat file)))"

text \<open>\<open>fd->dev\<close> followed.\<close>

definition with_dev :: "'x devices \<Rightarrow> alt_fd \<Rightarrow> ('x alt_dev \<Rightarrow> 'b call) \<Rightarrow> 'b call" where
  "with_dev D fd k = (if fd_dev fd = 0 then Null_deref else k (D (fd_dev fd)))"

section \<open>The pool\<close>

text \<open>The loop of \<open>alt_get_fd\<close> from index \<open>i\<close>, with \<open>n\<close> elements left.\<close>

fun get_fd_loop :: "nat \<Rightarrow> nat \<Rightarrow> u32 \<Rightarrow> fds \<Rightarrow> int \<times> fds" where
  "get_fd_loop 0 i dev F = (- EMFILE, F)"
| "get_fd_loop (Suc n) i dev F =
     (if fd_dev (alt_fd_list F i) = 0
      then let F = upd_fd i (\<lambda>fd. fd\<lparr>fd_dev := dev\<rparr>) F;
               F = (if int i > alt_max_fd F then F\<lparr>alt_max_fd := int i\<rparr> else F)
           in (int i, F)
      else get_fd_loop n (i + 1) dev F)"

definition alt_get_fd :: "u32 \<Rightarrow> fds \<Rightarrow> int \<times> fds" where
  "alt_get_fd dev F = get_fd_loop ALT_MAX_FD 0 dev F"

definition alt_release_fd :: "int \<Rightarrow> fds \<Rightarrow> fds" where
  "alt_release_fd fd F =
     (if fd > 2 then upd_fd (nat fd) (\<lambda>d. d\<lparr>fd_flags := 0, fd_dev := 0\<rparr>) F else F)"

definition alt_fd_lock :: "nat \<Rightarrow> fds \<Rightarrow> int \<times> fds" where
  "alt_fd_lock k F =
     (if \<exists>i\<in>set [0..<nat (alt_max_fd F)]. i \<noteq> k \<and>
         fd_dev (alt_fd_list F i) = fd_dev (alt_fd_list F k)
      then (- EACCES, F)
      else (0, upd_fd k (\<lambda>d. d\<lparr>fd_flags := fd_flags d OR ALT_FD_EXCL\<rparr>) F))"

definition alt_fd_unlock :: "nat \<Rightarrow> fds \<Rightarrow> int \<times> fds" where
  "alt_fd_unlock k F = (0, upd_fd k (\<lambda>d. d\<lparr>fd_flags := fd_flags d AND NOT ALT_FD_EXCL\<rparr>) F)"

text \<open>Here the loop includes \<open>alt_max_fd\<close>. Its index is unsigned; it runs after an allocation,
  when \<open>alt_max_fd\<close> is not negative.\<close>

definition alt_file_locked :: "nat \<Rightarrow> fds \<Rightarrow> int \<times> fds" where
  "alt_file_locked k F =
     (let F = upd_fd k (\<lambda>d. d\<lparr>fd_flags := fd_flags d OR ALT_FD_DEV\<rparr>) F
      in if \<exists>i\<in>set [0..<nat (alt_max_fd F + 1)].
            fd_dev (alt_fd_list F i) = fd_dev (alt_fd_list F k) \<and>
            fd_flags (alt_fd_list F i) AND ALT_FD_EXCL \<noteq> 0 \<and> i \<noteq> k
         then (- EACCES, F) else (0, F))"

section \<open>Finding a device or a file system\<close>

partial_function (option) find_dev_loop ::
  "(u32 \<Rightarrow> string) \<Rightarrow> llist_mem \<Rightarrow> u32 \<Rightarrow> string \<Rightarrow> u32 \<Rightarrow> u32 option" where
  "find_dev_loop nm m head name dv =
     (if dv = head then Some 0
      else if nm dv = name then Some dv
      else find_dev_loop nm m head name (l_next m dv))"

definition alt_find_dev :: "'x devices \<Rightarrow> string \<Rightarrow> u32 \<Rightarrow> fds \<Rightarrow> u32 option" where
  "alt_find_dev D name list F =
     find_dev_loop (\<lambda>d. dev_name (D d)) (dev_llist F) list name (l_next (dev_llist F) list)"

text \<open>
  The name of a file system matches a file below it. Where the C code looks at \<open>name[len]\<close>
  beyond the end of \<open>name\<close>, the comparison that follows fails whatever it finds there. A file
  system has a non-empty name.
\<close>

definition fs_matches :: "string \<Rightarrow> string \<Rightarrow> bool" where
  "fs_matches fs name =
     (let len = length fs;
          len = (if fs ! (len - 1) = CHR ''/'' then len - 1 else len)
      in len \<le> length name \<and> (len = length name \<or> name ! len = CHR ''/'') \<and>
         take len fs = take len name)"

partial_function (option) find_file_loop ::
  "(u32 \<Rightarrow> string) \<Rightarrow> llist_mem \<Rightarrow> u32 \<Rightarrow> string \<Rightarrow> u32 \<Rightarrow> u32 option" where
  "find_file_loop nm m head name dv =
     (if dv = head then Some 0
      else if fs_matches (nm dv) name then Some dv
      else find_file_loop nm m head name (l_next m dv))"

declare find_dev_loop.simps [code] find_file_loop.simps [code]

definition alt_find_file :: "'x devices \<Rightarrow> string \<Rightarrow> fds \<Rightarrow> u32 option" where
  "alt_find_file D name F =
     find_file_loop (\<lambda>d. dev_name (D d)) (dev_llist F) (alt_fs_list F) name
       (l_next (dev_llist F) (alt_fs_list F))"

text \<open>Registration; \<open>None\<close> for a name is the null pointer.\<close>

definition alt_dev_llist_insert :: "u32 \<Rightarrow> string option \<Rightarrow> u32 \<Rightarrow> fds \<Rightarrow> int \<times> fds" where
  "alt_dev_llist_insert dev name list F =
     (if dev = 0 \<or> name = None then (- EINVAL, F\<lparr>fd_errno := EINVAL\<rparr>)
      else (0, F\<lparr>dev_llist := alt_llist_insert list dev (dev_llist F)\<rparr>))"

definition alt_dev_reg :: "u32 \<Rightarrow> string option \<Rightarrow> fds \<Rightarrow> int \<times> fds" where
  "alt_dev_reg dev name F = alt_dev_llist_insert dev name (alt_dev_list F) F"

definition alt_fs_reg :: "u32 \<Rightarrow> string option \<Rightarrow> fds \<Rightarrow> int \<times> fds" where
  "alt_fs_reg dev name F =
     (if name = None then (- ENODEV, F)
      else (0, F\<lparr>dev_llist := alt_llist_insert (alt_fs_list F) dev (dev_llist F)\<rparr>))"

section \<open>The system calls\<close>

definition alt_open ::
  "'x devices \<Rightarrow> string \<Rightarrow> u32 \<Rightarrow> u32 \<Rightarrow> 'x fstate \<Rightarrow> (int \<times> 'x fstate) call" where
  "alt_open D file flags mode = (\<lambda>(F, x).
     let fail = (\<lambda>index status (F, x). Returns (- 1, (alt_release_fd index F)\<lparr>fd_errno := - status\<rparr>, x));
         found = (case alt_find_dev D file (alt_dev_list F) F of
             None \<Rightarrow> None
           | Some dev \<Rightarrow> if dev \<noteq> 0 then Some (dev, False)
                        else map_option (\<lambda>dev. (dev, True)) (alt_find_file D file F))
     in case found of
          None \<Rightarrow> Never
        | Some (dev, isafs) \<Rightarrow>
            if dev = 0 then fail (- 1) (- ENODEV) (F, x)
            else case alt_get_fd dev F of (index, F) \<Rightarrow>
              if index < 0 then fail index index (F, x)
              else let F = upd_fd (nat index) (\<lambda>d. d\<lparr>fd_flags := flags AND NOT ALT_FD_FLAGS_MASK\<rparr>) F;
                       (status, F) = (if isafs then (0, F) else alt_file_locked (nat index) F)
                   in if status < 0 then fail index status (F, x)
                      else bind_call
                        (case dev_open (D dev) of None \<Rightarrow> Returns (0, F, x)
                         | Some op \<Rightarrow> op (nat index) file flags mode (F, x))
                        (\<lambda>(status, st). if status < 0 then fail index status st else Returns (index, st)))"

definition alt_close :: "'x devices \<Rightarrow> int \<Rightarrow> 'x fstate \<Rightarrow> (int \<times> 'x fstate) call" where
  "alt_close D fildes st =
     with_fd fildes st
       (\<lambda>k fd. with_dev D fd (\<lambda>dev.
          bind_call (case dev_close dev of None \<Rightarrow> Returns (0, st) | Some cl \<Rightarrow> cl k st)
            (\<lambda>(rval, F, x).
               let F = alt_release_fd fildes F
               in if rval < 0 then Returns (- 1, F\<lparr>fd_errno := - rval\<rparr>, x) else Returns (0, F, x))))
       (Returns (- 1, set_errno EBADFD st))"

definition alt_read ::
  "'x devices \<Rightarrow> int \<Rightarrow> nat \<Rightarrow> 'x fstate \<Rightarrow> (int \<times> u8 list \<times> 'x fstate) call" where
  "alt_read D file len st =
     with_fd file st
       (\<lambda>k fd. if fd_flags fd AND O_ACCMODE \<noteq> O_WRONLY
          then with_dev D fd (\<lambda>dev. case dev_read dev of
                 None \<Rightarrow> Returns (- 1, [], set_errno EACCES st)
               | Some rd \<Rightarrow> bind_call (rd k len st) (\<lambda>(rval, bytes, st).
                   if rval < 0 then Returns (- 1, bytes, set_errno (- rval) st)
                   else Returns (rval, bytes, st)))
          else Returns (- 1, [], set_errno EACCES st))
       (Returns (- 1, [], set_errno EBADFD st))"

definition alt_write ::
  "'x devices \<Rightarrow> int \<Rightarrow> u8 list \<Rightarrow> 'x fstate \<Rightarrow> (int \<times> 'x fstate) call" where
  "alt_write D file bytes st =
     with_fd file st
       (\<lambda>k fd. if fd_flags fd AND O_ACCMODE \<noteq> O_RDONLY
          then with_dev D fd (\<lambda>dev. case dev_write dev of
                 None \<Rightarrow> Returns (- 1, set_errno EACCES st)
               | Some wr \<Rightarrow> bind_call (wr k bytes st) (\<lambda>(rval, st).
                   if rval < 0 then Returns (- 1, set_errno (- rval) st) else Returns (rval, st)))
          else Returns (- 1, set_errno EACCES st))
       (Returns (- 1, set_errno EBADFD st))"

definition alt_lseek ::
  "'x devices \<Rightarrow> int \<Rightarrow> int \<Rightarrow> int \<Rightarrow> 'x fstate \<Rightarrow> (int \<times> 'x fstate) call" where
  "alt_lseek D file ptr dir st =
     bind_call
       (with_fd file st
          (\<lambda>k fd. with_dev D fd (\<lambda>dev. case dev_lseek dev of
              Some sk \<Rightarrow> sk k ptr dir st
            | None \<Rightarrow> Returns (- ENOTSUP, st)))
          (Returns (- EBADFD, st)))
       (\<lambda>(rc, st). if rc < 0 then Returns (- 1, set_errno (- rc) st) else Returns (rc, st))"

text \<open>\<open>st_mode\<close> is the member of \<open>struct stat\<close> that is set; the last one is the caller's.\<close>

definition alt_fstat :: "'x devices \<Rightarrow> int \<Rightarrow> u32 \<Rightarrow> 'x fstate \<Rightarrow> (int \<times> u32 \<times> 'x fstate) call" where
  "alt_fstat D file st_mode st =
     with_fd file st
       (\<lambda>k fd. with_dev D fd (\<lambda>dev. case dev_fstat dev of
           Some fs \<Rightarrow> fs k st
         | None \<Rightarrow> Returns (0, IFCHR, st)))
       (Returns (- 1, st_mode, set_errno EBADFD st))"

definition alt_isatty :: "'x devices \<Rightarrow> int \<Rightarrow> u32 \<Rightarrow> 'x fstate \<Rightarrow> (int \<times> 'x fstate) call" where
  "alt_isatty D file junk st =
     with_fd file st
       (\<lambda>k fd. with_dev D fd (\<lambda>dev. case dev_fstat dev of
           None \<Rightarrow> Returns (1, st)
         | Some _ \<Rightarrow> bind_call (alt_fstat D file junk st)
             (\<lambda>(_, st_mode, st). Returns (if st_mode = IFCHR then 1 else 0, st))))
       (Returns (0, set_errno EBADFD st))"

definition alt_ioctl ::
  "'x devices \<Rightarrow> int \<Rightarrow> u32 \<Rightarrow> u32 \<Rightarrow> 'x fstate \<Rightarrow> (int \<times> u32 \<times> 'x fstate) call" where
  "alt_ioctl D file req arg st =
     bind_call
       (with_fd file st
          (\<lambda>k fd.
             if fd_flags fd AND ALT_FD_DEV \<noteq> 0 \<and> req = TIOCEXCL
             then (case alt_fd_lock k (fst st) of (rc, F) \<Rightarrow> Returns (rc, arg, F, snd st))
             else if fd_flags fd AND ALT_FD_DEV \<noteq> 0 \<and> req = TIOCNXCL
             then (case alt_fd_unlock k (fst st) of (rc, F) \<Rightarrow> Returns (rc, arg, F, snd st))
             else with_dev D fd (\<lambda>dev. case dev_ioctl dev of
                 Some io \<Rightarrow> io k req arg st
               | None \<Rightarrow> Returns (- ENOTTY, arg, st)))
          (Returns (- EBADFD, arg, st)))
       (\<lambda>(rc, arg, st). Returns (rc, arg, if rc < 0 then set_errno (- rc) st else st))"

definition alt_fcntl :: "int \<Rightarrow> int \<Rightarrow> u32 \<Rightarrow> 'x fstate \<Rightarrow> (int \<times> 'x fstate) call" where
  "alt_fcntl file cmd flags st =
     with_fd file st
       (\<lambda>k fd.
          if cmd = F_GETFL then Returns (sint (fd_flags fd AND NOT ALT_FD_FLAGS_MASK), st)
          else if cmd = F_SETFL
          then Returns (0, upd_fd k (\<lambda>d.
                 let d = d\<lparr>fd_flags := fd_flags d AND NOT ALT_FCNTL_FLAGS_MASK\<rparr>
                 in d\<lparr>fd_flags := fd_flags d OR (flags AND ALT_FCNTL_FLAGS_MASK)\<rparr>) (fst st), snd st)
          else Returns (- 1, set_errno EINVAL st))
       (Returns (- 1, set_errno EBADFD st))"

section \<open>Standard input, output and error\<close>

definition alt_open_fd :: "'x devices \<Rightarrow> nat \<Rightarrow> string \<Rightarrow> u32 \<Rightarrow> u32 \<Rightarrow> 'x fstate \<Rightarrow> 'x fstate call" where
  "alt_open_fd D k name flags mode st =
     bind_call (alt_open D name flags mode st) (\<lambda>(old, F, x).
       if old \<ge> 0
       then let F = upd_fd k (\<lambda>_. alt_fd_list F (nat old)) F in Returns (alt_release_fd old F, x)
       else Returns (F, x))"

definition alt_io_redirect ::
  "'x devices \<Rightarrow> string \<Rightarrow> string \<Rightarrow> string \<Rightarrow> 'x fstate \<Rightarrow> 'x fstate call" where
  "alt_io_redirect D stdout_dev stdin_dev stderr_dev st =
     bind_call (alt_open_fd D 1 stdout_dev O_WRONLY 0x1FF st) (\<lambda>st.
     bind_call (alt_open_fd D 0 stdin_dev O_RDONLY 0x1FF st) (\<lambda>st.
     alt_open_fd D 2 stderr_dev O_WRONLY 0x1FF st))"

text \<open>The device that discards everything, and the pool at reset.\<close>

definition alt_dev_null_write :: "nat \<Rightarrow> u8 list \<Rightarrow> 'x fstate \<Rightarrow> (int \<times> 'x fstate) call" where
  "alt_dev_null_write fd bytes st = Returns (int (length bytes), st)"

definition alt_dev_null :: "'x alt_dev" where
  "alt_dev_null = \<lparr>dev_name = ''/dev/null'', dev_open = None, dev_close = None, dev_read = None,
     dev_write = Some alt_dev_null_write, dev_lseek = None, dev_fstat = None, dev_ioctl = None\<rparr>"

definition fd_free :: alt_fd where "fd_free = \<lparr>fd_dev = 0, fd_priv = 0, fd_flags = 0\<rparr>"

definition fds_at_reset :: "u32 \<Rightarrow> u32 \<Rightarrow> u32 \<Rightarrow> fds" where
  "fds_at_reset null devs fss = \<lparr>
     alt_fd_list = (\<lambda>i. if i < 3 then \<lparr>fd_dev = null, fd_priv = 0, fd_flags = 0\<rparr> else fd_free),
     alt_max_fd = - 1,
     dev_llist = alt_llist_insert devs null \<lparr>l_next = id, l_prev = id\<rparr>,
     alt_dev_list = devs, alt_fs_list = fss, fd_errno = 0\<rparr>"

section \<open>Lemmas\<close>

lemma upd_fd_simps [simp]:
  "alt_fd_list (upd_fd k f F) i = (if i = k then f (alt_fd_list F k) else alt_fd_list F i)"
  "alt_max_fd (upd_fd k f F) = alt_max_fd F" "dev_llist (upd_fd k f F) = dev_llist F"
  "alt_dev_list (upd_fd k f F) = alt_dev_list F" "alt_fs_list (upd_fd k f F) = alt_fs_list F"
  "fd_errno (upd_fd k f F) = fd_errno F"
  by (simp_all add: upd_fd_def)

text \<open>The descriptors in use beyond the three standard ones lie below the high-water mark.\<close>

definition pool_wf :: "fds \<Rightarrow> bool" where
  "pool_wf F \<longleftrightarrow> alt_max_fd F < 32 \<and> (\<forall>i. 2 < i \<and> fd_dev (alt_fd_list F i) \<noteq> 0 \<longrightarrow> int i \<le> alt_max_fd F)"

text \<open>The state after descriptor \<open>i\<close> was given to \<open>dev\<close>.\<close>

definition taken :: "nat \<Rightarrow> u32 \<Rightarrow> fds \<Rightarrow> fds" where
  "taken i dev F = (upd_fd i (\<lambda>fd. fd\<lparr>fd_dev := dev\<rparr>) F)\<lparr>alt_max_fd := max (alt_max_fd F) (int i)\<rparr>"

lemma get_fd_loop_eq:
  "get_fd_loop n i dev F =
     (if \<exists>k. i \<le> k \<and> k < i + n \<and> fd_dev (alt_fd_list F k) = 0
      then let k = (LEAST k. i \<le> k \<and> fd_dev (alt_fd_list F k) = 0) in (int k, taken k dev F)
      else (- EMFILE, F))"
proof (induction n arbitrary: i)
  case (Suc n)
  show ?case
  proof (cases "fd_dev (alt_fd_list F i) = 0")
    case True
    then have "(LEAST k. i \<le> k \<and> fd_dev (alt_fd_list F k) = 0) = i" by (intro Least_equality) auto
    with True show ?thesis by (auto simp: taken_def max_def Let_def)
  next
    case False
    then have "i \<le> k \<and> fd_dev (alt_fd_list F k) = 0 \<longleftrightarrow> Suc i \<le> k \<and> fd_dev (alt_fd_list F k) = 0" for k
      using le_eq_less_or_eq by auto
    moreover have "(\<exists>k. i \<le> k \<and> k < i + Suc n \<and> fd_dev (alt_fd_list F k) = 0) \<longleftrightarrow>
        (\<exists>k. Suc i \<le> k \<and> k < Suc i + n \<and> fd_dev (alt_fd_list F k) = 0)"
      using calculation by (metis add_Suc add_Suc_right)
    ultimately show ?thesis using False Suc [of "Suc i"]
      by (simp only: get_fd_loop.simps if_False add_Suc add_Suc_right Suc_eq_plus1 [symmetric])
  qed
qed auto

lemma alt_get_fd_eq:
  "alt_get_fd dev F =
     (if \<exists>k<32. fd_dev (alt_fd_list F k) = 0
      then let k = (LEAST k. fd_dev (alt_fd_list F k) = 0) in (int k, taken k dev F)
      else (- EMFILE, F))"
  unfolding alt_get_fd_def ALT_MAX_FD_def get_fd_loop_eq
  by (simp only: le0 add_0 simp_thms HOL.refl)

lemma pool_wf_taken:
  assumes "pool_wf F" and "i < 32"
  shows "pool_wf (taken i dev F)"
proof -
  have "int j \<le> max (alt_max_fd F) (int i)" if "2 < j" "fd_dev (alt_fd_list (taken i dev F) j) \<noteq> 0" for j
    using assms(1) that by (cases "j = i") (auto simp: pool_wf_def taken_def max_def)
  moreover have "max (alt_max_fd F) (int i) < 32" using assms by (simp add: pool_wf_def)
  ultimately show ?thesis by (simp add: pool_wf_def taken_def)
qed

lemma pool_wf_release: "pool_wf F \<Longrightarrow> pool_wf (alt_release_fd k F)"
  by (auto simp: pool_wf_def alt_release_fd_def)

text \<open>The search is the search in the list of registered devices.\<close>

lemma find_dev_loop_eq:
  assumes "dll m head (ps @ xs)"
  shows "find_dev_loop nm m head name (hd (xs @ [head])) =
    Some (case find (\<lambda>d. nm d = name) xs of None \<Rightarrow> 0 | Some d \<Rightarrow> d)"
  using assms
proof (induction xs arbitrary: ps)
  case Nil
  then show ?case by (subst find_dev_loop.simps) simp
next
  case (Cons x xs)
  then have x: "x \<noteq> head" "l_next m x = hd (xs @ [head])"
    using dll_next [of m head ps x xs] by auto
  from Cons.prems have "dll m head ((ps @ [x]) @ xs)" by simp
  from Cons.IH [OF this] x show ?case by (subst find_dev_loop.simps) simp
qed

lemma find_file_loop_eq:
  assumes "dll m head (ps @ xs)"
  shows "find_file_loop nm m head name (hd (xs @ [head])) =
    Some (case find (\<lambda>d. fs_matches (nm d) name) xs of None \<Rightarrow> 0 | Some d \<Rightarrow> d)"
  using assms
proof (induction xs arbitrary: ps)
  case Nil
  then show ?case by (subst find_file_loop.simps) simp
next
  case (Cons x xs)
  then have x: "x \<noteq> head" "l_next m x = hd (xs @ [head])"
    using dll_next [of m head ps x xs] by auto
  from Cons.prems have "dll m head ((ps @ [x]) @ xs)" by simp
  from Cons.IH [OF this] x show ?case by (subst find_file_loop.simps) simp
qed

section \<open>Properties\<close>

text \<open>C33: Allocation gives the lowest free descriptor of the 32, or -EMFILE with the pool
  unchanged when there is none, and keeps every descriptor below the high-water mark.\<close>

theorem alt_get_fd_lowest:
  assumes "pool_wf F" and "alt_get_fd dev F = (r, F')"
  shows "pool_wf F' \<and>
    (r = - EMFILE \<and> F' = F \<and> (\<forall>k<32. fd_dev (alt_fd_list F k) \<noteq> 0) \<or>
     (\<exists>k<32. r = int k \<and> fd_dev (alt_fd_list F k) = 0 \<and> (\<forall>j<k. fd_dev (alt_fd_list F j) \<noteq> 0) \<and>
        (\<forall>j. alt_fd_list F' j = (if j = k then (alt_fd_list F k)\<lparr>fd_dev := dev\<rparr> else alt_fd_list F j))))"
proof (cases "\<exists>k<32. fd_dev (alt_fd_list F k) = 0")
  case False
  with assms show ?thesis by (auto simp: alt_get_fd_eq)
next
  case True
  define k where "k = (LEAST k. fd_dev (alt_fd_list F k) = 0)"
  from True obtain j where j: "j < 32" "fd_dev (alt_fd_list F j) = 0" by blast
  then have "k \<le> j" unfolding k_def by (intro Least_le)
  moreover have "fd_dev (alt_fd_list F k) = 0" unfolding k_def using j(2) by (rule LeastI)
  moreover have "\<forall>i<k. fd_dev (alt_fd_list F i) \<noteq> 0" unfolding k_def using not_less_Least by blast
  moreover have "r = int k" "F' = taken k dev F"
    using assms(2) True by (auto simp: alt_get_fd_eq k_def Let_def)
  ultimately show ?thesis
    using pool_wf_taken [OF assms(1), of k dev] j(1) by (auto simp: taken_def)
qed

theorem alt_get_fd_lowest_witness:
  "\<exists>r F'. alt_get_fd 7 (fds_at_reset 5 8 9) = (r, F') \<and> pool_wf F'"
proof -
  have "pool_wf (fds_at_reset 5 8 9)" by (simp add: pool_wf_def fds_at_reset_def fd_free_def)
  then show ?thesis using alt_get_fd_lowest [of "fds_at_reset 5 8 9" 7] by (metis prod.exhaust)
qed

text \<open>Looking a device up walks the circular list of registered devices exactly once and
  finds the first one with that name, or none.\<close>

theorem alt_find_dev_first:
  assumes "dll (dev_llist F) head xs"
  shows "alt_find_dev D name head F =
    Some (case find (\<lambda>d. dev_name (D d) = name) xs of None \<Rightarrow> 0 | Some d \<Rightarrow> d)"
  using find_dev_loop_eq [of "dev_llist F" head "[]" xs] assms dll_next_head [OF assms]
  by (simp add: alt_find_dev_def)

theorem alt_find_dev_first_witness:
  "alt_find_dev (\<lambda>_. alt_dev_null) ''/dev/null'' 8 (fds_at_reset 5 8 9) = Some 5"
proof -
  have "dll (dev_llist (fds_at_reset 5 8 9)) 8 [5]"
    using dll_insert [of "\<lparr>l_next = id, l_prev = id\<rparr>" 8 "[]" 5]
    by (simp add: fds_at_reset_def dll_def)
  from alt_find_dev_first [OF this, of "\<lambda>_. alt_dev_null" "''/dev/null''"] show ?thesis
    by (simp add: alt_dev_null_def)
qed

text \<open>Bad descriptors: a negative one is reported by every call; but one beyond the pool is
  used unchecked, and one that is not open makes the calls follow a null device pointer
  instead of failing with EBADFD (a write is refused, since a free descriptor is read-only).\<close>

theorem bad_descriptors:
  "(if file < 0 then
      alt_read D file n st = Returns (- 1, [], set_errno EBADFD st) \<and>
      alt_write D file bs st = Returns (- 1, set_errno EBADFD st) \<and>
      alt_close D file st = Returns (- 1, set_errno EBADFD st) \<and>
      alt_lseek D file p dir st = Returns (- 1, set_errno EBADFD st) \<and>
      alt_ioctl D file req arg st = Returns (- EBADFD, arg, set_errno EBADFD st)
    else if file \<ge> 32 then
      alt_read D file n st = Out_of_bounds \<and> alt_write D file bs st = Out_of_bounds \<and>
      alt_close D file st = Out_of_bounds \<and> alt_lseek D file p dir st = Out_of_bounds \<and>
      alt_ioctl D file req arg st = Out_of_bounds
    else if alt_fd_list (fst st) (nat file) = fd_free then
      alt_read D file n st = Null_deref \<and>
      alt_write D file bs st = Returns (- 1, set_errno EACCES st) \<and>
      alt_close D file st = Null_deref \<and> alt_lseek D file p dir st = Null_deref \<and>
      alt_ioctl D file req arg st = Null_deref
    else True)"
  by (auto simp: alt_read_def alt_write_def alt_close_def alt_lseek_def alt_ioctl_def with_fd_def
      with_dev_def ALT_MAX_FD_def fd_free_def O_ACCMODE_def O_WRONLY_def O_RDONLY_def EBADFD_def
      ALT_FD_DEV_def nat_le_iff le_nat_iff)

text \<open>A defect: locking a device for exclusive use overlooks the descriptor with the highest
  number ever used. It is granted although that descriptor has the same device open.\<close>

theorem fd_lock_misses_highest:
  assumes "alt_max_fd F = int h" and "k < h" and "fd_dev (alt_fd_list F h) = fd_dev (alt_fd_list F k)"
    and "\<forall>i<h. i \<noteq> k \<longrightarrow> fd_dev (alt_fd_list F i) \<noteq> fd_dev (alt_fd_list F k)"
  shows "\<exists>F'. alt_fd_lock k F = (0, F') \<and> bit (fd_flags (alt_fd_list F' k)) 31 \<and>
    fd_dev (alt_fd_list F' h) = fd_dev (alt_fd_list F' k)"
  using assms by (auto simp: alt_fd_lock_def ALT_FD_EXCL_def bit_or_iff)

theorem fd_lock_misses_highest_witness:
  "\<exists>F'. alt_fd_lock 3 (taken 4 7 (taken 3 7 (fds_at_reset 5 8 9))) = (0, F') \<and>
     bit (fd_flags (alt_fd_list F' 3)) 31 \<and> fd_dev (alt_fd_list F' 4) = fd_dev (alt_fd_list F' 3)"
  by (rule fd_lock_misses_highest) (auto simp: taken_def fds_at_reset_def)

text \<open>A device that one descriptor holds exclusively cannot be opened again: \<open>open\<close> fails with
  EACCES without calling the driver, and the descriptor it took is free again.\<close>

theorem alt_open_respects_lock:
  assumes "pool_wf F" and "alt_find_dev D name (alt_dev_list F) F = Some dev" and "dev \<noteq> 0"
    and "i < 32" "fd_dev (alt_fd_list F i) = dev" "fd_flags (alt_fd_list F i) AND ALT_FD_EXCL \<noteq> 0"
    and "\<forall>j<3. fd_dev (alt_fd_list F j) \<noteq> 0" and "\<exists>k<32. fd_dev (alt_fd_list F k) = 0"
  shows "\<exists>F'. alt_open D name flags mode (F, x) = Returns (- 1, F', x) \<and> fd_errno F' = EACCES \<and>
    pool_wf F' \<and> (\<forall>j. fd_dev (alt_fd_list F' j) = fd_dev (alt_fd_list F j))"
proof -
  define k where "k = (LEAST k. fd_dev (alt_fd_list F k) = 0)"
  from assms(8) obtain j where j: "j < 32" "fd_dev (alt_fd_list F j) = 0" by blast
  then have "k \<le> j" unfolding k_def by (intro Least_le)
  with j have k32: "k < 32" by simp
  have kfree: "fd_dev (alt_fd_list F k) = 0" unfolding k_def using j(2) by (rule LeastI)
  have k2: "2 < k"
  proof (rule ccontr)
    assume "\<not> 2 < k"
    then have "k < 3" by simp
    with assms(7) kfree show False by blast
  qed
  have ik: "i \<noteq> k" using kfree assms(3,5) by auto
  have get: "alt_get_fd dev F = (int k, taken k dev F)"
    using assms(8) unfolding alt_get_fd_eq k_def Let_def by (simp only: if_True)
  define F1 where "F1 = upd_fd k (\<lambda>d. d\<lparr>fd_flags := flags AND NOT ALT_FD_FLAGS_MASK\<rparr>) (taken k dev F)"
  define F2 where "F2 = upd_fd k (\<lambda>d. d\<lparr>fd_flags := fd_flags d OR ALT_FD_DEV\<rparr>) F1"
  have ile: "int i \<le> max (alt_max_fd F) (int k)"
    using assms(1,3,5) k2 by (cases "2 < i") (auto simp: pool_wf_def max_def)
  have m: "alt_max_fd F2 = max (alt_max_fd F) (int k)" by (simp add: F1_def F2_def taken_def)
  have "fd_dev (alt_fd_list F2 i) = fd_dev (alt_fd_list F2 k)"
    "fd_flags (alt_fd_list F2 i) AND ALT_FD_EXCL \<noteq> 0"
    using ik assms(5,6) by (simp_all add: F1_def F2_def taken_def)
  moreover have "i \<in> set [0..<nat (alt_max_fd F2 + 1)]" using ile unfolding m by auto
  ultimately have "alt_file_locked k F1 = (- EACCES, F2)"
    unfolding alt_file_locked_def Let_def F2_def [symmetric] using ik by (intro if_P bexI [of _ i]) auto
  then have "alt_open D name flags mode (F, x) =
      Returns (- 1, (alt_release_fd (int k) F2)\<lparr>fd_errno := EACCES\<rparr>, x)"
    using assms(2,3) get by (simp add: alt_open_def Let_def F1_def [symmetric] EACCES_def)
  moreover have "pool_wf (alt_release_fd (int k) F2)"
    using pool_wf_release pool_wf_taken [OF assms(1) k32, of dev]
    by (auto simp: F1_def F2_def pool_wf_def)
  ultimately show ?thesis using k2 kfree
    by (auto simp: pool_wf_def alt_release_fd_def F1_def F2_def taken_def)
qed

text \<open>The state of the witness: descriptor 3 holds the device exclusively.\<close>

definition locked_fds :: fds where
  "locked_fds = upd_fd 3 (\<lambda>d. d\<lparr>fd_flags := ALT_FD_EXCL\<rparr>) (taken 3 5 (fds_at_reset 5 8 9))"

theorem alt_open_respects_lock_witness:
  "\<exists>F'. alt_open (\<lambda>_. alt_dev_null) ''/dev/null'' 1 0 (locked_fds, ()) = Returns (- 1, F', ()) \<and>
    fd_errno F' = EACCES \<and> pool_wf F' \<and> (\<forall>j. fd_dev (alt_fd_list F' j) = fd_dev (alt_fd_list locked_fds j))"
proof (rule alt_open_respects_lock [where dev = 5 and i = 3])
  have "dll (dev_llist locked_fds) (alt_dev_list locked_fds) [5]"
    using dll_insert [of "\<lparr>l_next = id, l_prev = id\<rparr>" 8 "[]" 5]
    by (simp add: locked_fds_def taken_def fds_at_reset_def dll_def)
  from find_dev_loop_eq [of _ _ "[]", simplified, OF this]
  show "alt_find_dev (\<lambda>_. alt_dev_null) ''/dev/null'' (alt_dev_list locked_fds) locked_fds = Some 5"
    using dll_next_head [OF \<open>dll _ _ _\<close>] by (simp add: alt_find_dev_def alt_dev_null_def)
  show "pool_wf locked_fds"
    by (simp add: pool_wf_def locked_fds_def taken_def fds_at_reset_def fd_free_def)
  show "\<exists>k<32. fd_dev (alt_fd_list locked_fds k) = 0"
    by (rule exI [of _ 4]) (simp add: locked_fds_def taken_def fds_at_reset_def fd_free_def)
qed (auto simp: locked_fds_def taken_def fds_at_reset_def ALT_FD_EXCL_def)

end
