(* ===== verification/Ring_Buffer.thy ===== *)
theory Ring_Buffer
  imports Npu_Prelude
begin

text \<open>
  Ring buffers as the JTAG UART driver has them: an array of \<open>BUF_LEN\<close> bytes with an index
  where the next byte goes in and an index where the next comes out, both below \<open>BUF_LEN\<close>, one
  slot always free. The content is a list; the locale \<open>byte_queue\<close> is what the driver's
  clients rely on, whatever the representation.
\<close>

section \<open>The abstract queue\<close>

text \<open>
  A bounded queue of bytes that one side fills and the other empties: \<open>enq\<close> adds a byte at the
  end, \<open>deq\<close> drops the first. \<open>full\<close> is the producer's test.
\<close>

locale byte_queue =
  fixes content :: "'q \<Rightarrow> u8 list" and wf :: "'q \<Rightarrow> bool" and cap :: nat
    and full :: "'q \<Rightarrow> bool" and enq :: "u8 \<Rightarrow> 'q \<Rightarrow> 'q" and deq :: "'q \<Rightarrow> 'q"
  assumes full_iff: "wf q \<Longrightarrow> full q \<longleftrightarrow> length (content q) = cap"
    and content_bound: "wf q \<Longrightarrow> length (content q) \<le> cap"
    and enq_wf: "wf q \<Longrightarrow> \<not> full q \<Longrightarrow> wf (enq b q)"
    and enq_content: "wf q \<Longrightarrow> \<not> full q \<Longrightarrow> content (enq b q) = content q @ [b]"
    and deq_wf: "wf q \<Longrightarrow> content q \<noteq> [] \<Longrightarrow> wf (deq q)"
    and deq_content: "wf q \<Longrightarrow> content q \<noteq> [] \<Longrightarrow> content (deq q) = tl (content q)"
begin

text \<open>Filling from a source until the queue is full.\<close>

fun enq_all :: "u8 list \<Rightarrow> 'q \<Rightarrow> 'q" where
  "enq_all [] q = q"
| "enq_all (b # bs) q = enq_all bs (enq b q)"

lemma enq_all_content:
  "wf q \<Longrightarrow> length (content q) + length bs \<le> cap \<Longrightarrow>
     wf (enq_all bs q) \<and> content (enq_all bs q) = content q @ bs"
  by (induction bs arbitrary: q) (auto simp: full_iff enq_wf enq_content)

text \<open>Emptying it by \<open>n\<close> bytes.\<close>

lemma deq_n_content:
  "wf q \<Longrightarrow> n \<le> length (content q) \<Longrightarrow>
     wf ((deq ^^ n) q) \<and> content ((deq ^^ n) q) = drop n (content q)"
proof (induction n)
  case (Suc n)
  then have IH: "wf ((deq ^^ n) q)" "content ((deq ^^ n) q) = drop n (content q)" by simp_all
  with Suc.prems have "content ((deq ^^ n) q) \<noteq> []" by simp
  with IH show ?case by (simp add: deq_wf deq_content drop_Suc tl_drop)
qed simp

text \<open>First in, first out: what is put in comes out behind what was there.\<close>

lemma fifo:
  assumes "wf q" and "length (content q) + length bs \<le> cap"
  shows "content ((deq ^^ length (content q)) (enq_all bs q)) = bs"
  using enq_all_content [OF assms] deq_n_content [of "enq_all bs q" "length (content q)"] by simp

end

section \<open>Rings\<close>

definition BUF_LEN :: nat where "BUF_LEN = 2048"

lemma BUF_LEN_pos [simp]: "0 < BUF_LEN"
  by (simp add: BUF_LEN_def)

record byte_ring =
  buf :: "nat \<Rightarrow> u8"
  inp :: nat
  outp :: nat

definition used :: "byte_ring \<Rightarrow> nat" where
  "used q = (if outp q \<le> inp q then inp q - outp q else inp q + BUF_LEN - outp q)"

definition ring_wf :: "byte_ring \<Rightarrow> bool" where
  "ring_wf q \<longleftrightarrow> inp q < BUF_LEN \<and> outp q < BUF_LEN"

definition ring_list :: "byte_ring \<Rightarrow> u8 list" where
  "ring_list q = map (\<lambda>k. buf q ((outp q + k) mod BUF_LEN)) [0..<used q]"

definition ring_full :: "byte_ring \<Rightarrow> bool" where
  "ring_full q \<longleftrightarrow> (inp q + 1) mod BUF_LEN = outp q"

definition ring_enq :: "u8 \<Rightarrow> byte_ring \<Rightarrow> byte_ring" where
  "ring_enq b q = q\<lparr>buf := (buf q)(inp q := b), inp := (inp q + 1) mod BUF_LEN\<rparr>"

definition ring_deq :: "byte_ring \<Rightarrow> byte_ring" where
  "ring_deq q = q\<lparr>outp := (outp q + 1) mod BUF_LEN\<rparr>"

lemma mod_BUF_LEN: "i < 2 * BUF_LEN \<Longrightarrow> i mod BUF_LEN = (if i < BUF_LEN then i else i - BUF_LEN)"
  by (auto simp: mod_if)

lemma length_ring_list [simp]: "length (ring_list q) = used q"
  by (simp add: ring_list_def)

lemma nth_ring_list: "k < used q \<Longrightarrow> ring_list q ! k = buf q ((outp q + k) mod BUF_LEN)"
  by (simp add: ring_list_def)

lemma used_less: "ring_wf q \<Longrightarrow> used q < BUF_LEN"
  by (auto simp: used_def ring_wf_def)

lemma used_0: "ring_wf q \<Longrightarrow> used q = 0 \<longleftrightarrow> inp q = outp q"
  by (auto simp: used_def ring_wf_def)

lemma ring_full_iff: "ring_wf q \<Longrightarrow> ring_full q \<longleftrightarrow> used q = BUF_LEN - 1"
  by (auto simp: ring_full_def used_def ring_wf_def mod_BUF_LEN split: if_splits)

lemma inp_eq: "ring_wf q \<Longrightarrow> (outp q + used q) mod BUF_LEN = inp q"
  by (auto simp: used_def ring_wf_def mod_BUF_LEN)

text \<open>Slots of the content are distinct from the free slot and from each other.\<close>

lemma slot_eq_iff:
  "o' < BUF_LEN \<Longrightarrow> j < BUF_LEN \<Longrightarrow> k < BUF_LEN \<Longrightarrow>
     (o' + j) mod BUF_LEN = (o' + k) mod BUF_LEN \<longleftrightarrow> j = k"
  by (auto simp: mod_BUF_LEN split: if_splits)

lemma used_enq: "ring_wf q \<Longrightarrow> \<not> ring_full q \<Longrightarrow> used (ring_enq b q) = Suc (used q)"
  by (auto simp: used_def ring_enq_def ring_full_def ring_wf_def mod_BUF_LEN split: if_splits)

lemma used_deq: "ring_wf q \<Longrightarrow> used q \<noteq> 0 \<Longrightarrow> used (ring_deq q) = used q - 1"
  by (auto simp: used_def ring_deq_def ring_wf_def mod_BUF_LEN split: if_splits)

lemma ring_list_enq:
  assumes "ring_wf q" and "\<not> ring_full q"
  shows "ring_list (ring_enq b q) = ring_list q @ [b]"
proof (rule nth_equalityI)
  show "length (ring_list (ring_enq b q)) = length (ring_list q @ [b])"
    using used_enq [OF assms] by simp
  fix k
  assume "k < length (ring_list (ring_enq b q))"
  then have k: "k < Suc (used q)" using used_enq [OF assms] by simp
  have u: "used q < BUF_LEN" and o: "outp q < BUF_LEN" using used_less assms(1) by (simp_all add: ring_wf_def)
  show "ring_list (ring_enq b q) ! k = (ring_list q @ [b]) ! k"
  proof (cases "k = used q")
    case True
    then show ?thesis using inp_eq [OF assms(1)] used_enq [OF assms]
      by (simp add: nth_ring_list nth_append) (simp add: ring_enq_def)
  next
    case False
    with k have "k < used q" by simp
    moreover have "(outp q + k) mod BUF_LEN \<noteq> inp q"
      using slot_eq_iff [OF o, of k "used q"] u \<open>k < used q\<close> inp_eq [OF assms(1)] by simp
    ultimately show ?thesis using used_enq [OF assms]
      by (simp add: nth_ring_list nth_append) (simp add: ring_enq_def)
  qed
qed

lemma ring_list_deq:
  assumes "ring_wf q" and "used q \<noteq> 0"
  shows "ring_list (ring_deq q) = tl (ring_list q)"
proof (rule nth_equalityI)
  show "length (ring_list (ring_deq q)) = length (tl (ring_list q))"
    using used_deq [OF assms] by simp
  fix k
  assume "k < length (ring_list (ring_deq q))"
  then have k: "Suc k < used q" using used_deq [OF assms] by simp
  have "((outp q + 1) mod BUF_LEN + k) mod BUF_LEN = (outp q + Suc k) mod BUF_LEN"
    by (simp add: mod_add_left_eq)
  with k used_deq [OF assms] show "ring_list (ring_deq q) ! k = tl (ring_list q) ! k"
    by (simp add: nth_ring_list nth_tl) (simp add: ring_deq_def)
qed

interpretation ring: byte_queue ring_list ring_wf "BUF_LEN - 1" ring_full ring_enq ring_deq
proof unfold_locales
  fix q b
  assume wf: "ring_wf q"
  show "ring_full q \<longleftrightarrow> length (ring_list q) = BUF_LEN - 1" using ring_full_iff [OF wf] by simp
  show "length (ring_list q) \<le> BUF_LEN - 1" using used_less [OF wf] by simp
  show "ring_wf (ring_enq b q)" using wf by (simp add: ring_wf_def ring_enq_def)
  show "ring_wf (ring_deq q)" using wf by (simp add: ring_wf_def ring_deq_def)
  show "ring_list (ring_enq b q) = ring_list q @ [b]" if "\<not> ring_full q"
    using ring_list_enq [OF wf that] .
  show "ring_list (ring_deq q) = tl (ring_list q)" if "ring_list q \<noteq> []"
    using ring_list_deq [OF wf] that by (metis length_0_conv length_ring_list)
qed

section \<open>Block transfers\<close>

text \<open>
  The driver moves contiguous blocks: \<open>ring_read n\<close> is \<open>n\<close> bytes from the output index on,
  \<open>ring_drop n\<close> advances the index, \<open>ring_put bs\<close> stores a block at the input index.
\<close>

definition ring_read :: "nat \<Rightarrow> byte_ring \<Rightarrow> u8 list" where
  "ring_read n q = map (\<lambda>k. buf q (outp q + k)) [0..<n]"

definition ring_drop :: "nat \<Rightarrow> byte_ring \<Rightarrow> byte_ring" where
  "ring_drop n q = q\<lparr>outp := (outp q + n) mod BUF_LEN\<rparr>"

definition ring_put :: "u8 list \<Rightarrow> byte_ring \<Rightarrow> byte_ring" where
  "ring_put bs q = q\<lparr>buf := (\<lambda>i. if inp q \<le> i \<and> i < inp q + length bs then bs ! (i - inp q) else buf q i),
     inp := (inp q + length bs) mod BUF_LEN\<rparr>"

lemma ring_drop_deq: "ring_wf q \<Longrightarrow> ring_drop n q = (ring_deq ^^ n) q"
proof (induction n)
  case 0
  then show ?case by (simp add: ring_drop_def ring_wf_def)
next
  case (Suc n)
  have "ring_drop (Suc n) q = ring_deq (ring_drop n q)"
    by (simp add: ring_drop_def ring_deq_def mod_simps)
  with Suc show ?case by simp
qed

lemma ring_read_take:
  assumes "n \<le> used q" and "outp q + n \<le> BUF_LEN"
  shows "ring_read n q = take n (ring_list q)"
  using assms by (intro nth_equalityI) (simp_all add: ring_read_def nth_ring_list)

lemma ring_put_snoc:
  assumes "inp q + length bs < BUF_LEN"
  shows "ring_put (bs @ [b]) q = ring_enq b (ring_put bs q)"
proof -
  have "(\<lambda>i. if inp q \<le> i \<and> i < Suc (inp q + length bs) then (bs @ [b]) ! (i - inp q) else buf q i) =
    (\<lambda>i. if inp q \<le> i \<and> i < inp q + length bs then bs ! (i - inp q) else buf q i)
      (inp q + length bs := b)"
    by (auto simp: fun_eq_iff nth_append)
  with assms show ?thesis by (simp add: ring_put_def ring_enq_def mod_simps)
qed

lemma ring_put_enq:
  assumes "ring_wf q" and "used q + length bs \<le> BUF_LEN - 1" and "inp q + length bs \<le> BUF_LEN"
  shows "ring_wf (ring_put bs q) \<and> ring_list (ring_put bs q) = ring_list q @ bs"
  using assms(2,3)
proof (induction bs rule: rev_induct)
  case Nil
  have "(\<lambda>i. if inp q \<le> i \<and> i < inp q then [] ! (i - inp q) else buf q i) = buf q"
    by (auto simp: fun_eq_iff)
  then have "ring_put [] q = q" using assms(1) by (simp add: ring_put_def ring_wf_def)
  with assms(1) show ?case by simp
next
  case (snoc b bs)
  then have IH: "ring_wf (ring_put bs q)" "ring_list (ring_put bs q) = ring_list q @ bs" by simp_all
  then have "used (ring_put bs q) = used q + length bs"
    by (metis length_append length_ring_list)
  with IH(1) snoc.prems have "\<not> ring_full (ring_put bs q)" by (simp add: ring_full_iff)
  moreover have "ring_put (bs @ [b]) q = ring_enq b (ring_put bs q)"
    using snoc.prems by (intro ring_put_snoc) simp
  ultimately show ?case using IH by (simp add: ring.enq_wf ring.enq_content)
qed

end
