(* ===== verification/Jtag_Uart.thy ===== *)
theory Jtag_Uart
  imports Soc_Bus Ring_Buffer
begin

text \<open>
  The interrupt-driven JTAG UART driver, \<open>npu_bsp/drivers/src/altera_avalon_jtag_uart_*.c\<close>
  (fast version, no operating system), for a build without \<open>ALT_USE_SMALL_DRIVERS\<close>; the
  repository's own build uses the version of \<open>Jtag_Polled\<close>. The interrupt routine fills the receive ring and
  empties the transmit ring while \<open>read\<close>, \<open>write\<close> and \<open>close\<close> run; what happens between two
  steps of these functions is the parameter \<open>env\<close>, which is applied before every access to a
  variable that the interrupt routine shares.
\<close>

section \<open>State\<close>

text \<open>\<open>rx\<close> is \<open>rx_buf\<close>, \<open>rx_in\<close>, \<open>rx_out\<close> of the C structure, \<open>tx\<close> the same for transmission.\<close>

record uart =
  u_base :: u32
  u_timeout :: u32
  irq_enable :: u32
  host_inactive :: u32
  rx :: byte_ring
  tx :: byte_ring

type_synonym 'h usys = "uart \<times> 'h machine"

definition CONTROL_RE_MSK :: u32 where "CONTROL_RE_MSK = 0x1"
definition CONTROL_WE_MSK :: u32 where "CONTROL_WE_MSK = 0x2"
definition CONTROL_RI_MSK :: u32 where "CONTROL_RI_MSK = 0x100"
definition CONTROL_WI_MSK :: u32 where "CONTROL_WI_MSK = 0x200"
definition CONTROL_AC_MSK :: u32 where "CONTROL_AC_MSK = 0x400"
definition CONTROL_WSPACE_MSK :: u32 where "CONTROL_WSPACE_MSK = 0xFFFF0000"
definition DATA_RVALID_MSK :: u32 where "DATA_RVALID_MSK = 0x8000"
definition DATA_RAVAIL_MSK :: u32 where "DATA_RAVAIL_MSK = 0xFFFF0000"
definition O_NONBLOCK :: u32 where "O_NONBLOCK = 0x4000"
definition INT_MAX :: u32 where "INT_MAX = 0x7FFFFFFF"
definition TIOCSTIMEOUT :: u32 where "TIOCSTIMEOUT = 0x6a01"
definition TIOCGCONNECTED :: u32 where "TIOCGCONNECTED = 0x6a02"

lemmas uart_masks = CONTROL_RE_MSK_def CONTROL_WE_MSK_def CONTROL_RI_MSK_def CONTROL_WI_MSK_def
  CONTROL_AC_MSK_def CONTROL_WSPACE_MSK_def DATA_RVALID_MSK_def DATA_RAVAIL_MSK_def

abbreviation IORD_UART_DATA :: "'h bus \<Rightarrow> u32 \<Rightarrow> 'h machine \<Rightarrow> u32 \<times> 'h machine" where
  "IORD_UART_DATA B base \<equiv> IORD B base 0"
abbreviation IOWR_UART_DATA :: "'h bus \<Rightarrow> u32 \<Rightarrow> u32 \<Rightarrow> 'h machine \<Rightarrow> 'h machine" where
  "IOWR_UART_DATA B base \<equiv> IOWR B base 0"
abbreviation IORD_UART_CONTROL :: "'h bus \<Rightarrow> u32 \<Rightarrow> 'h machine \<Rightarrow> u32 \<times> 'h machine" where
  "IORD_UART_CONTROL B base \<equiv> IORD B base 1"
abbreviation IOWR_UART_CONTROL :: "'h bus \<Rightarrow> u32 \<Rightarrow> u32 \<Rightarrow> 'h machine \<Rightarrow> 'h machine" where
  "IOWR_UART_CONTROL B base \<equiv> IOWR B base 1"

section \<open>The interrupt routine\<close>

text \<open>The inner receive loop: stop when the ring is full or the UART has no more data.\<close>

partial_function (option) rx_fill :: "'h bus \<Rightarrow> u32 \<Rightarrow> 'h usys \<Rightarrow> (u32 \<times> 'h usys) option" where
  "rx_fill B data st =
     (case st of (sp, s) \<Rightarrow>
        let next = (inp (rx sp) + 1) mod BUF_LEN
        in if next = outp (rx sp) then Some (data, sp, s)
           else let (data, s) = IORD_UART_DATA B (u_base sp) s
                in if data AND DATA_RVALID_MSK = 0 then Some (data, sp, s)
                   else rx_fill B data (sp\<lparr>rx := ring_enq (ucast data) (rx sp)\<rparr>, s))"

definition irq_receive :: "'h bus \<Rightarrow> 'h usys \<Rightarrow> 'h usys option" where
  "irq_receive B st = do {
     (data, sp, s) \<leftarrow> rx_fill B 0x10000 st;
     if data AND DATA_RAVAIL_MSK \<noteq> 0
     then let sp = sp\<lparr>irq_enable := irq_enable sp AND NOT CONTROL_RE_MSK\<rparr>;
              s = IOWR_UART_CONTROL B (u_base sp) (irq_enable sp) s;
              (_, s) = IORD_UART_CONTROL B (u_base sp) s
          in Some (sp, s)
     else Some (sp, s) }"

text \<open>The transmit loop with the space left when it ends. A \<open>char\<close> is signed on Nios II.\<close>

fun tx_send :: "'h bus \<Rightarrow> nat \<Rightarrow> uart \<Rightarrow> 'h machine \<Rightarrow> nat \<times> 'h usys" where
  "tx_send B 0 sp s = (0, sp, s)"
| "tx_send B (Suc space) sp s =
     (if outp (tx sp) \<noteq> inp (tx sp)
      then tx_send B space (sp\<lparr>tx := ring_deq (tx sp)\<rparr>)
             (IOWR_UART_DATA B (u_base sp) (scast (buf (tx sp) (outp (tx sp)))) s)
      else (Suc space, sp, s))"

definition irq_transmit :: "'h bus \<Rightarrow> u32 \<Rightarrow> 'h usys \<Rightarrow> 'h usys" where
  "irq_transmit B control st =
     (case st of (sp, s) \<Rightarrow>
        let space = unat (drop_bit 16 (control AND CONTROL_WSPACE_MSK));
            (space, sp, s) = tx_send B space sp s
        in if space > 0
           then let sp = sp\<lparr>irq_enable := irq_enable sp AND NOT CONTROL_WE_MSK\<rparr>;
                    s = IOWR_UART_CONTROL B (u_base sp) (irq_enable sp) s;
                    (_, s) = IORD_UART_CONTROL B (u_base sp) s
                in (sp, s)
           else (sp, s))"

partial_function (option) altera_avalon_jtag_uart_irq :: "'h bus \<Rightarrow> 'h usys \<Rightarrow> 'h usys option" where
  "altera_avalon_jtag_uart_irq B st =
     (case st of (sp, s) \<Rightarrow>
        let (control, s) = IORD_UART_CONTROL B (u_base sp) s
        in if control AND (CONTROL_RI_MSK OR CONTROL_WI_MSK) = 0 then Some (sp, s)
           else do {
             st \<leftarrow> (if control AND CONTROL_RI_MSK \<noteq> 0 then irq_receive B (sp, s) else Some (sp, s));
             let st = (if control AND CONTROL_WI_MSK \<noteq> 0 then irq_transmit B control st else st);
             altera_avalon_jtag_uart_irq B st })"

declare rx_fill.simps [code] altera_avalon_jtag_uart_irq.simps [code]

section \<open>The timeout alarm\<close>

text \<open>The callback of the one-second alarm; \<open>tick_rate\<close> is \<open>alt_ticks_per_second()\<close>.\<close>

definition altera_avalon_jtag_uart_timeout :: "'h bus \<Rightarrow> u32 \<Rightarrow> 'h usys \<Rightarrow> u32 \<times> 'h usys" where
  "altera_avalon_jtag_uart_timeout B tick_rate st =
     (case st of (sp, s) \<Rightarrow>
        let (control, s) = IORD_UART_CONTROL B (u_base sp) s
        in if control AND CONTROL_AC_MSK \<noteq> 0
           then let s = IOWR_UART_CONTROL B (u_base sp) (irq_enable sp OR CONTROL_AC_MSK) s
                in (tick_rate, sp\<lparr>host_inactive := 0\<rparr>, s)
           else if host_inactive sp < INT_MAX - 2
           then (tick_rate, sp\<lparr>host_inactive := host_inactive sp + 1\<rparr>, s)
           else (tick_rate, sp, s))"

section \<open>Reading\<close>

text \<open>
  The inner \<open>do\<close> loop: copy contiguous blocks until the buffer is full or the ring is empty.
  The result is the last value of \<open>in\<close> and the bytes copied. The ring's output index is set
  from the saved \<open>out\<close>.
\<close>

function read_avail ::
  "('h usys \<Rightarrow> 'h usys) \<Rightarrow> nat \<Rightarrow> u8 list \<Rightarrow> 'h usys \<Rightarrow> nat \<times> u8 list \<times> 'h usys" where
  "read_avail env space acc st =
     (let st = env st;
          inn = inp (rx (fst st));
          out = outp (rx (fst st));
          n = (if inn \<ge> out then inn - out else BUF_LEN - out)
      in if n = 0 then (inn, acc, st)
         else let n = min n space;
                  (sp, s) = env st;
                  q = (rx sp)\<lparr>outp := out\<rparr>;
                  acc = acc @ ring_read n q;
                  st = (sp\<lparr>rx := ring_drop n q\<rparr>, s)
              in if 0 < space - n then read_avail env (space - n) acc st else (inn, acc, st))"
  by pat_completeness auto

termination read_avail
  by (relation "measure (\<lambda>(env, space, acc, st). space)") (auto simp: min_def split: if_splits)

declare read_avail.simps [simp del]

text \<open>\<open>while (in == sp->rx_in && sp->host_inactive < sp->timeout);\<close>\<close>

definition poll_rx :: "('h usys \<Rightarrow> 'h usys) \<Rightarrow> 'h usys \<Rightarrow> (nat \<times> u32 \<times> u32) \<times> 'h usys" where
  "poll_rx env st =
     (let st = env st in ((inp (rx (fst st)), host_inactive (fst st), u_timeout (fst st)), st))"

partial_function (option) read_loop ::
  "('h usys \<Rightarrow> 'h usys) \<Rightarrow> bool \<Rightarrow> nat \<Rightarrow> 'h usys \<Rightarrow> (u8 list \<times> 'h usys) option" where
  "read_loop env nonblock space st =
     (if space = 0 then Some ([], st)
      else let (inn, acc, st) = read_avail env space [] st
           in if acc \<noteq> [] then Some (acc, st)
              else if nonblock then Some ([], st)
              else do {
                (_, st) \<leftarrow> spin_while (poll_rx env)
                  (\<lambda>(rx_in, inactive, timeout). inn = rx_in \<and> inactive < timeout) st;
                let st = env st;
                if inn = inp (rx (fst st)) then Some ([], st)
                else read_loop env nonblock space st })"

definition enable_uart_irq :: "'h bus \<Rightarrow> u32 \<Rightarrow> 'h usys \<Rightarrow> 'h usys" where
  "enable_uart_irq B bits st =
     (case st of (sp, s) \<Rightarrow>
        let (context, s) = alt_irq_disable_all s;
            sp = sp\<lparr>irq_enable := irq_enable sp OR bits\<rparr>;
            s = IOWR_UART_CONTROL B (u_base sp) (irq_enable sp) s
        in (sp, alt_irq_enable_all context s))"

text \<open>The result is the C return value, the bytes stored in the caller's buffer, the state.\<close>

definition altera_avalon_jtag_uart_read ::
  "'h bus \<Rightarrow> ('h usys \<Rightarrow> 'h usys) \<Rightarrow> int \<Rightarrow> u32 \<Rightarrow> 'h usys \<Rightarrow> (int \<times> u8 list \<times> 'h usys) option" where
  "altera_avalon_jtag_uart_read B env space flags st = do {
     (bytes, st) \<leftarrow> read_loop env (flags AND O_NONBLOCK \<noteq> 0) (nat space) st;
     let st = (if bytes \<noteq> [] then enable_uart_irq B CONTROL_RE_MSK st else st);
     Some (if bytes \<noteq> [] then int (length bytes)
           else if flags AND O_NONBLOCK \<noteq> 0 then - EWOULDBLOCK else - EIO, bytes, st) }"

section \<open>Writing\<close>

text \<open>The copy loop: the bytes that did not fit and the last value of \<open>out\<close>.\<close>

function copy_loop ::
  "('h usys \<Rightarrow> 'h usys) \<Rightarrow> u8 list \<Rightarrow> nat \<Rightarrow> 'h usys \<Rightarrow> u8 list \<times> nat \<times> 'h usys" where
  "copy_loop env bs out st =
     (if bs = [] then (bs, out, st)
      else let st = env st;
               inn = inp (tx (fst st));
               out = outp (tx (fst st));
               n = (if inn < out then out - 1 - inn
                    else if out > 0 then BUF_LEN - inn else BUF_LEN - 1 - inn)
           in if n = 0 then (bs, out, st)
              else let n = min n (length bs);
                       (sp, s) = env st;
                       st = (sp\<lparr>tx := ring_put (take n bs) ((tx sp)\<lparr>inp := inn\<rparr>)\<rparr>, s)
                   in copy_loop env (drop n bs) out st)"
  by pat_completeness auto

termination copy_loop
  by (relation "measure (\<lambda>(env, bs, out, st). length bs)")
    (auto simp: min_def length_greater_0_conv split: if_splits)

declare copy_loop.simps [simp del]

definition poll_tx :: "('h usys \<Rightarrow> 'h usys) \<Rightarrow> 'h usys \<Rightarrow> (nat \<times> u32 \<times> u32) \<times> 'h usys" where
  "poll_tx env st =
     (let st = env st in ((outp (tx (fst st)), host_inactive (fst st), u_timeout (fst st)), st))"

partial_function (option) write_loop ::
  "'h bus \<Rightarrow> ('h usys \<Rightarrow> 'h usys) \<Rightarrow> bool \<Rightarrow> u8 list \<Rightarrow> 'h usys \<Rightarrow> (u8 list \<times> 'h usys) option" where
  "write_loop B env nonblock bs st =
     (let (bs, out, st) = copy_loop env bs 0 st;
          st = enable_uart_irq B CONTROL_WE_MSK st
      in if bs = [] then Some (bs, st)
         else if nonblock then Some (bs, st)
         else do {
           (_, st) \<leftarrow> spin_while (poll_tx env)
             (\<lambda>(tx_out, inactive, timeout). out = tx_out \<and> inactive < timeout) st;
           let st = env st;
           if host_inactive (fst st) \<noteq> 0 then Some (bs, st)
           else write_loop B env nonblock bs st })"

declare read_loop.simps [code] write_loop.simps [code]

definition altera_avalon_jtag_uart_write ::
  "'h bus \<Rightarrow> ('h usys \<Rightarrow> 'h usys) \<Rightarrow> u8 list \<Rightarrow> u32 \<Rightarrow> 'h usys \<Rightarrow> (int \<times> 'h usys) option" where
  "altera_avalon_jtag_uart_write B env bs flags st = do {
     (left, st) \<leftarrow> write_loop B env (flags AND O_NONBLOCK \<noteq> 0) bs st;
     Some (if length left < length bs then int (length bs - length left)
           else if flags AND O_NONBLOCK \<noteq> 0 then - EWOULDBLOCK else - EIO, st) }"

section \<open>Close and ioctl\<close>

definition poll_close :: "('h usys \<Rightarrow> 'h usys) \<Rightarrow> 'h usys \<Rightarrow> bool \<times> 'h usys" where
  "poll_close env st =
     (let st = env st
      in (outp (tx (fst st)) \<noteq> inp (tx (fst st)) \<and> host_inactive (fst st) < u_timeout (fst st), st))"

definition altera_avalon_jtag_uart_close ::
  "('h usys \<Rightarrow> 'h usys) \<Rightarrow> u32 \<Rightarrow> 'h usys \<Rightarrow> (int \<times> 'h usys) option" where
  "altera_avalon_jtag_uart_close env flags st =
     (if flags AND O_NONBLOCK \<noteq> 0
      then let (busy, st) = poll_close env st in Some (if busy then - EWOULDBLOCK else 0, st)
      else do { (_, st) \<leftarrow> spin_while (poll_close env) (\<lambda>busy. busy) st; Some (0, st) })"

text \<open>\<open>arg\<close> is the integer the argument points to, before and after the call.\<close>

definition altera_avalon_jtag_uart_ioctl :: "uart \<Rightarrow> u32 \<Rightarrow> u32 \<Rightarrow> int \<times> u32 \<times> uart" where
  "altera_avalon_jtag_uart_ioctl sp req arg =
     (if req = TIOCSTIMEOUT then
        (if u_timeout sp \<noteq> INT_MAX
         then (0, arg, sp\<lparr>u_timeout := if 2 \<le> sint arg \<and> sint arg < sint INT_MAX then arg
                                       else INT_MAX - 1\<rparr>)
         else (- ENOTTY, arg, sp))
      else if req = TIOCGCONNECTED then
        (if u_timeout sp \<noteq> INT_MAX
         then (0, if host_inactive sp < u_timeout sp then 1 else 0, sp)
         else (- ENOTTY, arg, sp))
      else (- ENOTTY, arg, sp))"

section \<open>The flow of bytes\<close>

text \<open>
  The interface between the functions a program calls and everything that runs in between:
  \<open>got\<close> are the bytes the hardware has delivered so far, \<open>sent\<close> those handed to it. Between
  two steps bytes may arrive at the end of the receive ring and leave at the front of the
  transmit ring, but the indices that belong to the program stay.
\<close>

definition uart_ok :: "u32 \<Rightarrow> 'h usys \<Rightarrow> bool" where
  "uart_ok base st \<longleftrightarrow>
     u_base (fst st) = base \<and> ring_wf (rx (fst st)) \<and> ring_wf (tx (fst st))"

text \<open>From \<open>st\<close> to \<open>st'\<close> the program took \<open>taken\<close> out and put \<open>put\<close> in; nothing is lost,
  invented or reordered.\<close>

definition flow ::
  "('h machine \<Rightarrow> u8 list) \<Rightarrow> ('h machine \<Rightarrow> u8 list) \<Rightarrow> 'h usys \<Rightarrow> 'h usys \<Rightarrow> u8 list \<Rightarrow> u8 list \<Rightarrow> bool"
where
  "flow got sent st st' taken put \<longleftrightarrow>
     (\<exists>new out. got (snd st') = got (snd st) @ new \<and>
        ring_list (rx (fst st)) @ new = taken @ ring_list (rx (fst st')) \<and>
        sent (snd st') = sent (snd st) @ out \<and>
        ring_list (tx (fst st)) @ put = out @ ring_list (tx (fst st')))"

lemma flow_refl [simp]: "flow got sent st st [] []"
  by (simp add: flow_def)

lemma flow_trans:
  assumes "flow got sent st st1 t1 p1" and "flow got sent st1 st2 t2 p2"
  shows "flow got sent st st2 (t1 @ t2) (p1 @ p2)"
proof -
  from assms(1) obtain n1 o1 where 1: "got (snd st1) = got (snd st) @ n1"
    "ring_list (rx (fst st)) @ n1 = t1 @ ring_list (rx (fst st1))"
    "sent (snd st1) = sent (snd st) @ o1"
    "ring_list (tx (fst st)) @ p1 = o1 @ ring_list (tx (fst st1))" unfolding flow_def by blast
  from assms(2) obtain n2 o2 where 2: "got (snd st2) = got (snd st1) @ n2"
    "ring_list (rx (fst st1)) @ n2 = t2 @ ring_list (rx (fst st2))"
    "sent (snd st2) = sent (snd st1) @ o2"
    "ring_list (tx (fst st1)) @ p2 = o2 @ ring_list (tx (fst st2))" unfolding flow_def by blast
  have "ring_list (rx (fst st)) @ n1 @ n2 = (t1 @ t2) @ ring_list (rx (fst st2))"
    using 1(2) 2(2) by (metis append.assoc)
  moreover have "ring_list (tx (fst st)) @ p1 @ p2 = (o1 @ o2) @ ring_list (tx (fst st2))"
    using 1(4) 2(4) by (metis append.assoc)
  ultimately show ?thesis unfolding flow_def using 1(1,3) 2(1,3)
    by (intro exI[of _ "n1 @ n2"] exI[of _ "o1 @ o2"]) simp
qed

lemma flow_idle:
  assumes "flow got sent st st' [] []"
  shows "used (rx (fst st)) \<le> used (rx (fst st'))" and "used (tx (fst st')) \<le> used (tx (fst st))"
proof -
  from assms obtain new out where "ring_list (rx (fst st)) @ new = ring_list (rx (fst st'))"
    "ring_list (tx (fst st)) = out @ ring_list (tx (fst st'))" unfolding flow_def by auto
  then have "length (ring_list (rx (fst st)) @ new) = length (ring_list (rx (fst st')))"
    "length (ring_list (tx (fst st))) = length (out @ ring_list (tx (fst st')))" by simp_all
  then show "used (rx (fst st)) \<le> used (rx (fst st'))" "used (tx (fst st')) \<le> used (tx (fst st))"
    by simp_all
qed

locale uart_env =
  fixes B :: "'h bus" and base :: u32 and env :: "'h usys \<Rightarrow> 'h usys"
    and got sent :: "'h machine \<Rightarrow> u8 list"
  assumes env_ok: "uart_ok base st \<Longrightarrow> uart_ok base (env st)"
    and env_flow: "uart_ok base st \<Longrightarrow> flow got sent st (env st) [] []"
    and env_idx: "uart_ok base st \<Longrightarrow> outp (rx (fst (env st))) = outp (rx (fst st)) \<and>
      inp (tx (fst (env st))) = inp (tx (fst st))"
    and control_silent: "got (IOWR B base 1 v s) = got s \<and> sent (IOWR B base 1 v s) = sent s"
    and status_silent: "got (s\<lparr>cpu_status := c\<rparr>) = got s \<and> sent (s\<lparr>cpu_status := c\<rparr>) = sent s"
begin

lemma block_taken:
  assumes ok: "uart_ok base (sp, s)" and n: "n \<le> used (rx sp)" "outp (rx sp) + n \<le> BUF_LEN"
  shows "uart_ok base (sp\<lparr>rx := ring_drop n (rx sp)\<rparr>, s) \<and>
    flow got sent (sp, s) (sp\<lparr>rx := ring_drop n (rx sp)\<rparr>, s) (ring_read n (rx sp)) []"
  using assms ring.deq_n_content [of "rx sp" n] ring_read_take [OF n]
  by (simp add: uart_ok_def flow_def ring_drop_deq)

lemma block_put:
  assumes ok: "uart_ok base (sp, s)" and n: "used (tx sp) + length bs \<le> BUF_LEN - 1"
    "inp (tx sp) + length bs \<le> BUF_LEN"
  shows "uart_ok base (sp\<lparr>tx := ring_put bs (tx sp)\<rparr>, s) \<and>
    flow got sent (sp, s) (sp\<lparr>tx := ring_put bs (tx sp)\<rparr>, s) [] bs"
  using assms ring_put_enq [of "tx sp" bs] by (simp add: uart_ok_def flow_def)

lemma read_avail_flow:
  "uart_ok base st \<Longrightarrow> 0 < space \<Longrightarrow> read_avail env space acc st = (inn, acc', st') \<Longrightarrow>
     \<exists>t. acc' = acc @ t \<and> length t \<le> space \<and> uart_ok base st' \<and> flow got sent st st' t []"
proof (induction "space" arbitrary: acc st rule: less_induct)
  case (less space)
  let ?st1 = "env st"
  define i where "i = inp (rx (fst ?st1))"
  define o' where "o' = outp (rx (fst ?st1))"
  define n where "n = (if i \<ge> o' then i - o' else BUF_LEN - o')"
  note ok1 = env_ok [OF less.prems(1)] and fl1 = env_flow [OF less.prems(1)]
  have wf1: "i < BUF_LEN" "o' < BUF_LEN" using ok1 by (simp_all add: i_def o'_def uart_ok_def ring_wf_def)
  have n_used: "n \<le> used (rx (fst ?st1))"
    using wf1 by (auto simp: n_def used_def i_def o'_def)
  note unf = read_avail.simps [of env "space" acc st, unfolded Let_def, folded i_def o'_def,
      folded n_def]
  show ?case
  proof (cases "n = 0")
    case True
    have "read_avail env space acc st = (i, acc, ?st1)"
      by (subst unf) (simp add: True)
    with less.prems(3) ok1 fl1 show ?thesis by simp
  next
    case False
    obtain sp s where st2: "env ?st1 = (sp, s)" by (rule prod.exhaust)
    note ok2 = env_ok [OF ok1, unfolded st2] and fl2 = env_flow [OF ok1, unfolded st2]
    have o2: "outp (rx sp) = o'" using env_idx [OF ok1] by (simp add: st2 o'_def)
    then have same: "(rx sp)\<lparr>outp := outp (rx (fst ?st1))\<rparr> = rx sp" by (simp add: o'_def)
    define m where "m = min n space"
    have m: "m \<le> used (rx sp)" "outp (rx sp) + m \<le> BUF_LEN" "0 < m" "m \<le> space"
      using n_used flow_idle(1) [OF fl2] o2 wf1 False less.prems(2)
      by (auto simp: m_def n_def split: if_splits)
    let ?st3 = "(sp\<lparr>rx := ring_drop m (rx sp)\<rparr>, s)"
    from block_taken [OF ok2 m(1,2)] have ok3: "uart_ok base ?st3"
      and "flow got sent (sp, s) ?st3 (ring_read m (rx sp)) []" by auto
    with flow_trans [OF fl1 fl2] have fl3: "flow got sent st ?st3 (ring_read m (rx sp)) []"
      using flow_trans by fastforce
    have eq: "read_avail env space acc st =
        (if 0 < space - m then read_avail env (space - m) (acc @ ring_read m (rx sp)) ?st3
         else (i, acc @ ring_read m (rx sp), ?st3))"
      using same by (subst unf) (simp only: False if_False st2 prod.case m_def o'_def)
    have len: "length (ring_read m (rx sp)) = m" by (simp add: ring_read_def)
    show ?thesis
    proof (cases "0 < space - m")
      case True
      with less.prems(3) eq have "read_avail env (space - m) (acc @ ring_read m (rx sp)) ?st3 =
          (inn, acc', st')" by simp
      from less.IH [OF _ ok3 True this] m obtain t where t: "acc' = acc @ ring_read m (rx sp) @ t"
        "length t \<le> space - m" "uart_ok base st'" "flow got sent ?st3 st' t []" by auto
      with flow_trans [OF fl3 t(4)] len m show ?thesis
        by (intro exI[of _ "ring_read m (rx sp) @ t"]) simp
    next
      case False
      with less.prems(3) eq ok3 fl3 len m show ?thesis by auto
    qed
  qed
qed

lemma copy_loop_flow:
  "uart_ok base st \<Longrightarrow> copy_loop env bs out st = (bs', out', st') \<Longrightarrow>
     \<exists>t. bs = t @ bs' \<and> uart_ok base st' \<and> flow got sent st st' [] t"
proof (induction "length bs" arbitrary: bs out st rule: less_induct)
  case less
  let ?st1 = "env st"
  define i where "i = inp (tx (fst ?st1))"
  define o' where "o' = outp (tx (fst ?st1))"
  define n where "n = (if i < o' then o' - 1 - i
    else if o' > 0 then BUF_LEN - i else BUF_LEN - 1 - i)"
  note ok1 = env_ok [OF less.prems(1)] and fl1 = env_flow [OF less.prems(1)]
  note unf = copy_loop.simps [of env bs out st, unfolded Let_def, folded i_def o'_def,
      folded n_def]
  have wf1: "i < BUF_LEN" "o' < BUF_LEN" using ok1 by (simp_all add: i_def o'_def uart_ok_def ring_wf_def)
  have room: "used (tx (fst ?st1)) + n \<le> BUF_LEN - 1" "i + n \<le> BUF_LEN"
    using wf1 by (auto simp: n_def used_def i_def o'_def)
  show ?case
  proof (cases "bs = []")
    case True
    with less.prems show ?thesis by (subst (asm) unf) auto
  next
    case ne: False
    show ?thesis
    proof (cases "n = 0")
      case True
      have "copy_loop env bs out st = (bs, o', ?st1)" by (subst unf) (simp add: True ne)
      with less.prems(2) ok1 fl1 show ?thesis by simp
    next
      case False
      obtain sp s where st2: "env ?st1 = (sp, s)" by (rule prod.exhaust)
      note ok2 = env_ok [OF ok1, unfolded st2] and fl2 = env_flow [OF ok1, unfolded st2]
      have i2: "inp (tx sp) = i" using env_idx [OF ok1] by (simp add: st2 i_def)
      then have same: "(tx sp)\<lparr>inp := i\<rparr> = tx sp" by simp
      define b where "b = take (min n (length bs)) bs"
      have b: "used (tx sp) + length b \<le> BUF_LEN - 1" "inp (tx sp) + length b \<le> BUF_LEN"
        using room flow_idle(2) [OF fl2] i2 by (auto simp: b_def)
      let ?st3 = "(sp\<lparr>tx := ring_put b (tx sp)\<rparr>, s)"
      from block_put [OF ok2 b] have ok3: "uart_ok base ?st3"
        and "flow got sent (sp, s) ?st3 [] b" by auto
      with flow_trans [OF fl1 fl2] have fl3: "flow got sent st ?st3 [] b"
        using flow_trans by fastforce
      let ?rest = "drop (min n (length bs)) bs"
      have "copy_loop env bs out st = copy_loop env ?rest o' ?st3"
        by (subst unf) (simp only: ne False if_False st2 prod.case same b_def)
      with less.prems(2) have "copy_loop env ?rest o' ?st3 = (bs', out', st')" by simp
      from less.hyps [OF _ ok3 this] False ne obtain t where
        t: "?rest = t @ bs'" "uart_ok base st'" "flow got sent ?st3 st' [] t" by auto
      from t(1) have "bs = (b @ t) @ bs'" unfolding b_def by (metis append.assoc append_take_drop_id)
      with flow_trans [OF fl3 t(3)] t(2) show ?thesis by (intro exI[of _ "b @ t"]) simp
    qed
  qed
qed

lemma spin_env:
  assumes "spin_while rd c st = Some (v, st')" and "uart_ok base st"
    and "\<And>st. snd (rd st) = env st"
  shows "uart_ok base st' \<and> flow got sent st st' [] []"
proof -
  have "uart_ok base (snd (rd t)) \<and> flow got sent st (snd (rd t)) [] []"
    if "uart_ok base t \<and> flow got sent st t [] []" for t
    using that env_ok env_flow flow_trans [of got sent st t "[]" "[]"] by (fastforce simp: assms(3))
  from spin_while_inv [where P = "\<lambda>t. uart_ok base t \<and> flow got sent st t [] []", OF assms(1) _ this]
  show ?thesis using assms(2) by simp
qed

lemma read_loop_flow:
  assumes "read_loop env nb n st = Some (bytes, st')" and "uart_ok base st"
  shows "length bytes \<le> n \<and> uart_ok base st' \<and> flow got sent st st' bytes []"
proof -
  have "uart_ok base st \<longrightarrow> length (fst r) \<le> n \<and> uart_ok base (snd r) \<and>
      flow got sent st (snd r) (fst r) []" if "read_loop env nb n st = Some r" for r
  proof (rule read_loop.raw_induct [where P = "\<lambda>e nb n st r. e = env \<longrightarrow> uart_ok base st \<longrightarrow>
        length (fst r) \<le> n \<and> uart_ok base (snd r) \<and> flow got sent st (snd r) (fst r) []",
        OF _ that, THEN mp, OF _ refl])
    fix loop e nb n st r
    assume IH: "\<And>e nb n st r. loop e nb n st = Some r \<Longrightarrow> e = env \<longrightarrow> uart_ok base st \<longrightarrow>
        length (fst r) \<le> n \<and> uart_ok base (snd r) \<and> flow got sent st (snd r) (fst r) []"
      and eq: "(if n = 0 then Some ([], st)
        else let (inn, acc, st) = read_avail e n [] st
           in if acc \<noteq> [] then Some (acc, st)
              else if nb then Some ([], st)
              else do {
                (_, st) \<leftarrow> spin_while (poll_rx e)
                  (\<lambda>(rx_in, inactive, timeout). inn = rx_in \<and> inactive < timeout) st;
                let st = e st;
                if inn = inp (rx (fst st)) then Some ([], st) else loop e nb n st }) = Some r"
    show "e = env \<longrightarrow> uart_ok base st \<longrightarrow>
        length (fst r) \<le> n \<and> uart_ok base (snd r) \<and> flow got sent st (snd r) (fst r) []"
    proof (intro impI)
      assume e: "e = env" and ok: "uart_ok base st"
      obtain inn acc st1 where ra: "read_avail env n [] st = (inn, acc, st1)"
        by (metis prod_cases3)
      show "length (fst r) \<le> n \<and> uart_ok base (snd r) \<and> flow got sent st (snd r) (fst r) []"
      proof (cases "n = 0 \<or> acc \<noteq> [] \<or> nb")
        case True
        with eq e ra ok read_avail_flow [OF ok _ ra] show ?thesis
          by (auto split: if_splits)
      next
        case False
        with read_avail_flow [OF ok _ ra] have 1: "uart_ok base st1" "flow got sent st st1 [] []"
          by auto
        from False eq e ra obtain v st2 where sp: "spin_while (poll_rx env)
            (\<lambda>(rx_in, inactive, timeout). inn = rx_in \<and> inactive < timeout) st1 = Some (v, st2)"
          and r: "(if inn = inp (rx (fst (env st2))) then Some ([], env st2)
            else loop env nb n (env st2)) = Some r"
          by (auto simp: bind_eq_Some_conv Let_def)
        from spin_env [OF sp 1(1)] have 2: "uart_ok base st2" "flow got sent st1 st2 [] []"
          by (auto simp: poll_rx_def Let_def)
        have 3: "uart_ok base (env st2)" "flow got sent st (env st2) [] []"
          using env_ok [OF 2(1)] flow_trans [OF flow_trans [OF 1(2) 2(2)] env_flow [OF 2(1)]] by auto
        show ?thesis
        proof (cases "inn = inp (rx (fst (env st2)))")
          case True
          with r 3 show ?thesis by auto
        next
          case False
          with r have "loop env nb n (env st2) = Some r" by simp
          from IH [OF this] 3 flow_trans [OF 3(2)] show ?thesis by fastforce
        qed
      qed
    qed
  qed
  from this [OF assms(1)] assms(2) show ?thesis by simp
qed

lemma enable_uart_irq_flow:
  assumes "uart_ok base st"
  shows "uart_ok base (enable_uart_irq B bits st) \<and>
    flow got sent st (enable_uart_irq B bits st) [] []"
proof -
  obtain sp s where st: "st = (sp, s)" by (rule prod.exhaust)
  with assms have "u_base sp = base" by (simp add: uart_ok_def)
  with assms show ?thesis
    by (simp add: st enable_uart_irq_def uart_ok_def flow_def alt_irq_disable_all_def
        alt_irq_enable_all_def control_silent [unfolded One_nat_def] status_silent Let_def)
qed

lemma write_loop_flow:
  assumes "write_loop B env nb bs st = Some (left, st')" and "uart_ok base st"
  shows "\<exists>t. bs = t @ left \<and> uart_ok base st' \<and> flow got sent st st' [] t"
proof -
  let ?P = "\<lambda>bs st r. \<exists>t. bs = t @ fst r \<and> uart_ok base (snd r) \<and> flow got sent st (snd r) [] t"
  have "uart_ok base st \<longrightarrow> ?P bs st r" if "write_loop B env nb bs st = Some r" for r
  proof (rule write_loop.raw_induct [where P = "\<lambda>B' e nb bs st r. B' = B \<longrightarrow> e = env \<longrightarrow>
        uart_ok base st \<longrightarrow> ?P bs st r", OF _ that, THEN mp, OF _ refl, THEN mp, OF _ refl])
    fix loop B' e nb bs st r
    assume IH: "\<And>B' e nb bs st r. loop B' e nb bs st = Some r \<Longrightarrow> B' = B \<longrightarrow> e = env \<longrightarrow>
        uart_ok base st \<longrightarrow> ?P bs st r"
      and eq: "(let (bs, out, st) = copy_loop e bs 0 st;
          st = enable_uart_irq B' CONTROL_WE_MSK st
        in if bs = [] then Some (bs, st)
         else if nb then Some (bs, st)
         else do {
           (_, st) \<leftarrow> spin_while (poll_tx e)
             (\<lambda>(tx_out, inactive, timeout). out = tx_out \<and> inactive < timeout) st;
           let st = e st;
           if host_inactive (fst st) \<noteq> 0 then Some (bs, st) else loop B' e nb bs st }) = Some r"
    show "B' = B \<longrightarrow> e = env \<longrightarrow> uart_ok base st \<longrightarrow> ?P bs st r"
    proof (intro impI)
      assume B: "B' = B" and e: "e = env" and ok: "uart_ok base st"
      obtain bs1 out st0 where cl: "copy_loop env bs 0 st = (bs1, out, st0)"
        by (metis prod_cases3)
      from copy_loop_flow [OF ok cl] obtain t where t: "bs = t @ bs1" "uart_ok base st0"
        "flow got sent st st0 [] t" by blast
      define st1 where "st1 = enable_uart_irq B CONTROL_WE_MSK st0"
      have 1: "uart_ok base st1" "flow got sent st st1 [] t"
        using enable_uart_irq_flow [OF t(2)] flow_trans [OF t(3)] by (fastforce simp: st1_def)+
      show "?P bs st r"
      proof (cases "bs1 = [] \<or> nb")
        case True
        with eq e B cl 1 t show ?thesis by (auto simp: Let_def st1_def split: if_splits)
      next
        case False
        with eq e B cl obtain v st2 where sp: "spin_while (poll_tx env)
            (\<lambda>(tx_out, inactive, timeout). out = tx_out \<and> inactive < timeout) st1 = Some (v, st2)"
          and r: "(if host_inactive (fst (env st2)) \<noteq> 0 then Some (bs1, env st2)
            else loop B env nb bs1 (env st2)) = Some r"
          by (auto simp: bind_eq_Some_conv Let_def st1_def)
        from spin_env [OF sp 1(1)] have 2: "uart_ok base st2" "flow got sent st1 st2 [] []"
          by (auto simp: poll_tx_def Let_def)
        have 3: "uart_ok base (env st2)" "flow got sent st (env st2) [] t"
          using env_ok [OF 2(1)] flow_trans [OF flow_trans [OF 1(2) 2(2)] env_flow [OF 2(1)]] by auto
        show ?thesis
        proof (cases "host_inactive (fst (env st2)) = 0")
          case False
          with r 3 t show ?thesis by auto
        next
          case True
          with r have "loop B env nb bs1 (env st2) = Some r" by simp
          from IH [OF this] 3(1) obtain t' where "bs1 = t' @ fst r" "uart_ok base (snd r)"
            "flow got sent (env st2) (snd r) [] t'" by auto
          with flow_trans [OF 3(2) this(3)] t(1) show ?thesis
            by (intro exI[of _ "t @ t'"]) simp
        qed
      qed
    qed
  qed
  from this [OF assms(1)] assms(2) show ?thesis by simp
qed

text \<open>The functions a program calls.\<close>

lemma uart_read_flow:
  assumes "altera_avalon_jtag_uart_read B env n flags st = Some (r, bytes, st')" and "uart_ok base st"
  shows "uart_ok base st' \<and> flow got sent st st' bytes [] \<and>
    r = (if bytes \<noteq> [] then int (length bytes)
         else if flags AND O_NONBLOCK \<noteq> 0 then - EWOULDBLOCK else - EIO) \<and> length bytes \<le> nat n"
proof -
  from assms(1) obtain st1 where rl: "read_loop env (flags AND O_NONBLOCK \<noteq> 0) (nat n) st = Some (bytes, st1)"
    and st': "st' = (if bytes \<noteq> [] then enable_uart_irq B CONTROL_RE_MSK st1 else st1)"
    and r: "r = (if bytes \<noteq> [] then int (length bytes)
         else if flags AND O_NONBLOCK \<noteq> 0 then - EWOULDBLOCK else - EIO)"
    by (auto simp: altera_avalon_jtag_uart_read_def bind_eq_Some_conv Let_def)
  from read_loop_flow [OF rl assms(2)] have 1: "length bytes \<le> nat n" "uart_ok base st1"
    "flow got sent st st1 bytes []" by auto
  from enable_uart_irq_flow [OF 1(2)] flow_trans [OF 1(3)] show ?thesis
    using 1 r by (fastforce simp: st')
qed

lemma uart_write_flow:
  assumes "altera_avalon_jtag_uart_write B env bs flags st = Some (r, st')" and "uart_ok base st"
  shows "uart_ok base st' \<and> (if r > 0 then r \<le> int (length bs) \<and>
      flow got sent st st' [] (take (nat r) bs) else flow got sent st st' [] []) \<and> r \<noteq> 0"
proof -
  from assms(1) obtain left where wl: "write_loop B env (flags AND O_NONBLOCK \<noteq> 0) bs st = Some (left, st')"
    and r: "r = (if length left < length bs then int (length bs - length left)
         else if flags AND O_NONBLOCK \<noteq> 0 then - EWOULDBLOCK else - EIO)"
    by (auto simp: altera_avalon_jtag_uart_write_def bind_eq_Some_conv)
  from write_loop_flow [OF wl assms(2)] obtain t where t: "bs = t @ left" "uart_ok base st'"
    "flow got sent st st' [] t" by blast
  then show ?thesis by (cases "t = []") (auto simp: r errno_defs)
qed

end

section \<open>The interrupt routine keeps the flow\<close>

text \<open>The bytes the UART at \<open>b\<close> delivered and was given, in a history of accesses.\<close>

fun rx_bytes :: "u32 \<Rightarrow> access list \<Rightarrow> u8 list" where
  "rx_bytes b [] = []"
| "rx_bytes b (Rd a v # h) =
     (if a = b \<and> v AND 0x8000 \<noteq> 0 then ucast v # rx_bytes b h else rx_bytes b h)"
| "rx_bytes b (_ # h) = rx_bytes b h"

fun tx_bytes :: "u32 \<Rightarrow> access list \<Rightarrow> u8 list" where
  "tx_bytes b [] = []"
| "tx_bytes b (Wr32 a v # h) = (if a = b then ucast v # tx_bytes b h else tx_bytes b h)"
| "tx_bytes b (_ # h) = tx_bytes b h"

lemma rx_bytes_append [simp]: "rx_bytes b (h @ h') = rx_bytes b h @ rx_bytes b h'"
  by (induction b h rule: rx_bytes.induct) auto

lemma tx_bytes_append [simp]: "tx_bytes b (h @ h') = tx_bytes b h @ tx_bytes b h'"
  by (induction b h rule: tx_bytes.induct) auto

abbreviation got_of :: "u32 \<Rightarrow> access list machine \<Rightarrow> u8 list" where
  "got_of b s \<equiv> rx_bytes b (hw s)"
abbreviation sent_of :: "u32 \<Rightarrow> access list machine \<Rightarrow> u8 list" where
  "sent_of b s \<equiv> tx_bytes b (hw s)"

text \<open>A step of the routine: bytes flow, the program's indices stay.\<close>

definition isr_step :: "u32 \<Rightarrow> access list usys \<Rightarrow> access list usys \<Rightarrow> bool" where
  "isr_step b st st' \<longleftrightarrow> uart_ok b st' \<and> flow (got_of b) (sent_of b) st st' [] [] \<and>
     outp (rx (fst st')) = outp (rx (fst st)) \<and> inp (tx (fst st')) = inp (tx (fst st))"

lemma isr_step_refl: "uart_ok b st \<Longrightarrow> isr_step b st st"
  by (simp add: isr_step_def)

lemma isr_step_trans: "isr_step b st st1 \<Longrightarrow> isr_step b st1 st2 \<Longrightarrow> isr_step b st st2"
  unfolding isr_step_def using flow_trans [of _ _ st st1 "[]" "[]" st2 "[]" "[]"] by auto

lemma isr_step_ok: "isr_step b st st' \<Longrightarrow> uart_ok b st'"
  by (simp add: isr_step_def)

text \<open>Reading or writing the control register and changing flags moves no byte.\<close>

lemma isr_step_control:
  assumes "uart_ok b (sp, s)" and "u_base sp' = b" "rx sp' = rx sp" "tx sp' = tx sp"
    and "hw s' = hw s @ h" "rx_bytes b h = []" "tx_bytes b h = []"
  shows "isr_step b (sp, s) (sp', s')"
  using assms by (simp add: isr_step_def uart_ok_def flow_def)

lemma control_addr [simp]: "(b :: u32) + 4 \<noteq> b"
  by simp

lemma isr_step_receive:
  assumes "uart_ok b (sp, s)" and "(inp (rx sp) + 1) mod BUF_LEN \<noteq> outp (rx sp)" "v AND 0x8000 \<noteq> 0"
  shows "isr_step b (sp, s) (sp\<lparr>rx := ring_enq (ucast v) (rx sp)\<rparr>, s\<lparr>hw := hw s @ [Rd b v]\<rparr>)"
proof -
  have wf: "ring_wf (rx sp)" and nf: "\<not> ring_full (rx sp)"
    using assms by (simp_all add: uart_ok_def ring_full_def)
  have "outp (ring_enq (ucast v) (rx sp)) = outp (rx sp)" by (simp add: ring_enq_def)
  then show ?thesis
    using assms ring.enq_wf [OF wf nf] ring.enq_content [OF wf nf]
    by (simp add: isr_step_def uart_ok_def flow_def)
qed

lemma ucast_scast_byte [simp]: "ucast (scast (b :: u8) :: u32) = b"
  by (rule bit_word_eqI) (auto simp: bit_simps)

lemma hd_ring_list: "ring_wf q \<Longrightarrow> inp q \<noteq> outp q \<Longrightarrow> ring_list q = buf q (outp q) # tl (ring_list q)"
  using nth_ring_list [of 0 q] used_0 [of q]
  by (cases "ring_list q") (auto simp: ring_wf_def simp flip: length_ring_list)

lemma isr_step_send:
  assumes "uart_ok b (sp, s)" and "outp (tx sp) \<noteq> inp (tx sp)"
  shows "isr_step b (sp, s) (sp\<lparr>tx := ring_deq (tx sp)\<rparr>,
    s\<lparr>hw := hw s @ [Wr32 b (scast (buf (tx sp) (outp (tx sp))))]\<rparr>)"
proof -
  have wf: "ring_wf (tx sp)" using assms(1) by (simp add: uart_ok_def)
  with assms(2) have ne: "ring_list (tx sp) \<noteq> []" using used_0 [OF wf]
    by (metis length_0_conv length_ring_list)
  have "inp (ring_deq (tx sp)) = inp (tx sp)" by (simp add: ring_deq_def)
  then show ?thesis
    using assms ring.deq_wf [OF wf ne] ring.deq_content [OF wf ne] hd_ring_list [OF wf]
    by (simp add: isr_step_def uart_ok_def flow_def)
qed

lemma rx_fill_step:
  assumes "rx_fill (trace_bus resp) d st = Some (d', st')" and "uart_ok b st"
  shows "isr_step b st st'"
proof -
  have "uart_ok b st \<longrightarrow> isr_step b st (snd r)" if "rx_fill (trace_bus resp) d st = Some r" for r
  proof (rule rx_fill.raw_induct [where P = "\<lambda>B d st r. B = trace_bus resp \<longrightarrow> uart_ok b st \<longrightarrow>
        isr_step b st (snd r)", OF _ that, THEN mp, OF _ refl])
    fix loop B d st r
    assume IH: "\<And>B d st r. loop B d st = Some r \<Longrightarrow> B = trace_bus resp \<longrightarrow> uart_ok b st \<longrightarrow>
        isr_step b st (snd r)"
      and eq: "(case st of (sp, s) \<Rightarrow>
        let next = (inp (rx sp) + 1) mod BUF_LEN
        in if next = outp (rx sp) then Some (d, sp, s)
           else let (data, s) = IORD_UART_DATA B (u_base sp) s
                in if data AND DATA_RVALID_MSK = 0 then Some (data, sp, s)
                   else loop B data (sp\<lparr>rx := ring_enq (ucast data) (rx sp)\<rparr>, s)) = Some r"
    show "B = trace_bus resp \<longrightarrow> uart_ok b st \<longrightarrow> isr_step b st (snd r)"
    proof (intro impI)
      assume B: "B = trace_bus resp" and ok: "uart_ok b st"
      obtain sp s where st: "st = (sp, s)" by (rule prod.exhaust)
      then have base: "u_base sp = b" using ok by (simp add: uart_ok_def)
      define v where "v = resp (hw s) b"
      let ?s = "s\<lparr>hw := hw s @ [Rd b v]\<rparr>"
      show "isr_step b st (snd r)"
      proof (cases "(inp (rx sp) + 1) mod BUF_LEN = outp (rx sp)")
        case True
        with eq st ok show ?thesis by (auto simp: isr_step_refl)
      next
        case room: False
        show ?thesis
        proof (cases "v AND 0x8000 = 0")
          case True
          with eq st B base room have "r = (v, sp, ?s)"
            by (simp add: trace_IO_reg Let_def v_def DATA_RVALID_MSK_def)
          with ok st True base show ?thesis
            by (auto intro!: isr_step_control [where h = "[Rd b v]"])
        next
          case False
          with eq st B base room have
            "loop B v (sp\<lparr>rx := ring_enq (ucast v) (rx sp)\<rparr>, ?s) = Some r"
            by (simp add: trace_IO_reg Let_def v_def DATA_RVALID_MSK_def)
          with IH [OF this] B isr_step_receive [OF ok [unfolded st] room False]
          show ?thesis using isr_step_ok isr_step_trans unfolding st by blast
        qed
      qed
    qed
  qed
  from this [OF assms(1)] assms(2) show ?thesis by simp
qed

lemma irq_receive_step:
  assumes "irq_receive (trace_bus resp) st = Some st'" and "uart_ok b st"
  shows "isr_step b st st'"
proof -
  from assms(1) obtain d sp s where f: "rx_fill (trace_bus resp) 0x10000 st = Some (d, sp, s)"
    and st': "(if d AND DATA_RAVAIL_MSK \<noteq> 0
     then let sp = sp\<lparr>irq_enable := irq_enable sp AND NOT CONTROL_RE_MSK\<rparr>;
              s = IOWR_UART_CONTROL (trace_bus resp) (u_base sp) (irq_enable sp) s;
              (_, s) = IORD_UART_CONTROL (trace_bus resp) (u_base sp) s
          in Some (sp, s)
     else Some (sp, s)) = Some st'"
    by (auto simp: irq_receive_def bind_eq_Some_conv)
  note step = rx_fill_step [OF f assms(2)]
  then have ok: "uart_ok b (sp, s)" by (rule isr_step_ok)
  then have base: "u_base sp = b" by (simp add: uart_ok_def)
  have "isr_step b (sp, s) st'"
  proof (cases "d AND DATA_RAVAIL_MSK = 0")
    case True
    with st' ok show ?thesis by (auto simp: isr_step_refl)
  next
    case False
    with st' ok base show ?thesis
      by (auto simp: trace_IO_reg Let_def intro!: isr_step_control)
  qed
  with step show ?thesis by (rule isr_step_trans)
qed

lemma tx_send_step:
  "uart_ok b (sp, s) \<Longrightarrow> tx_send (trace_bus resp) n sp s = (m, st') \<Longrightarrow> isr_step b (sp, s) st'"
proof (induction n arbitrary: sp s)
  case 0
  then show ?case by (auto simp: isr_step_refl)
next
  case (Suc n)
  then have base: "u_base sp = b" by (simp add: uart_ok_def)
  show ?case
  proof (cases "outp (tx sp) = inp (tx sp)")
    case True
    with Suc.prems show ?thesis by (auto simp: isr_step_refl)
  next
    case False
    note step = isr_step_send [OF Suc.prems(1) False]
    with Suc.prems(2) False Suc.IH [OF isr_step_ok [OF step]] show ?thesis
      using isr_step_trans by (fastforce simp: trace_IO_reg base)
  qed
qed

lemma irq_transmit_step:
  assumes "uart_ok b st"
  shows "isr_step b st (irq_transmit (trace_bus resp) control st)"
proof -
  obtain sp s where st: "st = (sp, s)" by (rule prod.exhaust)
  obtain m sp1 s1 where ts: "tx_send (trace_bus resp)
      (unat (drop_bit 16 (control AND CONTROL_WSPACE_MSK))) sp s = (m, sp1, s1)"
    by (metis prod_cases3)
  note step = tx_send_step [OF assms [unfolded st] ts]
  then have ok: "uart_ok b (sp1, s1)" by (rule isr_step_ok)
  then have base: "u_base sp1 = b" by (simp add: uart_ok_def)
  note unf = irq_transmit_def [of "trace_bus resp" control st, unfolded st prod.case Let_def ts]
  have "isr_step b (sp1, s1) (irq_transmit (trace_bus resp) control st)"
  proof (cases "m > 0")
    case True
    with ok base show ?thesis
      by (subst st, subst unf) (auto simp: trace_IO_reg intro!: isr_step_control)
  next
    case False
    with ok show ?thesis by (subst st, subst unf) (simp add: isr_step_refl)
  qed
  with step show ?thesis unfolding st by (rule isr_step_trans)
qed

lemma irq_step:
  assumes "altera_avalon_jtag_uart_irq (trace_bus resp) st = Some st'" and "uart_ok b st"
  shows "isr_step b st st'"
proof -
  have "uart_ok b st \<longrightarrow> isr_step b st r"
    if "altera_avalon_jtag_uart_irq (trace_bus resp) st = Some r" for r
  proof (rule altera_avalon_jtag_uart_irq.raw_induct [where P = "\<lambda>B st r. B = trace_bus resp \<longrightarrow>
        uart_ok b st \<longrightarrow> isr_step b st r", OF _ that, THEN mp, OF _ refl])
    fix loop B st r
    assume IH: "\<And>B st r. loop B st = Some r \<Longrightarrow> B = trace_bus resp \<longrightarrow> uart_ok b st \<longrightarrow> isr_step b st r"
      and eq: "(case st of (sp, s) \<Rightarrow>
        let (control, s) = IORD_UART_CONTROL B (u_base sp) s
        in if control AND (CONTROL_RI_MSK OR CONTROL_WI_MSK) = 0 then Some (sp, s)
           else do {
             st \<leftarrow> (if control AND CONTROL_RI_MSK \<noteq> 0 then irq_receive B (sp, s) else Some (sp, s));
             let st = (if control AND CONTROL_WI_MSK \<noteq> 0 then irq_transmit B control st else st);
             loop B st }) = Some r"
    show "B = trace_bus resp \<longrightarrow> uart_ok b st \<longrightarrow> isr_step b st r"
    proof (intro impI)
      assume B: "B = trace_bus resp" and ok: "uart_ok b st"
      obtain sp s where st: "st = (sp, s)" by (rule prod.exhaust)
      then have base: "u_base sp = b" using ok by (simp add: uart_ok_def)
      define c where "c = resp (hw s) (b + 4)"
      define s1 where "s1 = s\<lparr>hw := hw s @ [Rd (b + 4) c]\<rparr>"
      have 1: "isr_step b st (sp, s1)"
        unfolding st using ok [unfolded st] base by (rule isr_step_control [where h = "[Rd (b + 4) c]"]) (simp_all add: s1_def)
      have rd: "IORD_UART_CONTROL B (u_base sp) s = (c, s1)"
        by (simp add: B trace_IO_reg base c_def s1_def)
      show "isr_step b st r"
      proof (cases "c AND (CONTROL_RI_MSK OR CONTROL_WI_MSK) = 0")
        case True
        with eq 1 rd st show ?thesis by simp
      next
        case False
        with eq rd st obtain st2 where
          st2: "(if c AND CONTROL_RI_MSK \<noteq> 0 then irq_receive B (sp, s1) else Some (sp, s1)) = Some st2"
          and loop: "loop B (if c AND CONTROL_WI_MSK \<noteq> 0 then irq_transmit B c st2 else st2) = Some r"
          by (auto simp: bind_eq_Some_conv Let_def)
        have 2: "isr_step b (sp, s1) st2"
          using st2 irq_receive_step [of resp "(sp, s1)"] isr_step_refl isr_step_ok [OF 1] B
          by (auto split: if_splits)
        have 3: "isr_step b st2 (if c AND CONTROL_WI_MSK \<noteq> 0 then irq_transmit B c st2 else st2)"
          (is "isr_step b st2 ?st3")
          using irq_transmit_step [OF isr_step_ok [OF 2], of resp c] isr_step_refl [OF isr_step_ok [OF 2]] B
          by simp
        from IH [OF loop] B isr_step_ok [OF 3] have "isr_step b ?st3 r" by blast
        with 1 2 3 show ?thesis using isr_step_trans by blast
      qed
    qed
  qed
  from this [OF assms(1)] assms(2) show ?thesis by simp
qed

text \<open>
  The environment of a running program: at any moment, as \<open>go\<close> decides from the history, the
  interrupt routine may run.
\<close>

definition isr_env :: "(access list \<Rightarrow> u32 \<Rightarrow> u32) \<Rightarrow> (access list \<Rightarrow> bool) \<Rightarrow> access list usys \<Rightarrow> access list usys"
where
  "isr_env resp go st =
     (if go (hw (snd st))
      then case altera_avalon_jtag_uart_irq (trace_bus resp) st of Some st' \<Rightarrow> st' | None \<Rightarrow> st
      else st)"

lemma isr_env_step: "uart_ok b st \<Longrightarrow> isr_step b st (isr_env resp go st)"
  using irq_step [of resp st] isr_step_refl by (auto simp: isr_env_def split: option.split)

interpretation isr: uart_env "trace_bus resp" b "isr_env resp go" "got_of b" "sent_of b"
proof unfold_locales
  show "uart_ok b (isr_env resp go st)" if "uart_ok b st" for st
    using isr_env_step [OF that] by (rule isr_step_ok)
  show "flow (got_of b) (sent_of b) st (isr_env resp go st) [] []" if "uart_ok b st" for st
    using isr_env_step [OF that, of resp go] by (simp add: isr_step_def)
  show "outp (rx (fst (isr_env resp go st))) = outp (rx (fst st)) \<and>
      inp (tx (fst (isr_env resp go st))) = inp (tx (fst st))" if "uart_ok b st" for st
    using isr_env_step [OF that, of resp go] by (simp add: isr_step_def)
qed (simp_all add: trace_IO_reg)

section \<open>Properties\<close>

text \<open>A UART with an empty transmit ring and the bytes 7 and 9 waiting in the receive ring.\<close>

definition uart79 :: uart where
  "uart79 = \<lparr>u_base = 0x70000, u_timeout = 10, irq_enable = 1, host_inactive = 0,
     rx = \<lparr>buf = (\<lambda>k. if k = 2047 then 7 else 9), inp = 1, outp = 2047\<rparr>,
     tx = \<lparr>buf = (\<lambda>_. 0), inp = 0, outp = 0\<rparr>\<rparr>"

lemma uart79_ok: "uart_ok 0x70000 (uart79, s)"
  by (simp add: uart_ok_def uart79_def ring_wf_def BUF_LEN_def)

text \<open>C28: On arbitrary hardware, when the UART interrupt routine returns, exactly the valid
  bytes it read from the device have been appended to the receive ring in their order, and the
  bytes it wrote to the device are exactly those that left the front of the transmit ring, in
  their order; the indices owned by the program are untouched and both rings stay well formed.\<close>

theorem uart_irq_moves_bytes:
  assumes "altera_avalon_jtag_uart_irq (trace_bus resp) (sp, s) = Some (sp', s')"
    and "uart_ok b (sp, s)"
  shows "uart_ok b (sp', s') \<and> outp (rx sp') = outp (rx sp) \<and> inp (tx sp') = inp (tx sp) \<and>
    (\<exists>new out. rx_bytes b (hw s') = rx_bytes b (hw s) @ new \<and>
       ring_list (rx sp') = ring_list (rx sp) @ new \<and>
       tx_bytes b (hw s') = tx_bytes b (hw s) @ out \<and>
       ring_list (tx sp) = out @ ring_list (tx sp'))"
  using irq_step [OF assms] by (auto simp: isr_step_def flow_def)

theorem uart_irq_moves_bytes_witness:
  "\<exists>sp' s'. altera_avalon_jtag_uart_irq (trace_bus (\<lambda>_ _. 0)) (uart79, reset_machine []) =
      Some (sp', s') \<and> uart_ok 0x70000 (sp', s')"
proof -
  have irq: "altera_avalon_jtag_uart_irq (trace_bus (\<lambda>_ _. 0)) (uart79, reset_machine []) =
      Some (uart79, reset_machine [Rd 0x70004 0])"
    by (subst altera_avalon_jtag_uart_irq.simps)
      (simp add: trace_IO_reg uart79_def reset_machine_def)
  from uart_irq_moves_bytes [OF irq uart79_ok] irq show ?thesis by blast
qed

text \<open>C9: With the interrupt routine running at arbitrary moments on arbitrary hardware, a read
  that returns gives the caller the oldest bytes: what was in the ring followed by what the
  device delivered meanwhile is what the caller got followed by what is in the ring now. It
  returns the number of bytes, at most the size asked for, or -EWOULDBLOCK or -EIO with none.\<close>

theorem uart_read_in_order:
  assumes "altera_avalon_jtag_uart_read (trace_bus resp) (isr_env resp go) n flags (sp, s) =
      Some (r, bytes, sp', s')"
    and "uart_ok b (sp, s)"
  shows "(\<exists>new. rx_bytes b (hw s') = rx_bytes b (hw s) @ new \<and>
      ring_list (rx sp) @ new = bytes @ ring_list (rx sp')) \<and> length bytes \<le> nat n \<and>
    r = (if bytes \<noteq> [] then int (length bytes)
         else if flags AND O_NONBLOCK \<noteq> 0 then - EWOULDBLOCK else - EIO)"
  using isr.uart_read_flow [OF assms] by (auto simp: flow_def)

lemma read79:
  "altera_avalon_jtag_uart_read (trace_bus (\<lambda>_ _. 0)) (isr_env (\<lambda>_ _. 0) (\<lambda>_. False)) 5 0
     (uart79, reset_machine []) =
   Some (2, [7, 9], (uart79\<lparr>rx := ring_drop 1 (ring_drop 1 (rx uart79))\<rparr>),
     reset_machine [Wr32 0x70004 1])"
proof -
  have env: "isr_env (\<lambda>_ _. 0) (\<lambda>_. False) = (\<lambda>st. st)"
    by (simp add: fun_eq_iff isr_env_def)
  show ?thesis
    unfolding altera_avalon_jtag_uart_read_def env
    by (simp add: read_loop.simps read_avail.simps uart79_def ring_read_def ring_drop_def
        BUF_LEN_def enable_uart_irq_def trace_IO_reg alt_irq_disable_all_def Let_def
        alt_irq_enable_all_def reset_machine_def CONTROL_RE_MSK_def)
qed

theorem uart_read_in_order_witness:
  "ring_list (rx uart79) = [7, 9] @ ring_list (ring_drop 1 (ring_drop 1 (rx uart79)))"
  using uart_read_in_order [OF read79 uart79_ok]
  by (auto simp: reset_machine_def)

text \<open>C8: A write that returns has put the bytes it reports, the first ones of the buffer, behind
  those already queued: the old content of the transmit ring followed by them is what was
  handed to the device meanwhile followed by the new content of the ring. It never returns 0.\<close>

theorem uart_write_in_order:
  assumes "altera_avalon_jtag_uart_write (trace_bus resp) (isr_env resp go) bs flags (sp, s) =
      Some (r, sp', s')"
    and "uart_ok b (sp, s)"
  shows "r \<noteq> 0 \<and> r \<le> int (length bs) \<and>
    (\<exists>out. tx_bytes b (hw s') = tx_bytes b (hw s) @ out \<and>
       ring_list (tx sp) @ take (nat r) bs = out @ ring_list (tx sp'))"
  using isr.uart_write_flow [OF assms] by (auto simp: flow_def split: if_splits)

lemma write79:
  "altera_avalon_jtag_uart_write (trace_bus (\<lambda>_ _. 0)) (isr_env (\<lambda>_ _. 0) (\<lambda>_. False)) [5, 6] 0
     (uart79, reset_machine []) =
   Some (2, uart79\<lparr>tx := ring_put [5, 6] (tx uart79), irq_enable := 3\<rparr>,
     reset_machine [Wr32 0x70004 3])"
proof -
  have env: "isr_env (\<lambda>_ _. 0) (\<lambda>_. False) = (\<lambda>st. st)"
    by (simp add: fun_eq_iff isr_env_def)
  show ?thesis
    unfolding altera_avalon_jtag_uart_write_def env
    by (simp add: write_loop.simps copy_loop.simps uart79_def ring_put_def
        BUF_LEN_def enable_uart_irq_def trace_IO_reg alt_irq_disable_all_def Let_def
        alt_irq_enable_all_def reset_machine_def CONTROL_WE_MSK_def) (auto simp: fun_eq_iff)
qed

theorem uart_write_in_order_witness:
  "ring_list (tx uart79) @ [5, 6] = ring_list (ring_put [5, 6] (tx uart79))"
  using uart_write_in_order [OF write79 uart79_ok] by (auto simp: reset_machine_def)

end
