(* ===== verification/Jtag_Polled.thy ===== *)
theory Jtag_Polled
  imports Jtag_Uart
begin

text \<open>
  The small version of the JTAG UART driver (\<open>ALTERA_AVALON_JTAG_UART_SMALL\<close>), which polls instead of using
  interrupts: \<open>altera_avalon_jtag_uart_read.c\<close> and \<open>altera_avalon_jtag_uart_write.c\<close>, first halves. This is the
  version that the board support package builds: \<open>public.mk\<close> defines \<open>ALT_USE_SMALL_DRIVERS\<close>, and
  \<open>altera_avalon_jtag_uart.h\<close> turns that into the small driver. Its state is the base address. The theorems are
  on arbitrary hardware, the result being what the bus carried; \<open>Board_Init\<close> puts the console on top.
\<close>

section \<open>The two routines\<close>

text \<open>The read loop, with the room left and the bytes read so far; \<open>None\<close> when it waits forever.\<close>

partial_function (option) small_read_loop ::
  "'h bus \<Rightarrow> u32 \<Rightarrow> bool \<Rightarrow> nat \<Rightarrow> u8 list \<Rightarrow> 'h machine \<Rightarrow> (u8 list \<times> 'h machine) option" where
  "small_read_loop B base nonblock space buffer s =
     (if space = 0 then Some (buffer, s)
      else let (data, s) = IORD_UART_DATA B base s
           in if data AND DATA_RVALID_MSK \<noteq> 0
              then small_read_loop B base nonblock (space - 1) (buffer @ [ucast (data AND 0xFF)]) s
              else if buffer \<noteq> [] then Some (buffer, s)
              else if nonblock then Some (buffer, s)
              else small_read_loop B base nonblock space buffer s)"

definition small_jtag_uart_read ::
  "'h bus \<Rightarrow> u32 \<Rightarrow> int \<Rightarrow> u32 \<Rightarrow> 'h machine \<Rightarrow> (int \<times> u8 list \<times> 'h machine) option" where
  "small_jtag_uart_read B base space flags s = do {
     (buffer, s) \<leftarrow> small_read_loop B base (flags AND O_NONBLOCK \<noteq> 0) (nat space) [] s;
     Some (if buffer \<noteq> [] then int (length buffer)
           else if flags AND O_NONBLOCK \<noteq> 0 then - EWOULDBLOCK else - EIO, buffer, s) }"

text \<open>The write loop over the bytes left.\<close>

partial_function (option) small_write_loop ::
  "'h bus \<Rightarrow> u32 \<Rightarrow> u8 list \<Rightarrow> 'h machine \<Rightarrow> 'h machine option" where
  "small_write_loop B base bytes s =
     (case bytes of [] \<Rightarrow> Some s
      | c # cs \<Rightarrow>
         let (control, s) = IORD_UART_CONTROL B base s
         in if control AND CONTROL_WSPACE_MSK \<noteq> 0
            then small_write_loop B base cs (IOWR_UART_DATA B base (scast c) s)
            else small_write_loop B base bytes s)"

text \<open>\<open>flags\<close> is not used: the write blocks even when the descriptor is not to block.\<close>

definition small_jtag_uart_write ::
  "'h bus \<Rightarrow> u32 \<Rightarrow> u8 list \<Rightarrow> u32 \<Rightarrow> 'h machine \<Rightarrow> (int \<times> 'h machine) option" where
  "small_jtag_uart_write B base bytes flags s = do {
     s \<leftarrow> small_write_loop B base bytes s;
     Some (int (length bytes), s) }"

declare small_read_loop.simps [code] small_write_loop.simps [code]

section \<open>Reading\<close>

text \<open>A read of the data register, by what it answers.\<close>

lemma small_read_step:
  assumes "space \<noteq> 0" and "resp (hw s) base = v" and "t = s\<lparr>hw := hw s @ [Rd base v]\<rparr>"
  shows "small_read_loop (trace_bus resp) base nb space buffer s =
    (if v AND 0x8000 \<noteq> 0 then small_read_loop (trace_bus resp) base nb (space - 1) (buffer @ [ucast v]) t
     else if buffer \<noteq> [] \<or> nb then Some (buffer, t)
     else small_read_loop (trace_bus resp) base nb space buffer t)"
proof -
  have "ucast (v AND 0xFF) = (ucast v :: u8)" by (rule bit_word_eqI) (auto simp: bit_simps)
  then show ?thesis using assms
    by (subst small_read_loop.simps) (simp add: trace_IO_reg DATA_RVALID_MSK_def)
qed

text \<open>Without blocking, the loop ends within one turn more than the room.\<close>

lemma small_read_loop_ends:
  "nb \<or> buffer \<noteq> [] \<Longrightarrow> \<exists>r. small_read_loop (trace_bus resp) base nb space buffer s = Some r"
proof (induction space arbitrary: buffer s)
  case 0
  then show ?case by (subst small_read_loop.simps) simp
next
  case (Suc n)
  let ?v = "resp (hw s) base" and ?t = "s\<lparr>hw := hw s @ [Rd base (resp (hw s) base)]\<rparr>"
  have "small_read_loop (trace_bus resp) base nb (Suc n) buffer s =
      (if ?v AND 0x8000 \<noteq> 0 then small_read_loop (trace_bus resp) base nb n (buffer @ [ucast ?v]) ?t
       else Some (buffer, ?t))"
    using Suc.prems by (subst small_read_step [OF _ refl refl]) auto
  with Suc.IH [of "buffer @ [ucast ?v]" ?t] show ?case by simp
qed

text \<open>What the bus carried when the loop has ended.\<close>

definition read_outcome :: "u32 \<Rightarrow> bool \<Rightarrow> nat \<Rightarrow> access list \<Rightarrow> bool" where
  "read_outcome base nb space es \<longleftrightarrow>
     (\<forall>e\<in>set es. \<exists>v. e = Rd base v) \<and> length (rx_bytes base es) \<le> space \<and>
     (rx_bytes base es = [] \<longrightarrow> space = 0 \<or> nb) \<and>
     (length (rx_bytes base es) < space \<longrightarrow> (\<exists>es' v. es = es' @ [Rd base v] \<and> v AND 0x8000 = 0))"

text \<open>The result \<open>r\<close> of the loop from the state \<open>s\<close>.\<close>

definition small_read_ok :: "u32 \<Rightarrow> bool \<Rightarrow> nat \<Rightarrow> u8 list \<Rightarrow> access list machine \<Rightarrow> u8 list \<times> access list machine \<Rightarrow> bool"
  where
  "small_read_ok base nb space buffer s r \<longleftrightarrow> (\<exists>es. snd r = s\<lparr>hw := hw s @ es\<rparr> \<and>
     fst r = buffer @ rx_bytes base es \<and> read_outcome base (nb \<or> buffer \<noteq> []) space es)"

lemma small_read_loop_result:
  assumes "small_read_loop (trace_bus resp) base nb space buffer s = Some r"
  shows "small_read_ok base nb space buffer s r"
proof (rule small_read_loop.raw_induct [where P = "\<lambda>B base nb space buffer s r. B = trace_bus resp \<longrightarrow>
      small_read_ok base nb space buffer s r", OF _ assms, THEN mp, OF _ refl])
  fix loop B base nb space buffer s r
  assume IH: "\<And>B base nb space buffer s r. loop B base nb space buffer s = Some r \<Longrightarrow>
      B = trace_bus resp \<longrightarrow> small_read_ok base nb space buffer s r"
    and eq: "(if space = 0 then Some (buffer, s)
      else let (data, s) = IORD_UART_DATA B base s
           in if data AND DATA_RVALID_MSK \<noteq> 0
              then loop B base nb (space - 1) (buffer @ [ucast (data AND 0xFF)]) s
              else if buffer \<noteq> [] then Some (buffer, s)
              else if nb then Some (buffer, s)
              else loop B base nb space buffer s) = Some r"
  show "B = trace_bus resp \<longrightarrow> small_read_ok base nb space buffer s r"
  proof
    assume B: "B = trace_bus resp"
      let ?v = "resp (hw s) base"
      let ?t = "s\<lparr>hw := hw s @ [Rd base ?v]\<rparr>" and ?c = "ucast (?v AND 0xFF) :: u8"
      have c: "?c = ucast ?v" by (rule bit_word_eqI) (auto simp: bit_simps)
      consider "space = 0" "r = (buffer, s)"
        | (data) "space \<noteq> 0" "?v AND 0x8000 \<noteq> 0" "loop B base nb (space - 1) (buffer @ [?c]) ?t = Some r"
        | (stop) "space \<noteq> 0" "?v AND 0x8000 = 0" "buffer \<noteq> [] \<or> nb" "r = (buffer, ?t)"
        | (wait) "space \<noteq> 0" "?v AND 0x8000 = 0" "buffer = []" "\<not> nb" "loop B base nb space buffer ?t = Some r"
        using eq unfolding B by (auto simp: trace_IO_reg DATA_RVALID_MSK_def split: if_splits)
    then show "small_read_ok base nb space buffer s r"
    proof cases
      case 1
      then show ?thesis unfolding small_read_ok_def by (intro exI [of _ "[]"]) (simp add: read_outcome_def)
    next
      case data
      from IH [OF data(3)] B obtain es where es: "snd r = ?t\<lparr>hw := hw ?t @ es\<rparr>"
        "fst r = (buffer @ [?c]) @ rx_bytes base es" "read_outcome base True (space - 1) es"
        by (auto simp: small_read_ok_def)
      show ?thesis unfolding small_read_ok_def
        by (rule exI [of _ "Rd base ?v # es"]) (use es data c in \<open>auto simp: read_outcome_def\<close>)
    next
      case stop
      then show ?thesis unfolding small_read_ok_def
        by (intro exI [of _ "[Rd base ?v]"]) (auto simp: read_outcome_def)
    next
      case wait
      from IH [OF wait(5)] B wait(3,4) obtain es where es: "snd r = ?t\<lparr>hw := hw ?t @ es\<rparr>"
        "fst r = buffer @ rx_bytes base es" "read_outcome base False space es" by (auto simp: small_read_ok_def)
      show ?thesis unfolding small_read_ok_def
        by (rule exI [of _ "Rd base ?v # es"]) (use es wait in \<open>auto simp: read_outcome_def\<close>)
    qed
  qed
qed

text \<open>Blocking on an empty UART, the loop returns exactly when some read finds a byte.\<close>

abbreviation polls :: "(access list \<Rightarrow> u32 \<Rightarrow> u32) \<Rightarrow> u32 \<Rightarrow> nat \<Rightarrow> nat \<Rightarrow> access list machine \<Rightarrow> access list machine" where
  "polls resp base reg n s \<equiv> after_reads (IORD (trace_bus resp) base reg) n s"

lemma small_read_loop_returns:
  assumes "space \<noteq> 0" and "resp (hw (polls resp base 0 n s)) base AND 0x8000 \<noteq> 0"
  shows "\<exists>r. small_read_loop (trace_bus resp) base nb space [] s = Some r"
  using assms(2)
proof (induction n arbitrary: s)
  case 0
  then have "small_read_loop (trace_bus resp) base nb space [] s =
      small_read_loop (trace_bus resp) base nb (space - 1) [ucast (resp (hw s) base)] (s\<lparr>hw := hw s @ [Rd base (resp (hw s) base)]\<rparr>)"
    by (subst small_read_step [OF assms(1) refl refl]) simp
  then show ?case using small_read_loop_ends [of nb "[ucast (resp (hw s) base)]"] by simp
next
  case (Suc n)
  let ?t = "s\<lparr>hw := hw s @ [Rd base (resp (hw s) base)]\<rparr>"
  have "\<exists>r. small_read_loop (trace_bus resp) base nb space [] ?t = Some r"
    using Suc by (simp add: after_reads_Suc trace_IO_reg)
  then show ?case
    using small_read_loop_ends [of nb "[ucast (resp (hw s) base)]" resp base "space - 1" ?t]
    by (subst small_read_step [OF assms(1) refl refl]) auto
qed

lemma small_read_loop_waits:
  assumes "small_read_loop (trace_bus resp) base False space [] s = Some r" and "space \<noteq> 0"
  shows "\<exists>n. resp (hw (polls resp base 0 n s)) base AND 0x8000 \<noteq> 0"
proof (rule ccontr)
  assume never: "\<not> ?thesis"
  from small_read_loop_result [OF assms(1)] obtain es where es: "read_outcome base False space es"
    by (auto simp: small_read_ok_def)
  have step: "small_read_loop (trace_bus resp) base False space [] (polls resp base 0 n s) =
      small_read_loop (trace_bus resp) base False space [] (polls resp base 0 (Suc n) s)" for n
    using never by (subst small_read_step [OF assms(2) refl refl]) (simp add: after_reads_Suc_back trace_IO_reg)
  have all: "small_read_loop (trace_bus resp) base False space [] (polls resp base 0 n s) = Some r" for n
    by (induction n) (use assms(1) step in auto)
  have len: "length (hw (polls resp base 0 n s)) = length (hw s) + n" for n
    by (induction n) (simp_all add: after_reads_Suc_back trace_IO_reg)
  define m where "m = Suc (length (hw (snd r)))"
  obtain es where "hw (snd r) = hw (polls resp base 0 m s) @ es"
    using small_read_loop_result [OF all [of m]] by (auto simp: small_read_ok_def)
  from arg_cong [OF this, of length] have "length (hw (snd r)) \<ge> length (hw s) + m" unfolding length_append len by simp
  then show False by (simp add: m_def)
qed

text \<open>Reading. On arbitrary hardware the call returns exactly when it need not wait or a byte comes. Then it has read
  the data register only; it gives every byte that the UART delivered, in order, at most as many as asked for, and
  fewer only when the last read found none; with no byte it fails, which a blocking call does for no room only.\<close>

theorem small_jtag_uart_read_outcomes:
  fixes flags :: u32
  defines "nb \<equiv> flags AND O_NONBLOCK \<noteq> 0"
  shows "((\<exists>r. small_jtag_uart_read (trace_bus resp) base space flags s = Some r) \<longleftrightarrow>
      nb \<or> space \<le> 0 \<or> (\<exists>n. resp (hw (polls resp base 0 n s)) base AND 0x8000 \<noteq> 0)) \<and>
    (small_jtag_uart_read (trace_bus resp) base space flags s = Some (rc, bytes, s') \<longrightarrow>
      (\<exists>es. s' = s\<lparr>hw := hw s @ es\<rparr> \<and> bytes = rx_bytes base es \<and> read_outcome base nb (nat space) es \<and>
         rc = (if bytes \<noteq> [] then int (length bytes) else if nb then - EWOULDBLOCK else - EIO)))"
proof
  let ?loop = "small_read_loop (trace_bus resp) base nb (nat space) [] s"
  have r: "(\<exists>r. small_jtag_uart_read (trace_bus resp) base space flags s = Some r) \<longleftrightarrow> (\<exists>r. ?loop = Some r)"
    by (auto simp: small_jtag_uart_read_def nb_def bind_eq_Some_conv)
  have "?loop = Some ([], s)" if "space \<le> 0" using that by (subst small_read_loop.simps) simp
  then show "(\<exists>r. small_jtag_uart_read (trace_bus resp) base space flags s = Some r) \<longleftrightarrow>
      nb \<or> space \<le> 0 \<or> (\<exists>n. resp (hw (polls resp base 0 n s)) base AND 0x8000 \<noteq> 0)"
    unfolding r using small_read_loop_ends [of nb "[]" resp base "nat space" s]
      small_read_loop_returns [of "nat space" resp base _ s nb] small_read_loop_waits [of resp base "nat space" s]
    by (cases nb; cases "space \<le> 0") auto
  show "small_jtag_uart_read (trace_bus resp) base space flags s = Some (rc, bytes, s') \<longrightarrow>
      (\<exists>es. s' = s\<lparr>hw := hw s @ es\<rparr> \<and> bytes = rx_bytes base es \<and> read_outcome base nb (nat space) es \<and>
         rc = (if bytes \<noteq> [] then int (length bytes) else if nb then - EWOULDBLOCK else - EIO))"
    using small_read_loop_result [of resp base nb "nat space" "[]" s]
    by (auto simp: small_jtag_uart_read_def small_read_ok_def nb_def bind_eq_Some_conv)
qed

text \<open>With room, a UART that delivers two bytes and is then empty: both are read, and one more read finds none.\<close>

theorem small_jtag_uart_read_outcomes_witness:
  "\<exists>r. small_jtag_uart_read (trace_bus (\<lambda>h a. if length h < 2 then 0x8041 else 0)) 0x70000 10 0 (reset_machine []) = Some r"
proof -
  let ?resp = "\<lambda>h a. if length h < 2 then 0x8041 else (0 :: u32)"
  have "?resp (hw (polls ?resp 0x70000 0 0 (reset_machine []))) 0x70000 AND 0x8000 \<noteq> 0"
    by (simp add: reset_machine_def)
  then show ?thesis
    using small_jtag_uart_read_outcomes [where resp = ?resp and base = "0x70000" and space = 10 and flags = 0 and s = "reset_machine []"] by blast
qed

section \<open>Writing\<close>

text \<open>The accesses that send bytes, for the history before them: the control register is read until it shows
  space, then the byte is written, and so on for the next one.\<close>

inductive sent :: "(access list \<Rightarrow> u32 \<Rightarrow> u32) \<Rightarrow> u32 \<Rightarrow> access list \<Rightarrow> u8 list \<Rightarrow> access list \<Rightarrow> bool"
  for resp base where
  sent_all: "sent resp base h [] []"
| sent_wait: "resp h (base + 4) = v \<Longrightarrow> v AND CONTROL_WSPACE_MSK = 0 \<Longrightarrow> bytes \<noteq> [] \<Longrightarrow>
    sent resp base (h @ [Rd (base + 4) v]) bytes es \<Longrightarrow> sent resp base h bytes (Rd (base + 4) v # es)"
| sent_byte: "resp h (base + 4) = v \<Longrightarrow> v AND CONTROL_WSPACE_MSK \<noteq> 0 \<Longrightarrow>
    sent resp base (h @ [Rd (base + 4) v, Wr32 base (scast c)]) bytes es \<Longrightarrow>
    sent resp base h (c # bytes) (Rd (base + 4) v # Wr32 base (scast c) # es)"

lemma sent_tx_bytes: "sent resp base h bytes es \<Longrightarrow> tx_bytes base es = bytes"
  by (induction rule: sent.induct) simp_all

lemma sent_append:
  "sent resp base h bytes es \<Longrightarrow> sent resp base (h @ es) bytes' es' \<Longrightarrow>
     sent resp base h (bytes @ bytes') (es @ es')"
  by (induction rule: sent.induct) (auto intro: sent.intros)

text \<open>One turn of the loop.\<close>

lemma small_write_step:
  assumes "resp (hw s) (base + 4) = v"
  shows "small_write_loop (trace_bus resp) base (c # cs) s =
    (if v AND CONTROL_WSPACE_MSK \<noteq> 0
     then small_write_loop (trace_bus resp) base cs (s\<lparr>hw := hw s @ [Rd (base + 4) v, Wr32 base (scast c)]\<rparr>)
     else small_write_loop (trace_bus resp) base (c # cs) (s\<lparr>hw := hw s @ [Rd (base + 4) v]\<rparr>))"
  using assms by (subst small_write_loop.simps) (simp add: trace_IO_reg)

lemma small_write_loop_sent:
  "sent resp base h bytes es \<Longrightarrow> hw s = h \<Longrightarrow>
     small_write_loop (trace_bus resp) base (bytes @ rest) s =
     small_write_loop (trace_bus resp) base rest (s\<lparr>hw := h @ es\<rparr>)"
proof (induction arbitrary: s rule: sent.induct)
  case (sent_wait h v bytes es)
  then obtain c cs where "bytes = c # cs" by (cases bytes) auto
  with sent_wait show ?case by (simp add: small_write_step)
next
  case (sent_byte h v c bytes es)
  then show ?case by (simp add: small_write_step)
qed auto

lemma small_write_loop_result:
  assumes "small_write_loop (trace_bus resp) base bytes s = Some s'"
  shows "\<exists>es. s' = s\<lparr>hw := hw s @ es\<rparr> \<and> sent resp base (hw s) bytes es"
proof (rule small_write_loop.raw_induct [where P = "\<lambda>B base bytes s s'. B = trace_bus resp \<longrightarrow>
      (\<exists>es. s' = s\<lparr>hw := hw s @ es\<rparr> \<and> sent resp base (hw s) bytes es)", OF _ assms, THEN mp, OF _ refl])
  fix loop B base bytes s s'
  assume IH: "\<And>B base bytes s s'. loop B base bytes s = Some s' \<Longrightarrow> B = trace_bus resp \<longrightarrow>
      (\<exists>es. s' = s\<lparr>hw := hw s @ es\<rparr> \<and> sent resp base (hw s) bytes es)"
    and eq: "(case bytes of [] \<Rightarrow> Some s
      | c # cs \<Rightarrow>
         let (control, s) = IORD_UART_CONTROL B base s
         in if control AND CONTROL_WSPACE_MSK \<noteq> 0
            then loop B base cs (IOWR_UART_DATA B base (scast c) s)
            else loop B base bytes s) = Some s'"
  show "B = trace_bus resp \<longrightarrow> (\<exists>es. s' = s\<lparr>hw := hw s @ es\<rparr> \<and> sent resp base (hw s) bytes es)"
  proof
    assume B: "B = trace_bus resp"
    let ?v = "resp (hw s) (base + 4)"
    let ?t = "s\<lparr>hw := hw s @ [Rd (base + 4) ?v]\<rparr>"
    consider "bytes = []" "s' = s"
      | (send) c cs where "bytes = c # cs" "?v AND CONTROL_WSPACE_MSK \<noteq> 0"
          "loop B base cs (?t\<lparr>hw := hw ?t @ [Wr32 base (scast c)]\<rparr>) = Some s'"
      | (wait) "bytes \<noteq> []" "?v AND CONTROL_WSPACE_MSK = 0" "loop B base bytes ?t = Some s'"
      using eq unfolding B by (auto simp: trace_IO_reg split: list.splits if_splits)
    then show "\<exists>es. s' = s\<lparr>hw := hw s @ es\<rparr> \<and> sent resp base (hw s) bytes es"
    proof cases
      case 1
      then show ?thesis by (intro exI [of _ "[]"]) (simp add: sent_all)
    next
      case (send c cs)
      from IH [OF send(3)] B obtain es where
        "s' = s\<lparr>hw := hw s @ Rd (base + 4) ?v # Wr32 base (scast c) # es\<rparr>"
        "sent resp base (hw s @ [Rd (base + 4) ?v, Wr32 base (scast c)]) cs es" by auto
      then show ?thesis using sent.sent_byte [of resp "hw s" base ?v c cs es] send(1,2) by blast
    next
      case wait
      from IH [OF wait(3)] B obtain es where "s' = s\<lparr>hw := hw s @ Rd (base + 4) ?v # es\<rparr>"
        "sent resp base (hw s @ [Rd (base + 4) ?v]) bytes es" by auto
      then show ?thesis using sent.sent_wait [of resp "hw s" base ?v bytes es] wait(1,2) by blast
    qed
  qed
qed

text \<open>The loop does not return exactly when the UART stops taking bytes: some of the first bytes are sent, not
  all, and no later read shows space.\<close>

definition stuck_after :: "(access list \<Rightarrow> u32 \<Rightarrow> u32) \<Rightarrow> u32 \<Rightarrow> u8 list \<Rightarrow> access list machine \<Rightarrow> bool" where
  "stuck_after resp base bytes s \<longleftrightarrow> (\<exists>n<length bytes. \<exists>es. sent resp base (hw s) (take n bytes) es \<and>
     (\<forall>m. resp (hw (polls resp base 1 m (s\<lparr>hw := hw s @ es\<rparr>))) (base + 4) AND CONTROL_WSPACE_MSK = 0))"

lemma small_write_loop_turn:
  assumes "resp (hw (polls resp base 1 n s)) (base + 4) AND CONTROL_WSPACE_MSK \<noteq> 0"
  shows "\<exists>es. sent resp base (hw s) [c] es"
  using assms
proof (induction n arbitrary: s)
  case 0
  then show ?case using sent_byte [OF refl _ sent_all] by fastforce
next
  case (Suc n)
  let ?v = "resp (hw s) (base + 4)"
  have "\<exists>es. sent resp base (hw (s\<lparr>hw := hw s @ [Rd (base + 4) ?v]\<rparr>)) [c] es"
    by (rule Suc.IH) (use Suc.prems in \<open>simp add: after_reads_Suc trace_IO_reg\<close>)
  then show ?case using sent_byte [OF refl _ sent_all] sent_wait [OF refl]
    by (cases "?v AND CONTROL_WSPACE_MSK = 0") fastforce+
qed

lemma small_write_loop_stuck:
  "small_write_loop (trace_bus resp) base bytes s = None \<Longrightarrow> stuck_after resp base bytes s"
proof (induction bytes arbitrary: s)
  case Nil
  then show ?case by (subst (asm) small_write_loop.simps) simp
next
  case (Cons c cs)
  show ?case
  proof (cases "\<exists>n. resp (hw (polls resp base 1 n s)) (base + 4) AND CONTROL_WSPACE_MSK \<noteq> 0")
    case False
    then show ?thesis unfolding stuck_after_def
      by (intro exI [of _ 0] conjI exI [of _ "[]"]) (simp_all add: sent_all)
  next
    case True
    then obtain es where es: "sent resp base (hw s) [c] es" using small_write_loop_turn by blast
    let ?t = "s\<lparr>hw := hw s @ es\<rparr>"
    from small_write_loop_sent [OF es refl, of cs] Cons.prems have "stuck_after resp base cs ?t"
      by (intro Cons.IH) simp
    then obtain n es' where n: "n < length cs" "sent resp base (hw ?t) (take n cs) es'"
      and never: "\<forall>m. resp (hw (polls resp base 1 m (?t\<lparr>hw := hw ?t @ es'\<rparr>))) (base + 4) AND CONTROL_WSPACE_MSK = 0"
      unfolding stuck_after_def by blast
    show ?thesis unfolding stuck_after_def
      by (intro exI [of _ "Suc n"] conjI exI [of _ "es @ es'"])
        (use n never sent_append [OF es] in \<open>simp_all add: after_reads_def\<close>)
  qed
qed

lemma never_space_never_returns:
  assumes "\<forall>m. resp (hw (polls resp base 1 m s)) (base + 4) AND CONTROL_WSPACE_MSK = 0" and "bytes \<noteq> []"
  shows "small_write_loop (trace_bus resp) base bytes s = None"
proof (rule ccontr)
  assume "small_write_loop (trace_bus resp) base bytes s \<noteq> None"
  then obtain s' es where es: "sent resp base (hw s) bytes es" using small_write_loop_result by blast
  then show False using assms
  proof (induction "hw s" bytes es arbitrary: s rule: sent.induct)
    case (sent_wait v bytes es)
    have "resp (hw (polls resp base 1 m (s\<lparr>hw := hw s @ [Rd (base + 4) v]\<rparr>))) (base + 4) AND CONTROL_WSPACE_MSK = 0"
      for m using sent_wait.prems(1) [THEN spec, of "Suc m"] sent_wait.hyps(1)
      by (simp add: after_reads_Suc trace_IO_reg)
    then show ?case
      using sent_wait.hyps(5) [of "s\<lparr>hw := hw s @ [Rd (base + 4) v]\<rparr>"] sent_wait.hyps(3) by simp
  next
    case (sent_byte v c bytes es)
    then show ?case using sent_byte.prems(1) [THEN spec, of 0] by auto
  qed simp
qed

lemma stuck_never_returns:
  assumes "stuck_after resp base bytes s"
  shows "small_write_loop (trace_bus resp) base bytes s = None"
proof -
  from assms obtain n es where n: "n < length bytes" "sent resp base (hw s) (take n bytes) es"
    and never: "\<forall>m. resp (hw (polls resp base 1 m (s\<lparr>hw := hw s @ es\<rparr>))) (base + 4) AND CONTROL_WSPACE_MSK = 0"
    unfolding stuck_after_def by blast
  from small_write_loop_sent [OF n(2) refl, of "drop n bytes"]
  have "small_write_loop (trace_bus resp) base bytes s =
      small_write_loop (trace_bus resp) base (drop n bytes) (s\<lparr>hw := hw s @ es\<rparr>)" by simp
  also have "\<dots> = None" by (rule never_space_never_returns [OF never]) (use n(1) in simp)
  finally show ?thesis .
qed

text \<open>Hardware that always shows space again after some reads: a host that takes the bytes.\<close>

definition drained :: "(access list \<Rightarrow> u32 \<Rightarrow> u32) \<Rightarrow> u32 \<Rightarrow> bool" where
  "drained resp base \<longleftrightarrow> (\<forall>s :: access list machine. \<exists>n.
     resp (hw (polls resp base 1 n s)) (base + 4) AND CONTROL_WSPACE_MSK \<noteq> 0)"

lemma drained_not_stuck: "drained resp base \<Longrightarrow> \<not> stuck_after resp base bytes s"
  unfolding drained_def stuck_after_def by blast

text \<open>Writing. The call returns exactly when the UART does not stop taking bytes; then its result is the number of
  bytes, and the UART was given exactly these bytes in order, each one right after a read that showed space for
  it, so none is lost in a full FIFO.\<close>

theorem small_jtag_uart_write_outcomes:
  "case small_jtag_uart_write (trace_bus resp) base bytes flags s of
     None \<Rightarrow> stuck_after resp base bytes s
   | Some (r, s') \<Rightarrow> \<not> stuck_after resp base bytes s \<and> r = int (length bytes) \<and>
       (\<exists>es. s' = s\<lparr>hw := hw s @ es\<rparr> \<and> sent resp base (hw s) bytes es)"
proof (cases "small_write_loop (trace_bus resp) base bytes s")
  case None
  with small_write_loop_stuck [OF None] show ?thesis by (simp add: small_jtag_uart_write_def)
next
  case (Some s')
  with small_write_loop_result [OF Some] stuck_never_returns [of resp base bytes s] show ?thesis
    by (auto simp: small_jtag_uart_write_def)
qed

lemma drained_every_second: "drained (\<lambda>h a. if even (length h) then 0x10000 else 0) base"
  unfolding drained_def
proof
  let ?resp = "\<lambda>h a. if even (length h) then 0x10000 else (0 :: u32)"
  fix s :: "access list machine"
  show "\<exists>n. ?resp (hw (polls ?resp base 1 n s)) (base + 4) AND CONTROL_WSPACE_MSK \<noteq> 0"
  proof (cases "even (length (hw s))")
    case True
    then show ?thesis by (intro exI [of _ 0]) (simp add: CONTROL_WSPACE_MSK_def)
  next
    case False
    then show ?thesis
      by (intro exI [of _ "Suc 0"]) (simp add: after_reads_Suc trace_IO_reg CONTROL_WSPACE_MSK_def)
  qed
qed

end
