(* ===== verification/Board_Init.thy ===== *)
theory Board_Init
  imports Npu_Driver Hal_Alarm Hal_Irq Hal_Fd Jtag_Polled Msgdma
begin

text \<open>
  Start-up of the board: the initialisation of the device drivers
  (\<open>altera_avalon_timer_sc.c\<close>, \<open>altera_msgdma.c\<close>), the generated \<open>alt_sys_init.c\<close>, the C entry
  point \<open>alt_main.c\<close>, the constructor and destructor loops, and the UART as a device of the file
  descriptor layer (\<open>altera_avalon_jtag_uart_fd.c\<close>). This is where the components meet: one
  state holds them all. The configuration is the one of \<open>public.mk\<close>, whose
  \<open>ALT_USE_SMALL_DRIVERS\<close> selects the polled UART driver (\<open>Jtag_Polled\<close>): its initialisation
  only registers the device. No interrupt is taken between two steps of the initialisation or
  of a transfer on the console. \<open>Jtag_Device\<close> has the other version of the UART.
\<close>

section \<open>State\<close>

record 'h hal =
  h_irq :: irq_ctl
  h_alarms :: alarms
  h_uart_base :: u32
  h_mach :: "'h machine"

text \<open>The UART's state is its base address alone. The whole state is \<open>'h hal fstate\<close>: the
  descriptors and devices with the rest. The addresses that the linker gives to objects and functions:\<close>

record addresses =
  a_uart_dev :: u32
  a_ddr_read_st :: u32
  a_ddr_write_st :: u32
  a_msgdma_list :: u32
  f_timer_irq :: u32
  f_msgdma_irq :: u32

text \<open>The macros of \<open>system.h\<close>.\<close>

definition JTAG_UART_IRQ :: u32 where "JTAG_UART_IRQ = 0"
definition TIMER_0_IRQ :: u32 where "TIMER_0_IRQ = 1"
definition DDR_READ_ST_CSR_IRQ :: u32 where "DDR_READ_ST_CSR_IRQ = 2"
definition DDR_WRITE_ST_CSR_IRQ :: u32 where "DDR_WRITE_ST_CSR_IRQ = 3"
definition TIMER_0_FREQ :: u32 where "TIMER_0_FREQ = 50000000"
definition TIMER_0_PERIOD :: u32 where "TIMER_0_PERIOD = 1"
definition TIMER_0_PERIOD_UNITS :: string where "TIMER_0_PERIOD_UNITS = ''ms''"
definition JTAG_UART_NAME :: string where "JTAG_UART_NAME = ''/dev/jtag_uart''"

section \<open>Initialisation of the drivers\<close>

text \<open>Registering an interrupt routine in the whole state; \<open>None\<close> when it stores outside the
  table.\<close>

definition register_isr ::
  "u32 \<Rightarrow> u32 \<Rightarrow> u32 \<Rightarrow> u32 \<Rightarrow> ('h, 'z) hal_scheme \<Rightarrow> ('h, 'z) hal_scheme option" where
  "register_isr ic_id irq isr isr_context h =
     (case alt_ic_isr_register ic_id irq isr isr_context (h_irq h, h_mach h) of
        Done (rc, I, s) \<Rightarrow> Some (h\<lparr>h_irq := I, h_mach := s\<rparr>)
      | Stores_outside _ \<Rightarrow> None)"

definition ALTERA_AVALON_TIMER_FREQ :: "u32 \<Rightarrow> u32 \<Rightarrow> string \<Rightarrow> u32" where
  "ALTERA_AVALON_TIMER_FREQ freq period units =
     (if units \<noteq> ''us'' then
        (if units \<noteq> ''ms'' then
           (if units \<noteq> ''s'' then (freq + (period - 1)) div period else 1)
         else (1000 + (period - 1)) div period)
      else (1000000 + (period - 1)) div period)"

definition alt_avalon_timer_sc_init ::
  "'h bus \<Rightarrow> addresses \<Rightarrow> u32 \<Rightarrow> u32 \<Rightarrow> u32 \<Rightarrow> u32 \<Rightarrow> 'h hal \<Rightarrow> 'h hal option" where
  "alt_avalon_timer_sc_init B L base irq_controller_id irq freq h =
     (let (_, A) = alt_sysclk_init freq (h_alarms h);
          s = IOWR B base TIMER_CONTROL_REG
                (TIMER_ITO_MSK OR TIMER_CONT_MSK OR TIMER_START_MSK) (h_mach h)
      in register_isr irq_controller_id irq (f_timer_irq L) base (h\<lparr>h_alarms := A, h_mach := s\<rparr>))"

definition PREFETCHER_CTRL_RESET_SET_MASK :: u32 where "PREFETCHER_CTRL_RESET_SET_MASK = 0x4"
definition PREFETCHER_CTRL_RESET_GET :: "u32 \<Rightarrow> u32" where
  "PREFETCHER_CTRL_RESET_GET v = drop_bit 2 (v AND 0x00000004)"

text \<open>The registers of a controller: the prefetcher is reset if there is one; the dispatcher is
  reset, then stopped with interrupts off and the status cleared.\<close>

definition prefetcher_reset :: "'h bus \<Rightarrow> 'h msgdma_dev \<Rightarrow> 'h machine \<Rightarrow> 'h machine option" where
  "prefetcher_reset B dev s =
     (if prefetcher_enable dev \<noteq> 0
      then let s = IOWR_PREFETCHER_CONTROL B (prefetcher_base dev) PREFETCHER_CTRL_RESET_SET_MASK s
           in map_option snd (spin_while (IORD_PREFETCHER_CONTROL B (prefetcher_base dev))
                (\<lambda>v. PREFETCHER_CTRL_RESET_GET v \<noteq> 0) s)
      else Some s)"

definition dispatcher_stop :: "'h bus \<Rightarrow> 'h msgdma_dev \<Rightarrow> 'h machine \<Rightarrow> 'h machine" where
  "dispatcher_stop B dev s =
     (let (v, s) = IORD_CSR_CONTROL B (csr_base dev) s;
          temporary_control = v AND NOT CSR_GLOBAL_INTERRUPT_MASK;
          temporary_control = temporary_control OR CSR_STOP_DESCRIPTORS_MASK;
          s = IOWR_CSR_CONTROL B (csr_base dev) temporary_control s;
          (v, s) = IORD_CSR_STATUS B (csr_base dev) s;
          s = IOWR_CSR_STATUS B (csr_base dev) v s
      in if prefetcher_enable dev \<noteq> 0
         then let (v, s) = IORD_PREFETCHER_STATUS B (prefetcher_base dev) s
              in IOWR_PREFETCHER_STATUS B (prefetcher_base dev) v s
         else s)"

definition msgdma_reset :: "'h bus \<Rightarrow> 'h msgdma_dev \<Rightarrow> 'h machine \<Rightarrow> 'h machine option" where
  "msgdma_reset B dev s = do {
     s \<leftarrow> prefetcher_reset B dev s;
     let s = IOWR_CSR_CONTROL B (csr_base dev) CSR_RESET_MASK s;
     (_, s) \<leftarrow> spin_while (IORD_CSR_STATUS B (csr_base dev)) (\<lambda>v. 0 \<noteq> v AND CSR_RESET_STATE_MASK) s;
     Some (dispatcher_stop B dev s) }"

text \<open>\<open>dp\<close> is the pointer \<open>dev\<close>; creating the semaphore always succeeds without an operating
  system.\<close>

definition alt_msgdma_init ::
  "'h bus \<Rightarrow> addresses \<Rightarrow> 'h msgdma_dev \<Rightarrow> u32 \<Rightarrow> string \<Rightarrow> u32 \<Rightarrow> u32 \<Rightarrow> 'h hal fstate \<Rightarrow> 'h hal fstate option"
where
  "alt_msgdma_init B L dev dp name ic_id irq = (\<lambda>(F, h). do {
     s \<leftarrow> msgdma_reset B dev (h_mach h);
     let (_, F) = alt_dev_llist_insert dp (Some name) (a_msgdma_list L) F;
     h \<leftarrow> register_isr ic_id irq (f_msgdma_irq L) dp (h\<lparr>h_mach := s\<rparr>);
     Some (F, h) })"

text \<open>The instances in \<open>alt_sys_init.c\<close>, with the parameters from \<open>system.h\<close>.\<close>

definition ddr_read_st :: "'h msgdma_dev" where
  "ddr_read_st = \<lparr>csr_base = DDR_READ_ST_CSR_BASE nios_board,
     descriptor_base = DDR_READ_ST_DESCRIPTOR_SLAVE_BASE nios_board, prefetcher_base = 0,
     descriptor_fifo_depth = 128, callback = None, callback_context = 0, dev_control = 0,
     max_byte = 4096, max_stride = 1, enhanced_features = 0, prefetcher_enable = 0\<rparr>"

definition ddr_write_st :: "'h msgdma_dev" where
  "ddr_write_st = \<lparr>csr_base = DDR_WRITE_ST_CSR_BASE nios_board,
     descriptor_base = DDR_WRITE_ST_DESCRIPTOR_SLAVE_BASE nios_board, prefetcher_base = 0,
     descriptor_fifo_depth = 128, callback = None, callback_context = 0, dev_control = 0,
     max_byte = 4096, max_stride = 1, enhanced_features = 0, prefetcher_enable = 0\<rparr>"

definition alt_sys_init :: "'h bus \<Rightarrow> addresses \<Rightarrow> 'h hal fstate \<Rightarrow> 'h hal fstate option" where
  "alt_sys_init B L = (\<lambda>(F, h). do {
     h \<leftarrow> alt_avalon_timer_sc_init B L TIMER_0_BASE 0 TIMER_0_IRQ
            (ALTERA_AVALON_TIMER_FREQ TIMER_0_FREQ TIMER_0_PERIOD TIMER_0_PERIOD_UNITS) h;
     let (_, F) = alt_dev_reg (a_uart_dev L) (Some JTAG_UART_NAME) F;
     st \<leftarrow> alt_msgdma_init B L ddr_read_st (a_ddr_read_st L) ''/dev/ddr_read_st_csr'' 0
            DDR_READ_ST_CSR_IRQ (F, h);
     alt_msgdma_init B L ddr_write_st (a_ddr_write_st L) ''/dev/ddr_write_st_csr'' 0
            DDR_WRITE_ST_CSR_IRQ st })"

section \<open>The UART as a device\<close>

text \<open>The wrappers pass the flags of the descriptor to the driver.\<close>

definition altera_avalon_jtag_uart_read_fd ::
  "'h bus \<Rightarrow> nat \<Rightarrow> nat \<Rightarrow> 'h hal fstate \<Rightarrow> (int \<times> u8 list \<times> 'h hal fstate) call" where
  "altera_avalon_jtag_uart_read_fd B k space = (\<lambda>(F, h).
     case small_jtag_uart_read B (h_uart_base h) (int space) (fd_flags (alt_fd_list F k)) (h_mach h) of
       None \<Rightarrow> Never
     | Some (r, bytes, s) \<Rightarrow> Returns (r, bytes, F, h\<lparr>h_mach := s\<rparr>))"

definition altera_avalon_jtag_uart_write_fd ::
  "'h bus \<Rightarrow> nat \<Rightarrow> u8 list \<Rightarrow> 'h hal fstate \<Rightarrow> (int \<times> 'h hal fstate) call" where
  "altera_avalon_jtag_uart_write_fd B k bytes = (\<lambda>(F, h).
     case small_jtag_uart_write B (h_uart_base h) bytes (fd_flags (alt_fd_list F k)) (h_mach h) of
       None \<Rightarrow> Never
     | Some (r, s) \<Rightarrow> Returns (r, F, h\<lparr>h_mach := s\<rparr>))"

text \<open>The device of \<open>ALTERA_AVALON_JTAG_UART_DEV_INSTANCE\<close> in the small configuration.\<close>

definition jtag_uart :: "'h bus \<Rightarrow> 'h hal alt_dev" where
  "jtag_uart B = \<lparr>dev_name = JTAG_UART_NAME, dev_open = None, dev_close = None,
     dev_read = Some (altera_avalon_jtag_uart_read_fd B),
     dev_write = Some (altera_avalon_jtag_uart_write_fd B), dev_lseek = None,
     dev_fstat = None, dev_ioctl = None\<rparr>"

text \<open>The devices of the board by their addresses: the UART, and \<open>alt_dev_null\<close>.\<close>

definition board_devices :: "addresses \<Rightarrow> 'h bus \<Rightarrow> 'h hal devices" where
  "board_devices L B a = (if a = a_uart_dev L then jtag_uart B else alt_dev_null)"

section \<open>The entry point\<close>

text \<open>\<open>for (ctor = &__CTOR_END__[-1]; ctor >= __CTOR_LIST__; ctor--) (*ctor) ();\<close>\<close>

fun ctor_loop :: "('s \<Rightarrow> 's) list \<Rightarrow> nat \<Rightarrow> 's \<Rightarrow> 's" where
  "ctor_loop fs 0 st = st"
| "ctor_loop fs (Suc n) st = ctor_loop fs n ((fs ! n) st)"

definition do_ctors :: "('s \<Rightarrow> 's) list \<Rightarrow> 's \<Rightarrow> 's" where
  "do_ctors ctors st = ctor_loop ctors (length ctors) st"

definition do_dtors :: "('s \<Rightarrow> 's) list \<Rightarrow> 's \<Rightarrow> 's" where
  "do_dtors dtors st = ctor_loop dtors (length dtors) st"

text \<open>
  The value is the argument of the final \<open>exit\<close> and the state when it is called; \<open>exit\<close> runs
  the destructors and does not return.
\<close>

definition alt_main ::
  "'h bus \<Rightarrow> addresses \<Rightarrow> 'h hal devices \<Rightarrow> ('h hal fstate \<Rightarrow> 'h hal fstate) list \<Rightarrow>
   ('h hal fstate \<Rightarrow> (int \<times> 'h hal fstate) call) \<Rightarrow> 'h hal fstate \<Rightarrow> (int \<times> 'h hal fstate) call"
where
  "alt_main B L D ctors main = (\<lambda>(F, h).
     let (I, s) = alt_irq_init (h_irq h, h_mach h)
     in case alt_sys_init B L (F, h\<lparr>h_irq := I, h_mach := s\<rparr>) of
          None \<Rightarrow> Never
        | Some st \<Rightarrow>
            bind_call (alt_io_redirect D JTAG_UART_NAME JTAG_UART_NAME JTAG_UART_NAME st) (\<lambda>st.
            bind_call (main (do_ctors ctors st)) (\<lambda>(result, st).
            bind_call (alt_close D 1 st) (\<lambda>(_, st). Returns (result, st)))))"

section \<open>Resetting a DMA controller\<close>

lemma first_read_trace:
  "spin_while (IORD_32DIRECT (trace_bus resp) b 0) c s = Some (v, s') \<longleftrightarrow>
     (\<exists>h'. first_read (\<lambda>v. \<not> c v) resp b (hw s) v h' \<and> s' = s\<lparr>hw := h'\<rparr>)"
  unfolding IORD_as_32DIRECT spin_while_iff first_read_def
  by (auto simp: after_reads_trace IORD_def IO_CALC_ADDRESS_NATIVE_def Let_def)

lemma bind_first_read:
  "Option.bind (spin_while (IORD_32DIRECT (trace_bus resp) b 0) c s) f = Some r \<longleftrightarrow>
     (\<exists>v h'. first_read (\<lambda>v. \<not> c v) resp b (hw s) v h' \<and> f (v, s\<lparr>hw := h'\<rparr>) = Some r)"
proof -
  have "Option.bind (spin_while (IORD_32DIRECT (trace_bus resp) b 0) c s) f = Some r \<longleftrightarrow>
      (\<exists>v t. spin_while (IORD_32DIRECT (trace_bus resp) b 0) c s = Some (v, t) \<and> f (v, t) = Some r)"
    by (auto simp: bind_eq_Some_conv)
  then show ?thesis unfolding first_read_trace by blast
qed

lemma reset_bit: "PREFETCHER_CTRL_RESET_GET v \<noteq> 0 \<longleftrightarrow> v AND 4 \<noteq> 0"
proof -
  have "drop_bit 2 (v AND 4) = 0 \<longleftrightarrow> v AND 4 = 0"
  proof -
    have "bit (drop_bit 2 (v AND 4)) 0 \<longleftrightarrow> bit v 2" for v :: u32
      by (simp add: bit_simps)
    moreover have "v AND 4 = 0 \<longleftrightarrow> \<not> bit v 2" for v :: u32
      using and_exp_eq_0_iff_not_bit [of v 2] by simp
    moreover have "v AND 4 = 0 \<Longrightarrow> drop_bit 2 (v AND 4) = 0" for v :: u32 by simp
    ultimately show ?thesis by (metis bit_0_eq bot_apply bot_bool_def)
  qed
  then show ?thesis by (simp add: PREFETCHER_CTRL_RESET_GET_def)
qed

text \<open>The accesses that stop a controller after its reset, for the history at that time.\<close>

definition stop_trace ::
  "(access list \<Rightarrow> u32 \<Rightarrow> u32) \<Rightarrow> 'h msgdma_dev \<Rightarrow> access list \<Rightarrow> access list" where
  "stop_trace resp dev h =
     (let csr = csr_base dev; ps = prefetcher_base dev + 0x10;
          c = resp h (csr + 4);
          h = h @ [Rd (csr + 4) c, Wr32 (csr + 4) (c AND NOT 0x10 OR 0x20)];
          v = resp h csr;
          h = h @ [Rd csr v, Wr32 csr v]
      in if prefetcher_enable dev \<noteq> 0 then h @ [Rd ps (resp h ps), Wr32 ps (resp h ps)] else h)"

lemma dispatcher_stop_trace:
  "dispatcher_stop (trace_bus resp) dev s = s\<lparr>hw := stop_trace resp dev (hw s)\<rparr>"
  by (simp add: dispatcher_stop_def stop_trace_def trace_IO CSR_GLOBAL_INTERRUPT_MASK_def
      CSR_STOP_DESCRIPTORS_MASK_def Let_def)

text \<open>The prefetcher's part of the history.\<close>

definition prefetcher_trace ::
  "(access list \<Rightarrow> u32 \<Rightarrow> u32) \<Rightarrow> 'h msgdma_dev \<Rightarrow> access list \<Rightarrow> access list \<Rightarrow> bool" where
  "prefetcher_trace resp dev h h' \<longleftrightarrow>
     (if prefetcher_enable dev \<noteq> 0
      then \<exists>p. first_read (\<lambda>v. v AND 4 = 0) resp (prefetcher_base dev)
             (h @ [Wr32 (prefetcher_base dev) 4]) p h'
      else h' = h)"

lemma prefetcher_reset_trace:
  "prefetcher_reset (trace_bus resp) dev s = Some t \<longleftrightarrow>
     (\<exists>h'. prefetcher_trace resp dev (hw s) h' \<and> t = s\<lparr>hw := h'\<rparr>)"
proof (cases "prefetcher_enable dev = 0")
  case True
  then show ?thesis by (auto simp: prefetcher_reset_def prefetcher_trace_def)
next
  case False
  define s1 where "s1 = s\<lparr>hw := hw s @ [Wr32 (prefetcher_base dev) 4]\<rparr>"
  have "prefetcher_reset (trace_bus resp) dev s = Some t \<longleftrightarrow>
      (\<exists>v. spin_while (IORD_32DIRECT (trace_bus resp) (prefetcher_base dev) 0)
         (\<lambda>v. v AND 4 \<noteq> 0) s1 = Some (v, t))"
    using False by (simp add: prefetcher_reset_def reset_bit trace_IO s1_def
        PREFETCHER_CTRL_RESET_SET_MASK_def)
  also have "\<dots> \<longleftrightarrow> (\<exists>h'. prefetcher_trace resp dev (hw s) h' \<and> t = s\<lparr>hw := h'\<rparr>)"
    unfolding first_read_trace prefetcher_trace_def using False by (auto simp: s1_def)
  finally show ?thesis .
qed

text \<open>On arbitrary hardware the initialisation of a DMA controller returns exactly when the
  prefetcher (if there is one) and then the dispatcher report the end of their resets after
  finitely many polls. Its accesses are: the reset of the prefetcher and its polls, the reset of
  the dispatcher and its polls, the control register written back with the dispatcher stopped
  and its interrupt off, and every status bit that is set cleared by writing it back.\<close>

lemma msgdma_reset_iff:
  "msgdma_reset (trace_bus resp) dev s = Some s' \<longleftrightarrow>
     (\<exists>h0 v h1. prefetcher_trace resp dev (hw s) h0 \<and>
        first_read (\<lambda>v. v AND 0x40 = 0) resp (csr_base dev) (h0 @ [Wr32 (csr_base dev + 4) 2]) v h1 \<and>
        s' = s\<lparr>hw := stop_trace resp dev h1\<rparr>)"
proof -
  have nz: "(\<lambda>v. \<not> (0 :: u32) \<noteq> v AND 0x40) = (\<lambda>v. v AND 0x40 = 0)" by auto
  define rest where "rest t = Option.bind (spin_while (IORD_CSR_STATUS (trace_bus resp) (csr_base dev))
      (\<lambda>v. 0 \<noteq> v AND 0x40) (t\<lparr>hw := hw t @ [Wr32 (csr_base dev + 4) 2]\<rparr>))
      (\<lambda>(_, s). Some (s\<lparr>hw := stop_trace resp dev (hw s)\<rparr>))" for t :: "access list machine"
  have rest: "rest t = Some s' \<longleftrightarrow> (\<exists>v h1. first_read (\<lambda>v. v AND 0x40 = 0) resp (csr_base dev)
      (hw t @ [Wr32 (csr_base dev + 4) 2]) v h1 \<and> s' = t\<lparr>hw := stop_trace resp dev h1\<rparr>)" for t
    unfolding rest_def bind_first_read nz by auto
  have "msgdma_reset (trace_bus resp) dev s = Option.bind (prefetcher_reset (trace_bus resp) dev s) rest"
    unfolding msgdma_reset_def Let_def dispatcher_stop_trace rest_def trace_IO CSR_RESET_MASK_def
      CSR_RESET_STATE_MASK_def ..
  then have eq: "msgdma_reset (trace_bus resp) dev s = Some s' \<longleftrightarrow>
      (\<exists>t. prefetcher_reset (trace_bus resp) dev s = Some t \<and> rest t = Some s')"
    by (simp add: bind_eq_Some_conv)
  show ?thesis unfolding eq prefetcher_reset_trace rest by fastforce
qed

section \<open>The state after initialisation\<close>

text \<open>The variables at reset, for a machine in state \<open>s\<close>. The alarm list is empty.\<close>

definition hal_at_reset :: "u32 \<Rightarrow> 'h machine \<Rightarrow> 'h hal" where
  "hal_at_reset alarm_list s = \<lparr>
     h_irq = \<lparr>alt_irq_active = 0, alt_priority_mask = - 1, ienable = 0, irq_handler = (\<lambda>_. 0),
       irq_context = (\<lambda>_. 0)\<rparr>,
     h_alarms = \<lparr>alt_alarm_list = alarm_list, al_llist = \<lparr>l_next = id, l_prev = id\<rparr>,
       al_time = (\<lambda>_. 0), al_callback = (\<lambda>_. 0), al_rollover = (\<lambda>_. 0), al_context = (\<lambda>_. 0),
       alt_tick_rate = 0, alt_nticks = 0\<rparr>,
     h_uart_base = JTAG_UART_BASE,
     h_mach = s\<rparr>"

text \<open>What the linker guarantees of the addresses: objects are distinct and not at 0.\<close>

definition placed :: "addresses \<Rightarrow> u32 \<Rightarrow> u32 \<Rightarrow> bool" where
  "placed L null devs \<longleftrightarrow>
     distinct [0, null, devs, a_uart_dev L, a_ddr_read_st L, a_ddr_write_st L, a_msgdma_list L] \<and>
     f_timer_irq L \<noteq> 0 \<and> f_msgdma_irq L \<noteq> 0"

lemma timer_freq: "ALTERA_AVALON_TIMER_FREQ TIMER_0_FREQ TIMER_0_PERIOD TIMER_0_PERIOD_UNITS = 1000"
  by (simp add: ALTERA_AVALON_TIMER_FREQ_def TIMER_0_PERIOD_def TIMER_0_PERIOD_UNITS_def)

lemma placedD:
  assumes "placed L null devs"
  shows "a_uart_dev L \<noteq> 0" "a_ddr_read_st L \<noteq> 0" "a_ddr_write_st L \<noteq> 0" "null \<noteq> 0" "devs \<noteq> 0"
    "f_timer_irq L \<noteq> 0" "f_msgdma_irq L \<noteq> 0"
  using assms by (auto simp: placed_def)

text \<open>The interrupt controller after a routine was registered.\<close>

definition registered :: "u32 \<Rightarrow> u32 \<Rightarrow> u32 \<Rightarrow> irq_ctl \<Rightarrow> irq_ctl" where
  "registered irq isr ctx I =
     (let on = alt_irq_active I OR 2 ^ unat irq
      in I\<lparr>irq_handler := (irq_handler I)(unat irq := isr), irq_context := (irq_context I)(unat irq := ctx),
           alt_irq_active := on, ienable := on\<rparr>)"

lemma register_isr_registered:
  "unat irq < 32 \<Longrightarrow> isr \<noteq> 0 \<Longrightarrow>
     register_isr ic irq isr ctx h = Some (h\<lparr>h_irq := registered irq isr ctx (h_irq h)\<rparr>)"
  by (simp add: register_isr_def isr_register_eq registered_def Let_def)

lemma timer_init_eq:
  assumes "unat irq < 32" and "f_timer_irq L \<noteq> 0" and "alt_tick_rate (h_alarms h) = 0"
  shows "alt_avalon_timer_sc_init (trace_bus resp) L base ic irq freq h = Some (h\<lparr>
    h_alarms := (h_alarms h)\<lparr>alt_tick_rate := freq\<rparr>,
    h_irq := registered irq (f_timer_irq L) base (h_irq h),
    h_mach := (h_mach h)\<lparr>hw := hw (h_mach h) @ [Wr32 (base + 4) 7]\<rparr>\<rparr>)"
  using assms
  by (simp add: alt_avalon_timer_sc_init_def alt_sysclk_init_def register_isr_registered
      trace_IO_reg TIMER_CONTROL_REG_def TIMER_ITO_MSK_def TIMER_CONT_MSK_def TIMER_START_MSK_def)

text \<open>A history in which the controller at \<open>dev\<close> (without a prefetcher) is initialised.\<close>

definition stopped :: "(access list \<Rightarrow> u32 \<Rightarrow> u32) \<Rightarrow> 'h msgdma_dev \<Rightarrow> access list \<Rightarrow> access list \<Rightarrow> bool" where
  "stopped resp dev h h' \<longleftrightarrow>
     (\<exists>v h1. first_read (\<lambda>v. v AND 0x40 = 0) resp (csr_base dev) (h @ [Wr32 (csr_base dev + 4) 2]) v h1 \<and>
        h' = stop_trace resp dev h1)"

lemma msgdma_init_eq:
  assumes "prefetcher_enable dev = 0" and "unat irq < 32" and "f_msgdma_irq L \<noteq> 0" and "dp \<noteq> 0"
  shows "alt_msgdma_init (trace_bus resp) L dev dp name ic irq (F, h) = Some st \<longleftrightarrow>
    (\<exists>h'. stopped resp dev (hw (h_mach h)) h' \<and>
       st = (F\<lparr>dev_llist := alt_llist_insert (a_msgdma_list L) dp (dev_llist F)\<rparr>,
         h\<lparr>h_irq := registered irq (f_msgdma_irq L) dp (h_irq h), h_mach := (h_mach h)\<lparr>hw := h'\<rparr>\<rparr>))"
proof -
  have "msgdma_reset (trace_bus resp) dev s = Some s' \<longleftrightarrow>
      (\<exists>h'. stopped resp dev (hw s) h' \<and> s' = s\<lparr>hw := h'\<rparr>)" for s s'
    using assms(1) by (auto simp: msgdma_reset_iff prefetcher_trace_def stopped_def)
  then show ?thesis using assms(2-)
    by (auto simp: alt_msgdma_init_def bind_eq_Some_conv alt_dev_llist_insert_def
        register_isr_registered)
qed

lemma bind_msgdma_init:
  assumes "prefetcher_enable dev = 0" and "unat irq < 32" and "f_msgdma_irq L \<noteq> 0" and "dp \<noteq> 0"
  shows "Option.bind (alt_msgdma_init (trace_bus resp) L dev dp name ic irq (F, h)) f = Some st \<longleftrightarrow>
    (\<exists>h'. stopped resp dev (hw (h_mach h)) h' \<and>
       f (F\<lparr>dev_llist := alt_llist_insert (a_msgdma_list L) dp (dev_llist F)\<rparr>,
         h\<lparr>h_irq := registered irq (f_msgdma_irq L) dp (h_irq h), h_mach := (h_mach h)\<lparr>hw := h'\<rparr>\<rparr>) = Some st)"
  unfolding bind_eq_Some_conv msgdma_init_eq [OF assms] by blast

text \<open>The interrupt controller after the three routines were registered: the timer's and those of
  the two DMA controllers. The UART's interrupt stays off.\<close>

definition board_irqs :: "addresses \<Rightarrow> irq_ctl \<Rightarrow> bool" where
  "board_irqs L I \<longleftrightarrow> ienable I = 0xE \<and> alt_irq_active I = 0xE \<and>
     map (irq_handler I) [1, 2, 3] = [f_timer_irq L, f_msgdma_irq L, f_msgdma_irq L] \<and>
     map (irq_context I) [1, 2, 3] = [TIMER_0_BASE, a_ddr_read_st L, a_ddr_write_st L]"

lemma sys_init_iff:
  fixes s :: "access list machine" and al :: u32
  assumes "placed L null devs"
  defines "h \<equiv> hal_at_reset al s"
  shows "alt_sys_init (trace_bus resp) L (fds_at_reset null devs fss, h) = Some st \<longleftrightarrow>
    (\<exists>h1 h2. stopped resp (ddr_read_st :: access list msgdma_dev)
         (hw s @ [Wr32 (TIMER_0_BASE + 4) 7]) h1 \<and>
       stopped resp (ddr_write_st :: access list msgdma_dev) h1 h2 \<and>
       st = ((fds_at_reset null devs fss)\<lparr>dev_llist :=
           alt_llist_insert (a_msgdma_list L) (a_ddr_write_st L)
            (alt_llist_insert (a_msgdma_list L) (a_ddr_read_st L)
              (alt_llist_insert devs (a_uart_dev L) (dev_llist (fds_at_reset null devs fss))))\<rparr>,
         h\<lparr>h_alarms := (h_alarms h)\<lparr>alt_tick_rate := 1000\<rparr>,
           h_irq := registered 3 (f_msgdma_irq L) (a_ddr_write_st L)
             (registered 2 (f_msgdma_irq L) (a_ddr_read_st L)
               (registered 1 (f_timer_irq L) TIMER_0_BASE (h_irq h))),
           h_mach := s\<lparr>hw := h2\<rparr>\<rparr>))"
proof -
  note p = placedD [OF assms(1)]
  have rate: "alt_tick_rate (h_alarms h) = 0" "hw (h_mach h) = hw s" "h_mach h = s" by (simp_all add: h_def hal_at_reset_def)
  have dev: "prefetcher_enable (ddr_read_st :: access list msgdma_dev) = 0"
    "prefetcher_enable (ddr_write_st :: access list msgdma_dev) = 0"
    by (simp_all add: ddr_read_st_def ddr_write_st_def)
  have reg: "alt_dev_reg (a_uart_dev L) (Some JTAG_UART_NAME) (fds_at_reset null devs fss) =
      (0, (fds_at_reset null devs fss)\<lparr>dev_llist :=
        alt_llist_insert devs (a_uart_dev L) (dev_llist (fds_at_reset null devs fss))\<rparr>)"
    using p by (simp add: alt_dev_reg_def alt_dev_llist_insert_def fds_at_reset_def)
  show ?thesis
    unfolding alt_sys_init_def
    by (simp add: timer_freq TIMER_0_IRQ_def DDR_READ_ST_CSR_IRQ_def
        DDR_WRITE_ST_CSR_IRQ_def timer_init_eq p rate reg dev bind_msgdma_init
        msgdma_init_eq)
qed

lemma registered_board:
  "board_irqs L (registered 3 (f_msgdma_irq L) (a_ddr_write_st L)
     (registered 2 (f_msgdma_irq L) (a_ddr_read_st L)
       (registered 1 (f_timer_irq L) TIMER_0_BASE (h_irq (hal_at_reset al s)))))"
  by (simp add: board_irqs_def registered_def hal_at_reset_def Let_def)

lemma board_lists:
  fixes fss :: u32
  assumes "placed L null devs"
  defines "m \<equiv> alt_llist_insert (a_msgdma_list L) (a_ddr_write_st L)
            (alt_llist_insert (a_msgdma_list L) (a_ddr_read_st L)
              (alt_llist_insert devs (a_uart_dev L) (dev_llist (fds_at_reset null devs fss))))"
  shows "dll m devs [a_uart_dev L, null]"
    and "dll m (a_msgdma_list L) [a_ddr_write_st L, a_ddr_read_st L]"
proof -
  let ?m0 = "dev_llist (fds_at_reset null devs fss)"
  let ?m1 = "alt_llist_insert devs (a_uart_dev L) ?m0"
  let ?m2 = "alt_llist_insert (a_msgdma_list L) (a_ddr_read_st L) ?m1"
  have d: "devs \<noteq> null" "a_uart_dev L \<noteq> devs" "a_uart_dev L \<noteq> null" "a_msgdma_list L \<noteq> devs"
    "a_msgdma_list L \<noteq> null" "a_msgdma_list L \<noteq> a_uart_dev L" "a_ddr_read_st L \<noteq> devs"
    "a_ddr_read_st L \<noteq> null" "a_ddr_read_st L \<noteq> a_uart_dev L" "a_ddr_read_st L \<noteq> a_msgdma_list L"
    "a_ddr_write_st L \<noteq> devs" "a_ddr_write_st L \<noteq> null" "a_ddr_write_st L \<noteq> a_uart_dev L"
    "a_ddr_write_st L \<noteq> a_msgdma_list L" "a_ddr_write_st L \<noteq> a_ddr_read_st L"
    using assms by (auto simp: placed_def)
  have "dll ?m0 devs [null]" using d dll_insert [of "\<lparr>l_next = id, l_prev = id\<rparr>" devs "[]" null]
    by (simp add: fds_at_reset_def dll_def)
  then have 1: "dll ?m1 devs [a_uart_dev L, null]" using d by (intro dll_insert) auto
  have "dll \<lparr>l_next = id, l_prev = id\<rparr> (a_msgdma_list L) []"
    "dll \<lparr>l_next = id, l_prev = id\<rparr> devs []" by (simp_all add: dll_def)
  then have "dll ?m0 (a_msgdma_list L) []" unfolding fds_at_reset_def fds.select_convs
    by (rule dll_insert_other) (use d in auto)
  then have e1: "dll ?m1 (a_msgdma_list L) []"
    using \<open>dll ?m0 devs [null]\<close> by (rule dll_insert_other) (use d in auto)
  have 2: "dll ?m2 devs [a_uart_dev L, null]"
    using 1 e1 by (rule dll_insert_other) (use d in auto)
  have e2: "dll ?m2 (a_msgdma_list L) [a_ddr_read_st L]" using e1 d by (intro dll_insert) auto
  show "dll m devs [a_uart_dev L, null]" unfolding m_def
    using 2 e2 by (rule dll_insert_other) (use d in auto)
  show "dll m (a_msgdma_list L) [a_ddr_write_st L, a_ddr_read_st L]" unfolding m_def
    by (rule dll_insert [OF e2]) (use d in auto)
qed

lemma board_alarms:
  assumes "A = (h_alarms (hal_at_reset al s))\<lparr>alt_tick_rate := 1000\<rparr>"
  shows "alarms_wf A [] \<and> timers A [] = []"
  by (simp add: assms alarms_wf_def wf_at_def timers_def hal_at_reset_def dll_def)

section \<open>Properties of the start-up\<close>

text \<open>C15: From the reset state and on arbitrary hardware, initialisation returns exactly when both
  DMA controllers end their resets, and then: the UART is a registered device before /dev/null
  and both DMA controllers are in their own list; the interrupts of the timer and of the two DMA
  controllers, and no other, are enabled with their routines and contexts; the clock runs at
  1000 ticks a second and no alarm is set; the devices saw the timer started, and each DMA
  controller reset, polled and stopped, in this order, and nothing else: the polled UART is not
  touched.\<close>

theorem alt_sys_init_ready:
  assumes "placed L null devs"
  shows "case alt_sys_init (trace_bus resp) L (fds_at_reset null devs fss, hal_at_reset al s) of
    None \<Rightarrow> \<not> (\<exists>h1 h2. stopped resp (ddr_read_st :: access list msgdma_dev)
        (hw s @ [Wr32 (TIMER_0_BASE + 4) 7]) h1 \<and>
      stopped resp (ddr_write_st :: access list msgdma_dev) h1 h2)
  | Some (F, h) \<Rightarrow> dll (dev_llist F) devs [a_uart_dev L, null] \<and>
      dll (dev_llist F) (a_msgdma_list L) [a_ddr_write_st L, a_ddr_read_st L] \<and>
      board_irqs L (h_irq h) \<and> alt_tick_rate (h_alarms h) = 1000 \<and> alt_nticks (h_alarms h) = 0 \<and>
      alarms_wf (h_alarms h) [] \<and> h_uart_base h = JTAG_UART_BASE \<and>
      (\<exists>h1. stopped resp (ddr_read_st :: access list msgdma_dev)
          (hw s @ [Wr32 (TIMER_0_BASE + 4) 7]) h1 \<and>
        stopped resp (ddr_write_st :: access list msgdma_dev) h1 (hw (h_mach h)))"
proof (cases "alt_sys_init (trace_bus resp) L (fds_at_reset null devs fss, hal_at_reset al s)")
  case None
  with sys_init_iff [OF assms, where resp = resp and fss = fss and s = s and al = al] show ?thesis by simp blast
next
  case (Some st)
  obtain F h where st: "st = (F, h)" by (rule prod.exhaust)
  from sys_init_iff [OF assms, THEN iffD1, OF Some [unfolded st]] show ?thesis
    unfolding Some st option.case prod.case
    using registered_board board_lists [OF assms] board_alarms [OF refl]
    by (auto simp: hal_at_reset_def)
qed

text \<open>A board for concrete runs.\<close>

definition board0 :: addresses where
  "board0 = \<lparr>a_uart_dev = 0x100, a_ddr_read_st = 0x200, a_ddr_write_st = 0x300,
     a_msgdma_list = 0x10, f_timer_irq = 0x1000, f_msgdma_irq = 0x1300\<rparr>"

lemma board0_placed: "placed board0 0x20 0x30"
  by (simp add: placed_def board0_def)

lemma stopped_idle: "\<exists>h'. stopped (\<lambda>_ _. 0) dev h h'"
  unfolding stopped_def first_read_def by (intro exI conjI) (auto intro: exI [of _ 0])

theorem alt_sys_init_ready_witness:
  "\<exists>F h. alt_sys_init (trace_bus (\<lambda>_ _. 0)) board0
      (fds_at_reset 0x20 0x30 0x50, hal_at_reset 0x40 (reset_machine [])) = Some (F, h) \<and>
    dll (dev_llist F) 0x10 [0x300, 0x200] \<and> board_irqs board0 (h_irq h)"
proof -
  let ?st = "alt_sys_init (trace_bus (\<lambda>_ _. 0)) board0
    (fds_at_reset 0x20 0x30 0x50, hal_at_reset 0x40 (reset_machine []))"
  note ready = alt_sys_init_ready [OF board0_placed, where resp = "\<lambda>_ _. 0"
      and fss = "0x50" and s = "reset_machine []" and al = "0x40"]
  obtain h1 where 1: "stopped (\<lambda>_ _. 0) (ddr_read_st :: access list msgdma_dev)
      (hw (reset_machine []) @ [Wr32 (TIMER_0_BASE + 4) 7]) h1"
    using stopped_idle by blast
  obtain h2 where 2: "stopped (\<lambda>_ _. 0) (ddr_write_st :: access list msgdma_dev) h1 h2"
    using stopped_idle by blast
  obtain F h where st: "?st = Some (F, h)"
    using sys_init_iff [OF board0_placed, THEN iffD2, OF exI, OF exI, OF conjI, OF 1 conjI, OF 2 refl]
    by blast
  show ?thesis using ready unfolding st by (simp add: board0_def)
qed

section \<open>Standard input and output\<close>

text \<open>A pool in which the three standard descriptors, and no others, are in use.\<close>

definition std_pool :: "fds \<Rightarrow> bool" where
  "std_pool F \<longleftrightarrow> alt_max_fd F \<le> 3 \<and>
     (\<forall>i<3. fd_dev (alt_fd_list F i) \<noteq> 0 \<and> fd_flags (alt_fd_list F i) AND ALT_FD_EXCL = 0) \<and>
     (\<forall>i\<ge>3. alt_fd_list F i = fd_free)"

definition std_fd :: "u32 \<Rightarrow> u32 \<Rightarrow> alt_fd" where
  "std_fd u flags = \<lparr>fd_dev = u, fd_priv = 0, fd_flags = flags AND NOT ALT_FD_FLAGS_MASK OR ALT_FD_DEV\<rparr>"

lemma std_fd_not_excl: "fd_flags (std_fd u flags) AND ALT_FD_EXCL = 0"
proof (rule bit_word_eqI)
  fix n
  have "bit ALT_FD_EXCL n \<longleftrightarrow> n = 31" if "n < 32"
  proof -
    have e: "ALT_FD_EXCL = (2 :: u32) ^ 31" by (simp add: ALT_FD_EXCL_def)
    show ?thesis unfolding e bit_exp_iff using that by auto
  qed
  moreover have "bit ALT_FD_FLAGS_MASK 31" "\<not> bit ALT_FD_DEV 31"
    by (simp_all add: ALT_FD_FLAGS_MASK_def ALT_FD_EXCL_def ALT_FD_DEV_def bit_simps)
  moreover assume "n < LENGTH(32)"
  ultimately show "bit (fd_flags (std_fd u flags) AND ALT_FD_EXCL) n = bit (0 :: u32) n"
    by (auto simp: std_fd_def bit_simps)
qed

lemma open_fd_std:
  assumes "std_pool F" and "k < 3" and "alt_find_dev D name (alt_dev_list F) F = Some u"
    and "u \<noteq> 0" and "dev_open (D u) = None"
  shows "alt_open_fd D k name flags mode (F, x) = Returns
    (F\<lparr>alt_fd_list := (alt_fd_list F)(k := std_fd u flags), alt_max_fd := 3\<rparr>, x)"
proof -
  have 3: "alt_fd_list F 3 = fd_free" using assms(1) by (simp add: std_pool_def)
  have "(LEAST i. fd_dev (alt_fd_list F i) = 0) = 3"
  proof (rule Least_equality)
    show "fd_dev (alt_fd_list F 3) = 0" by (simp add: 3 fd_free_def)
    show "3 \<le> i" if "fd_dev (alt_fd_list F i) = 0" for i
      using that assms(1) by (auto simp: std_pool_def intro: leI)
  qed
  moreover have "\<exists>k<32. fd_dev (alt_fd_list F k) = 0"
    using 3 by (intro exI [of _ 3]) (simp add: fd_free_def)
  ultimately have get: "alt_get_fd u F = (3, taken 3 u F)" unfolding alt_get_fd_eq by simp
  define F1 where "F1 = upd_fd 3 (\<lambda>d. d\<lparr>fd_flags := flags AND NOT ALT_FD_FLAGS_MASK\<rparr>) (taken 3 u F)"
  define F2 where "F2 = upd_fd 3 (\<lambda>d. d\<lparr>fd_flags := fd_flags d OR ALT_FD_DEV\<rparr>) F1"
  have m: "alt_max_fd F2 = 3" using assms(1) by (simp add: F1_def F2_def taken_def std_pool_def)
  have f2: "alt_fd_list F2 = (alt_fd_list F)(3 := std_fd u flags)"
    using 3 by (auto simp: F1_def F2_def taken_def std_fd_def fd_free_def)
  have "\<not> (\<exists>i\<in>set [0..<nat (alt_max_fd F2 + 1)]. fd_dev (alt_fd_list F2 i) = fd_dev (alt_fd_list F2 3) \<and>
      fd_flags (alt_fd_list F2 i) AND ALT_FD_EXCL \<noteq> 0 \<and> i \<noteq> 3)"
    using assms(1) by (auto simp: m f2 std_pool_def)
  then have "alt_file_locked 3 F1 = (0, F2)"
    unfolding alt_file_locked_def Let_def F2_def [symmetric] by (simp only: if_False)
  then have op: "alt_open D name flags mode (F, x) = Returns (3, F2, x)"
    using assms(3-5) get by (simp add: alt_open_def Let_def F1_def [symmetric])
  have eq: "alt_release_fd 3 (upd_fd k (\<lambda>_. alt_fd_list F2 3) F2) =
      F\<lparr>alt_fd_list := (alt_fd_list F)(k := std_fd u flags), alt_max_fd := 3\<rparr>"
  proof (rule fds.equality)
    show "alt_fd_list (alt_release_fd 3 (upd_fd k (\<lambda>_. alt_fd_list F2 3) F2)) =
        alt_fd_list (F\<lparr>alt_fd_list := (alt_fd_list F)(k := std_fd u flags), alt_max_fd := 3\<rparr>)"
      using assms(2) 3 by (auto simp: alt_release_fd_def f2 std_fd_def fd_free_def fun_eq_iff)
  qed (use m in \<open>simp_all add: alt_release_fd_def F2_def F1_def taken_def\<close>)
  show ?thesis by (simp add: alt_open_fd_def op eq)
qed

lemma std_pool_upd:
  "std_pool F \<Longrightarrow> k < 3 \<Longrightarrow> u \<noteq> 0 \<Longrightarrow>
     std_pool (F\<lparr>alt_fd_list := (alt_fd_list F)(k := std_fd u flags), alt_max_fd := 3\<rparr>)"
  using std_fd_not_excl by (auto simp: std_pool_def) (simp add: std_fd_def)

text \<open>After redirection the three standard descriptors refer to the named device, if it is
  registered: input to read, output and errors to write; nothing else in the pool has changed
  and every other descriptor is free. A device that is not registered leaves them alone.\<close>

lemma io_redirect_std:
  assumes "std_pool F" and "dll (dev_llist F) (alt_dev_list F) xs" and "0 \<notin> set xs"
    and "find (\<lambda>d. dev_name (D d) = name) xs = Some u" and "dev_open (D u) = None"
  shows "alt_io_redirect D name name name (F, x) = Returns
    (F\<lparr>alt_fd_list := (\<lambda>i. if i < 3 then std_fd u (if i = 0 then O_RDONLY else O_WRONLY) else fd_free),
       alt_max_fd := 3\<rparr>, x)"
proof -
  have u: "u \<noteq> 0" using assms(3,4) by (metis find_Some_iff nth_mem)
  have find: "alt_find_dev D name (alt_dev_list G) G = Some u"
    if "dev_llist G = dev_llist F" "alt_dev_list G = alt_dev_list F" for G
    using find_dev_loop_eq [of "dev_llist F" "alt_dev_list F" "[]" xs] assms(2,4) that
      dll_next_head [OF assms(2)] by (simp add: alt_find_dev_def)
  define F1 where "F1 = F\<lparr>alt_fd_list := (alt_fd_list F)(1 := std_fd u O_WRONLY), alt_max_fd := 3\<rparr>"
  define F2 where "F2 = F1\<lparr>alt_fd_list := (alt_fd_list F1)(0 := std_fd u O_RDONLY), alt_max_fd := 3\<rparr>"
  define F3 where "F3 = F2\<lparr>alt_fd_list := (alt_fd_list F2)(2 := std_fd u O_WRONLY), alt_max_fd := 3\<rparr>"
  have 1: "std_pool F1" unfolding F1_def using assms(1) u by (intro std_pool_upd) simp_all
  then have 2: "std_pool F2" unfolding F2_def using u by (intro std_pool_upd) simp_all
  have "alt_open_fd D 1 name O_WRONLY 0x1FF (F, x) = Returns (F1, x)"
    using open_fd_std [OF assms(1) _ find u assms(5), of 1] by (simp add: F1_def)
  moreover have "alt_open_fd D 0 name O_RDONLY 0x1FF (F1, x) = Returns (F2, x)"
    using open_fd_std [OF 1 _ find u assms(5), of 0] by (simp add: F1_def F2_def)
  moreover have "alt_open_fd D 2 name O_WRONLY 0x1FF (F2, x) = Returns (F3, x)"
    using open_fd_std [OF 2 _ find u assms(5), of 2] by (simp add: F1_def F2_def F3_def)
  ultimately have "alt_io_redirect D name name name (F, x) = Returns (F3, x)"
    by (simp add: alt_io_redirect_def)
  also have "F3 = F\<lparr>alt_fd_list :=
      (\<lambda>i. if i < 3 then std_fd u (if i = 0 then O_RDONLY else O_WRONLY) else fd_free), alt_max_fd := 3\<rparr>"
  proof (rule fds.equality)
    have "alt_fd_list F3 i = (if i < 3 then std_fd u (if i = 0 then O_RDONLY else O_WRONLY) else fd_free)"
      for i
    proof -
      consider "i = 0" | "i = 1" | "i = 2" | "3 \<le> i" by linarith
      then show ?thesis using assms(1) by cases (auto simp: F1_def F2_def F3_def std_pool_def)
    qed
    then show "alt_fd_list F3 = alt_fd_list (F\<lparr>alt_fd_list :=
        (\<lambda>i. if i < 3 then std_fd u (if i = 0 then O_RDONLY else O_WRONLY) else fd_free), alt_max_fd := 3\<rparr>)"
      by auto
  qed (simp_all add: F1_def F2_def F3_def)
  finally show ?thesis .
qed

section \<open>The console and the entry point\<close>

lemma bind_call_Returns: "bind_call c f = Returns r \<longleftrightarrow> (\<exists>a. c = Returns a \<and> f a = Returns r)"
  by (cases c) auto

lemma std_fd_flags:
  "fd_dev (std_fd u fl) = u"
  "fd_flags (std_fd u O_WRONLY) AND O_ACCMODE = O_WRONLY"
  "fd_flags (std_fd u O_WRONLY) AND O_NONBLOCK = 0"
  by (simp_all add: std_fd_def O_WRONLY_def O_ACCMODE_def O_NONBLOCK_def ALT_FD_FLAGS_MASK_def
      ALT_FD_EXCL_def ALT_FD_DEV_def)

text \<open>C25: A write to standard output goes through the descriptor and the polled driver. On
  arbitrary hardware and with no interrupt in between, the call returns exactly when the UART
  does not stop taking bytes for ever. Then it reports the number of bytes, standard output and the rest of the state are as
  before, and the accesses were exactly these: for every byte in order, reads of the UART's
  control register until one shows space, then the write of the byte. If the UART stops, the
  first bytes have been sent in the same way, not all, and no later read shows space; so on
  hardware that always drains the call returns.\<close>

theorem console_write_in_order:
  assumes "alt_fd_list F k = std_fd (a_uart_dev L) O_WRONLY" and "k < 3" and "a_uart_dev L \<noteq> 0"
  shows "case alt_write (board_devices L (trace_bus resp)) (int k) bs (F, h) of
    Never \<Rightarrow> stuck_after resp (h_uart_base h) bs (h_mach h) \<and> \<not> drained resp (h_uart_base h)
  | Returns (r, st) \<Rightarrow> \<not> stuck_after resp (h_uart_base h) bs (h_mach h) \<and> r = int (length bs) \<and>
      (\<exists>es. st = (F, h\<lparr>h_mach := (h_mach h)\<lparr>hw := hw (h_mach h) @ es\<rparr>\<rparr>) \<and>
        sent resp (h_uart_base h) (hw (h_mach h)) bs es \<and> tx_bytes (h_uart_base h) es = bs)
  | _ \<Rightarrow> False"
proof -
  let ?small = "small_jtag_uart_write (trace_bus resp) (h_uart_base h) bs (fd_flags (alt_fd_list F k)) (h_mach h)"
  have acc: "fd_flags (alt_fd_list F k) AND O_ACCMODE \<noteq> O_RDONLY"
    by (simp add: assms(1) std_fd_flags) (simp add: O_WRONLY_def O_RDONLY_def)
  note small = small_jtag_uart_write_outcomes [of resp "h_uart_base h" bs "h_mach h" "fd_flags (alt_fd_list F k)"]
  then have "r = int (length bs)" if "?small = Some (r, s)" for r s using that by simp
  then have wr: "alt_write (board_devices L (trace_bus resp)) (int k) bs (F, h) =
      (case ?small of None \<Rightarrow> Never | Some (r, s) \<Rightarrow> Returns (r, F, h\<lparr>h_mach := s\<rparr>))"
    using assms(2,3) acc
    by (auto simp: alt_write_def with_fd_def with_dev_def ALT_MAX_FD_def board_devices_def jtag_uart_def
        altera_avalon_jtag_uart_write_fd_def assms(1) std_fd_flags(1) split: option.splits prod.splits)
  show ?thesis unfolding wr using small drained_not_stuck sent_tx_bytes
    by (auto split: option.splits prod.splits)
qed

text \<open>The state of the witness: a booted pool, and a UART that shows space on every second read.\<close>

definition console_fds :: fds where
  "console_fds = (fds_at_reset 0x20 0x30 0x50)\<lparr>alt_fd_list :=
     (\<lambda>i. if i < 3 then std_fd 0x100 (if i = 0 then O_RDONLY else O_WRONLY) else fd_free)\<rparr>"

theorem console_write_in_order_witness:
  "\<exists>h. alt_write (board_devices board0 (trace_bus (\<lambda>h a. if even (length h) then 0x10000 else 0))) (int 1)
      [72, 105] (console_fds, hal_at_reset 0x40 (reset_machine [])) = Returns (2, console_fds, h) \<and>
    tx_bytes 0x70000 (hw (h_mach h)) = [72, 105]"
proof -
  let ?resp = "\<lambda>h a. if even (length h) then 0x10000 else (0 :: u32)"
  have "drained ?resp 0x70000" by (rule drained_every_second)
  then show ?thesis
    using console_write_in_order [where F = console_fds and k = 1 and L = board0 and resp = ?resp
        and bs = "[72, 105]" and h = "hal_at_reset 0x40 (reset_machine [])"]
    by (auto simp: console_fds_def board0_def hal_at_reset_def reset_machine_def JTAG_UART_BASE_def
        split: call.splits)
qed

lemma do_ctors_last_first: "do_ctors ctors st = foldr (\<lambda>f st. f st) ctors st"
proof -
  have "ctor_loop ctors n st = foldr (\<lambda>f st. f st) (take n ctors) st" if "n \<le> length ctors" for n
    using that by (induction n arbitrary: st) (simp_all add: take_Suc_conv_app_nth)
  then show ?thesis by (simp add: do_ctors_def)
qed

text \<open>C29: The application's main runs only on an initialised board. If the program ends, main was
  entered, after the constructors (the last one first), in a state where standard input, output
  and error are the UART and every other descriptor is free, the interrupts of the timer and of
  the two DMA controllers, and no other, are enabled with their routines and the processor
  accepts interrupts, and the clock ticks; the argument of exit is what main returned, after
  standard output was closed.\<close>

theorem alt_main_boots:
  assumes "placed L null devs"
    and "alt_main (trace_bus resp) L (board_devices L (trace_bus resp)) ctors main
      (fds_at_reset null devs fss, hal_at_reset al s) = Returns (result, st')"
  shows "\<exists>F h st rc.
    (\<forall>i. alt_fd_list F i = (if i < 3 then std_fd (a_uart_dev L) (if i = 0 then O_RDONLY else O_WRONLY)
      else fd_free)) \<and>
    board_irqs L (h_irq h) \<and> cpu_status (h_mach h) = 1 \<and> alt_tick_rate (h_alarms h) = 1000 \<and>
    main (foldr (\<lambda>f st. f st) ctors (F, h)) = Returns (result, st) \<and>
    alt_close (board_devices L (trace_bus resp)) 1 st = Returns (rc, st')"
proof -
  let ?D = "board_devices L (trace_bus resp)"
  define s1 where "s1 = s\<lparr>cpu_status := 1\<rparr>"
  have irq: "alt_irq_init (h_irq (hal_at_reset al s), s) = (h_irq (hal_at_reset al s), s1)"
    by (simp add: alt_irq_init_def altera_nios2_gen2_irq_init_def alt_irq_cpu_enable_interrupts_def
        hal_at_reset_def s1_def NIOS2_STATUS_PIE_MSK_def)
  have "(hal_at_reset al s)\<lparr>h_irq := h_irq (hal_at_reset al s), h_mach := s1\<rparr> = hal_at_reset al s1"
    by (simp add: hal_at_reset_def)
  with assms(2) irq obtain F1 h where init: "alt_sys_init (trace_bus resp) L
      (fds_at_reset null devs fss, hal_at_reset al s1) = Some (F1, h)"
    and rest: "bind_call (alt_io_redirect ?D JTAG_UART_NAME JTAG_UART_NAME JTAG_UART_NAME (F1, h)) (\<lambda>st.
        bind_call (main (do_ctors ctors st)) (\<lambda>(result, st).
        bind_call (alt_close ?D 1 st) (\<lambda>(_, st). Returns (result, st)))) = Returns (result, st')"
    by (auto simp: alt_main_def hal_at_reset_def split: option.splits)
  from sys_init_iff [OF assms(1), THEN iffD1, OF init] obtain m h2 where
    F1: "F1 = (fds_at_reset null devs fss)\<lparr>dev_llist := m\<rparr>"
    and m: "dll m devs [a_uart_dev L, null]"
    and h: "board_irqs L (h_irq h)" "h_mach h = s1\<lparr>hw := h2\<rparr>" "alt_tick_rate (h_alarms h) = 1000"
    using registered_board board_lists(1) [OF assms(1)]
    by fastforce
  note p = placedD [OF assms(1)]
  have "std_pool F1" using p by (simp add: F1 std_pool_def fds_at_reset_def fd_free_def)
  then have io: "alt_io_redirect ?D JTAG_UART_NAME JTAG_UART_NAME JTAG_UART_NAME (F1, h) = Returns
      (F1\<lparr>alt_fd_list := (\<lambda>i. if i < 3 then std_fd (a_uart_dev L) (if i = 0 then O_RDONLY else O_WRONLY)
         else fd_free), alt_max_fd := 3\<rparr>, h)" (is "_ = Returns (?F, h)")
    by (rule io_redirect_std [where xs = "[a_uart_dev L, null]"])
      (use m p in \<open>auto simp: F1 fds_at_reset_def board_devices_def jtag_uart_def\<close>)
  from rest [unfolded io] obtain st rc where
    "main (do_ctors ctors (?F, h)) = Returns (result, st)" "alt_close ?D 1 st = Returns (rc, st')"
    by (auto simp: bind_call_Returns)
  then show ?thesis using h
    by (intro exI [of _ ?F] exI [of _ h] exI [of _ st] exI [of _ rc])
      (simp add: s1_def do_ctors_last_first)
qed

theorem alt_main_boots_witness:
  "\<exists>st' (F :: fds) (h :: access list hal). alt_main (trace_bus (\<lambda>_ _. 0)) board0 (board_devices board0 (trace_bus (\<lambda>_ _. 0))) []
      (\<lambda>st. Returns (7, st)) (fds_at_reset 0x20 0x30 0x50, hal_at_reset 0x40 (reset_machine [])) =
      Returns (7, st') \<and>
    fd_dev (alt_fd_list F 1) = 0x100 \<and> board_irqs board0 (h_irq h) \<and> cpu_status (h_mach h) = 1"
proof -
  let ?B = "trace_bus (\<lambda>_ _. 0)" and ?D = "board_devices board0 (trace_bus (\<lambda>_ _. 0))"
  let ?h0 = "hal_at_reset 0x40 (reset_machine ([] :: access list))"
  obtain h1 where 1: "stopped (\<lambda>_ _. 0) (ddr_read_st :: access list msgdma_dev)
      (hw (reset_machine []) @ [Wr32 (TIMER_0_BASE + 4) 7]) h1"
    using stopped_idle by blast
  obtain h2 where 2: "stopped (\<lambda>_ _. 0) (ddr_write_st :: access list msgdma_dev) h1 h2"
    using stopped_idle by blast
  obtain m h where init: "alt_sys_init ?B board0 (fds_at_reset 0x20 0x30 0x50, ?h0) =
      Some ((fds_at_reset 0x20 0x30 0x50)\<lparr>dev_llist := m\<rparr>, h)"
    and m: "dll m 0x30 [0x100, 0x20]"
    using sys_init_iff [OF board0_placed, THEN iffD2, OF exI, OF exI, OF conjI, OF 1 conjI, OF 2 refl]
      board_lists(1) [OF board0_placed]
    by (fastforce simp: board0_def hal_at_reset_def)
  have irq: "alt_irq_init (h_irq ?h0, h_mach ?h0) = (h_irq ?h0, reset_machine [])"
    by (simp add: alt_irq_init_def altera_nios2_gen2_irq_init_def alt_irq_cpu_enable_interrupts_def
        hal_at_reset_def reset_machine_def NIOS2_STATUS_PIE_MSK_def)
  let ?F1 = "(fds_at_reset 0x20 0x30 0x50)\<lparr>dev_llist := m\<rparr>"
  have "std_pool ?F1" by (simp add: std_pool_def fds_at_reset_def fd_free_def)
  then have io: "alt_io_redirect ?D JTAG_UART_NAME JTAG_UART_NAME JTAG_UART_NAME (?F1, h) = Returns
      (?F1\<lparr>alt_fd_list := (\<lambda>i. if i < 3 then std_fd 0x100 (if i = 0 then O_RDONLY else O_WRONLY)
         else fd_free), alt_max_fd := 3\<rparr>, h)" (is "_ = Returns (?F, h)")
    by (rule io_redirect_std [where xs = "[0x100, 0x20]"])
      (use m in \<open>auto simp: fds_at_reset_def board_devices_def jtag_uart_def board0_def\<close>)
  have "alt_close ?D 1 (?F, h) = Returns (0, ?F, h)"
    by (simp add: alt_close_def with_fd_def with_dev_def ALT_MAX_FD_def board_devices_def board0_def
        jtag_uart_def std_fd_flags alt_release_fd_def)
  then have run: "alt_main ?B board0 ?D [] (\<lambda>st. Returns (7, st)) (fds_at_reset 0x20 0x30 0x50, ?h0) =
      Returns (7, ?F, h)"
    using init irq io by (simp add: alt_main_def do_ctors_def hal_at_reset_def)
  from alt_main_boots [OF board0_placed run] obtain G :: fds and k :: "access list hal" where
    "\<forall>i. alt_fd_list G i = (if i < 3 then std_fd (a_uart_dev board0) (if i = 0 then O_RDONLY else O_WRONLY)
      else fd_free)" "board_irqs board0 (h_irq k)" "cpu_status (h_mach k) = 1"
    by blast
  with run show ?thesis
    by (intro exI [of _ "(?F, h)"] exI [of _ G] exI [of _ k]) (simp add: std_fd_flags board0_def)
qed

end
