(* ===== verification/Jtag_Device.thy ===== *)
theory Jtag_Device
  imports Board_Init
begin

text \<open>
  The interrupt-driven UART as a device, for a build without \<open>ALT_USE_SMALL_DRIVERS\<close>:
  \<open>altera_avalon_jtag_uart_init\<close> and the second half of \<open>altera_avalon_jtag_uart_fd.h\<close>. The
  repository's own build uses the polled driver instead (\<open>Board_Init\<close>); the driver's reads,
  writes and interrupt routine are in \<open>Jtag_Uart\<close>. The state and the addresses extend those of
  the board.
\<close>

section \<open>State and initialisation\<close>

record 'h irq_hal = "'h hal" +
  h_uart :: uart

record irq_addresses = addresses +
  a_uart_state :: u32
  a_uart_alarm :: u32
  f_uart_irq :: u32
  f_uart_timeout :: u32

definition altera_avalon_jtag_uart_init ::
  "'h bus \<Rightarrow> irq_addresses \<Rightarrow> u32 \<Rightarrow> u32 \<Rightarrow> 'h irq_hal \<Rightarrow> 'h irq_hal option" where
  "altera_avalon_jtag_uart_init B L irq_controller_id irq h = do {
     let sp = (h_uart h)\<lparr>irq_enable := CONTROL_RE_MSK\<rparr>;
     let s = IOWR_UART_CONTROL B (u_base sp) (irq_enable sp) (h_mach h);
     h \<leftarrow> register_isr irq_controller_id irq (f_uart_irq L) (a_uart_state L)
            (h\<lparr>h_uart := sp, h_mach := s\<rparr>);
     let sp = (h_uart h)\<lparr>host_inactive := 0\<rparr>;
     let (rc, A, s) = alt_alarm_start (a_uart_alarm L) (alt_ticks_per_second (h_alarms h))
            (f_uart_timeout L) (a_uart_state L) (h_alarms h, h_mach h);
     let sp = (if rc < 0 then sp\<lparr>u_timeout := INT_MAX\<rparr> else sp);
     Some (h\<lparr>h_uart := sp, h_alarms := A, h_mach := s\<rparr>) }"

text \<open>On the trace bus: the receive interrupt is turned on and registered, and the alarm that
  notices an inactive host is started.\<close>

lemma uart_init_eq:
  assumes "unat irq < 32" and "f_uart_irq L \<noteq> 0" and "a_uart_alarm L \<noteq> 0"
    and "alt_tick_rate (h_alarms h) \<noteq> 0"
  shows "altera_avalon_jtag_uart_init (trace_bus resp) L ic irq h = Some (h\<lparr>
    h_alarms := started (h_alarms h) (a_uart_alarm L) (alt_tick_rate (h_alarms h)) (f_uart_timeout L)
      (a_uart_state L),
    h_irq := registered irq (f_uart_irq L) (a_uart_state L) (h_irq h),
    h_uart := (h_uart h)\<lparr>irq_enable := 1, host_inactive := 0\<rparr>,
    h_mach := (h_mach h)\<lparr>hw := hw (h_mach h) @ [Wr32 (u_base (h_uart h) + 4) 1]\<rparr>\<rparr>)"
  using assms
  by (simp add: altera_avalon_jtag_uart_init_def register_isr_registered trace_IO_reg
      CONTROL_RE_MSK_def alarm_start_eq alt_ticks_per_second_def Let_def)

section \<open>The device\<close>

text \<open>\<open>env\<close> is what happens between two steps of the driver, see \<open>Jtag_Uart\<close>.\<close>

definition irq_jtag_uart_read_fd ::
  "'h bus \<Rightarrow> ('h usys \<Rightarrow> 'h usys) \<Rightarrow> nat \<Rightarrow> nat \<Rightarrow> 'h irq_hal fstate \<Rightarrow> (int \<times> u8 list \<times> 'h irq_hal fstate) call"
where
  "irq_jtag_uart_read_fd B env k space = (\<lambda>(F, h).
     case altera_avalon_jtag_uart_read B env (int space) (fd_flags (alt_fd_list F k))
            (h_uart h, h_mach h) of
       None \<Rightarrow> Never
     | Some (r, bytes, sp, s) \<Rightarrow> Returns (r, bytes, F, h\<lparr>h_uart := sp, h_mach := s\<rparr>))"

definition irq_jtag_uart_write_fd ::
  "'h bus \<Rightarrow> ('h usys \<Rightarrow> 'h usys) \<Rightarrow> nat \<Rightarrow> u8 list \<Rightarrow> 'h irq_hal fstate \<Rightarrow> (int \<times> 'h irq_hal fstate) call"
where
  "irq_jtag_uart_write_fd B env k bytes = (\<lambda>(F, h).
     case altera_avalon_jtag_uart_write B env bytes (fd_flags (alt_fd_list F k))
            (h_uart h, h_mach h) of
       None \<Rightarrow> Never
     | Some (r, sp, s) \<Rightarrow> Returns (r, F, h\<lparr>h_uart := sp, h_mach := s\<rparr>))"

definition altera_avalon_jtag_uart_close_fd ::
  "('h usys \<Rightarrow> 'h usys) \<Rightarrow> nat \<Rightarrow> 'h irq_hal fstate \<Rightarrow> (int \<times> 'h irq_hal fstate) call" where
  "altera_avalon_jtag_uart_close_fd env k = (\<lambda>(F, h).
     case altera_avalon_jtag_uart_close env (fd_flags (alt_fd_list F k)) (h_uart h, h_mach h) of
       None \<Rightarrow> Never
     | Some (r, sp, s) \<Rightarrow> Returns (r, F, h\<lparr>h_uart := sp, h_mach := s\<rparr>))"

definition altera_avalon_jtag_uart_ioctl_fd ::
  "nat \<Rightarrow> u32 \<Rightarrow> u32 \<Rightarrow> 'h irq_hal fstate \<Rightarrow> (int \<times> u32 \<times> 'h irq_hal fstate) call" where
  "altera_avalon_jtag_uart_ioctl_fd k req arg = (\<lambda>(F, h).
     case altera_avalon_jtag_uart_ioctl (h_uart h) req arg of
       (rc, arg, sp) \<Rightarrow> Returns (rc, arg, F, h\<lparr>h_uart := sp\<rparr>))"

definition irq_jtag_uart :: "'h bus \<Rightarrow> ('h usys \<Rightarrow> 'h usys) \<Rightarrow> 'h irq_hal alt_dev" where
  "irq_jtag_uart B env = \<lparr>dev_name = JTAG_UART_NAME, dev_open = None,
     dev_close = Some (altera_avalon_jtag_uart_close_fd env),
     dev_read = Some (irq_jtag_uart_read_fd B env),
     dev_write = Some (irq_jtag_uart_write_fd B env), dev_lseek = None,
     dev_fstat = None, dev_ioctl = Some altera_avalon_jtag_uart_ioctl_fd\<rparr>"

definition irq_devices ::
  "irq_addresses \<Rightarrow> 'h bus \<Rightarrow> ('h usys \<Rightarrow> 'h usys) \<Rightarrow> 'h irq_hal devices" where
  "irq_devices L B env a = (if a = a_uart_dev L then irq_jtag_uart B env else alt_dev_null)"

text \<open>A write to standard output goes through the descriptor and the driver, with the interrupt
  routine running at arbitrary moments: when it returns, the first bytes, as many as it reports,
  follow those that were queued, in order, and none is lost, repeated or invented; if it could
  queue none it returns -1 with errno EIO.\<close>

lemma irq_console_write:
  fixes F :: fds
  assumes "alt_fd_list F k = std_fd (a_uart_dev L) O_WRONLY" and "k < 3" and "a_uart_dev L \<noteq> 0"
    and "uart_ok b (h_uart h, h_mach h)"
    and "alt_write (irq_devices L (trace_bus resp) (isr_env resp go)) (int k) bs (F, h) =
      Returns (r, F', h')"
  shows "\<exists>n out. n \<le> length bs \<and> uart_ok b (h_uart h', h_mach h') \<and>
    tx_bytes b (hw (h_mach h')) = tx_bytes b (hw (h_mach h)) @ out \<and>
    ring_list (tx (h_uart h)) @ take n bs = out @ ring_list (tx (h_uart h')) \<and>
    (if n > 0 then r = int n \<and> F' = F else r = - 1 \<and> F' = F\<lparr>fd_errno := EIO\<rparr>)"
proof -
  define flags where "flags = fd_flags (alt_fd_list F k)"
  have acc: "flags AND O_ACCMODE \<noteq> O_RDONLY" "flags AND O_NONBLOCK = 0"
    using std_fd_flags [of "a_uart_dev L"] by (auto simp: flags_def assms(1) O_WRONLY_def O_RDONLY_def)
  obtain rv sp s where wr: "altera_avalon_jtag_uart_write (trace_bus resp) (isr_env resp go) bs flags
      (h_uart h, h_mach h) = Some (rv, sp, s)"
    and res: "(if rv < 0 then Returns (- 1, set_errno (- rv) (F, h\<lparr>h_uart := sp, h_mach := s\<rparr>))
      else Returns (rv, F, h\<lparr>h_uart := sp, h_mach := s\<rparr>)) = Returns (r, F', h')"
  proof (cases "altera_avalon_jtag_uart_write (trace_bus resp) (isr_env resp go) bs flags
      (h_uart h, h_mach h)")
    case None
    then show ?thesis using assms(2,3,5) acc std_fd_flags(1)
      by (simp add: alt_write_def with_fd_def with_dev_def ALT_MAX_FD_def irq_devices_def
          irq_jtag_uart_def irq_jtag_uart_write_fd_def assms(1) flags_def)
  next
    case (Some a)
    obtain rv sp s where a: "a = (rv, sp, s)" by (rule prod_cases3)
    show ?thesis using assms(2,3,5) acc std_fd_flags(1) Some
      by (intro that [of rv sp s])
        (simp_all add: alt_write_def with_fd_def with_dev_def ALT_MAX_FD_def irq_devices_def
          irq_jtag_uart_def irq_jtag_uart_write_fd_def assms(1) flags_def a)
  qed
  have "altera_avalon_jtag_uart_write (trace_bus resp) (isr_env resp go) bs flags
      (h_uart h, h_mach h) = Some (rv, (sp, s))" using wr by simp
  note flow = isr.uart_write_flow [OF this assms(4)]
  have neg: "rv = - EIO" if "rv < 0"
    using wr that acc(2) by (auto simp: altera_avalon_jtag_uart_write_def bind_eq_Some_conv split: if_splits)
  show ?thesis
  proof (cases "rv < 0")
    case True
    with res have "r = - 1" "F' = F\<lparr>fd_errno := EIO\<rparr>" "h' = h\<lparr>h_uart := sp, h_mach := s\<rparr>"
      using neg by (auto simp: set_errno_def)
    with flow True show ?thesis by (intro exI [of _ 0]) (auto simp: flow_def)
  next
    case False
    with res have "r = rv" "F' = F" "h' = h\<lparr>h_uart := sp, h_mach := s\<rparr>" by auto
    with flow False show ?thesis by (intro exI [of _ "nat rv"]) (auto simp: flow_def)
  qed
qed

end
