(* ===== verification/Hal_Time.thy ===== *)
theory Hal_Time
  imports Hal_Alarm
begin

text \<open>
  Time of day, process times and the calibrated delay: \<open>alt_gettod.c\<close>, \<open>alt_settod.c\<close>,
  \<open>alt_times.c\<close>, \<open>alt_busy_sleep.c\<close> and \<open>alt_usleep.c\<close>. The members of \<open>struct timeval\<close> are
  signed; \<open>tv_usec\<close> is a 32-bit \<open>long\<close>, kept as a word, and \<open>tv_sec\<close>, whose width the C
  library chooses, as a number.
\<close>

record timeval =
  tv_sec :: int
  tv_usec :: u32

record timezone =
  tz_minuteswest :: int
  tz_dsttime :: int

text \<open>The globals of the two files, and \<open>errno\<close>.\<close>

record tod =
  alt_timezone :: timezone
  alt_resettime :: timeval
  errno :: int

definition ALT_US :: u32 where "ALT_US = 1000000"

section \<open>Time of day\<close>

text \<open>The two correction loops on the microseconds, as signed numbers.\<close>

function below_zero :: "int \<times> int \<Rightarrow> int \<times> int" where
  "below_zero (sec, usec) =
     (if usec < 0
      then if sec \<le> 0 then (0, 0) else below_zero (sec - 1, usec + 1000000)
      else (sec, usec))"
  by pat_completeness auto
termination by (relation "measure (\<lambda>(sec, usec). nat (- usec))") auto

function above_second :: "int \<times> int \<Rightarrow> int \<times> int" where
  "above_second (sec, usec) =
     (if usec \<ge> 1000000 then above_second (sec + 1, usec - 1000000) else (sec, usec))"
  by pat_completeness auto
termination by (relation "measure (\<lambda>(sec, usec). nat usec)") auto

declare below_zero.simps [simp del] above_second.simps [simp del]

definition gettimeofday :: "alarms \<Rightarrow> tod \<Rightarrow> int \<times> (timeval \<times> timezone) option" where
  "gettimeofday A T =
     (let nticks = alt_nticks A;
          tick_rate = alt_ticks_per_second A
      in if tick_rate \<noteq> 0
         then let sec = tv_sec (alt_resettime T) + uint (nticks div tick_rate);
                  usec = tv_usec (alt_resettime T) +
                    (ucast ((ucast nticks * ucast (ALT_US div tick_rate)) mod ucast ALT_US :: u64) :: u32);
                  (sec, us) = below_zero (sec, sint usec);
                  (sec, us) = above_second (sec, us)
              in (0, Some (\<lparr>tv_sec = sec, tv_usec = of_int us\<rparr>, alt_timezone T))
         else (- ENOTSUP, None))"

text \<open>Here the product of the ticks is a 32-bit product.\<close>

definition settimeofday :: "alarms \<Rightarrow> timeval \<Rightarrow> timezone \<Rightarrow> tod \<Rightarrow> int \<times> tod" where
  "settimeofday A t tz T =
     (let nticks = alt_nticks A;
          tick_rate = alt_ticks_per_second A
      in if tick_rate \<noteq> 0
         then (0, T\<lparr>alt_resettime := \<lparr>tv_sec = tv_sec t - uint (nticks div tick_rate),
                 tv_usec = tv_usec t - ((nticks * (ALT_US div tick_rate)) mod ALT_US)\<rparr>,
               alt_timezone := tz\<rparr>)
         else (- 1, T\<lparr>errno := ENOSYS\<rparr>))"

section \<open>Process times and delays\<close>

record tms =
  tms_utime :: u32
  tms_stime :: u32
  tms_cutime :: u32
  tms_cstime :: u32

definition alt_times :: "alarms \<Rightarrow> tms \<Rightarrow> tod \<Rightarrow> u32 \<times> tms \<times> tod" where
  "alt_times A b T =
     (let ticks = alt_nticks A
      in if alt_ticks_per_second A = 0 then (0, b, T\<lparr>errno := ENOSYS\<rparr>)
         else (ticks, \<lparr>tms_utime = 0, tms_stime = ticks, tms_cutime = 0, tms_cstime = 0\<rparr>, T))"

text \<open>
  \<open>alt_busy_sleep\<close> as the number of turns of its assembly loops. The counter is decremented
  first and then compared: with \<open>bne\<close> a count of zero makes a whole turn of the 32 bits, with
  \<open>bgt\<close> one turn. The processor of \<open>system.h\<close> is the \<open>fast\<close> one at 50 MHz: three cycles a turn.
\<close>

definition bne_turns :: "u32 \<Rightarrow> nat" where
  "bne_turns n = (if n = 0 then 2 ^ 32 else unat n)"

definition bgt_turns :: "u32 \<Rightarrow> nat" where
  "bgt_turns n = (if 0 < sint n then unat n else if n = 0x80000000 then 2 ^ 31 else 1)"

definition SLEEP_MAX :: u32 where "SLEEP_MAX = 0x7FFFFFFF"
definition ALT_CPU_FREQ :: u32 where "ALT_CPU_FREQ = 50000000"
definition cycles_per_loop :: u32 where "cycles_per_loop = 3"

definition busy_sleep_turns :: "u32 \<Rightarrow> nat" where
  "busy_sleep_turns us =
     (let per_us = ALT_CPU_FREQ div (cycles_per_loop * 1000000);
          big_loops = us div (SLEEP_MAX div per_us)
      in if big_loops \<noteq> 0
         then (case for_range 0 (unat big_loops)
                 (\<lambda>i (turns, us). (turns + bne_turns SLEEP_MAX, us - SLEEP_MAX div per_us)) (0, us) of
                 (turns, us) \<Rightarrow> turns + bne_turns (us * per_us))
         else bgt_turns (us * per_us))"

definition alt_usleep :: "u32 \<Rightarrow> nat \<times> int" where
  "alt_usleep us = (busy_sleep_turns us, 0)"

section \<open>Lemmas\<close>

lemma below_zero_id [simp]: "0 \<le> u \<Longrightarrow> below_zero (s, u) = (s, u)"
  by (simp add: below_zero.simps)

lemma above_second_id [simp]: "u < 1000000 \<Longrightarrow> above_second (s, u) = (s, u)"
  by (simp add: above_second.simps)

text \<open>The 64-bit product of the ticks is exact, and so is the 32-bit one while it fits.\<close>

lemma usec_64:
  "ucast ((ucast n * ucast q) mod ucast ALT_US :: u64) = (of_nat ((unat n * unat q) mod 1000000) :: u32)"
  for n q :: u32
proof -
  have "unat n < 2 ^ 32" "unat q < 2 ^ 32" using unsigned_less [of n] unsigned_less [of q] by simp_all
  then have "unat n * unat q < 2 ^ 32 * 2 ^ 32" by (rule mult_strict_mono) simp_all
  then have m: "unat (ucast n * ucast q :: u64) = unat n * unat q"
    by (simp add: unat_word_ariths)
  have "unat (ucast ALT_US :: u64) = 1000000" by (simp add: ALT_US_def)
  with m have "unat ((ucast n * ucast q) mod ucast ALT_US :: u64) = (unat n * unat q) mod 1000000"
    by (simp add: unat_mod_distrib)
  moreover have "(ucast w :: u32) = of_nat (unat w)" for w :: u64 by simp
  ultimately show ?thesis by metis
qed

lemma usec_32:
  assumes "unat n * unat q < 2 ^ 32"
  shows "(n * q) mod ALT_US = (of_nat ((unat n * unat q) mod 1000000) :: u32)"
proof -
  have "unat (n * q) = unat n * unat q" using assms by (simp add: unat_word_ariths)
  then have "unat ((n * q) mod ALT_US) = (unat n * unat q) mod 1000000"
    by (simp add: unat_mod_distrib ALT_US_def)
  moreover have "w = of_nat (unat w)" for w :: u32 by simp
  ultimately show ?thesis by metis
qed

section \<open>Properties\<close>

text \<open>Reading the clock right after setting it gives back the time that was set, for every
  valid time, as long as the ticks since reset are less than 2^32 microseconds (71 minutes).\<close>

theorem settimeofday_gettimeofday:
  assumes "alt_tick_rate A \<noteq> 0" and "unat (tv_usec t) < 1000000"
    and "unat (alt_nticks A) * unat (ALT_US div alt_tick_rate A) < 2 ^ 32"
    and "settimeofday A t tz T = (r, T')"
  shows "r = 0 \<and> gettimeofday A T' = (0, Some (t, tz))"
proof -
  have s: "sint (tv_usec t) = int (unat (tv_usec t))" using assms(2) by (intro sint_u32_small) simp
  have us: "0 \<le> sint (tv_usec t)" "sint (tv_usec t) < 1000000" using assms(2) s by linarith+
  have "of_int (sint (tv_usec t)) = tv_usec t" by simp
  with assms(1,4) us show ?thesis
    by (auto simp: settimeofday_def gettimeofday_def Let_def alt_ticks_per_second_def
        usec_64 usec_32 [OF assms(3)])
qed

definition clock_1000 :: "u32 \<Rightarrow> alarms" where
  "clock_1000 n = \<lparr>alt_alarm_list = 8, al_llist = \<lparr>l_next = id, l_prev = id\<rparr>, al_time = (\<lambda>_. 0),
     al_callback = (\<lambda>_. 0), al_rollover = (\<lambda>_. 0), al_context = (\<lambda>_. 0),
     alt_tick_rate = 1000, alt_nticks = n\<rparr>"

definition tod_0 :: tod where
  "tod_0 = \<lparr>alt_timezone = \<lparr>tz_minuteswest = 0, tz_dsttime = 0\<rparr>,
     alt_resettime = \<lparr>tv_sec = 0, tv_usec = 0\<rparr>, errno = 0\<rparr>"

theorem settimeofday_gettimeofday_witness:
  "gettimeofday (clock_1000 5000)
     (snd (settimeofday (clock_1000 5000) \<lparr>tv_sec = 100, tv_usec = 5\<rparr> (alt_timezone tod_0) tod_0)) =
   (0, Some (\<lparr>tv_sec = 100, tv_usec = 5\<rparr>, alt_timezone tod_0))"
  using settimeofday_gettimeofday [of "clock_1000 5000" "\<lparr>tv_sec = 100, tv_usec = 5\<rparr>",
      OF _ _ _ prod.collapse [symmetric]]
  by (simp add: clock_1000_def ALT_US_def)

text \<open>A defect: after 71.6 minutes the two functions disagree, because \<open>settimeofday\<close> computes
  the microseconds with a 32-bit product and \<open>gettimeofday\<close> with a 64-bit one. At 4294968
  ticks of 1 kHz a clock set to a whole second reads 0.967296 seconds later at once.\<close>

theorem settimeofday_wraps:
  "gettimeofday (clock_1000 4294968)
     (snd (settimeofday (clock_1000 4294968) \<lparr>tv_sec = 5000, tv_usec = 0\<rparr> tz tod_0)) =
   (0, Some (\<lparr>tv_sec = 5000, tv_usec = 967296\<rparr>, tz))"
  by (simp add: gettimeofday_def settimeofday_def clock_1000_def tod_0_def
      alt_ticks_per_second_def ALT_US_def)

lemma sleep_consts:
  "ALT_CPU_FREQ div (cycles_per_loop * 1000000) = 16" "SLEEP_MAX div 16 = 134217727"
  by (simp_all add: ALT_CPU_FREQ_def cycles_per_loop_def SLEEP_MAX_def)

text \<open>The delay loop turns exactly 16 times per microsecond (three cycles each at 50 MHz, the
  quotient rounded down) for every delay from one microsecond to 134 seconds.\<close>

theorem busy_sleep_turns_exact:
  assumes "us \<noteq> 0" and "unat us < 134217727"
  shows "busy_sleep_turns us = 16 * unat us"
proof -
  have "us div 134217727 = 0" using assms(2) by (simp add: word_arith_nat_div)
  then have "busy_sleep_turns us = bgt_turns (us * 16)"
    by (simp add: busy_sleep_turns_def sleep_consts Let_def)
  moreover have u: "unat (us * 16) = 16 * unat us" using assms(2) by (simp add: unat_word_ariths)
  moreover have "sint (us * 16) = int (unat (us * 16))"
    using u assms(2) by (intro sint_u32_small) simp
  moreover have "0 < unat us" using assms(1) by (simp add: unat_gt_0)
  ultimately have "0 < sint (us * 16)" by linarith
  then have "bgt_turns (us * 16) = unat (us * 16)" by (simp only: bgt_turns_def if_True)
  with u \<open>busy_sleep_turns us = bgt_turns (us * 16)\<close> show ?thesis by simp
qed

theorem busy_sleep_turns_exact_witness: "busy_sleep_turns 1000 = 16000"
  using busy_sleep_turns_exact [of 1000] by simp

text \<open>A defect: when the delay is a multiple of the largest single loop, the rest is zero and
  the final loop, which tests for zero after decrementing, makes 2^32 turns more: a request of
  134.2 seconds takes three times as long.\<close>

theorem busy_sleep_multiple_overruns:
  "busy_sleep_turns 134217727 = (2 ^ 31 - 1) + 2 ^ 32"
  by (simp add: busy_sleep_turns_def sleep_consts for_range_def bne_turns_def SLEEP_MAX_def)

end
