(* ===== verification/Hal_Memory.thy ===== *)
theory Hal_Memory
  imports Soc_Bus
begin

text \<open>
  Memory services of the HAL: the cache routines (\<open>alt_dcache_flush.c\<close>,
  \<open>alt_dcache_flush_no_writeback.c\<close>, \<open>alt_dcache_flush_all.c\<close>, \<open>alt_icache_flush.c\<close>,
  \<open>alt_icache_flush_all.c\<close>), uncached memory (\<open>alt_uncached_malloc.c\<close>,
  \<open>alt_uncached_free.c\<close>, \<open>alt_remap_cached.c\<close>), the heap (\<open>alt_sbrk.c\<close>) and the copying of
  sections at start-up (\<open>alt_load.c\<close>, \<open>alt_load.h\<close>). The cache sizes are those of
  \<open>system.h\<close>; the C library's \<open>memalign\<close> and \<open>free\<close> are parameters.
\<close>

section \<open>Cache\<close>

definition NIOS2_DCACHE_SIZE :: u32 where "NIOS2_DCACHE_SIZE = 2048"
definition NIOS2_ICACHE_SIZE :: u32 where "NIOS2_ICACHE_SIZE = 4096"
definition CACHE_LINE_SIZE :: u32 where "CACHE_LINE_SIZE = 32"
definition ALT_CPU_DCACHE_BYPASS_MASK :: u32 where "ALT_CPU_DCACHE_BYPASS_MASK = 0x80000000"

text \<open>The instructions that the assembly statements execute, with the address operand.\<close>

datatype cache_op = Flushda u32 | Initda u32 | Flushd u32 | Flushi u32 | Flushp

text \<open>\<open>for (i = start; i < end; i += LINE_SIZE) op(i)\<close>: the instructions and the last \<open>i\<close>. Near
  the end of the address space the pointer wraps and the loop may not end.\<close>

partial_function (option) line_loop ::
  "(u32 \<Rightarrow> cache_op) \<Rightarrow> u32 \<Rightarrow> u32 \<Rightarrow> cache_op list \<Rightarrow> (cache_op list \<times> u32) option" where
  "line_loop opr stop i acc =
     (if i < stop then line_loop opr stop (i + CACHE_LINE_SIZE) (acc @ [opr i]) else Some (acc, i))"

declare line_loop.simps [code]

definition alt_dcache_flush_lines :: "u32 \<Rightarrow> u32 \<Rightarrow> cache_op list option" where
  "alt_dcache_flush_lines start len = do {
     let stop = start + len;
     (ops, i) \<leftarrow> line_loop Flushda stop start [];
     Some (if start AND (CACHE_LINE_SIZE - 1) \<noteq> 0 then ops @ [Flushda i] else ops) }"

definition alt_dcache_flush_no_writeback :: "u32 \<Rightarrow> u32 \<Rightarrow> cache_op list option" where
  "alt_dcache_flush_no_writeback start len = do {
     let stop = start + len;
     (ops, i) \<leftarrow> line_loop Initda stop start [];
     Some (if start AND (CACHE_LINE_SIZE - 1) \<noteq> 0 then ops @ [Initda i] else ops) }"

definition dcache_flush_all_lines :: "cache_op list option" where
  "dcache_flush_all_lines = map_option fst (line_loop Flushd NIOS2_DCACHE_SIZE 0 [])"

definition alt_icache_flush :: "u32 \<Rightarrow> u32 \<Rightarrow> cache_op list option" where
  "alt_icache_flush start len = do {
     let len = (if len > NIOS2_ICACHE_SIZE then NIOS2_ICACHE_SIZE else len);
     let stop = start + len;
     (ops, i) \<leftarrow> line_loop Flushi stop start [];
     let ops = (if start AND (CACHE_LINE_SIZE - 1) \<noteq> 0 then ops @ [Flushi i] else ops);
     Some (ops @ [Flushp]) }"

definition alt_icache_flush_all :: "cache_op list option" where
  "alt_icache_flush_all = alt_icache_flush 0 NIOS2_ICACHE_SIZE"

section \<open>Uncached memory\<close>

definition alt_remap_cached :: "u32 \<Rightarrow> u32 \<Rightarrow> u32" where
  "alt_remap_cached ptr len = ptr AND NOT ALT_CPU_DCACHE_BYPASS_MASK"

definition alt_uncached_malloc ::
  "(u32 \<Rightarrow> u32 \<Rightarrow> 's \<Rightarrow> u32 \<times> 's) \<Rightarrow> u32 \<Rightarrow> 's \<Rightarrow> (u32 \<times> cache_op list \<times> 's) option" where
  "alt_uncached_malloc memalign sz s =
     (let num_lines = (sz + CACHE_LINE_SIZE - 1) div CACHE_LINE_SIZE;
          aligned_size = num_lines * CACHE_LINE_SIZE;
          (ptr, s) = memalign CACHE_LINE_SIZE aligned_size s
      in if ptr = 0 then Some (0, [], s)
         else do {
           ops \<leftarrow> alt_dcache_flush_lines ptr aligned_size;
           Some (ptr OR ALT_CPU_DCACHE_BYPASS_MASK, ops, s) })"

definition alt_uncached_free :: "(u32 \<Rightarrow> 's \<Rightarrow> 's) \<Rightarrow> u32 \<Rightarrow> 's \<Rightarrow> 's" where
  "alt_uncached_free free ptr s = free (ptr AND NOT ALT_CPU_DCACHE_BYPASS_MASK) s"

section \<open>The heap\<close>

text \<open>
  \<open>heap_end\<close> and the machine; \<open>limit\<close> is the linker's \<open>__alt_heap_limit\<close>. The build sets
  neither \<open>ALT_MAX_HEAP_BYTES\<close> nor \<open>ALT_STACK_CHECK\<close>.
\<close>

definition alt_sbrk :: "u32 \<Rightarrow> u32 \<Rightarrow> u32 \<times> 'h machine \<Rightarrow> u32 \<times> u32 \<times> 'h machine" where
  "alt_sbrk limit incr = (\<lambda>(heap_end, s).
     let (context, s) = alt_irq_disable_all s;
         heap_end = (heap_end + 3) AND NOT 3
     in if heap_end + incr > limit
        then (- 1, heap_end, alt_irq_enable_all context s)
        else let prev_heap_end = heap_end;
                 heap_end = heap_end + incr
             in (prev_heap_end, heap_end, alt_irq_enable_all context s))"

section \<open>Loading sections\<close>

text \<open>The memory is a map from the addresses of words; \<open>while (to != end)\<close>.\<close>

partial_function (option) load_loop ::
  "u32 \<Rightarrow> u32 \<Rightarrow> u32 \<Rightarrow> (u32 \<Rightarrow> u32) \<Rightarrow> (u32 \<Rightarrow> u32) option" where
  "load_loop src dst stop m =
     (if dst \<noteq> stop then load_loop (src + 4) (dst + 4) stop (m(dst := m src)) else Some m)"

declare load_loop.simps [code]

definition alt_load_section :: "u32 \<Rightarrow> u32 \<Rightarrow> u32 \<Rightarrow> (u32 \<Rightarrow> u32) \<Rightarrow> (u32 \<Rightarrow> u32) option" where
  "alt_load_section src dst stop m = (if dst \<noteq> src then load_loop src dst stop m else Some m)"

text \<open>The linker's symbols: where a section is stored, where it runs, and its end.\<close>

record sections =
  rwdata :: "u32 \<times> u32 \<times> u32"
  exceptions :: "u32 \<times> u32 \<times> u32"
  rodata :: "u32 \<times> u32 \<times> u32"

definition load_one :: "u32 \<times> u32 \<times> u32 \<Rightarrow> (u32 \<Rightarrow> u32) \<Rightarrow> (u32 \<Rightarrow> u32) option" where
  "load_one sec m = (case sec of (src, dst, stop) \<Rightarrow> alt_load_section src dst stop m)"

definition alt_load :: "sections \<Rightarrow> (u32 \<Rightarrow> u32) \<Rightarrow> ((u32 \<Rightarrow> u32) \<times> cache_op list) option" where
  "alt_load S m = do {
     m \<leftarrow> load_one (rwdata S) m;
     m \<leftarrow> load_one (exceptions S) m;
     m \<leftarrow> load_one (rodata S) m;
     dops \<leftarrow> dcache_flush_all_lines;
     iops \<leftarrow> alt_icache_flush_all;
     Some (m, dops @ iops) }"

section \<open>The loop over cache lines\<close>

definition lines_between :: "u32 \<Rightarrow> u32 \<Rightarrow> nat" where
  "lines_between i stop = (unat stop - unat i + 31) div 32"

definition line_at :: "u32 \<Rightarrow> nat \<Rightarrow> u32" where
  "line_at i k = i + 32 * of_nat k"

lemma unat_line_at: "unat i + 32 * k < 2 ^ 32 \<Longrightarrow> unat (line_at i k) = unat i + 32 * k"
  by (simp add: line_at_def unat_word_ariths unat_of_nat)

lemma line_at_simps [simp]: "line_at i 0 = i" "line_at (i + 32) k = line_at i (Suc k)"
  by (simp_all add: line_at_def algebra_simps)

lemma line_loop_eq:
  assumes "unat stop \<le> 2 ^ 32 - 32"
  shows "line_loop opr stop i acc = Some (acc @ map (\<lambda>k. opr (line_at i k)) [0..<lines_between i stop],
    line_at i (lines_between i stop))"
proof (induction "lines_between i stop" arbitrary: i acc)
  case 0
  then have "\<not> i < stop" by (auto simp: lines_between_def word_less_nat_alt)
  with 0 [symmetric] show ?case by (subst line_loop.simps) simp
next
  case (Suc n)
  then have less: "unat i < unat stop" by (auto simp: lines_between_def)
  with assms have u: "unat (i + 32) = unat i + 32" by (simp add: unat_word_ariths)
  with Suc.hyps(2) less have n: "n = lines_between (i + 32) stop"
    by (simp add: lines_between_def)
  have "[0..<lines_between i stop] = 0 # map Suc [0..<n]"
    unfolding Suc.hyps(2) [symmetric] by (simp add: map_Suc_upt upt_conv_Cons del: upt_Suc)
  moreover have "i < stop" using less by (simp add: word_less_nat_alt)
  ultimately show ?case
    using Suc.hyps(1) [OF n, of "acc @ [opr i]"] Suc.hyps(2) n
    by (subst line_loop.simps) (simp add: CACHE_LINE_SIZE_def comp_def)
qed

text \<open>Every byte of a region is in a line the loop, or the extra line of an unaligned region, hits.\<close>

lemma line_covered:
  fixes s a n :: nat
  assumes "s \<le> a" and "a < s + n"
  shows "\<exists>k. (s + 32 * k) div 32 = a div 32 \<and> (k < (n + 31) div 32 \<or> k = (n + 31) div 32 \<and> s mod 32 \<noteq> 0)"
proof -
  define k where "k = a div 32 - s div 32"
  have "s div 32 \<le> a div 32" using assms(1) by (rule div_le_mono)
  then have "(s + 32 * k) div 32 = a div 32" by (simp add: k_def)
  have a: "32 * (a div 32) \<le> a" and s: "s = 32 * (s div 32) + s mod 32" by simp_all
  have "32 * k = 32 * (a div 32) - 32 * (s div 32)" by (simp add: k_def diff_mult_distrib2)
  with a s assms(2) \<open>s div 32 \<le> a div 32\<close> have "32 * k < s mod 32 + n" by linarith
  then have "k \<le> (n + 31) div 32" "s mod 32 = 0 \<Longrightarrow> k < (n + 31) div 32"
    using mod_less_divisor [of 32 s] by (auto simp: less_eq_div_iff_mult_less_eq Suc_le_eq [symmetric])
  with \<open>(s + 32 * k) div 32 = a div 32\<close> show ?thesis by (metis le_neq_implies_less)
qed

lemma and_31: "(w :: u32) AND (CACHE_LINE_SIZE - 1) \<noteq> 0 \<longleftrightarrow> unat w mod 32 \<noteq> 0"
proof -
  have "w AND (CACHE_LINE_SIZE - 1) = take_bit 5 w"
    by (simp add: CACHE_LINE_SIZE_def take_bit_eq_mask mask_eq_exp_minus_1)
  then have "unat (w AND (CACHE_LINE_SIZE - 1)) = unat w mod 32"
    by (simp only: unsigned_take_bit_eq) (simp add: take_bit_eq_mod)
  then show ?thesis by (metis unat_eq_0)
qed


lemma flush_stop:
  "unat start + unat len \<le> 2 ^ 32 - 32 \<Longrightarrow> unat (start + len) = unat start + unat len"
  for start len :: u32
  by (simp add: unat_word_ariths)

definition flush_ops :: "(u32 \<Rightarrow> cache_op) \<Rightarrow> u32 \<Rightarrow> nat \<Rightarrow> cache_op list" where
  "flush_ops opr start n = map (\<lambda>k. opr (line_at start k))
     [0..<(n + 31) div 32 + (if unat start mod 32 = 0 then 0 else 1)]"

lemma line_loop_region:
  assumes "unat start + unat len \<le> 2 ^ 32 - 32"
  shows "map_option (\<lambda>(ops, i). if start AND (CACHE_LINE_SIZE - 1) \<noteq> 0 then ops @ [opr i] else ops)
    (line_loop opr (start + len) start []) = Some (flush_ops opr start (unat len))"
  using line_loop_eq [of "start + len" opr start "[]"] flush_stop [OF assms] assms and_31 [of start]
  by (simp add: flush_ops_def lines_between_def)

lemma dcache_flush_eq:
  assumes "unat start + unat len \<le> 2 ^ 32 - 32"
  shows "alt_dcache_flush_lines start len = Some (flush_ops Flushda start (unat len))"
    and "alt_dcache_flush_no_writeback start len = Some (flush_ops Initda start (unat len))"
  using line_loop_region [OF assms, of Flushda] line_loop_region [OF assms, of Initda]
  by (auto simp: alt_dcache_flush_lines_def alt_dcache_flush_no_writeback_def Let_def
      split: if_splits option.splits)

lemma flush_ops_cover:
  assumes "unat start + n \<le> 2 ^ 32 - 32" and "unat start \<le> a" and "a < unat start + n"
  shows "\<exists>i. opr i \<in> set (flush_ops opr start n) \<and> unat i div 32 = a div 32"
proof -
  obtain k where k: "(unat start + 32 * k) div 32 = a div 32"
    "k < (n + 31) div 32 \<or> k = (n + 31) div 32 \<and> unat start mod 32 \<noteq> 0"
    using line_covered [OF assms(2,3)] by blast
  have "32 * ((n + 31) div 32) \<le> n + 31" by simp
  then have "unat start + 32 * k < 2 ^ 32" using k(2) assms(1) by auto
  then have "unat (line_at start k) div 32 = a div 32" by (simp add: unat_line_at k(1))
  moreover have "opr (line_at start k) \<in> set (flush_ops opr start n)"
    using k(2) by (auto simp: flush_ops_def)
  ultimately show ?thesis by blast
qed

text \<open>The lines that a flush touches beside those of the region: an unaligned start makes it flush one more
  address, which can lie in the line after the last one of the region.\<close>

definition extra_line :: "nat \<Rightarrow> nat \<Rightarrow> nat set" where
  "extra_line s n =
     (if s mod 32 = 0 then {}
      else if n = 0 then {s div 32}
      else if s mod 32 + (n - 1) mod 32 < 32 then {(s + n - 1) div 32 + 1}
      else {})"

lemma region_lines:
  "(\<lambda>a. a div 32) ` {s..<s + n} = {s div 32..<s div 32 + (if n = 0 then 0 else (s mod 32 + n - 1) div 32 + 1)}"
  for s n :: nat
proof (cases "n = 0")
  case False
  have last: "(s + n - 1) div 32 = s div 32 + (s mod 32 + n - 1) div 32"
  proof -
    have "s + n - 1 = s div 32 * 32 + (s mod 32 + n - 1)" using False by simp
    then show ?thesis by simp
  qed
  have "l \<in> (\<lambda>a. a div 32) ` {s..<s + n}" if "s div 32 \<le> l" "l \<le> (s + n - 1) div 32" for l
  proof (cases "32 * l < s")
    case True
    then have "l = s div 32" using that(1) by linarith
    with False show ?thesis by auto
  next
    case False
    have "32 * l \<le> s + n - 1" using that(2) by linarith
    with False \<open>n \<noteq> 0\<close> have "32 * l \<in> {s..<s + n}" by auto
    then show ?thesis by (rule rev_image_eqI) simp
  qed
  moreover have "s div 32 \<le> a div 32" "a div 32 \<le> (s + n - 1) div 32" if "a \<in> {s..<s + n}" for a
    using that by (auto intro: div_le_mono)
  ultimately have "(\<lambda>a. a div 32) ` {s..<s + n} = {s div 32..(s + n - 1) div 32}" by fastforce
  then show ?thesis using False last by (simp add: atLeastLessThanSuc_atLeastAtMost)
qed simp

lemma flushed_lines:
  "(\<lambda>k. (s + 32 * k) div 32) ` {0..<(n + 31) div 32 + (if s mod 32 = 0 then 0 else 1)} =
     (\<lambda>a. a div 32) ` {s..<s + n} \<union> extra_line s n" for s n :: nat
proof -
  have shift: "(\<lambda>k. (s + 32 * k) div 32) ` {0..<m} = {s div 32..<s div 32 + m}" for m
    using image_add_atLeastLessThan [of "s div 32" 0 m] by (simp add: add.commute)
  show ?thesis
  proof (cases "n = 0")
    case True
    then show ?thesis by (auto simp: extra_line_def)
  next
    case False
    define m t where "m = (n - 1) div 32" and "t = (n - 1) mod 32"
    have n: "n = 32 * m + t + 1" and t: "t < 32" using False by (simp_all add: m_def t_def)
    define q r where "q = s div 32" and "r = s mod 32"
    have s: "s = 32 * q + r" and r: "r < 32" by (simp_all add: q_def r_def)
    have cnt: "(n + 31) div 32 = m + 1" unfolding n using t by simp
    have reg: "(r + n - 1) div 32 = m + (if r + t < 32 then 0 else 1)"
    proof -
      have "r + n - 1 = 32 * m + (r + t)" unfolding n by simp
      then have "(r + n - 1) div 32 = m + (r + t) div 32" by simp
      also have "(r + t) div 32 = (if r + t < 32 then 0 else 1)" using r t by auto
      finally show ?thesis .
    qed
    have last: "(s + n - 1) div 32 = q + m + (if r + t < 32 then 0 else 1)"
    proof -
      have "s + n - 1 = 32 * q + (r + n - 1)" unfolding s using False by simp
      then have "(s + n - 1) div 32 = q + (r + n - 1) div 32" by simp
      with reg show ?thesis by simp
    qed
    show ?thesis
      unfolding shift region_lines extra_line_def cnt q_def [symmetric] r_def [symmetric] t_def [symmetric]
        reg last using False r t by (auto simp: reg)
  qed
qed

section \<open>Properties\<close>

text \<open>C38: Flushing a region below the last line of the address space terminates. It flushes the addresses
  from the start on, one every 32 bytes, and one more when the start is not aligned. The lines flushed
  are exactly those of the bytes of the region and, after an unaligned start whose last line that
  one more address no longer meets, the line after the region (start 31 and length 1 flush 31 and 63,
  so line 1 too); an unaligned empty region flushes the line of its start.\<close>

theorem dcache_flush_covers:
  assumes "unat start + unat len \<le> 2 ^ 32 - 32"
  shows "\<exists>ops. alt_dcache_flush_lines start len = Some ops \<and>
    ops = map (\<lambda>k. Flushda (start + 32 * of_nat k))
      [0..<(unat len + 31) div 32 + (if unat start mod 32 = 0 then 0 else 1)] \<and>
    {unat i div 32 | i. Flushda i \<in> set ops} =
      (\<lambda>a. a div 32) ` {unat start..<unat start + unat len} \<union> extra_line (unat start) (unat len)"
proof (intro exI conjI)
  let ?ops = "flush_ops Flushda start (unat len)"
  let ?n = "(unat len + 31) div 32 + (if unat start mod 32 = 0 then 0 else 1)"
  show "alt_dcache_flush_lines start len = Some ?ops" by (rule dcache_flush_eq(1) [OF assms])
  show "?ops = map (\<lambda>k. Flushda (start + 32 * of_nat k)) [0..<?n]"
    by (simp add: flush_ops_def line_at_def)
  have "unat (line_at start k) = unat start + 32 * k" if "k < ?n" for k
  proof (rule unat_line_at)
    have "32 * ((unat len + 31) div 32) \<le> unat len + 31" by simp
    then show "unat start + 32 * k < 2 ^ 32" using that assms by (auto split: if_splits)
  qed
  then have "(\<lambda>k. unat (line_at start k) div 32) ` {0..<?n} = (\<lambda>k. (unat start + 32 * k) div 32) ` {0..<?n}"
    by (intro image_cong refl) simp
  moreover have "{unat i div 32 | i. Flushda i \<in> set ?ops} = (\<lambda>k. unat (line_at start k) div 32) ` {0..<?n}"
    unfolding flush_ops_def by fastforce
  ultimately have "{unat i div 32 | i. Flushda i \<in> set ?ops} = (\<lambda>k. (unat start + 32 * k) div 32) ` {0..<?n}"
    by (rule trans [rotated])
  then show "{unat i div 32 | i. Flushda i \<in> set ?ops} =
      (\<lambda>a. a div 32) ` {unat start..<unat start + unat len} \<union> extra_line (unat start) (unat len)"
    unfolding flushed_lines .
qed

theorem dcache_flush_covers_witness:
  "\<exists>ops. alt_dcache_flush_lines 31 1 = Some ops \<and> ops = [Flushda 31, Flushda 63] \<and>
    {unat i div 32 | i. Flushda i \<in> set ops} = {0, 1}"
proof -
  have one: "{31..<32} = {31 :: nat}" by auto
  from dcache_flush_covers [of 31 1] obtain ops where "alt_dcache_flush_lines 31 1 = Some ops"
    "ops = [Flushda 31, Flushda 63]" "{unat i div 32 | i. Flushda i \<in> set ops} = {0} \<union> {1}"
    by (auto simp: extra_line_def one)
  then show ?thesis by auto
qed

lemma icache_flush_eq:
  assumes "unat start + unat len \<le> 2 ^ 32 - 32"
  shows "alt_icache_flush start len = Some (flush_ops Flushi start (min (unat len) 4096) @ [Flushp])"
proof -
  define l where "l = (if len > NIOS2_ICACHE_SIZE then NIOS2_ICACHE_SIZE else len)"
  have l: "unat l = min (unat len) 4096"
    by (simp add: l_def NIOS2_ICACHE_SIZE_def word_less_nat_alt)
  with assms have "unat start + unat l \<le> 2 ^ 32 - 32" by simp
  from line_loop_region [OF this, of Flushi] show ?thesis
    unfolding alt_icache_flush_def l_def [symmetric] l Let_def
    by (auto split: if_splits)
qed

lemma length_flush_ops: "length (flush_ops opr start n) \<le> (n + 31) div 32 + 1"
  by (simp add: flush_ops_def)

lemma div_mod_4096: "x div 32 mod 128 = x mod 4096 div 32" for x :: nat
  using mod_mult2_eq [of x 32 128] by simp

text \<open>Flushing a region from the instruction cache takes at most 129 line flushes and one
  pipeline flush, however large the region, and hits the cache line index of its every byte.\<close>

theorem icache_flush_covers:
  assumes "unat start + unat len \<le> 2 ^ 32 - 32"
  shows "\<exists>ops. alt_icache_flush start len = Some (ops @ [Flushp]) \<and> length ops \<le> 129 \<and>
    (\<forall>a. unat start \<le> a \<and> a < unat start + unat len \<longrightarrow>
       (\<exists>i. Flushi i \<in> set ops \<and> unat i div 32 mod 128 = a div 32 mod 128))"
proof -
  define n where "n = min (unat len) 4096"
  have n: "unat start + n \<le> 2 ^ 32 - 32" using assms by (simp add: n_def)
  have "\<exists>i. Flushi i \<in> set (flush_ops Flushi start n) \<and> unat i div 32 mod 128 = a div 32 mod 128"
    if a: "unat start \<le> a" "a < unat start + unat len" for a
  proof -
    define b where "b = unat start + (a - unat start) mod 4096"
    have "b mod 4096 = a mod 4096" using a(1) by (simp add: b_def mod_simps)
    then have "b div 32 mod 128 = a div 32 mod 128" by (metis div_mod_4096)
    moreover have "unat start \<le> b" "b < unat start + n" using a by (auto simp: b_def n_def)
    ultimately show ?thesis using flush_ops_cover [OF n] by metis
  qed
  moreover have "length (flush_ops Flushi start n) \<le> 129"
    using length_flush_ops [of Flushi start n] by (simp add: n_def)
  ultimately show ?thesis using icache_flush_eq [OF assms] by (auto simp: n_def)
qed

theorem icache_flush_covers_witness:
  "\<exists>ops. alt_icache_flush 0x80010 0x10000 = Some (ops @ [Flushp]) \<and> length ops \<le> 129"
  using icache_flush_covers [of "0x80010" "0x10000"] by auto

lemma bypass_bit: "bit ALT_CPU_DCACHE_BYPASS_MASK n \<longleftrightarrow> n = 31"
proof -
  have "ALT_CPU_DCACHE_BYPASS_MASK = 2 ^ 31"
    by (simp add: ALT_CPU_DCACHE_BYPASS_MASK_def)
  show ?thesis unfolding \<open>_ = 2 ^ 31\<close> bit_exp_iff by (auto simp: possible_bit_word)
qed

text \<open>Uncached memory: for every size that does not overflow the allocator is asked for whole
  cache lines that hold it; the block that comes back is the allocated one seen through the
  bypass of the data cache, every line of it was flushed, and it is the allocated block that
  remapping and freeing give back.\<close>

theorem uncached_malloc_block:
  assumes "unat sz \<le> 2 ^ 31" and "lines = (unat sz + 31) div 32"
    and "memalign 32 (of_nat (32 * lines)) s = (p, s')" and "p \<noteq> 0"
    and "unat p + 32 * lines < 2 ^ 31"
  shows "\<exists>q ops. alt_uncached_malloc memalign sz s = Some (q, ops, s') \<and> bit q 31 \<and>
    alt_remap_cached q len = p \<and> alt_uncached_free free q t = free p t \<and>
    unat sz \<le> 32 * lines \<and>
    (\<forall>a. unat p \<le> a \<and> a < unat p + 32 * lines \<longrightarrow>
       (\<exists>i. Flushda i \<in> set ops \<and> unat i div 32 = a div 32))"
proof -
  have up: "unat (sz + 31) = unat sz + 31" using assms(1) by (simp add: unat_word_ariths)
  have al: "(sz + CACHE_LINE_SIZE - 1) div CACHE_LINE_SIZE * CACHE_LINE_SIZE = of_nat (32 * lines)"
    using up by (intro word_unat_eq_iff [THEN iffD2])
      (simp add: CACHE_LINE_SIZE_def assms(2) unat_word_ariths unat_div_distrib unat_of_nat)
  have ual: "unat (of_nat (32 * lines) :: u32) = 32 * lines"
    unfolding unat_of_nat using assms(5) by simp
  with assms(5) have region: "unat p + unat (of_nat (32 * lines) :: u32) \<le> 2 ^ 32 - 32" by simp
  define ops where "ops = flush_ops Flushda p (32 * lines)"
  have "alt_uncached_malloc memalign sz s = Some (p OR ALT_CPU_DCACHE_BYPASS_MASK, ops, s')"
  proof -
    have m: "memalign CACHE_LINE_SIZE (of_nat (32 * lines)) s = (p, s')"
      using assms(3) by (simp only: CACHE_LINE_SIZE_def)
    show ?thesis
      unfolding alt_uncached_malloc_def Let_def al m prod.case
      using assms(4) dcache_flush_eq(1) [OF region] unfolding ual ops_def by simp
  qed
  moreover have "bit (p OR ALT_CPU_DCACHE_BYPASS_MASK) 31"
    by (simp add: bypass_bit bit_or_iff)
  moreover have "(p OR ALT_CPU_DCACHE_BYPASS_MASK) AND NOT ALT_CPU_DCACHE_BYPASS_MASK = p"
  proof (rule bit_word_eqI)
    have "unat p div 2 ^ 31 = 0" using assms(5) by simp
    then have "\<not> bit (unat p) 31" by (simp add: bit_iff_odd)
    then have "\<not> bit p 31" by (simp add: bit_unsigned_iff)
    then show "bit ((p OR ALT_CPU_DCACHE_BYPASS_MASK) AND NOT ALT_CPU_DCACHE_BYPASS_MASK) n = bit p n"
      if "n < LENGTH(32)" for n
      using that by (cases "n = 31") (simp_all add: bypass_bit bit_and_iff bit_or_iff bit_not_iff)
  qed
  ultimately show ?thesis
    using flush_ops_cover [of p "32 * lines"] region ual assms(2)
    by (auto simp: alt_remap_cached_def alt_uncached_free_def ops_def)
qed

theorem uncached_malloc_block_witness:
  "\<exists>q ops. alt_uncached_malloc (\<lambda>al n s. (s, s + n)) 40 0x1000 = Some (q, ops, 0x1040) \<and> bit q 31 \<and>
    alt_remap_cached q 40 = 0x1000"
proof -
  have "\<exists>q ops. alt_uncached_malloc (\<lambda>al n s. (s, s + n)) 40 0x1000 = Some (q, ops, 0x1040) \<and> bit q 31 \<and>
    alt_remap_cached q 40 = 0x1000 \<and> alt_uncached_free (\<lambda>_ t. t) q 0 = (0 :: u32) \<and> unat (40 :: u32) \<le> 32 * 2 \<and>
    (\<forall>a. unat (0x1000 :: u32) \<le> a \<and> a < unat (0x1000 :: u32) + 32 * 2 \<longrightarrow>
       (\<exists>i. Flushda i \<in> set ops \<and> unat i div 32 = a div 32))"
    by (rule uncached_malloc_block) simp_all
  then show ?thesis by blast
qed

text \<open>A defect: a size in the last 31 bytes of the range wraps when it is rounded up, and is
  served like a request for nothing.\<close>

theorem uncached_malloc_wraps:
  "alt_uncached_malloc memalign 0xFFFFFFFF s = alt_uncached_malloc memalign 0 s"
  by (simp add: alt_uncached_malloc_def CACHE_LINE_SIZE_def)

text \<open>The heap. The blocks that a sequence of requests gets, each with its size.\<close>

fun sbrk_all :: "u32 \<Rightarrow> u32 list \<Rightarrow> u32 \<times> 'h machine \<Rightarrow> (nat \<times> nat) list \<times> u32 \<times> 'h machine" where
  "sbrk_all limit [] st = ([], st)"
| "sbrk_all limit (n # ns) st =
     (case alt_sbrk limit n st of (r, st') \<Rightarrow>
      case sbrk_all limit ns st' of (bs, st'') \<Rightarrow>
        (if r = - 1 then bs else (unat r, unat n) # bs, st''))"

lemma unat_and_not_3: "unat ((x :: u32) AND NOT 3) = 4 * (unat x div 4)"
proof -
  have "x AND NOT 3 = push_bit 2 (drop_bit 2 x)"
  proof (rule bit_word_eqI)
    fix n :: nat
    have s: "2 \<le> n \<Longrightarrow> Suc (Suc (n - 2)) = n" by simp
    have "bit (3 :: u32) n \<longleftrightarrow> n < 2"
      using bit_mask_iff [where 'a = u32, of 2 n] by (auto simp: mask_eq_exp_minus_1 dest: bit_imp_le_length)
    then show "bit (x AND NOT 3) n = bit (push_bit 2 (drop_bit 2 x)) n" if "n < LENGTH(32)"
      using that s by (auto simp: bit_simps not_less)
  qed
  moreover have "unat x < 2 ^ 32" using unsigned_less [of x] by simp
  moreover from this have "4 * (unat x div 4) < 2 ^ 32" by simp
  ultimately show ?thesis
    by (simp only: unsigned_push_bit_eq unsigned_drop_bit_eq) (simp add: drop_bit_eq_div push_bit_eq_mult take_bit_eq_mod)
qed

lemma alt_sbrk_eq:
  assumes "unat limit < 2 ^ 30" and "unat n < 2 ^ 31" and "unat e \<le> unat limit + 3"
  shows "alt_sbrk limit n (e, s) =
    (let a = 4 * ((unat e + 3) div 4) in
     if a + unat n \<le> unat limit then (of_nat a, of_nat (a + unat n), s) else (- 1, of_nat a, s))"
proof -
  define h where "h = (e + 3) AND NOT 3"
  have "unat (e + 3) = unat e + 3" using assms by (simp add: unat_word_ariths)
  then have h: "unat h = 4 * ((unat e + 3) div 4)"
    by (simp only: h_def unat_and_not_3)
  have "4 * ((unat e + 3) div 4) \<le> unat e + 3" by simp
  with assms h have "unat h + unat n < 2 ^ 32" by simp
  then have "unat (h + n) = unat h + unat n" by (simp add: unat_word_ariths)
  with h show ?thesis
    unfolding alt_sbrk_def Let_def alt_irq_disable_all_def alt_irq_enable_all_def prod.case
      h_def [symmetric] h [symmetric] word_less_nat_alt
    by simp
qed

lemma sbrk_all_blocks:
  assumes "unat limit < 2 ^ 30" and "\<forall>n\<in>set ns. unat n < 2 ^ 31" and "unat e \<le> 4 * ((unat limit + 3) div 4)"
    and "sbrk_all limit ns (e, s) = (bs, e', s')"
  shows "s' = s \<and> sorted_wrt (\<lambda>b c. fst b + snd b \<le> fst c) bs \<and>
    (\<forall>b\<in>set bs. 4 dvd fst b \<and> unat e \<le> fst b \<and> fst b + snd b \<le> unat limit)"
  using assms(2-)
proof (induction ns arbitrary: e bs)
  case (Cons n ns)
  define a where "a = 4 * ((unat e + 3) div 4)"
  have a: "unat e \<le> a" "4 dvd a" "a \<le> unat e + 3" unfolding a_def by presburger+
  have n: "unat n < 2 ^ 31" using Cons.prems(1) by simp
  have e: "unat e \<le> unat limit + 3" using Cons.prems(2) by simp
  have a': "a \<le> 4 * ((unat limit + 3) div 4)" using Cons.prems(2) unfolding a_def by presburger
  have a32: "unat (of_nat a :: u32) = a"
    using a(3) e assms(1) by (simp add: unat_of_nat)
  show ?case
  proof (cases "a + unat n \<le> unat limit")
    case True
    have "(of_nat a :: u32) \<noteq> - 1"
    proof
      assume "(of_nat a :: u32) = - 1"
      then have "unat (of_nat a :: u32) = unat (- 1 :: u32)" by (rule arg_cong)
      with a32 a(3) e assms(1) show False
        by (simp add: unsigned_minus_1_eq_mask mask_eq_exp_minus_1)
    qed
    with True Cons.prems(3) alt_sbrk_eq [OF assms(1) n e, of s] a32
    obtain cs where rest: "sbrk_all limit ns (of_nat (a + unat n), s) = (cs, e', s')"
      and bs: "bs = (a, unat n) # cs"
      by (auto simp: a_def [symmetric] Let_def split: prod.splits)
    have u: "unat (of_nat (a + unat n) :: u32) = a + unat n"
      unfolding unat_of_nat using True assms(1) by simp
    have "s' = s \<and> sorted_wrt (\<lambda>b c. fst b + snd b \<le> fst c) cs \<and>
      (\<forall>b\<in>set cs. 4 dvd fst b \<and> a + unat n \<le> fst b \<and> fst b + snd b \<le> unat limit)"
      using Cons.IH [OF _ _ rest] Cons.prems(1) True unfolding u by fastforce
    with a True show ?thesis unfolding bs by auto
  next
    case False
    with Cons.prems(3) alt_sbrk_eq [OF assms(1) n e, of s]
    have rest: "sbrk_all limit ns (of_nat a, s) = (bs, e', s')"
      by (auto simp: a_def [symmetric] Let_def split: prod.splits)
    have "s' = s \<and> sorted_wrt (\<lambda>b c. fst b + snd b \<le> fst c) bs \<and>
      (\<forall>b\<in>set bs. 4 dvd fst b \<and> a \<le> fst b \<and> fst b + snd b \<le> unat limit)"
      using Cons.IH [OF _ _ rest] Cons.prems(1) a' unfolding a32 by simp
    with a(1) show ?thesis by auto
  qed
qed auto

text \<open>C37: Whatever sequence of requests of zero or more bytes (below 2 to the 31) the heap gets, the blocks it
  grants are word aligned, lie between the heap's end at the start and the limit, follow one
  another without overlap, and the interrupt state is as before: a request that does not fit is
  refused and takes nothing. A negative request gives memory back, also such as is still in use,
  so with one in between the blocks can overlap (\<open>sbrk_negative_overlap\<close>).\<close>

theorem sbrk_blocks_disjoint:
  assumes "unat limit < 2 ^ 30" and "\<forall>n\<in>set ns. unat n < 2 ^ 31" and "unat e \<le> unat limit"
    and "sbrk_all limit ns (e, s) = (bs, e', s')"
  shows "s' = s \<and> sorted_wrt (\<lambda>b c. fst b + snd b \<le> fst c) bs \<and>
    (\<forall>b\<in>set bs. 4 dvd fst b \<and> unat e \<le> fst b \<and> fst b + snd b \<le> unat limit)"
proof (rule sbrk_all_blocks [OF assms(1,2) _ assms(4)])
  show "unat e \<le> 4 * ((unat limit + 3) div 4)" using assms(3) by presburger
qed

theorem sbrk_blocks_disjoint_witness:
  "fst (sbrk_all 0x986a0 [10, 0x100000, 20] (0x90001, reset_machine ())) = [(0x90004, 10), (0x90010, 20)] \<and>
   4 dvd (0x90004 :: nat)"
proof -
  have run: "sbrk_all 0x986a0 [10, 0x100000, 20] (0x90001, reset_machine ()) =
      ([(0x90004, 10), (0x90010, 20)], 0x90024, reset_machine ())"
    by (simp add: alt_sbrk_def alt_irq_disable_all_def alt_irq_enable_all_def Let_def)
  from sbrk_blocks_disjoint [OF _ _ _ this] run show ?thesis by simp
qed

text \<open>After a negative request the same memory is granted again; a negative request is not checked against
  the start of the heap either.\<close>

theorem sbrk_negative_overlap:
  "fst (sbrk_all 0x986a0 [16, - 16, 16] (0x90000, s)) = [(0x90000, 16), (0x90010, 2 ^ 32 - 16), (0x90000, 16)]"
  by (simp add: alt_sbrk_def alt_irq_disable_all_def alt_irq_enable_all_def Let_def)

theorem sbrk_below_start:
  "alt_sbrk 0x986a0 (- 0x10000) (0x90000, s) = (0x90000, 0x80000, s)"
  by (simp add: alt_sbrk_def alt_irq_disable_all_def alt_irq_enable_all_def Let_def)

text \<open>Loading. The words of a section are copied one by one.\<close>

definition word_at :: "u32 \<Rightarrow> nat \<Rightarrow> u32" where
  "word_at a k = a + 4 * of_nat k"

lemma word_at_simps [simp]: "word_at a 0 = a" "word_at (a + 4) k = word_at a (Suc k)"
  by (simp_all add: word_at_def algebra_simps)

lemma word_at_inj: "k < 2 ^ 30 \<Longrightarrow> j < 2 ^ 30 \<Longrightarrow> word_at a k = word_at a j \<longleftrightarrow> k = j"
proof -
  assume kj: "k < 2 ^ 30" "j < 2 ^ 30"
  have u: "unat (4 * of_nat i :: u32) = 4 * i" if "i < 2 ^ 30" for i
    using that by (simp add: unat_word_ariths unat_of_nat)
  have "word_at a k = word_at a j \<longleftrightarrow> (4 * of_nat k :: u32) = 4 * of_nat j"
    by (simp add: word_at_def)
  also have "\<dots> \<longleftrightarrow> 4 * k = 4 * j" using u [OF kj(1)] u [OF kj(2)] by (metis word_unat_eq_iff)
  finally show ?thesis by simp
qed

lemma load_loop_copies:
  assumes "n < 2 ^ 30" and "\<forall>j<n. \<forall>k<n. word_at dst j \<noteq> word_at src k"
  shows "\<exists>m'. load_loop src dst (word_at dst n) m = Some m' \<and>
    (\<forall>k<n. m' (word_at dst k) = m (word_at src k)) \<and>
    (\<forall>a. (\<forall>k<n. a \<noteq> word_at dst k) \<longrightarrow> m' a = m a)"
  using assms
proof (induction n arbitrary: src dst m)
  case 0
  then show ?case by (subst load_loop.simps) simp
next
  case (Suc n)
  have ne: "dst \<noteq> word_at dst (Suc n)"
    using word_at_inj [of 0 "Suc n" dst] Suc.prems(1) by simp
  have "\<forall>j<n. \<forall>k<n. word_at (dst + 4) j \<noteq> word_at (src + 4) k"
    using Suc.prems(2) by (metis Suc_less_eq word_at_simps(2))
  with Suc.IH [of "dst + 4" "src + 4" "m(dst := m src)"] Suc.prems(1) obtain m' where
    run: "load_loop (src + 4) (dst + 4) (word_at dst (Suc n)) (m(dst := m src)) = Some m'"
    and copy: "\<forall>k<n. m' (word_at dst (Suc k)) = (m(dst := m src)) (word_at src (Suc k))"
    and keep: "\<forall>a. (\<forall>k<n. a \<noteq> word_at dst (Suc k)) \<longrightarrow> m' a = (m(dst := m src)) a"
    by (auto simp del: fun_upd_apply)
  have "m' (word_at dst k) = m (word_at src k)" if "k < Suc n" for k
  proof (cases k)
    case 0
    have "\<forall>k<n. dst \<noteq> word_at dst (Suc k)"
      using word_at_inj [of 0 _ dst] Suc.prems(1) by auto
    with keep 0 show ?thesis by simp
  next
    case (Suc i)
    have "word_at src (Suc i) \<noteq> dst" using Suc.prems(2) that Suc by (metis word_at_simps(1) zero_less_Suc)
    with copy that Suc show ?thesis by simp
  qed
  moreover have "m' a = m a" if "\<forall>k<Suc n. a \<noteq> word_at dst k" for a
  proof -
    have "a \<noteq> dst" "\<forall>k<n. a \<noteq> word_at dst (Suc k)" using that by (force, auto)
    with keep show ?thesis by simp
  qed
  ultimately show ?case using run ne by (subst load_loop.simps) auto
qed

text \<open>Loading a section of whole words whose two places do not overlap terminates, puts every
  word where it runs, and changes nothing else.\<close>

theorem alt_load_section_copies:
  assumes "n < 2 ^ 30" and "\<forall>j<n. \<forall>k<n. word_at dst j \<noteq> word_at src k"
  shows "\<exists>m'. alt_load_section src dst (word_at dst n) m = Some m' \<and>
    (\<forall>k<n. m' (word_at dst k) = m (word_at src k)) \<and>
    (\<forall>a. (\<forall>k<n. a \<noteq> word_at dst k) \<longrightarrow> m' a = m a)"
proof (cases "dst = src")
  case True
  then show ?thesis by (simp add: alt_load_section_def)
qed (simp add: alt_load_section_def load_loop_copies [OF assms])

theorem alt_load_section_copies_witness:
  "\<exists>m'. alt_load_section 0x100 0x200 0x208 (\<lambda>a. a + 1) = Some m' \<and> m' 0x204 = 0x105"
proof -
  have "word_at 0x200 j \<noteq> word_at 0x100 k" if "j < 2" "k < 2" for j k
    using that by (auto simp: word_at_def less_2_cases_iff)
  with alt_load_section_copies [of 2 "0x200" "0x100" "\<lambda>a. a + 1"] obtain m' where
    "alt_load_section 0x100 0x200 (word_at 0x200 2) (\<lambda>a. a + 1) = Some m'"
    and "\<forall>k<2. m' (word_at 0x200 k) = word_at 0x100 k + 1" by auto
  from this(1) spec [OF this(2), of 1] show ?thesis by (simp add: word_at_def)
qed

end
