(* ===== verification/Hal_Stdio.thy ===== *)
theory Hal_Stdio
  imports Soc_Bus
begin

text \<open>
  The two small \<open>printf\<close> implementations of the HAL: \<open>alt_printf.c\<close>, and the logging
  \<open>alt_log_printf.c\<close> (compiled when \<open>ALT_LOG_ENABLE\<close> is set) with its waiting transmitter.
  Formatting is the string of the characters passed to the transmitter, in order. \<open>None\<close> is
  a call whose arguments do not fit its format (undefined in C) or that never returns.
\<close>

section \<open>Arguments and digits\<close>

datatype va_arg = VaInt u32 | VaStr string

definition chr :: "u32 \<Rightarrow> char" where
  "chr v = char_of (unat v)"

section \<open>alt\_printf\<close>

text \<open>\<open>while (!(v & (0xF << digit_shift))) digit_shift -= 4;\<close>\<close>

partial_function (option) first_digit :: "u32 \<Rightarrow> int \<Rightarrow> int option" where
  "first_digit v digit_shift =
     (if v AND push_bit (nat digit_shift) 0xF = 0 then first_digit v (digit_shift - 4)
      else Some digit_shift)"

declare first_digit.simps [code]

text \<open>\<open>for (; digit_shift >= 0; digit_shift -= 4)\<close>\<close>

function print_digits :: "u32 \<Rightarrow> int \<Rightarrow> string" where
  "print_digits v digit_shift =
     (if digit_shift \<ge> 0
      then let digit = drop_bit (nat digit_shift) (v AND push_bit (nat digit_shift) 0xF);
               c = (if digit \<le> 9 then chr (48 + digit) else chr (97 + digit - 10))
           in c # print_digits v (digit_shift - 4)
      else [])"
  by pat_completeness auto
termination by (relation "measure (\<lambda>(v, s). nat (s + 4))") auto

declare print_digits.simps [simp del]

definition print_hex :: "u32 \<Rightarrow> string option" where
  "print_hex v = (if v = 0 then Some ''0'' else map_option (print_digits v) (first_digit v 28))"

fun alt_printf_loop :: "string \<Rightarrow> va_arg list \<Rightarrow> string \<Rightarrow> string option" where
  "alt_printf_loop [] args out = Some out"
| "alt_printf_loop (c # w) args out =
     (if c \<noteq> CHR ''%'' then alt_printf_loop w args (out @ [c])
      else case w of
        [] \<Rightarrow> Some out
      | c # w \<Rightarrow>
          if c = CHR ''%'' then alt_printf_loop w args (out @ [c])
          else if c = CHR ''c'' then
            (case args of VaInt v # args \<Rightarrow> alt_printf_loop w args (out @ [chr v]) | _ \<Rightarrow> None)
          else if c = CHR ''x'' then
            (case args of
               VaInt v # args \<Rightarrow>
                 Option.bind (print_hex v) (\<lambda>ds. alt_printf_loop w args (out @ ds))
             | _ \<Rightarrow> None)
          else if c = CHR ''s'' then
            (case args of VaStr s # args \<Rightarrow> alt_printf_loop w args (out @ s) | _ \<Rightarrow> None)
          else alt_printf_loop w args out)"

definition alt_printf :: "string \<Rightarrow> va_arg list \<Rightarrow> string option" where
  "alt_printf fmt args = alt_printf_loop fmt args []"

section \<open>The logging printf\<close>

datatype pf_state = PfChars | PfFirstFmtChar | PfOtherFmtChar

text \<open>The variables of a conversion; the widths are numbers, far from the bounds of \<open>int\<close>.\<close>

record pf =
  fmtLeadingZero :: bool
  fmtBeforeDecimal :: int
  fmtAfterDecimal :: int
  fmtLong :: bool
  fmtBase :: u32
  fmtSigned :: bool
  fmtCase :: bool

definition pf_zero :: pf where
  "pf_zero = \<lparr>fmtLeadingZero = False, fmtBeforeDecimal = 0, fmtAfterDecimal = 0, fmtLong = False,
     fmtBase = 0, fmtSigned = False, fmtCase = False\<rparr>"

definition pf_percent :: pf where
  "pf_percent = \<lparr>fmtLeadingZero = False, fmtBeforeDecimal = - 1, fmtAfterDecimal = - 1,
     fmtLong = False, fmtBase = 10, fmtSigned = True, fmtCase = False\<rparr>"

definition repchar :: "char \<Rightarrow> int \<Rightarrow> string" where
  "repchar c r = replicate (nat r) c"

text \<open>\<open>while ((vShrink = vShrink / fmtBase) > 0) { digitCount++; p *= fmtBase; }\<close>\<close>

partial_function (option) count_digits :: "u32 \<Rightarrow> u32 \<Rightarrow> u32 \<Rightarrow> int \<Rightarrow> (u32 \<times> int) option" where
  "count_digits b vShrink p digitCount =
     (let vShrink = vShrink div b
      in if vShrink > 0 then count_digits b vShrink (p * b) (digitCount + 1)
         else Some (p, digitCount))"

text \<open>\<open>while (p)\<close>: the numbery parts.\<close>

partial_function (option) put_digits :: "u32 \<Rightarrow> bool \<Rightarrow> u32 \<Rightarrow> u32 \<Rightarrow> string \<Rightarrow> string option" where
  "put_digits b cs p v out =
     (if p = 0 then Some out
      else let d = (ucast (v div p) :: u8) + 48;
               d = (if d > 57 then d + ((if cs then 65 else 97) - 48 - 10) else d)
           in put_digits b cs (p div b) (v mod p) (out @ [char_of (unat d)]))"

declare count_digits.simps [code] put_digits.simps [code]

definition integer_print :: "pf \<Rightarrow> u32 \<Rightarrow> string option" where
  "integer_print f v =
     (let neg = (fmtSigned f \<and> v AND 0x80000000 \<noteq> 0);
          v = (if neg then NOT v + 1 else v)
      in Option.bind (count_digits (fmtBase f) v 1 1) (\<lambda>(p, digitCount).
         let before = fmtBeforeDecimal f - digitCount;
             lead = (if fmtLeadingZero f
                then (if neg then ''-'' @ repchar CHR ''0'' (before - 1) else repchar CHR ''0'' before)
                else (if neg then repchar CHR '' '' (before - 1) @ ''-'' else repchar CHR '' '' before))
         in put_digits (fmtBase f) (fmtCase f) p v lead))"

definition digit_value :: "char \<Rightarrow> int" where
  "digit_value c = int (of_char c) - 48"

definition is_digit :: "char \<Rightarrow> bool" where
  "is_digit c \<longleftrightarrow> (48 :: nat) \<le> of_char c \<and> of_char c \<le> (57 :: nat)"

text \<open>The label \<open>otherFmtChar\<close>: the new state, what it prints, and the arguments left.\<close>

definition other_fmt_char ::
  "char \<Rightarrow> pf \<Rightarrow> va_arg list \<Rightarrow> (pf_state \<times> pf \<times> va_arg list \<times> string) option" where
  "other_fmt_char c f args =
     (let int_print = (\<lambda>f. case args of
            VaInt v # args \<Rightarrow> map_option (\<lambda>ds. (PfChars, f, args, ds)) (integer_print f v)
          | _ \<Rightarrow> None)
      in if c = CHR ''.'' then Some (PfOtherFmtChar, f\<lparr>fmtAfterDecimal := 0\<rparr>, args, [])
         else if is_digit c then
           Some (PfOtherFmtChar,
             (if fmtAfterDecimal f < 0
              then f\<lparr>fmtBeforeDecimal :=
                (if fmtBeforeDecimal f < 0 then 0 else fmtBeforeDecimal f * 10) + digit_value c\<rparr>
              else f\<lparr>fmtAfterDecimal := fmtAfterDecimal f * 10 + digit_value c\<rparr>), args, [])
         else if c = CHR ''l'' then Some (PfOtherFmtChar, f\<lparr>fmtLong := True\<rparr>, args, [])
         else if c = CHR ''d'' \<or> c = CHR ''i'' then int_print f
         else if c = CHR ''u'' then int_print (f\<lparr>fmtSigned := False\<rparr>)
         else if c = CHR ''o'' then int_print (f\<lparr>fmtSigned := False, fmtBase := 8\<rparr>)
         else if c = CHR ''x'' then int_print (f\<lparr>fmtSigned := False, fmtBase := 16\<rparr>)
         else if c = CHR ''X'' then
           int_print (f\<lparr>fmtSigned := False, fmtBase := 16, fmtCase := True\<rparr>)
         else if c = CHR ''c'' then
           (case args of
              VaInt v # args \<Rightarrow> Some (PfChars, f, args, repchar CHR '' '' (fmtBeforeDecimal f - 1) @ [chr v])
            | _ \<Rightarrow> None)
         else if c = CHR ''s'' then
           (case args of
              VaStr s # args \<Rightarrow>
                Some (PfChars, f, args, repchar CHR '' '' (fmtBeforeDecimal f - int (length s)) @ s)
            | _ \<Rightarrow> None)
         else Some (PfChars, f, args, []))"

fun private_printf_loop ::
  "string \<Rightarrow> pf_state \<Rightarrow> pf \<Rightarrow> va_arg list \<Rightarrow> string \<Rightarrow> string option" where
  "private_printf_loop [] state f args out = Some out"
| "private_printf_loop (c # w) PfChars f args out =
     (if c = CHR ''%'' then private_printf_loop w PfFirstFmtChar pf_percent args out
      else private_printf_loop w PfChars f args (out @ [c]))"
| "private_printf_loop (c # w) PfFirstFmtChar f args out =
     (if c = CHR ''0'' then private_printf_loop w PfOtherFmtChar (f\<lparr>fmtLeadingZero := True\<rparr>) args out
      else if c = CHR ''%'' then private_printf_loop w PfChars f args (out @ [c])
      else Option.bind (other_fmt_char c f args)
        (\<lambda>(state, f, args, cs). private_printf_loop w state f args (out @ cs)))"
| "private_printf_loop (c # w) PfOtherFmtChar f args out =
     Option.bind (other_fmt_char c f args)
       (\<lambda>(state, f, args, cs). private_printf_loop w state f args (out @ cs))"

definition alt_log_private_printf :: "string \<Rightarrow> va_arg list \<Rightarrow> string option" where
  "alt_log_private_printf fmt args = private_printf_loop fmt PfChars pf_zero args []"

text \<open>The transmitter waits until the port's status shows room, then writes the character. The
  port is the JTAG UART: status register 1, mask WSPACE, data register 0.\<close>

definition ALT_LOG_PRINT_MSK :: u32 where "ALT_LOG_PRINT_MSK = 0xFFFF0000"

definition alt_log_txchar :: "'h bus \<Rightarrow> u32 \<Rightarrow> char \<Rightarrow> 'h machine \<Rightarrow> 'h machine option" where
  "alt_log_txchar B base c s = map_option
     (\<lambda>(v, s). IOWR B base 0 (scast (of_char c :: u8)) s)
     (spin_while (IORD B base 1) (\<lambda>v. v AND ALT_LOG_PRINT_MSK = 0) s)"

fun tx_all :: "'h bus \<Rightarrow> u32 \<Rightarrow> string \<Rightarrow> 'h machine \<Rightarrow> 'h machine option" where
  "tx_all B base [] s = Some s"
| "tx_all B base (c # cs) s = Option.bind (alt_log_txchar B base c s) (tx_all B base cs)"

definition alt_log_printf_proc ::
  "'h bus \<Rightarrow> u32 \<Rightarrow> string \<Rightarrow> va_arg list \<Rightarrow> 'h machine \<Rightarrow> (int \<times> 'h machine) option" where
  "alt_log_printf_proc B base fmt args s =
     Option.bind (alt_log_private_printf fmt args) (\<lambda>cs. map_option (Pair 0) (tx_all B base cs s))"

section \<open>Numerals\<close>

text \<open>The digits of a number in a base, the most significant one first.\<close>

fun digits :: "nat \<Rightarrow> nat \<Rightarrow> nat list" where
  "digits b n = (if n < b \<or> b < 2 then [n] else digits b (n div b) @ [n mod b])"

declare digits.simps [simp del]

definition digit_char :: "bool \<Rightarrow> nat \<Rightarrow> char" where
  "digit_char cs d = (if d \<le> 9 then char_of (48 + d) else char_of ((if cs then 65 else 97) + (d - 10)))"

definition numeral_string :: "bool \<Rightarrow> nat \<Rightarrow> nat \<Rightarrow> string" where
  "numeral_string cs b n = map (digit_char cs) (digits b n)"

text \<open>They are a positional notation without leading zeros.\<close>

lemma digits_value: "foldl (\<lambda>a d. a * b + d) 0 (digits b n) = n"
proof (induction b n rule: digits.induct)
  case (1 b n)
  then show ?case by (cases "n < b \<or> b < 2") (simp_all add: digits.simps [of b n])
qed

lemma digits_bound: "2 \<le> b \<Longrightarrow> d \<in> set (digits b n) \<Longrightarrow> d < b"
proof (induction b n rule: digits.induct)
  case (1 b n)
  then show ?case by (cases "n < b") (auto simp: digits.simps [of b n])
qed

lemma digits_not_Nil [simp]: "digits b n \<noteq> []"
  by (subst digits.simps) simp

lemma digits_hd: "n \<noteq> 0 \<Longrightarrow> hd (digits b n) \<noteq> 0"
proof (induction b n rule: digits.induct)
  case (1 b n)
  show ?case
  proof (cases "n < b \<or> b < 2")
    case False
    then have "n div b \<noteq> 0" by (simp add: div_eq_0_iff)
    with 1 False show ?thesis by (subst digits.simps) (simp add: hd_append)
  qed (use 1 in \<open>simp add: digits.simps\<close>)
qed

lemma digits_length:
  "2 \<le> b \<Longrightarrow> n < b ^ length (digits b n) \<and> (n = 0 \<or> b ^ (length (digits b n) - 1) \<le> n)"
proof (induction b n rule: digits.induct)
  case (1 b n)
  show ?case
  proof (cases "n < b")
    case True
    with 1 show ?thesis by (auto simp: digits.simps [of b n])
  next
    case False
    with 1 have IH: "n div b < b ^ length (digits b (n div b))"
      "b ^ (length (digits b (n div b)) - 1) \<le> n div b" by (auto simp: div_eq_0_iff)
    have l: "length (digits b n) = Suc (length (digits b (n div b)))"
      using False 1 by (subst digits.simps) simp
    have "n < b * b ^ length (digits b (n div b))"
      using IH(1) 1(2) by (simp add: div_less_iff_less_mult mult.commute)
    moreover have "b * b ^ (length (digits b (n div b)) - 1) \<le> n"
      using IH(2) 1(2) by (simp add: less_eq_div_iff_mult_less_eq mult.commute)
    moreover have "b * b ^ (length (digits b (n div b)) - 1) = b ^ length (digits b (n div b))"
      by (cases "digits b (n div b)") auto
    ultimately show ?thesis unfolding l by simp
  qed
qed

lemma digits_length_eq:
  assumes "2 \<le> b" and "b ^ k \<le> n" and "n < b ^ Suc k"
  shows "length (digits b n) = Suc k"
proof -
  define l where "l = length (digits b n)"
  have l: "0 < l" by (simp add: l_def)
  have "n \<noteq> 0" using assms by (metis le_zero_eq not_numeral_le_zero power_not_zero)
  with digits_length [OF assms(1), of n] have "n < b ^ l" "b ^ (l - 1) \<le> n" by (auto simp: l_def)
  with assms have "b ^ k < b ^ l" "b ^ (l - 1) < b ^ Suc k" by linarith+
  with assms(1) have "k < l" "l - 1 < Suc k"
    using power_strict_increasing_iff [of b] power_less_imp_less_exp [of b "l - 1" "Suc k"] by auto
  with l show ?thesis by (simp add: l_def)
qed

text \<open>The \<open>k\<close> lowest digits.\<close>

fun fixed :: "nat \<Rightarrow> nat \<Rightarrow> nat \<Rightarrow> nat list" where
  "fixed b 0 n = []"
| "fixed b (Suc k) n = (n div b ^ k) # fixed b k (n mod b ^ k)"

lemma length_fixed [simp]: "length (fixed b k n) = k"
  by (induction k arbitrary: n) simp_all

lemma fixed_snoc: "fixed b (Suc k) n = fixed b k (n div b) @ [n mod b]" if "n < b ^ Suc k"
  using that
proof (induction k arbitrary: n)
  case (Suc k)
  have b: "0 < b" using Suc.prems by (cases b) auto
  then have "n mod b ^ Suc k < b ^ Suc k" by simp
  note IH = Suc.IH [OF this]
  have "n mod b ^ Suc k div b = n div b mod b ^ k"
    using b by (simp add: mod_mult2_eq)
  moreover have "n mod b ^ Suc k mod b = n mod b" by (simp add: mod_mod_cancel)
  moreover have "n div b ^ Suc k = n div b div b ^ k" by (simp add: div_mult2_eq)
  moreover have "fixed b (Suc (Suc k)) n = n div b ^ Suc k # fixed b (Suc k) (n mod b ^ Suc k)"
    by (simp only: fixed.simps)
  ultimately show ?case unfolding IH by simp
qed simp

lemma digits_fixed: "2 \<le> b \<Longrightarrow> digits b n = fixed b (length (digits b n)) n"
proof (induction b n rule: digits.induct)
  case (1 b n)
  show ?case
  proof (cases "n < b")
    case True
    with 1 show ?thesis by (simp add: digits.simps [of b n])
  next
    case False
    with 1(2) have d: "digits b n = digits b (n div b) @ [n mod b]" by (subst digits.simps) simp
    then have l: "length (digits b n) = Suc (length (digits b (n div b)))" by simp
    with digits_length [OF 1(2), of n] have "n < b ^ Suc (length (digits b (n div b)))" by simp
    from fixed_snoc [OF this] show ?thesis
      using 1 False unfolding l by (simp add: d)
  qed
qed

section \<open>The loops print numerals\<close>

lemma count_digits_eq:
  assumes "2 \<le> unat b" and "unat p * unat b ^ (length (digits (unat b) (unat v)) - 1) < 2 ^ 32"
  shows "\<exists>q. count_digits b v p c = Some (q, c + int (length (digits (unat b) (unat v))) - 1) \<and>
    unat q = unat p * unat b ^ (length (digits (unat b) (unat v)) - 1)"
  using assms(2)
proof (induction "length (digits (unat b) (unat v))" arbitrary: v p c rule: less_induct)
  case less
  have ud: "unat (v div b) = unat v div unat b" by (simp add: unat_div_distrib)
  show ?case
  proof (cases "unat v < unat b")
    case True
    then have "v div b = 0" by (simp add: unat_eq_0 [symmetric] ud)
    with True show ?thesis
      by (subst count_digits.simps) (simp add: digits.simps [of "unat b" "unat v"] Let_def)
  next
    case False
    with assms(1) have d: "digits (unat b) (unat v) = digits (unat b) (unat (v div b)) @ [unat v mod unat b]"
      unfolding ud by (subst digits.simps) simp
    define l where "l = length (digits (unat b) (unat (v div b))) - 1"
    have l: "length (digits (unat b) (unat (v div b))) = Suc l" unfolding l_def
      by (cases "digits (unat b) (unat (v div b))") auto
    have pos: "0 < v div b"
      using False assms(1) ud by (metis div_eq_0_iff gr0I neq0_conv not_numeral_le_zero unat_0 word_gt_0 word_unat_eq_iff)
    have bound: "unat p * unat b * unat b ^ l < 2 ^ 32" using less.prems unfolding d by (simp add: l ac_simps)
    have "unat p * unat b \<le> unat p * unat b * unat b ^ l" using assms(1) by simp
    with bound have "unat p * unat b < 2 ^ 32" by linarith
    then have up: "unat (p * b) = unat p * unat b" by (simp add: unat_word_ariths)
    have "\<exists>q. count_digits b (v div b) (p * b) (c + 1) = Some (q, c + 1 + int (Suc l) - 1) \<and>
      unat q = unat (p * b) * unat b ^ l"
      using less.hyps [of "v div b" "p * b" "c + 1"] bound l unfolding d up by simp
    then show ?thesis using pos unfolding d up
      by (subst count_digits.simps) (auto simp: l Let_def)
  qed
qed

definition digit_byte :: "bool \<Rightarrow> u32 \<Rightarrow> char" where
  "digit_byte cs d = (let d = (ucast d :: u8) + 48;
     d = (if d > 57 then d + ((if cs then 65 else 97) - 48 - 10) else d) in char_of (unat d))"

text \<open>The sixteen values of a digit.\<close>

lemma sixteen:
  assumes "unat (d :: u32) < 16"
  obtains "d = 0" | "d = 1" | "d = 2" | "d = 3" | "d = 4" | "d = 5" | "d = 6" | "d = 7" | "d = 8"
    | "d = 9" | "d = 10" | "d = 11" | "d = 12" | "d = 13" | "d = 14" | "d = 15"
proof -
  define n where "n = unat d"
  have d: "d = of_nat n" by (simp add: n_def)
  have "n < 16" using assms by (simp only: n_def)
  then have "n \<in> set [0..<16]" by simp
  moreover have "[0..<16] = [0, 1, 2, 3, 4, 5, 6, 7, 8, 9, 10, 11, 12, 13, 14, 15]"
    by (simp add: upt_rec)
  ultimately have "n \<in> set [0, 1, 2, 3, 4, 5, 6, 7, 8, 9, 10, 11, 12, 13, 14, 15]" by (simp only:)
  then show ?thesis unfolding d by (auto simp: d intro: that)
qed

lemma digit_byte_eq: "unat d < 16 \<Longrightarrow> digit_byte cs d = digit_char cs (unat d)"
  by (erule sixteen) (simp_all add: digit_byte_def digit_char_def)

lemma hex_char_eq:
  "unat d < 16 \<Longrightarrow> (if d \<le> 9 then chr (48 + d) else chr (97 + d - 10)) = digit_char False (unat d)"
  by (erule sixteen) (simp_all add: chr_def digit_char_def)

lemma put_digits_step:
  "put_digits b cs p v out =
     (if p = 0 then Some out
      else put_digits b cs (p div b) (v mod p) (out @ [digit_byte cs (v div p)]))"
  by (subst put_digits.simps) (simp add: digit_byte_def Let_def)

lemma put_digits_eq:
  assumes "2 \<le> unat b" and "unat b \<le> 16" and "unat p = unat b ^ k" and "unat v < unat b ^ Suc k"
  shows "put_digits b cs p v out = Some (out @ map (digit_char cs) (fixed (unat b) (Suc k) (unat v)))"
  using assms(3,4)
proof (induction k arbitrary: p v out)
  case 0
  have "p = 1" using "0.prems" by (simp add: word_unat_eq_iff)
  moreover have "(1 :: u32) div b = 0" using assms(1) by (simp add: word_unat_eq_iff unat_div_distrib)
  ultimately show ?case
    using "0.prems" assms(2) digit_byte_eq [of v]
    by (simp add: put_digits_step [of b cs 1] put_digits_step [of b cs 0])
next
  case (Suc k)
  have p: "p \<noteq> 0" using Suc.prems(1) assms(1) by (auto simp: word_unat_eq_iff)
  have "unat (p div b) = unat b ^ k"
    using Suc.prems(1) assms(1) by (simp add: unat_div_distrib)
  moreover have m: "unat (v mod p) = unat v mod unat b ^ Suc k"
    using Suc.prems(1) by (simp only: unat_mod_distrib)
  moreover have "unat v mod unat b ^ Suc k < unat b ^ Suc k" using assms(1) by simp
  ultimately have IH: "put_digits b cs (p div b) (v mod p) o' =
    Some (o' @ map (digit_char cs) (fixed (unat b) (Suc k) (unat v mod unat b ^ Suc k)))" for o'
    using Suc.IH [of "p div b" "v mod p" o'] by simp
  have d: "unat (v div p) = unat v div unat b ^ Suc k"
    using Suc.prems(1) by (simp only: unat_div_distrib)
  have "unat v < unat b * unat b ^ Suc k" using Suc.prems(2) by simp
  then have "unat v div unat b ^ Suc k < unat b" by (simp add: less_mult_imp_div_less mult.commute)
  with d assms(2) have "digit_byte cs (v div p) = digit_char cs (unat v div unat b ^ Suc k)"
    using digit_byte_eq [of "v div p" cs] by simp
  then show ?case
    unfolding put_digits_step [of b cs p] if_not_P [OF p] IH by simp
qed

text \<open>Both loops together print the numeral of a value.\<close>

lemma count_and_put:
  assumes "2 \<le> unat b" and "unat b \<le> 16"
  shows "\<exists>p. count_digits b v 1 1 = Some (p, int (length (digits (unat b) (unat v)))) \<and>
    (\<forall>out. put_digits b cs p v out = Some (out @ numeral_string cs (unat b) (unat v)))"
proof -
  define l where "l = length (digits (unat b) (unat v)) - 1"
  have l: "length (digits (unat b) (unat v)) = Suc l"
    unfolding l_def by (cases "digits (unat b) (unat v)") auto
  have "unat b ^ l < 2 ^ 32"
  proof (cases "unat v = 0")
    case True
    with assms(1) l have "l = 0" by (simp add: digits.simps)
    then show ?thesis by simp
  next
    case False
    with digits_length [OF assms(1), of "unat v"] l have "unat b ^ l \<le> unat v" by simp
    with unat_u32_bound [of v] show ?thesis by linarith
  qed
  with count_digits_eq [OF assms(1), of 1 v 1] obtain p where
    p: "count_digits b v 1 1 = Some (p, int (Suc l))" "unat p = unat b ^ l" by (auto simp: l)
  moreover have "unat v < unat b ^ Suc l" using digits_length [OF assms(1), of "unat v"] l by simp
  ultimately show ?thesis
    using put_digits_eq [OF assms p(2), of v cs] digits_fixed [OF assms(1), of "unat v"]
    by (simp add: numeral_string_def l)
qed

text \<open>The hexadecimal printing of \<open>alt_printf\<close>, nibble by nibble.\<close>

lemma nibble:
  fixes v :: u32
  assumes "k \<le> 7"
  shows "unat (drop_bit (4 * k) (v AND push_bit (4 * k) 0xF)) = unat v div 16 ^ k mod 16"
    and "v AND push_bit (4 * k) 0xF = 0 \<longleftrightarrow> unat v div 16 ^ k mod 16 = 0"
proof -
  have F: "(0xF :: u32) = mask 4" by (simp add: mask_eq_exp_minus_1)
  have eq: "drop_bit (4 * k) (v AND push_bit (4 * k) 0xF) = take_bit 4 (drop_bit (4 * k) v)"
    unfolding F using assms by (intro bit_word_eqI) (auto simp: bit_simps)
  have u: "unat (take_bit 4 (drop_bit (4 * k) v)) = unat v div 16 ^ k mod 16"
    by (simp only: unsigned_take_bit_eq unsigned_drop_bit_eq)
      (use unat_u32_bound [of v] in \<open>simp add: take_bit_eq_mod drop_bit_eq_div power_mult\<close>)
  with eq show "unat (drop_bit (4 * k) (v AND push_bit (4 * k) 0xF)) = unat v div 16 ^ k mod 16"
    by simp
  have "v AND push_bit (4 * k) 0xF = 0 \<longleftrightarrow> drop_bit (4 * k) (v AND push_bit (4 * k) 0xF) = 0"
  proof
    assume z: "drop_bit (4 * k) (v AND push_bit (4 * k) 0xF) = 0"
    show "v AND push_bit (4 * k) 0xF = 0"
    proof (rule bit_word_eqI)
      fix n
      show "bit (v AND push_bit (4 * k) 0xF) n = bit (0 :: u32) n" if "n < LENGTH(32)"
      proof (cases "4 * k \<le> n")
        case True
        have "bit (drop_bit (4 * k) (v AND push_bit (4 * k) 0xF)) (n - 4 * k) =
            bit (v AND push_bit (4 * k) 0xF) n"
          unfolding bit_drop_bit_eq comp_def using True by simp
        with z show ?thesis by simp
      qed (simp add: bit_simps)
    qed
  qed simp
  with eq u show "v AND push_bit (4 * k) 0xF = 0 \<longleftrightarrow> unat v div 16 ^ k mod 16 = 0"
    by (metis unat_eq_0)
qed

lemma first_digit_eq:
  assumes "k \<le> 7" and "unat v < 16 ^ Suc k" and "v \<noteq> 0"
  shows "first_digit v (4 * int k) = Some (4 * (int (length (digits 16 (unat v))) - 1))"
  using assms
proof (induction k)
  case 0
  then have "unat v < 16" "unat v \<noteq> 0" by (auto simp: unat_eq_0)
  with nibble(2) [of 0 v] show ?case
    by (subst first_digit.simps) (simp add: digits.simps)
next
  case (Suc k)
  have s: "nat (4 * int (Suc k)) = 4 * Suc k" by simp
  show ?case
  proof (cases "unat v div 16 ^ Suc k mod 16 = 0")
    case True
    with Suc.prems(2) have "unat v div 16 ^ Suc k = 0"
      by (simp add: less_mult_imp_div_less mult.commute)
    then have "unat v < 16 ^ Suc k" by (simp add: div_eq_0_iff)
    with Suc have "first_digit v (4 * int k) = Some (4 * (int (length (digits 16 (unat v))) - 1))"
      by simp
    moreover have "4 * int (Suc k) - 4 = 4 * int k" by simp
    ultimately show ?thesis
      using nibble(2) [OF Suc.prems(1), of v] True
      unfolding first_digit.simps [of v "4 * int (Suc k)"] s by presburger
  next
    case False
    then have "16 ^ Suc k \<le> unat v" by (intro leI) (auto simp del: power_Suc)
    from digits_length_eq [OF _ this Suc.prems(2)] show ?thesis
      using nibble(2) [OF Suc.prems(1), of v] False
      unfolding first_digit.simps [of v "4 * int (Suc k)"] s by simp
  qed
qed

lemma print_digits_eq:
  "k \<le> 7 \<Longrightarrow> print_digits v (4 * int k) = map (digit_char False) (fixed 16 (Suc k) (unat v mod 16 ^ Suc k))"
proof (induction k)
  case 0
  have "unat (v AND 0xF) = unat v mod 16" using nibble(1) [of 0 v] by simp
  then show ?case using hex_char_eq [of "v AND 0xF"]
    by (simp add: print_digits.simps [of v 0] print_digits.simps [of v "- 4"] Let_def)
next
  case (Suc k)
  define d where "d = drop_bit (4 * Suc k) (v AND push_bit (4 * Suc k) 0xF)"
  have s: "nat (4 * int (Suc k)) = 4 * Suc k" "4 * int (Suc k) - 4 = 4 * int k" "0 \<le> 4 * int (Suc k)"
    by simp_all
  have "print_digits v (4 * int (Suc k)) =
      (if d \<le> 9 then chr (48 + d) else chr (97 + d - 10)) # print_digits v (4 * int k)"
    unfolding print_digits.simps [of v "4 * int (Suc k)"] s d_def using s(3) by (simp only: Let_def if_True)
  moreover have d: "unat d = unat v div 16 ^ Suc k mod 16" using nibble(1) [OF Suc.prems, of v]
    by (simp only: d_def)
  moreover have "unat v mod 16 ^ Suc (Suc k) div 16 ^ Suc k = unat v div 16 ^ Suc k mod 16"
    using mod_mult2_eq [of "unat v" "16 ^ Suc k" 16] by (simp add: mult.commute)
  moreover have "unat v mod 16 ^ Suc (Suc k) mod 16 ^ Suc k = unat v mod 16 ^ Suc k"
    by (intro mod_mod_cancel) simp
  ultimately show ?case using Suc hex_char_eq [of d] by simp
qed

lemma print_hex_eq: "print_hex v = Some (numeral_string False 16 (unat v))"
proof (cases "v = 0")
  case True
  have "digit_char False 0 = CHR ''0''" by code_simp
  with True show ?thesis by (simp add: print_hex_def numeral_string_def digits.simps)
next
  case False
  define l where "l = length (digits 16 (unat v)) - 1"
  have l: "length (digits 16 (unat v)) = Suc l"
    unfolding l_def by (cases "digits 16 (unat v)") auto
  have b: "unat v < 16 ^ Suc l" "16 ^ l \<le> unat v"
    using digits_length [of 16 "unat v"] False unfolding l by (simp_all add: unat_eq_0)
  have "(16 :: nat) ^ l < 16 ^ 8" using b(2) unat_u32_bound [of v] by simp
  then have "l \<le> 7" by (subst (asm) power_strict_increasing_iff) simp_all
  have "first_digit v 28 = Some (4 * int l)"
    using first_digit_eq [of 7 v] unat_u32_bound [of v] False by (simp add: l)
  then show ?thesis
    using False print_digits_eq [OF \<open>l \<le> 7\<close>, of v] b(1) digits_fixed [of 16 "unat v"]
    by (simp add: print_hex_def numeral_string_def l)
qed

section \<open>What the formats mean\<close>

text \<open>A format of \<open>alt_printf\<close> in pieces: ordinary characters, \<open>%%\<close>, \<open>%x\<close>, \<open>%c\<close> and \<open>%s\<close>.\<close>

datatype piece = Ordinary char | Percent | Hex u32 | Character u32 | String string

fun piece_ok :: "piece \<Rightarrow> bool" where
  "piece_ok (Ordinary c) = (c \<noteq> CHR ''%'')"
| "piece_ok _ = True"

fun piece_format :: "piece \<Rightarrow> string" where
  "piece_format (Ordinary c) = [c]"
| "piece_format Percent = ''%%''"
| "piece_format (Hex v) = ''%x''"
| "piece_format (Character v) = ''%c''"
| "piece_format (String s) = ''%s''"

fun piece_args :: "piece \<Rightarrow> va_arg list" where
  "piece_args (Hex v) = [VaInt v]"
| "piece_args (Character v) = [VaInt v]"
| "piece_args (String s) = [VaStr s]"
| "piece_args _ = []"

fun piece_text :: "piece \<Rightarrow> string" where
  "piece_text (Ordinary c) = [c]"
| "piece_text Percent = ''%''"
| "piece_text (Hex v) = numeral_string False 16 (unat v)"
| "piece_text (Character v) = [chr v]"
| "piece_text (String s) = s"

lemma alt_printf_loop_pieces:
  "list_all piece_ok ps \<Longrightarrow>
     alt_printf_loop (concat (map piece_format ps)) (concat (map piece_args ps)) out =
       Some (out @ concat (map piece_text ps))"
proof (induction ps arbitrary: out)
  case (Cons p ps)
  then show ?case by (cases p) (simp_all add: print_hex_eq)
qed simp

text \<open>An integer of the logging format: conversion letter, sign and digits, and the justified text.\<close>

datatype conversion = Dec | Unsigned | Octal | Hex_lower | Hex_upper

fun letter :: "conversion \<Rightarrow> char" where
  "letter Dec = CHR ''d''"
| "letter Unsigned = CHR ''u''"
| "letter Octal = CHR ''o''"
| "letter Hex_lower = CHR ''x''"
| "letter Hex_upper = CHR ''X''"

fun sign_and_digits :: "conversion \<Rightarrow> u32 \<Rightarrow> string \<times> string" where
  "sign_and_digits Dec v =
     (if sint v < 0 then ''-'' else [], numeral_string False 10 (nat \<bar>sint v\<bar>))"
| "sign_and_digits Unsigned v = ([], numeral_string False 10 (unat v))"
| "sign_and_digits Octal v = ([], numeral_string False 8 (unat v))"
| "sign_and_digits Hex_lower v = ([], numeral_string False 16 (unat v))"
| "sign_and_digits Hex_upper v = ([], numeral_string True 16 (unat v))"

definition justify :: "bool \<Rightarrow> nat \<Rightarrow> string \<times> string \<Rightarrow> string" where
  "justify zero width sd = (case sd of (sg, ds) \<Rightarrow>
     let k = width - (length sg + length ds)
     in if zero then sg @ replicate k CHR ''0'' @ ds else replicate k CHR '' '' @ sg @ ds)"

definition width_text :: "nat \<Rightarrow> string" where
  "width_text n = (if n = 0 then [] else numeral_string False 10 n)"

lemma and_msb: "v AND 0x80000000 \<noteq> 0 \<longleftrightarrow> sint v < 0" for v :: u32
proof -
  have "v AND 0x80000000 \<noteq> 0 \<longleftrightarrow> bit v 31"
    using bit_iff_and_push_bit_not_eq_0 [of v 31] by simp
  also have "\<dots> \<longleftrightarrow> bit (unat v) 31" by (simp add: bit_unsigned_iff)
  also have "\<dots> \<longleftrightarrow> odd (unat v div 2 ^ 31)" by (rule bit_iff_odd)
  also have "\<dots> \<longleftrightarrow> 2 ^ 31 \<le> unat v"
  proof
    assume "2 ^ 31 \<le> unat v"
    with unat_u32_bound [of v] have "unat v div 2 ^ 31 = 1" by simp
    then show "odd (unat v div 2 ^ 31)" by simp
  qed (metis div_less dvd_0_right leI)
  finally show ?thesis by (simp add: sint_u32_less_0)
qed

lemma integer_print_eq:
  assumes "fmtBase f = 8 \<or> fmtBase f = 10 \<or> fmtBase f = 16"
  shows "integer_print f v =
    (let sd = (if fmtSigned f
         then (if sint v < 0 then ''-'' else [], numeral_string (fmtCase f) (unat (fmtBase f)) (nat \<bar>sint v\<bar>))
         else ([], numeral_string (fmtCase f) (unat (fmtBase f)) (unat v)))
     in Some (justify (fmtLeadingZero f) (nat (fmtBeforeDecimal f)) sd))"
proof -
  define neg where "neg = (fmtSigned f \<and> sint v < 0)"
  define w where "w = (if neg then NOT v + 1 else v)"
  have b: "2 \<le> unat (fmtBase f)" "unat (fmtBase f) \<le> 16" using assms by auto
  have w: "unat w = (if fmtSigned f then nat \<bar>sint v\<bar> else unat v)"
  proof (cases neg)
    case True
    then have n: "sint v < 0" "fmtSigned f" by (auto simp: neg_def)
    then have v: "2 ^ 31 \<le> unat v" by (simp add: sint_u32_less_0)
    have "w = - v" using True by (simp add: w_def minus_eq_not_plus_1)
    then have "unat (w + v) = 0" by simp
    then have "(unat w + unat v) mod 2 ^ 32 = 0" by (simp add: unat_word_ariths)
    then obtain q where q: "unat w + unat v = 2 ^ 32 * q" by auto
    with v unat_u32_bound [of v] unat_u32_bound [of w] have "q = 1" by simp
    with q have "unat w = 2 ^ 32 - unat v" by simp
    moreover have "nat \<bar>int k - 2 ^ 32\<bar> = 2 ^ 32 - k" if "k < 2 ^ 32" for k using that by simp
    then have "nat \<bar>sint v\<bar> = 2 ^ 32 - unat v"
      unfolding sint_u32_neg [OF n(1)] using unat_u32_bound by blast
    ultimately show ?thesis using n by simp
  next
    case False
    then show ?thesis using sint_u32_less_0 [of v] sint_u32_small [of v] by (auto simp: neg_def w_def)
  qed
  obtain p where p: "count_digits (fmtBase f) w 1 1 = Some (p, int (length (digits (unat (fmtBase f)) (unat w))))"
    and put: "\<And>out. put_digits (fmtBase f) (fmtCase f) p w out =
      Some (out @ numeral_string (fmtCase f) (unat (fmtBase f)) (unat w))"
    using count_and_put [OF b, of w "fmtCase f"] by blast
  show ?thesis
    unfolding integer_print_def and_msb neg_def [symmetric] Let_def w_def [symmetric] p bind.bind_lunit
      prod.case put
    using w by (auto simp: justify_def repchar_def numeral_string_def neg_def Let_def nat_diff_distrib')
qed

text \<open>The characters of a width are read as its number.\<close>

lemma digit_char_decimal:
  assumes "d < 10"
  shows "is_digit (digit_char False d)" "digit_value (digit_char False d) = int d"
    "digit_char False d \<noteq> CHR ''.''" "digit_char False d \<noteq> CHR ''%''"
    "digit_char False d = CHR ''0'' \<longleftrightarrow> d = 0"
proof -
  have c: "of_char (digit_char False d) = (48 + d :: nat)" using assms by (simp add: digit_char_def)
  then show "is_digit (digit_char False d)" using assms by (simp add: is_digit_def)
  show "digit_value (digit_char False d) = int d" using c by (simp add: digit_value_def)
  show "digit_char False d \<noteq> CHR ''.''" "digit_char False d \<noteq> CHR ''%''" using c by auto
  show "digit_char False d = CHR ''0'' \<longleftrightarrow> d = 0"
  proof
    assume "digit_char False d = CHR ''0''"
    with c have "of_char CHR ''0'' = (48 + d :: nat)" by simp
    then show "d = 0" by simp
  qed (simp add: digit_char_def, code_simp)
qed

lemma private_printf_width:
  assumes "\<forall>d\<in>set ds. d < 10" and "fmtAfterDecimal f < 0"
  shows "private_printf_loop (map (digit_char False) ds @ w) PfOtherFmtChar f args out =
    private_printf_loop w PfOtherFmtChar (f\<lparr>fmtBeforeDecimal :=
      foldl (\<lambda>a d. (if a < 0 then 0 else a * 10) + int d) (fmtBeforeDecimal f) ds\<rparr>) args out"
  using assms
proof (induction ds arbitrary: f)
  case (Cons d ds)
  then have d: "d < 10" by simp
  from Cons show ?case by (simp add: other_fmt_char_def digit_char_decimal [OF d])
qed simp

lemma foldl_width:
  "0 \<le> a \<Longrightarrow> foldl (\<lambda>a d. (if a < 0 then 0 else a * 10) + int d) a ds =
     int (foldl (\<lambda>a d. a * 10 + d) (nat a) ds)"
  by (induction ds arbitrary: a) (simp_all add: nat_add_distrib nat_mult_distrib)

lemma width_value:
  "n \<noteq> 0 \<Longrightarrow> foldl (\<lambda>a d. (if a < 0 then 0 else a * 10) + int d) (- 1) (digits 10 n) = int n"
  using digits_value [of 10 n] foldl_width [of "int (hd (digits 10 n))" "tl (digits 10 n)"]
  by (cases "digits 10 n") simp_all

lemma private_printf_conversion:
  "private_printf_loop (width_text n @ [letter c]) PfOtherFmtChar (pf_percent\<lparr>fmtLeadingZero := z\<rparr>) [VaInt v] out =
     Some (out @ justify z n (sign_and_digits c v))"
proof -
  have "private_printf_loop (width_text n @ [letter c]) PfOtherFmtChar (pf_percent\<lparr>fmtLeadingZero := z\<rparr>) [VaInt v] out =
    private_printf_loop [letter c] PfOtherFmtChar
      (pf_percent\<lparr>fmtLeadingZero := z, fmtBeforeDecimal := (if n = 0 then - 1 else int n)\<rparr>) [VaInt v] out"
    using private_printf_width [of "digits 10 n" "pf_percent\<lparr>fmtLeadingZero := z\<rparr>"] digits_bound [of 10 _ n]
      width_value [of n]
    by (auto simp: width_text_def numeral_string_def pf_percent_def)
  also have "\<dots> = Some (out @ justify z n (sign_and_digits c v))"
    by (cases c) (auto simp: other_fmt_char_def is_digit_def integer_print_eq pf_percent_def Let_def)
  finally show ?thesis .
qed

lemma private_printf_first:
  "c \<noteq> CHR ''0'' \<Longrightarrow> c \<noteq> CHR ''%'' \<Longrightarrow>
     private_printf_loop (c # w) PfFirstFmtChar f args out = private_printf_loop (c # w) PfOtherFmtChar f args out"
  by simp

section \<open>Properties\<close>

text \<open>C36: \<open>alt_printf\<close> prints every format built from ordinary characters and its four directives
  as the concatenation of its pieces, with numbers as lower-case hexadecimal numerals without
  leading zeros, and always returns.\<close>

theorem alt_printf_renders:
  assumes "list_all piece_ok ps"
  shows "alt_printf (concat (map piece_format ps)) (concat (map piece_args ps)) =
    Some (concat (map piece_text ps))"
  using alt_printf_loop_pieces [OF assms, of "[]"] by (simp add: alt_printf_def)

theorem alt_printf_renders_witness:
  "alt_printf ''v=%x%%'' [VaInt 0xBEEF] = Some (''v='' @ numeral_string False 16 48879 @ ''%'')"
  using alt_printf_renders [of "[Ordinary CHR ''v'', Ordinary CHR ''='', Hex 0xBEEF, Percent]"] by simp

text \<open>C35: A conversion of the logging printf, with any width, with or without zero padding, prints
  the value as the signed decimal, unsigned decimal, octal or hexadecimal numeral it denotes,
  right-justified to at least the width with the sign before the zeros, for every 32-bit
  value, the most negative one included.\<close>

theorem log_printf_integer:
  "alt_log_private_printf (''%'' @ (if z then ''0'' else []) @ width_text n @ [letter c]) [VaInt v] =
     Some (justify z n (sign_and_digits c v))"
proof (cases z)
  case True
  then show ?thesis
    using private_printf_conversion [of n c True v "[]"]
    by (simp add: alt_log_private_printf_def)
next
  case False
  have pf: "pf_percent\<lparr>fmtLeadingZero := False\<rparr> = pf_percent" by (simp add: pf_percent_def)
  obtain a w where aw: "width_text n @ [letter c] = a # w" and a: "a \<noteq> CHR ''0''" "a \<noteq> CHR ''%''"
  proof (cases "n = 0")
    case True
    then show ?thesis by (intro that [of "letter c" "[]"]) (cases c; simp add: width_text_def)+
  next
    case False
    define d where "d = hd (digits 10 n)"
    have "d \<in> set (digits 10 n)" "d \<noteq> 0" using digits_hd [OF False, of 10] by (simp_all add: d_def)
    then have "d < 10" "d \<noteq> 0" using digits_bound [of 10 d n] by simp_all
    then show ?thesis
      using digit_char_decimal [of d] False
      by (intro that [of "digit_char False d" "map (digit_char False) (tl (digits 10 n)) @ [letter c]"])
        (cases "digits 10 n"; simp add: width_text_def numeral_string_def d_def)+
  qed
  have "private_printf_loop (width_text n @ [letter c]) PfFirstFmtChar pf_percent [VaInt v] [] =
      Some (justify False n (sign_and_digits c v))"
    using private_printf_conversion [of n c False v "[]"] private_printf_first [OF a]
    unfolding aw pf by simp
  with False show ?thesis by (simp add: alt_log_private_printf_def)
qed

lemma txchar_writes:
  assumes "alt_log_txchar (trace_bus resp) base c s = Some s'"
  shows "writes (hw s') = writes (hw s) @ [Wr32 base (scast (of_char c :: u8))]"
proof -
  from assms obtain v t where
    t: "spin_while (IORD (trace_bus resp) base 1) (\<lambda>v. v AND ALT_LOG_PRINT_MSK = 0) s = Some (v, t)"
    and s': "s' = IOWR (trace_bus resp) base 0 (scast (of_char c :: u8)) t"
    by (auto simp: alt_log_txchar_def)
  have "writes (hw t) = writes (hw s)"
    using spin_while_inv [OF t, of "\<lambda>u. writes (hw u) = writes (hw s)"] by (auto simp: trace_IO_reg)
  then show ?thesis by (simp add: s' trace_IO_reg)
qed

lemma tx_all_writes:
  "tx_all (trace_bus resp) base cs s = Some s' \<Longrightarrow>
     writes (hw s') = writes (hw s) @ map (\<lambda>c. Wr32 base (scast (of_char c :: u8))) cs"
  by (induction cs arbitrary: s) (auto simp: bind_eq_Some_conv txchar_writes)

text \<open>On arbitrary hardware, when the logging call returns it has written exactly the formatted
  characters to the port's data register, in order, and nothing else.\<close>

theorem alt_log_printf_transmits:
  assumes "alt_log_printf_proc (trace_bus resp) base fmt args s = Some (r, s')"
  shows "r = 0 \<and> (\<exists>cs. alt_log_private_printf fmt args = Some cs \<and>
    writes (hw s') = writes (hw s) @ map (\<lambda>c. Wr32 base (scast (of_char c :: u8))) cs)"
  using assms tx_all_writes by (fastforce simp: alt_log_printf_proc_def bind_eq_Some_conv)

theorem alt_log_printf_transmits_witness:
  "writes (hw (snd (the (alt_log_printf_proc (trace_bus (\<lambda>_ _. 0x10000)) 0x70000 ''A'' [] (reset_machine []))))) =
     [Wr32 0x70000 65]"
proof -
  have "alt_log_private_printf ''A'' [] = Some ''A''" by (simp add: alt_log_private_printf_def)
  moreover from this have "\<exists>s'. alt_log_printf_proc (trace_bus (\<lambda>_ _. 0x10000)) 0x70000 ''A'' [] (reset_machine []) = Some (0, s')"
    by (simp add: alt_log_printf_proc_def alt_log_txchar_def spin_while.simps trace_IO_reg ALT_LOG_PRINT_MSK_def)
  then obtain s' where s': "alt_log_printf_proc (trace_bus (\<lambda>_ _. 0x10000)) 0x70000 ''A'' [] (reset_machine []) = Some (0, s')" ..
  ultimately show ?thesis using alt_log_printf_transmits [OF s'] by (auto simp: s' reset_machine_def)
qed

end
