(* ===== verification/Hal_Log.thy ===== *)
theory Hal_Log
  imports Hal_Stdio Hal_Fd Hal_Alarm Jtag_Uart
begin

text \<open>
  The logging hooks that other parts of the HAL call when it is built with \<open>ALT_LOG_ENABLE\<close>
  (\<open>alt_log_printf.h\<close> and the second half of \<open>alt_log_printf.c\<close>), and the character buffer used
  for semihosting (\<open>alt_putcharbuf.c\<close>). The hooks on the UART are those of its interrupt-driven
  version. \<open>base\<close> is \<open>ALT_LOG_PORT_BASE\<close>, the base address of the
  JTAG UART that carries the log.
\<close>

section \<open>Settings\<close>

record alt_log =
  alt_log_boot_on_flag :: u32
  alt_log_write_on_flag :: u8
  alt_log_sys_clk_on_flag :: u8
  alt_log_jtag_uart_alarm_on_flag :: u8
  alt_log_jtag_uart_isr_on_flag :: u8
  alt_log_jtag_uart_startup_info_on_flag :: u8
  alt_log_sys_clk_count :: u32
  alt_system_clock_in_sec :: u32
  alt_log_write_buf :: "u8 list"

definition ALT_LOG_WRITE_ECHO_LEN :: nat where "ALT_LOG_WRITE_ECHO_LEN = 15"

text \<open>The initial values, which the level \<open>ALT_LOG_FLAGS\<close> selects; the board has a JTAG UART.\<close>

definition alt_log_settings :: "int \<Rightarrow> alt_log" where
  "alt_log_settings ALT_LOG_FLAGS =
     \<lparr>alt_log_boot_on_flag =
        (if ALT_LOG_FLAGS = 1 then 0x1 else if ALT_LOG_FLAGS = 2 then 0x1
         else if ALT_LOG_FLAGS = 3 then 0x1 else if ALT_LOG_FLAGS = - 1 then 0x0 else 0x1),
      alt_log_write_on_flag =
        (if ALT_LOG_FLAGS = 1 then 0x0 else if ALT_LOG_FLAGS = 2 then 0x1
         else if ALT_LOG_FLAGS = 3 then 0x1 else if ALT_LOG_FLAGS = - 1 then 0x0 else 0x0),
      alt_log_sys_clk_on_flag =
        (if ALT_LOG_FLAGS = 1 then 0x1 else if ALT_LOG_FLAGS = 2 then 0x1
         else if ALT_LOG_FLAGS = 3 then 0x1 else if ALT_LOG_FLAGS = - 1 then 0x0 else 0x0),
      alt_log_jtag_uart_alarm_on_flag =
        (if ALT_LOG_FLAGS = 1 then 0x0 else if ALT_LOG_FLAGS = 2 then 0x1
         else if ALT_LOG_FLAGS = 3 then 0x1 else if ALT_LOG_FLAGS = - 1 then 0x0 else 0x0),
      alt_log_jtag_uart_isr_on_flag =
        (if ALT_LOG_FLAGS = 1 then 0x0 else if ALT_LOG_FLAGS = 2 then 0x0
         else if ALT_LOG_FLAGS = 3 then 0x1 else if ALT_LOG_FLAGS = - 1 then 0x0 else 0x0),
      alt_log_jtag_uart_startup_info_on_flag =
        (if ALT_LOG_FLAGS = 1 then 0x1 else if ALT_LOG_FLAGS = 2 then 0x1
         else if ALT_LOG_FLAGS = 3 then 0x1 else if ALT_LOG_FLAGS = - 1 then 0x0 else 0x0),
      alt_log_sys_clk_count = 0, alt_system_clock_in_sec = 0,
      alt_log_write_buf = replicate (ALT_LOG_WRITE_ECHO_LEN + 2) 0\<rparr>"

definition ALT_LOG_PRINT_BOOT ::
  "'h bus \<Rightarrow> u32 \<Rightarrow> alt_log \<Rightarrow> string \<Rightarrow> va_arg list \<Rightarrow> 'h machine \<Rightarrow> 'h machine option" where
  "ALT_LOG_PRINT_BOOT B base L fmt args s =
     (if alt_log_boot_on_flag L = 1 then map_option snd (alt_log_printf_proc B base fmt args s)
      else Some s)"

section \<open>Echo of write\<close>

text \<open>\<open>strncpy\<close>: the copy stops at a null character and is filled up with null characters.\<close>

definition strncpy :: "u8 list \<Rightarrow> nat \<Rightarrow> u8 list" where
  "strncpy src n = (let cs = takeWhile (\<lambda>c. c \<noteq> 0) (take n src) in cs @ replicate (n - length cs) 0)"

text \<open>\<open>for (temp_cnt = 0; temp_cnt < length; temp_cnt++)\<close>, with the iterations left.\<close>

fun escape_loop :: "nat \<Rightarrow> nat \<Rightarrow> u8 list \<Rightarrow> u8 list" where
  "escape_loop 0 temp_cnt b = b"
| "escape_loop (Suc n) temp_cnt b =
     escape_loop n (temp_cnt + 1) (if b ! temp_cnt = 4 then b[temp_cnt := 68] else b)"

definition c_string :: "u8 list \<Rightarrow> string" where
  "c_string b = map (\<lambda>c. char_of (unat c)) (takeWhile (\<lambda>c. c \<noteq> 0) b)"

text \<open>\<open>bytes\<close> is the memory at \<open>ptr\<close>.\<close>

definition alt_log_write ::
  "'h bus \<Rightarrow> u32 \<Rightarrow> u8 list \<Rightarrow> u32 \<Rightarrow> alt_log \<times> 'h machine \<Rightarrow> (alt_log \<times> 'h machine) option" where
  "alt_log_write B base bytes len = (\<lambda>(L, s).
     if alt_log_write_on_flag L \<noteq> 0 then
       (let l = (if of_nat ALT_LOG_WRITE_ECHO_LEN > len then unat len else ALT_LOG_WRITE_ECHO_LEN)
        in if l < 2 then Some (L, s)
           else
             let b = strncpy bytes l @ drop l (alt_log_write_buf L);
                 b = b[l - 1 := 10];
                 b = b[l := 13];
                 b = b[l + 1 := 0];
                 b = escape_loop l 0 b
             in map_option (\<lambda>(_, s). (L\<lparr>alt_log_write_buf := b\<rparr>, s))
                  (alt_log_printf_proc B base ''Write Echo: %s'' [VaStr (c_string b)] s))
     else Some (L, s))"

section \<open>Heartbeat of the system clock\<close>

text \<open>\<open>ALT_LOG_SYS_CLK_INTERVAL\<close> is the tick rate, unsigned, so the comparison is unsigned.\<close>

definition alt_log_system_clock ::
  "'h bus \<Rightarrow> u32 \<Rightarrow> u32 \<Rightarrow> alt_log \<times> 'h machine \<Rightarrow> (alt_log \<times> 'h machine) option" where
  "alt_log_system_clock B base ALT_LOG_SYS_CLK_INTERVAL = (\<lambda>(L, s).
     if alt_log_sys_clk_on_flag L \<noteq> 0 then
       let L = L\<lparr>alt_log_sys_clk_count := alt_log_sys_clk_count L + 1\<rparr>
       in if alt_log_sys_clk_count L > ALT_LOG_SYS_CLK_INTERVAL
          then let L = L\<lparr>alt_log_sys_clk_count := 0\<rparr>;
                   now = alt_system_clock_in_sec L;
                   L = L\<lparr>alt_system_clock_in_sec := alt_system_clock_in_sec L + 1\<rparr>
               in map_option (\<lambda>(_, s). (L, s))
                    (alt_log_printf_proc B base (''System Clock On %u'' @ [CHR 0x0D, CHR 0x0A]) [VaInt now] s)
          else Some (L, s)
     else Some (L, s))"

section \<open>Status of the JTAG UART\<close>

definition status_format :: string where
  "status_format = ''%s SW CirBuf = %d, HW FIFO wspace=%d AC=%d WI=%d RI=%d WE=%d RE=%d'' @
     [CHR 0x0D, CHR 0x0A]"

text \<open>\<open>dev_base\<close> is the register base of the UART that is reported.\<close>

definition alt_log_jtag_uart_print_control_reg ::
  "'h bus \<Rightarrow> u32 \<Rightarrow> uart \<Rightarrow> u32 \<Rightarrow> string \<Rightarrow> 'h machine \<Rightarrow> 'h machine option" where
  "alt_log_jtag_uart_print_control_reg B base dev dev_base header s =
     (let (control, s) = IORD_UART_CONTROL B dev_base s;
          space = drop_bit 16 (control AND CONTROL_WSPACE_MSK);
          we = drop_bit 1 (control AND CONTROL_WE_MSK);
          re = drop_bit 0 (control AND CONTROL_RE_MSK);
          ri = drop_bit 8 (control AND CONTROL_RI_MSK);
          wi = drop_bit 9 (control AND CONTROL_WI_MSK);
          ac = drop_bit 10 (control AND CONTROL_AC_MSK)
      in map_option snd (alt_log_printf_proc B base status_format
           [VaStr header, VaInt (of_nat (outp (tx dev)) - of_nat (inp (tx dev))), VaInt space, VaInt ac,
            VaInt wi, VaInt ri, VaInt we, VaInt re] s))"

definition ALT_LOG_JTAG_UART_TICKS :: "alarms \<Rightarrow> u32" where
  "ALT_LOG_JTAG_UART_TICKS A = alt_ticks_per_second A div 10"

definition altera_avalon_jtag_uart_report_log ::
  "'h bus \<Rightarrow> u32 \<Rightarrow> alt_log \<Rightarrow> alarms \<Rightarrow> uart \<Rightarrow> 'h machine \<Rightarrow> (u32 \<times> 'h machine) option" where
  "altera_avalon_jtag_uart_report_log B base L A dev s =
     (if alt_log_jtag_uart_alarm_on_flag L \<noteq> 0
      then map_option (\<lambda>s. (ALT_LOG_JTAG_UART_TICKS A, s))
        (alt_log_jtag_uart_print_control_reg B base dev (u_base dev) ''JTAG Alarm:'' s)
      else Some (0, s))"

definition alt_log_jtag_uart_startup_info ::
  "'h bus \<Rightarrow> u32 \<Rightarrow> uart \<Rightarrow> u32 \<Rightarrow> 'h machine \<Rightarrow> 'h machine option" where
  "alt_log_jtag_uart_startup_info B base dev dev_base s =
     alt_log_jtag_uart_print_control_reg B base dev dev_base ''JTAG Startup Info:'' s"

definition alt_log_jtag_uart_isr_proc ::
  "'h bus \<Rightarrow> u32 \<Rightarrow> alt_log \<Rightarrow> u32 \<Rightarrow> uart \<Rightarrow> 'h machine \<Rightarrow> 'h machine option" where
  "alt_log_jtag_uart_isr_proc B base L dev_base dev s =
     (if alt_log_jtag_uart_isr_on_flag L \<noteq> 0
      then alt_log_jtag_uart_print_control_reg B base dev dev_base ''JTAG IRQ:'' s
      else Some s)"

text \<open>\<open>alarm\<close>, \<open>callback\<close> and \<open>dp\<close> are the addresses of \<open>alt_log_jtag_uart_alarm_1\<close>, of
  \<open>altera_avalon_jtag_uart_report_log\<close> and of the device.\<close>

definition ALT_LOG_JTAG_UART_ALARM_REGISTER ::
  "'h bus \<Rightarrow> u32 \<Rightarrow> u32 \<Rightarrow> u32 \<Rightarrow> u32 \<Rightarrow> alt_log \<Rightarrow> uart \<Rightarrow> u32 \<Rightarrow> 'h tsys \<Rightarrow> 'h tsys option" where
  "ALT_LOG_JTAG_UART_ALARM_REGISTER B base alarm callback dp L dev dev_base = (\<lambda>(A, s).
     let (A, s) = (if alt_log_jtag_uart_alarm_on_flag L = 1
           then snd (alt_alarm_start alarm (ALT_LOG_JTAG_UART_TICKS A) callback dp (A, s))
           else (A, s))
     in if alt_log_jtag_uart_startup_info_on_flag L = 1
        then map_option (Pair A) (alt_log_jtag_uart_startup_info B base dev dev_base s)
        else Some (A, s))"

section \<open>The buffer for semihosting\<close>

record putbuf =
  put_buf :: "u8 list"
  fill_index :: nat

definition ALT_PUTBUF_SIZE :: nat where "ALT_PUTBUF_SIZE = 64"

definition putbuf0 :: putbuf where
  "putbuf0 = \<lparr>put_buf = replicate ALT_PUTBUF_SIZE 0, fill_index = 0\<rparr>"

text \<open>\<open>STDOUT_FILENO\<close> is 1; the call of \<open>write\<close> is \<open>alt_write\<close>.\<close>

definition alt_putbufflush :: "'x devices \<Rightarrow> putbuf \<times> 'x fstate \<Rightarrow> (int \<times> putbuf \<times> 'x fstate) call" where
  "alt_putbufflush D = (\<lambda>(P, st).
     bind_call (alt_write D 1 (take (fill_index P) (put_buf P)) st) (\<lambda>(results, st).
     Returns (results, P\<lparr>fill_index := 0\<rparr>, st)))"

definition alt_putcharbuf :: "'x devices \<Rightarrow> u32 \<Rightarrow> putbuf \<times> 'x fstate \<Rightarrow> (u32 \<times> putbuf \<times> 'x fstate) call" where
  "alt_putcharbuf D c = (\<lambda>(P, st).
     let P = P\<lparr>put_buf := (put_buf P)[fill_index P := ucast (c AND 0xff)]\<rparr>;
         P = P\<lparr>fill_index := fill_index P + 1\<rparr>
     in if fill_index P \<ge> ALT_PUTBUF_SIZE
        then bind_call (alt_putbufflush D (P, st)) (\<lambda>(_, P, st). Returns (c, P, st))
        else Returns (c, P, st))"

section \<open>The printed texts\<close>

lemma private_printf_any: "private_printf_loop w PfChars f args out = private_printf_loop w PfChars g args out"
  by (induction w arbitrary: out) simp_all

definition signed_numeral :: "u32 \<Rightarrow> string" where
  "signed_numeral v = (if sint v < 0 then ''-'' else []) @ numeral_string False 10 (nat \<bar>sint v\<bar>)"

text \<open>A format is built from these pieces.\<close>

datatype log_piece = Text string | Signed u32 | Unsigned u32 | Str string

fun log_format :: "log_piece \<Rightarrow> string" where
  "log_format (Text cs) = cs"
| "log_format (Signed v) = ''%d''"
| "log_format (Unsigned v) = ''%u''"
| "log_format (Str t) = ''%s''"

fun log_args :: "log_piece \<Rightarrow> va_arg list" where
  "log_args (Text cs) = []"
| "log_args (Signed v) = [VaInt v]"
| "log_args (Unsigned v) = [VaInt v]"
| "log_args (Str t) = [VaStr t]"

fun log_text :: "log_piece \<Rightarrow> string" where
  "log_text (Text cs) = cs"
| "log_text (Signed v) = signed_numeral v"
| "log_text (Unsigned v) = numeral_string False 10 (unat v)"
| "log_text (Str t) = t"

lemma private_printf_text:
  "CHR ''%'' \<notin> set cs \<Longrightarrow>
     private_printf_loop (cs @ w) PfChars f args out = private_printf_loop w PfChars f args (out @ cs)"
  by (induction cs arbitrary: out) auto

lemma log_piece_step:
  assumes "\<forall>cs. p = Text cs \<longrightarrow> CHR ''%'' \<notin> set cs"
  shows "private_printf_loop (log_format p @ w) PfChars f (log_args p @ args) out =
    private_printf_loop w PfChars f args (out @ log_text p)"
proof -
  have "\<exists>g. private_printf_loop (log_format p @ w) PfChars f (log_args p @ args) out =
    private_printf_loop w PfChars g args (out @ log_text p)"
    using assms by (cases p)
      (auto simp: private_printf_text other_fmt_char_def is_digit_def integer_print_eq pf_percent_def
        justify_def Let_def signed_numeral_def repchar_def)
  then show ?thesis using private_printf_any by metis
qed

lemma log_pieces:
  assumes "\<forall>p\<in>set ps. \<forall>cs. p = Text cs \<longrightarrow> CHR ''%'' \<notin> set cs"
  shows "alt_log_private_printf (concat (map log_format ps)) (concat (map log_args ps)) =
    Some (concat (map log_text ps))"
proof -
  have "private_printf_loop (concat (map log_format ps)) PfChars f (concat (map log_args ps)) out =
      Some (out @ concat (map log_text ps))" for f out
    using assms by (induction ps arbitrary: out) (simp_all add: log_piece_step)
  then show ?thesis by (simp add: alt_log_private_printf_def)
qed

lemma log_printf_text:
  assumes "alt_log_private_printf fmt args = Some t"
  shows "alt_log_printf_proc B base fmt args s = map_option (Pair 0) (tx_all B base t s)"
  using assms by (simp add: alt_log_printf_proc_def)

lemma write_echo_text:
  "alt_log_private_printf ''Write Echo: %s'' [VaStr t] = Some (''Write Echo: '' @ t)"
  using log_pieces [of "[Text ''Write Echo: '', Str t]"] by simp

lemma clock_text:
  "alt_log_private_printf (''System Clock On %u'' @ [CHR 0x0D, CHR 0x0A]) [VaInt k] =
     Some (''System Clock On '' @ numeral_string False 10 (unat k) @ [CHR 0x0D, CHR 0x0A])"
  using log_pieces [of "[Text ''System Clock On '', Unsigned k, Text [CHR 0x0D, CHR 0x0A]]"] by simp

lemma status_text:
  "alt_log_private_printf status_format
     [VaStr h, VaInt n, VaInt space, VaInt ac, VaInt wi, VaInt ri, VaInt we, VaInt re] =
   Some (h @ '' SW CirBuf = '' @ signed_numeral n @ '', HW FIFO wspace='' @ signed_numeral space @
     '' AC='' @ signed_numeral ac @ '' WI='' @ signed_numeral wi @ '' RI='' @ signed_numeral ri @
     '' WE='' @ signed_numeral we @ '' RE='' @ signed_numeral re @ [CHR 0x0D, CHR 0x0A])"
  using log_pieces [of "[Str h, Text '' SW CirBuf = '', Signed n, Text '', HW FIFO wspace='', Signed space,
      Text '' AC='', Signed ac, Text '' WI='', Signed wi, Text '' RI='', Signed ri, Text '' WE='',
      Signed we, Text '' RE='', Signed re, Text [CHR 0x0D, CHR 0x0A]]"]
  by (simp add: status_format_def)

section \<open>The echo\<close>

definition escape :: "u8 \<Rightarrow> u8" where
  "escape c = (if c = 4 then 68 else c)"

lemma escape_loop_eq:
  "k + n \<le> length b \<Longrightarrow> escape_loop n k b = take k b @ map escape (take n (drop k b)) @ drop (k + n) b"
proof (induction n arbitrary: k b)
  case (Suc n)
  define b' where "b' = (if b ! k = 4 then b[k := 68] else b)"
  have k: "k < length b" using Suc.prems by simp
  have b': "b' = b[k := escape (b ! k)]" by (simp add: b'_def escape_def)
  have "escape_loop (Suc n) k b = escape_loop n (k + 1) b'" by (simp add: b'_def)
  also have "\<dots> = take (k + 1) b' @ map escape (take n (drop (k + 1) b')) @ drop (k + 1 + n) b'"
    using Suc.prems by (intro Suc.IH) (simp add: b')
  also have "take (k + 1) b' = take k b @ [escape (b ! k)]"
    using k by (simp add: b' take_Suc_conv_app_nth)
  also have "take (Suc n) (drop k b) = b ! k # take n (drop (k + 1) b)"
    using k by (simp add: Cons_nth_drop_Suc [symmetric])
  ultimately show ?case by (simp add: b')
qed simp

lemma strncpy_plain:
  assumes "n \<le> length src" and "0 \<notin> set (take n src)"
  shows "strncpy src n = take n src"
proof -
  have "takeWhile (\<lambda>c. c \<noteq> 0) (take n src) = take n src"
    using assms(2) by (intro takeWhile_eq_all_conv [THEN iffD2]) metis
  with assms(1) show ?thesis unfolding strncpy_def Let_def by (simp only: length_take) simp
qed

lemma c_string_append: "0 \<notin> set cs \<Longrightarrow> c_string (cs @ 0 # r) = map (\<lambda>c. char_of (unat c)) cs"
  unfolding c_string_def by (subst takeWhile_append2) auto

lemma escape_nonzero: "0 \<notin> set cs \<Longrightarrow> 0 \<notin> set (map escape cs)"
  by (auto simp: escape_def split: if_splits)

text \<open>The echo of a call of \<open>write\<close>: with the switch on, two characters or more, and no null
  character among the first 15, it prints all but the last of the first fifteen characters (of
  all, when there are fewer), with control-D as D, then a line end. Without the switch, or for
  less than two characters, nothing happens.\<close>

theorem alt_log_write_echo:
  assumes "length (alt_log_write_buf L) = ALT_LOG_WRITE_ECHO_LEN + 2" and "unat len \<le> length bytes"
    and "0 \<notin> set (take ALT_LOG_WRITE_ECHO_LEN bytes)"
  defines "n \<equiv> min ALT_LOG_WRITE_ECHO_LEN (unat len)"
  defines "cs \<equiv> map escape (take (n - 1) bytes) @ [10, 13]"
  shows "alt_log_write B base bytes len (L, s) =
    (if alt_log_write_on_flag L = 0 \<or> len < 2 then Some (L, s)
     else map_option (Pair (L\<lparr>alt_log_write_buf := cs @ 0 # drop (n + 2) (alt_log_write_buf L)\<rparr>))
       (tx_all B base (''Write Echo: '' @ map (\<lambda>c. char_of (unat c)) cs) s))"
proof (cases "alt_log_write_on_flag L = 0 \<or> len < 2")
  case True
  moreover have "unat len < 2 \<and> len < 15" if "len < 2" using that by (simp add: word_less_nat_alt)
  ultimately show ?thesis
    by (auto simp: alt_log_write_def Let_def ALT_LOG_WRITE_ECHO_LEN_def)
next
  case False
  then have "2 \<le> unat len" by (simp add: word_less_nat_alt)
  then obtain m where m: "n = Suc m" "1 \<le> m" "m < 15" "n \<le> length bytes"
    using assms(2) by (cases n) (auto simp: n_def ALT_LOG_WRITE_ECHO_LEN_def)
  have n: "(if of_nat ALT_LOG_WRITE_ECHO_LEN > len then unat len else ALT_LOG_WRITE_ECHO_LEN) = n"
    by (simp add: n_def ALT_LOG_WRITE_ECHO_LEN_def word_less_nat_alt)
  define p where "p = take m bytes"
  have lp: "length p = m" using m by (simp add: p_def)
  have nz: "0 \<notin> set (take n bytes)"
    using assms(3) m set_take_subset_set_take [of n ALT_LOG_WRITE_ECHO_LEN bytes]
    by (auto simp: ALT_LOG_WRITE_ECHO_LEN_def)
  have take: "take n bytes = p @ [bytes ! m]" using m by (simp add: p_def take_Suc_conv_app_nth)
  define r where "r = drop (n + 2) (alt_log_write_buf L)"
  obtain x y where d: "drop n (alt_log_write_buf L) = x # y # r"
  proof -
    have "n + 1 < length (alt_log_write_buf L)" using assms(1) m by (simp add: ALT_LOG_WRITE_ECHO_LEN_def)
    then have "drop n (alt_log_write_buf L) =
        alt_log_write_buf L ! n # alt_log_write_buf L ! (n + 1) # r"
      by (simp add: r_def Cons_nth_drop_Suc)
    then show thesis by (rule that)
  qed
  define b where "b = (strncpy bytes n @ drop n (alt_log_write_buf L))[n - 1 := 10, n := 13, n + 1 := 0]"
  have b: "b = (p @ [10]) @ 13 # 0 # r"
    unfolding b_def strncpy_plain [OF m(4) nz] d take by (simp add: m list_update_append lp)
  have e: "escape_loop n 0 b = cs @ 0 # r"
  proof -
    have "length b = n + 2 + length r" using lp m(1) by (simp add: b)
    then have "escape_loop n 0 b = map escape (take n b) @ drop n b"
      using escape_loop_eq [of 0 n b] by simp
    also have "take n b = p @ [10]" using lp m(1) by (simp add: b)
    also have "drop n b = 13 # 0 # r" using lp m(1) by (simp add: b)
    finally show ?thesis by (simp add: cs_def p_def m(1) escape_def)
  qed
  have "0 \<notin> set cs" using escape_nonzero [of "take m bytes"] nz take by (simp add: cs_def m p_def)
  from c_string_append [OF this] False m show ?thesis
    unfolding alt_log_write_def Let_def split n b_def [symmetric] e r_def [symmetric]
    by (simp add: log_printf_text [OF write_echo_text] option.map_comp comp_def)
qed

theorem alt_log_write_echo_witness:
  "alt_log_write (trace_bus (\<lambda>_ _. 0x10000)) 0x70000 [72, 105, 33] 3 (alt_log_settings 2, s) =
     map_option (Pair ((alt_log_settings 2)\<lparr>alt_log_write_buf := [72, 105, 10, 13, 0] @ replicate 12 0\<rparr>))
       (tx_all (trace_bus (\<lambda>_ _. 0x10000)) 0x70000 (''Write Echo: Hi'' @ [CHR 0x0A, CHR 0x0D]) s)"
proof -
  have "length (alt_log_write_buf (alt_log_settings 2)) = ALT_LOG_WRITE_ECHO_LEN + 2"
    "alt_log_write_on_flag (alt_log_settings 2) = 1"
    "alt_log_write_buf (alt_log_settings 2) = replicate 17 0"
    by (simp_all add: alt_log_settings_def ALT_LOG_WRITE_ECHO_LEN_def)
  moreover have "char_of (72 :: nat) = CHR ''H''" "char_of (105 :: nat) = CHR ''i''"
    "char_of (10 :: nat) = CHR 0x0A" "char_of (13 :: nat) = CHR 0x0D"
    by code_simp+
  moreover note alt_log_write_echo [where L = "alt_log_settings 2" and len = 3 and bytes = "[72, 105, 33]"
      and B = "trace_bus (\<lambda>_ _. 0x10000)" and base = "0x70000" and s = s]
  ultimately show ?thesis by (simp add: ALT_LOG_WRITE_ECHO_LEN_def escape_def)
qed

section \<open>The heartbeat\<close>

fun clock_calls ::
  "nat \<Rightarrow> 'h bus \<Rightarrow> u32 \<Rightarrow> u32 \<Rightarrow> alt_log \<times> 'h machine \<Rightarrow> (alt_log \<times> 'h machine) option" where
  "clock_calls 0 B base I st = Some st"
| "clock_calls (Suc n) B base I st = Option.bind (clock_calls n B base I st) (alt_log_system_clock B base I)"

lemma clock_calls_silent:
  assumes "alt_log_sys_clk_on_flag L \<noteq> 0" and "alt_log_sys_clk_count L = 0" and "n \<le> unat I"
  shows "clock_calls n B base I (L, s) = Some (L\<lparr>alt_log_sys_clk_count := of_nat n\<rparr>, s)"
  using assms(3)
proof (induction n)
  case 0
  show ?case using assms(2) by simp
next
  case (Suc n)
  have "unat I < 2 ^ LENGTH(32)" by (rule unsigned_less)
  with Suc.prems have "unat (of_nat (Suc n) :: u32) = Suc n"
    by (simp add: unat_of_nat del: of_nat_Suc)
  with Suc.prems have "\<not> I < of_nat (Suc n)" by (simp add: word_less_nat_alt del: of_nat_Suc)
  then have "\<not> I < of_nat n + 1" by (simp add: add.commute)
  with Suc assms(1) show ?case by (simp add: alt_log_system_clock_def Let_def add.commute)
qed

text \<open>A divergence from the comment, which promises a message every \<open>ALT_LOG_SYS_CLK_INTERVAL\<close>
  ticks: the calls up to the interval only count, and the next one prints the message with the
  number of the messages before it and starts again, so a period is one tick longer.\<close>

theorem clock_heartbeat_period:
  assumes "alt_log_sys_clk_on_flag L \<noteq> 0" and "alt_log_sys_clk_count L = 0" and "I < 0xFFFFFFFF"
  shows "clock_calls (unat I) B base I (L, s) = Some (L\<lparr>alt_log_sys_clk_count := I\<rparr>, s) \<and>
    clock_calls (unat I + 1) B base I (L, s) =
      map_option (Pair (L\<lparr>alt_system_clock_in_sec := alt_system_clock_in_sec L + 1\<rparr>))
        (tx_all B base (''System Clock On '' @ numeral_string False 10 (unat (alt_system_clock_in_sec L)) @
          [CHR 0x0D, CHR 0x0A]) s)"
proof -
  have silent: "clock_calls (unat I) B base I (L, s) = Some (L\<lparr>alt_log_sys_clk_count := I\<rparr>, s)"
    using clock_calls_silent [OF assms(1,2), of "unat I" I B base s] by simp
  have "unat I + 1 < 2 ^ LENGTH(32)" using assms(3) by (simp add: word_less_nat_alt)
  then have "unat (I + 1) = unat I + 1" by (simp add: unat_word_ariths)
  then have "I < I + 1" by (simp add: word_less_nat_alt)
  then have "clock_calls (unat I + 1) B base I (L, s) =
      map_option (Pair (L\<lparr>alt_log_sys_clk_count := 0, alt_system_clock_in_sec := alt_system_clock_in_sec L + 1\<rparr>))
        (tx_all B base (''System Clock On '' @ numeral_string False 10 (unat (alt_system_clock_in_sec L)) @
          [CHR 0x0D, CHR 0x0A]) s)"
    using assms(1) by (simp add: silent alt_log_system_clock_def Let_def log_printf_text [OF clock_text, simplified]
        option.map_comp comp_def)
  moreover have "L\<lparr>alt_log_sys_clk_count := 0, alt_system_clock_in_sec := alt_system_clock_in_sec L + 1\<rparr> =
      L\<lparr>alt_system_clock_in_sec := alt_system_clock_in_sec L + 1\<rparr>"
    using assms(2) by (cases L) simp
  ultimately show ?thesis using silent by simp
qed

theorem clock_heartbeat_period_witness:
  "clock_calls 1001 (trace_bus (\<lambda>_ _. 0x10000)) 0x70000 1000 (alt_log_settings 1, s) =
     map_option (Pair ((alt_log_settings 1)\<lparr>alt_system_clock_in_sec := 1\<rparr>))
       (tx_all (trace_bus (\<lambda>_ _. 0x10000)) 0x70000 (''System Clock On 0'' @ [CHR 0x0D, CHR 0x0A]) s)"
proof -
  have c: "numeral_string False 10 0 = ''0''"
    by code_simp
  have "alt_log_sys_clk_on_flag (alt_log_settings 1) \<noteq> 0" "alt_log_sys_clk_count (alt_log_settings 1) = 0"
    "alt_system_clock_in_sec (alt_log_settings 1) = 0"
    by (simp_all add: alt_log_settings_def)
  with clock_heartbeat_period [of "alt_log_settings 1" 1000 "trace_bus (\<lambda>_ _. 0x10000)" "0x70000" s]
  show ?thesis by (simp add: c)
qed

section \<open>The status report\<close>

lemma status_bits:
  "drop_bit 1 (c AND CONTROL_WE_MSK) = of_bool (bit c 1)"
  "drop_bit 0 (c AND CONTROL_RE_MSK) = of_bool (bit c 0)"
  "drop_bit 8 (c AND CONTROL_RI_MSK) = of_bool (bit c 8)"
  "drop_bit 9 (c AND CONTROL_WI_MSK) = of_bool (bit c 9)"
  "drop_bit 10 (c AND CONTROL_AC_MSK) = of_bool (bit c 10)"
  "drop_bit 16 (c AND CONTROL_WSPACE_MSK) = drop_bit 16 (c :: u32)"
proof -
  have one: "drop_bit k (c AND push_bit k 1) = of_bool (bit c k)" for k
    by (rule bit_word_eqI) (auto simp: bit_simps dest: bit_imp_le_length)
  from one [of 1] one [of 0] one [of 8] one [of 9] one [of 10]
  show "drop_bit 1 (c AND CONTROL_WE_MSK) = of_bool (bit c 1)"
    "drop_bit 0 (c AND CONTROL_RE_MSK) = of_bool (bit c 0)"
    "drop_bit 8 (c AND CONTROL_RI_MSK) = of_bool (bit c 8)"
    "drop_bit 9 (c AND CONTROL_WI_MSK) = of_bool (bit c 9)"
    "drop_bit 10 (c AND CONTROL_AC_MSK) = of_bool (bit c 10)"
    by (simp_all add: uart_masks)
  have W: "CONTROL_WSPACE_MSK = push_bit 16 (mask 16 :: u32)"
    by (simp add: uart_masks mask_eq_exp_minus_1)
  show "drop_bit 16 (c AND CONTROL_WSPACE_MSK) = drop_bit 16 c"
    unfolding W by (intro bit_word_eqI) (auto simp: bit_simps dest: bit_imp_le_length)
qed

lemma of_bool_numeral: "signed_numeral (of_bool b) = (if b then ''1'' else ''0'')"
proof -
  have "signed_numeral 0 = ''0''" "signed_numeral 1 = ''1''"
    unfolding signed_numeral_def by code_simp+
  then show ?thesis by simp
qed

text \<open>The report reads the control register once and prints its free space and its five status
  bits as single digits. The fill of the software buffer is printed as the output index less the
  input index.\<close>

theorem status_report_text:
  "alt_log_jtag_uart_print_control_reg (trace_bus resp) base dev dev_base header s =
     (let c = resp (hw s) (dev_base + 4); digit = (\<lambda>k. if bit c k then ''1'' else ''0'')
      in tx_all (trace_bus resp) base
        (header @ '' SW CirBuf = '' @ signed_numeral (of_nat (outp (tx dev)) - of_nat (inp (tx dev))) @
         '', HW FIFO wspace='' @ numeral_string False 10 (unat (drop_bit 16 c)) @
         '' AC='' @ digit 10 @ '' WI='' @ digit 9 @ '' RI='' @ digit 8 @
         '' WE='' @ digit 1 @ '' RE='' @ digit 0 @ [CHR 0x0D, CHR 0x0A])
        (s\<lparr>hw := hw s @ [Rd (dev_base + 4) c]\<rparr>))"
proof -
  define c where "c = resp (hw s) (dev_base + 4)"
  have "sint (drop_bit 16 c) = uint (drop_bit 16 c)"
  proof -
    have "uint c < 2 ^ LENGTH(32)" by (rule unsigned_less)
    then have "uint (drop_bit 16 c) < 2 ^ 31" by (simp add: drop_bit_eq_div uint_div)
    then have "signed_take_bit 31 (uint (drop_bit 16 c)) = uint (drop_bit 16 c)"
      by (intro signed_take_bit_int_eq_self) (simp_all add: order_trans [OF _ uint_ge_0])
    then show ?thesis by (simp only: sint_uint) simp
  qed
  then have w: "signed_numeral (drop_bit 16 c) = numeral_string False 10 (unat (drop_bit 16 c))"
    by (simp add: signed_numeral_def)
  show ?thesis
    unfolding alt_log_jtag_uart_print_control_reg_def Let_def trace_IO_reg prod.case status_bits
      log_printf_text [OF status_text] of_bool_numeral option.map_comp comp_def snd_conv
      option.map_ident
    by (simp add: w [unfolded c_def])
qed

text \<open>So with \<open>n\<close> bytes waiting in one piece it prints \<open>-n\<close>.\<close>

lemma status_report_negative:
  assumes "inp R = outp R + n" and "0 < n" and "inp R < BUF_LEN"
  shows "signed_numeral (of_nat (outp R) - of_nat (inp R)) = ''-'' @ numeral_string False 10 n"
proof -
  have "(of_nat (outp R) - of_nat (inp R) :: u32) = word_of_int (- int n)" using assms(1) by simp
  moreover have "sint (word_of_int (- int n) :: u32) = - int n"
  proof -
    have "signed_take_bit 31 (- int n) = - int n"
      using assms by (intro signed_take_bit_int_eq_self) (simp_all add: BUF_LEN_def)
    then show ?thesis by (simp only: sint_sbintrunc') simp
  qed
  ultimately show ?thesis using assms(2) by (simp only: signed_numeral_def) simp
qed

section \<open>Buffered characters\<close>

definition putbuf_inv :: "putbuf \<Rightarrow> bool" where
  "putbuf_inv P \<longleftrightarrow> length (put_buf P) = ALT_PUTBUF_SIZE \<and> fill_index P < ALT_PUTBUF_SIZE"

definition pending :: "putbuf \<Rightarrow> u8 list" where
  "pending P = take (fill_index P) (put_buf P)"

text \<open>Several characters, and the same without a buffer: whole blocks of 64 bytes are written,
  and the rest is returned.\<close>

fun put_all :: "'x devices \<Rightarrow> u32 list \<Rightarrow> putbuf \<times> 'x fstate \<Rightarrow> (putbuf \<times> 'x fstate) call" where
  "put_all D [] st = Returns st"
| "put_all D (c # cs) st = bind_call (alt_putcharbuf D c st) (\<lambda>(_, st). put_all D cs st)"

function write_blocks :: "'x devices \<Rightarrow> u8 list \<Rightarrow> 'x fstate \<Rightarrow> (u8 list \<times> 'x fstate) call" where
  "write_blocks D bytes st =
     (if length bytes < 64 then Returns (bytes, st)
      else bind_call (alt_write D 1 (take 64 bytes) st) (\<lambda>(_, st). write_blocks D (drop 64 bytes) st))"
  by pat_completeness auto
termination by (relation "measure (\<lambda>(D, bytes, st). length bytes)") auto

declare write_blocks.simps [simp del]

lemma bind_call_assoc: "bind_call (bind_call m f) g = bind_call m (\<lambda>x. bind_call (f x) g)"
  by (cases m) simp_all

lemma putcharbuf_step:
  assumes "putbuf_inv P"
  shows "\<exists>P'. putbuf_inv P' \<and>
    (if length (pending P) = 63
     then pending P' = [] \<and> alt_putcharbuf D c (P, st) =
       bind_call (alt_write D 1 (pending P @ [ucast c]) st) (\<lambda>(_, st). Returns (c, P', st))
     else pending P' = pending P @ [ucast c] \<and> alt_putcharbuf D c (P, st) = Returns (c, P', st))"
proof -
  define P1 where "P1 = P\<lparr>put_buf := (put_buf P)[fill_index P := ucast c], fill_index := fill_index P + 1\<rparr>"
  have l: "length (pending P) = fill_index P" "fill_index P < 64" "length (put_buf P) = 64"
    using assms by (simp_all add: putbuf_inv_def pending_def ALT_PUTBUF_SIZE_def)
  have byte: "(ucast (c AND 0xff) :: u8) = ucast c"
  proof -
    have "(0xff :: u32) = mask 8" by (simp add: mask_eq_exp_minus_1)
    then show ?thesis by (intro bit_word_eqI) (simp add: bit_simps)
  qed
  have p1: "pending P1 = pending P @ [ucast c]" "length (put_buf P1) = 64" "fill_index P1 = fill_index P + 1"
    using l by (simp_all add: pending_def P1_def take_Suc_conv_app_nth)
  have e: "alt_putcharbuf D c (P, st) =
      (if fill_index P1 \<ge> 64 then bind_call (alt_putbufflush D (P1, st)) (\<lambda>(_, P, st). Returns (c, P, st))
       else Returns (c, P1, st))"
    by (simp add: alt_putcharbuf_def Let_def byte P1_def ALT_PUTBUF_SIZE_def)
  show ?thesis
  proof (cases "fill_index P = 63")
    case True
    with l p1 show ?thesis
      by (intro exI [of _ "P1\<lparr>fill_index := 0\<rparr>"])
        (simp add: e alt_putbufflush_def pending_def [symmetric] putbuf_inv_def bind_call_assoc split_def
          ALT_PUTBUF_SIZE_def, simp add: pending_def)
  next
    case False
    with l p1 show ?thesis
      by (intro exI [of _ P1]) (simp add: e putbuf_inv_def ALT_PUTBUF_SIZE_def)
  qed
qed

text \<open>C34: Buffering loses and reorders nothing: characters put into the buffer and then flushed are
  written to the standard output as the bytes that were waiting followed by the low bytes of
  the characters, in blocks of 64 bytes and a last shorter one, whatever the device does with
  each block.\<close>

theorem putbuf_in_order:
  assumes "putbuf_inv P"
  shows "bind_call (put_all D cs (P, st)) (\<lambda>(P, st). bind_call (alt_putbufflush D (P, st))
      (\<lambda>(r, P, st). Returns (r, fill_index P, st))) =
    bind_call (write_blocks D (pending P @ map ucast cs) st) (\<lambda>(bytes, st).
      bind_call (alt_write D 1 bytes st) (\<lambda>(r, st). Returns (r, 0, st)))"
  using assms
proof (induction cs arbitrary: P st)
  case Nil
  then have "length (pending P) < 64" by (simp add: putbuf_inv_def pending_def ALT_PUTBUF_SIZE_def)
  then show ?case
    by (simp add: alt_putbufflush_def bind_call_assoc pending_def write_blocks.simps split_def)
next
  case (Cons c cs)
  from putcharbuf_step [OF Cons.prems, of D c st] obtain P' where P': "putbuf_inv P'"
    and s: "if length (pending P) = 63
     then pending P' = [] \<and> alt_putcharbuf D c (P, st) =
       bind_call (alt_write D 1 (pending P @ [ucast c]) st) (\<lambda>(_, st). Returns (c, P', st))
     else pending P' = pending P @ [ucast c] \<and> alt_putcharbuf D c (P, st) = Returns (c, P', st)"
    by blast
  show ?case
  proof (cases "length (pending P) = 63")
    case True
    with s Cons.IH [OF P'] show ?thesis
      by (subst write_blocks.simps) (simp add: bind_call_assoc split_def)
  next
    case False
    with s Cons.IH [OF P'] show ?thesis by (simp add: bind_call_assoc split_def)
  qed
qed

text \<open>A standard output that is open for writing.\<close>

definition open_stdout :: fds where
  "open_stdout = upd_fd 1 (\<lambda>d. d\<lparr>fd_flags := O_WRONLY\<rparr>) (fds_at_reset 5 8 9)"

theorem putbuf_in_order_witness:
  "bind_call (put_all (\<lambda>_. alt_dev_null) [72, 105] (putbuf0, open_stdout, ()))
     (\<lambda>(P, st). bind_call (alt_putbufflush (\<lambda>_. alt_dev_null) (P, st))
        (\<lambda>(r, P, st). Returns (r, fill_index P, st))) =
   Returns (2, 0, open_stdout, ())"
proof -
  have "putbuf_inv putbuf0" "pending putbuf0 = []"
    by (simp_all add: putbuf_inv_def putbuf0_def pending_def ALT_PUTBUF_SIZE_def)
  moreover have "alt_write (\<lambda>_. alt_dev_null) 1 [72, 105] (open_stdout, ()) =
      Returns (2, open_stdout, ())"
    by (simp add: alt_write_def with_fd_def with_dev_def open_stdout_def fds_at_reset_def alt_dev_null_def
        alt_dev_null_write_def ALT_MAX_FD_def O_WRONLY_def O_ACCMODE_def O_RDONLY_def)
  ultimately show ?thesis
    using putbuf_in_order [of putbuf0 "\<lambda>_. alt_dev_null" "[72, 105]" "(open_stdout, ())"]
    by (simp add: write_blocks.simps)
qed

end
