(* ===== verification/Hal_System.thy ===== *)
theory Hal_System
  imports Hal_Fd Hal_Memory Hal_Alarm
begin

text \<open>
  Exceptions and the remaining system calls: \<open>alt_instruction_exception_entry.c\<close>,
  \<open>alt_instruction_exception_register.c\<close>, \<open>alt_ecc_fatal_exception.c\<close>, \<open>alt_kill.c\<close>,
  \<open>alt_stat.c\<close>, the calls without a meaning on a single process (\<open>alt_fork.c\<close>, \<open>alt_wait.c\<close>
  and others), opening DMA channels and flash devices by name, and the timestamp timer
  \<open>altera_avalon_timer_ts.c\<close>. Handlers that a program registers are parameters.
\<close>

section \<open>Exceptions caused by instructions\<close>

text \<open>\<open>EXCEPTION\<close> and \<open>BADADDR\<close> are the processor's registers. Without a handler the processor
  stops at a breakpoint, which is \<open>None\<close>.\<close>

definition NIOS2_EXCEPTION_REG_CAUSE_MASK :: u32 where "NIOS2_EXCEPTION_REG_CAUSE_MASK = 0x7c"

type_synonym 's exception_handler = "u32 \<Rightarrow> u32 \<Rightarrow> u32 \<Rightarrow> 's \<Rightarrow> int \<times> 's"

definition alt_instruction_exception_register ::
  "'s exception_handler option \<Rightarrow> 's exception_handler option \<Rightarrow> 's exception_handler option" where
  "alt_instruction_exception_register exception_handler old = exception_handler"

definition alt_instruction_exception_entry ::
  "'s exception_handler option \<Rightarrow> u32 \<Rightarrow> u32 \<Rightarrow> u32 \<Rightarrow> 's \<Rightarrow> (int \<times> 's) option" where
  "alt_instruction_exception_entry handler EXCEPTION BADADDR exception_pc s =
     (let cause = EXCEPTION;
          cause = drop_bit 2 (cause AND NIOS2_EXCEPTION_REG_CAUSE_MASK);
          badaddr = BADADDR
      in case handler of
           Some f \<Rightarrow> Some (f cause exception_pc badaddr s)
         | None \<Rightarrow> None)"

text \<open>The numbers of the causes, as in \<open>alt_exceptions.h\<close>.\<close>

definition alt_exception_cause_generated_bad_addr :: "u32 \<Rightarrow> int" where
  "alt_exception_cause_generated_bad_addr cause =
     (if cause \<in> {11, 6, 7, 14, 15, 17, 21} then 1
      else if cause \<in> {12, 18} then 0 else 0)"

text \<open>The fatal ECC handler: the variable at address \<open>var\<close> is set and flushed from the cache.\<close>

definition alt_ecc_fatal_exception_register :: "u32 \<Rightarrow> u32 \<Rightarrow> (u32 \<times> cache_op list) option" where
  "alt_ecc_fatal_exception_register var handler =
     map_option (Pair handler) (alt_dcache_flush_lines var 4)"

section \<open>Processes and signals\<close>

text \<open>The signals the code names; any other number is \<open>SIGNUM\<close>.\<close>

datatype signal = NULL_SIGNAL | SIGABRT | SIGALRM | SIGFPE | SIGILL | SIGKILL | SIGPIPE | SIGQUIT
  | SIGSEGV | SIGTERM | SIGUSR1 | SIGUSR2 | SIGBUS | SIGPOLL | SIGPROF | SIGSYS | SIGTRAP | SIGVTALRM
  | SIGXCPU | SIGXFSZ | SIGCHLD | SIGURG | SIGNUM int

definition ESRCH :: int where "ESRCH = 3"
definition ECHILD :: int where "ECHILD = 10"

text \<open>\<open>Never\<close> is the call of \<open>_exit\<close>, which does not return.\<close>

definition alt_kill :: "int \<Rightarrow> signal \<Rightarrow> 'x fstate \<Rightarrow> (int \<times> 'x fstate) call" where
  "alt_kill pid sig st =
     bind_call
       (if pid \<le> 0 then
          (case sig of
             NULL_SIGNAL \<Rightarrow> Returns 0
           | SIGCHLD \<Rightarrow> Returns 0
           | SIGURG \<Rightarrow> Returns 0
           | SIGNUM _ \<Rightarrow> Returns EINVAL
           | _ \<Rightarrow> Never)
        else Returns ESRCH)
       (\<lambda>status. if status \<noteq> 0 then Returns (- 1, set_errno status st) else Returns (0, st))"

text \<open>\<open>execve\<close>, \<open>fork\<close>, \<open>link\<close>, \<open>rename\<close> and \<open>unlink\<close>; \<open>wait\<close>, whose second result is the status it
  stores; \<open>getpid\<close>.\<close>

definition alt_stub :: "'x fstate \<Rightarrow> int \<times> 'x fstate" where
  "alt_stub st = (- 1, set_errno ENOSYS st)"

definition alt_wait :: "'x fstate \<Rightarrow> int \<times> int \<times> 'x fstate" where
  "alt_wait st = (- 1, 0, set_errno ECHILD st)"

definition alt_getpid :: int where "alt_getpid = 0"

section \<open>Devices by name\<close>

text \<open>\<open>mode\<close> stands for the argument of \<open>open\<close> that is not passed.\<close>

definition alt_stat :: "'x devices \<Rightarrow> u32 \<Rightarrow> string \<Rightarrow> u32 \<Rightarrow> 'x fstate \<Rightarrow> (int \<times> u32 \<times> 'x fstate) call" where
  "alt_stat D mode file st_mode st =
     bind_call (alt_open D file 0 mode st) (\<lambda>(fd, st).
     bind_call (alt_fstat D fd st_mode st) (\<lambda>(rc, st_mode, st).
     bind_call (alt_close D fd st) (\<lambda>(_, st). Returns (rc, st_mode, st))))"

text \<open>A null result is 0. \<open>alt_dma_txchan_open\<close>, \<open>alt_dma_rxchan_open\<close> and \<open>alt_msgdma_open\<close>
  search their own lists.\<close>

definition open_by_name :: "'x devices \<Rightarrow> string \<Rightarrow> u32 \<Rightarrow> 'x fstate \<Rightarrow> (u32 \<times> 'x fstate) call" where
  "open_by_name D name list st =
     (case alt_find_dev D name list (fst st) of
        None \<Rightarrow> Never
      | Some dev \<Rightarrow> Returns (dev, if dev = 0 then set_errno ENODEV st else st))"

definition alt_dma_txchan_open :: "'x devices \<Rightarrow> u32 \<Rightarrow> string \<Rightarrow> 'x fstate \<Rightarrow> (u32 \<times> 'x fstate) call" where
  "alt_dma_txchan_open D alt_dma_txchan_list name st = open_by_name D name alt_dma_txchan_list st"

definition alt_dma_rxchan_open :: "'x devices \<Rightarrow> u32 \<Rightarrow> string \<Rightarrow> 'x fstate \<Rightarrow> (u32 \<times> 'x fstate) call" where
  "alt_dma_rxchan_open D alt_dma_rxchan_list name st = open_by_name D name alt_dma_rxchan_list st"

definition alt_msgdma_open :: "'x devices \<Rightarrow> u32 \<Rightarrow> string \<Rightarrow> 'x fstate \<Rightarrow> (u32 \<times> 'x fstate) call" where
  "alt_msgdma_open D alt_msgdma_list name st = open_by_name D name alt_msgdma_list st"

text \<open>A flash device at \<open>dev\<close> may have functions to open and close it.\<close>

definition alt_flash_open_dev ::
  "'x devices \<Rightarrow> u32 \<Rightarrow> (u32 \<Rightarrow> (u32 \<Rightarrow> string \<Rightarrow> 'x fstate \<Rightarrow> u32 \<times> 'x fstate) option) \<Rightarrow> string \<Rightarrow>
   'x fstate \<Rightarrow> (u32 \<times> 'x fstate) call" where
  "alt_flash_open_dev D alt_flash_dev_list op name st =
     (case alt_find_dev D name alt_flash_dev_list (fst st) of
        None \<Rightarrow> Never
      | Some dev \<Rightarrow>
          if dev \<noteq> 0 then (case op dev of Some f \<Rightarrow> Returns (f dev name st) | None \<Rightarrow> Returns (dev, st))
          else Returns (dev, st))"

definition alt_flash_close_dev ::
  "(u32 \<Rightarrow> (u32 \<Rightarrow> 'x fstate \<Rightarrow> 'x fstate) option) \<Rightarrow> u32 \<Rightarrow> 'x fstate \<Rightarrow> 'x fstate" where
  "alt_flash_close_dev cl fd st =
     (if fd \<noteq> 0 then (case cl fd of Some f \<Rightarrow> f fd st | None \<Rightarrow> st) else st)"

section \<open>The timestamp\<close>

text \<open>The variables \<open>altera_avalon_timer_ts_base\<close> and \<open>altera_avalon_timer_ts_freq\<close>, and the
  driver for a timer with a counter of 32 or 64 bits.\<close>

record timestamp =
  ts_base :: u32
  ts_freq :: u32

definition TIMER_STOP_MSK :: u32 where "TIMER_STOP_MSK = 0x8"
definition TIMER_PERIODL_REG :: nat where "TIMER_PERIODL_REG = 2"
definition TIMER_PERIODH_REG :: nat where "TIMER_PERIODH_REG = 3"
definition TIMER_SNAPL_REG :: nat where "TIMER_SNAPL_REG = 4"
definition TIMER_SNAPH_REG :: nat where "TIMER_SNAPH_REG = 5"

definition TIMER_PERIOD_REG :: "nat \<Rightarrow> nat" where "TIMER_PERIOD_REG k = 2 + k"
definition TIMER_SNAP_REG :: "nat \<Rightarrow> nat" where "TIMER_SNAP_REG k = 6 + k"

definition alt_timestamp_start :: "'h bus \<Rightarrow> nat \<Rightarrow> timestamp \<Rightarrow> 'h machine \<Rightarrow> int \<times> 'h machine" where
  "alt_timestamp_start B ALT_TIMESTAMP_COUNTER_SIZE T s =
     (let base = ts_base T
      in if ts_freq T = 0 then (- 1, s)
         else if ALT_TIMESTAMP_COUNTER_SIZE = 64
           then let s = IOWR B base TIMER_CONTROL_REG TIMER_STOP_MSK s;
                    s = IOWR B base (TIMER_PERIOD_REG 0) 0xFFFF s;
                    s = IOWR B base (TIMER_PERIOD_REG 1) 0xFFFF s;
                    s = IOWR B base (TIMER_PERIOD_REG 2) 0xFFFF s;
                    s = IOWR B base (TIMER_PERIOD_REG 3) 0xFFFF s;
                    s = IOWR B base TIMER_CONTROL_REG TIMER_START_MSK s
                in (0, s)
           else let s = IOWR B base TIMER_CONTROL_REG TIMER_STOP_MSK s;
                    s = IOWR B base TIMER_PERIODL_REG 0xFFFF s;
                    s = IOWR B base TIMER_PERIODH_REG 0xFFFF s;
                    s = IOWR B base TIMER_CONTROL_REG TIMER_START_MSK s
                in (0, s))"

text \<open>The two forms of the function that reads the counter.\<close>

definition alt_timestamp_64 :: "'h bus \<Rightarrow> timestamp \<Rightarrow> 'h machine \<Rightarrow> 64 word \<times> 'h machine" where
  "alt_timestamp_64 B T s =
     (let base = ts_base T
      in if ts_freq T = 0 then (0xFFFFFFFFFFFFFFFF, s)
         else let s = IOWR B base (TIMER_SNAP_REG 0) 0 s;
                  (v, s) = IORD B base (TIMER_SNAP_REG 0) s;
                  snap_0 = ucast (v AND 0xFFFF) :: 64 word;
                  (v, s) = IORD B base (TIMER_SNAP_REG 1) s;
                  snap_1 = ucast (v AND 0xFFFF);
                  (v, s) = IORD B base (TIMER_SNAP_REG 2) s;
                  snap_2 = ucast (v AND 0xFFFF);
                  (v, s) = IORD B base (TIMER_SNAP_REG 3) s;
                  snap_3 = ucast (v AND 0xFFFF)
              in (0xFFFFFFFFFFFFFFFF -
                    (push_bit 48 snap_3 OR push_bit 32 snap_2 OR push_bit 16 snap_1 OR snap_0), s))"

definition alt_timestamp :: "'h bus \<Rightarrow> timestamp \<Rightarrow> 'h machine \<Rightarrow> u32 \<times> 'h machine" where
  "alt_timestamp B T s =
     (let base = ts_base T
      in if ts_freq T = 0 then (0xFFFFFFFF, s)
         else let s = IOWR B base TIMER_SNAPL_REG 0 s;
                  (v, s) = IORD B base TIMER_SNAPL_REG s;
                  lower = v AND 0xFFFF;
                  (v, s) = IORD B base TIMER_SNAPH_REG s;
                  upper = v AND 0xFFFF
              in (0xFFFFFFFF - (push_bit 16 upper OR lower), s))"

definition alt_timestamp_freq :: "timestamp \<Rightarrow> u32" where
  "alt_timestamp_freq T = ts_freq T"

section \<open>Lemmas\<close>

text \<open>Opening a character device that nobody holds exclusively, without a driver function for
  it: the lowest free descriptor.\<close>

lemma alt_open_plain:
  assumes "alt_find_dev D name (alt_dev_list F) F = Some dev" and "dev \<noteq> 0" and "dev_open (D dev) = None"
    and "\<forall>i. fd_flags (alt_fd_list F i) AND ALT_FD_EXCL = 0" and "\<exists>k<32. fd_dev (alt_fd_list F k) = 0"
  defines "k \<equiv> LEAST k. fd_dev (alt_fd_list F k) = 0"
  shows "alt_open D name flags mode (F, x) = Returns (int k,
    upd_fd k (\<lambda>d. d\<lparr>fd_flags := flags AND NOT ALT_FD_FLAGS_MASK OR ALT_FD_DEV\<rparr>) (taken k dev F), x)"
proof -
  have get: "alt_get_fd dev F = (int k, taken k dev F)"
    using assms(5) unfolding alt_get_fd_eq k_def Let_def by (simp only: if_True)
  define F1 where "F1 = upd_fd k (\<lambda>d. d\<lparr>fd_flags := flags AND NOT ALT_FD_FLAGS_MASK\<rparr>) (taken k dev F)"
  define F2 where "F2 = upd_fd k (\<lambda>d. d\<lparr>fd_flags := fd_flags d OR ALT_FD_DEV\<rparr>) F1"
  have "fd_flags (alt_fd_list F2 i) AND ALT_FD_EXCL = 0" if "i \<noteq> k" for i
    using that assms(4) by (simp add: F2_def F1_def taken_def)
  then have "\<not> (\<exists>i\<in>set [0..<nat (alt_max_fd F2 + 1)]. fd_dev (alt_fd_list F2 i) = fd_dev (alt_fd_list F2 k) \<and>
      fd_flags (alt_fd_list F2 i) AND ALT_FD_EXCL \<noteq> 0 \<and> i \<noteq> k)" by blast
  then have "alt_file_locked k F1 = (0, F2)"
    unfolding alt_file_locked_def Let_def F2_def [symmetric] by (simp only: if_False)
  then have "alt_open D name flags mode (F, x) = Returns (int k, F2, x)"
    using assms(1-3) get by (simp add: alt_open_def Let_def F1_def [symmetric])
  moreover have "F2 = upd_fd k (\<lambda>d. d\<lparr>fd_flags := flags AND NOT ALT_FD_FLAGS_MASK OR ALT_FD_DEV\<rparr>)
      (taken k dev F)"
    by (simp add: F2_def F1_def upd_fd_def)
  ultimately show ?thesis by simp
qed

section \<open>Properties\<close>

text \<open>Asking about a character device by name answers that it is one, and leaves no trace in the
  pool: every descriptor refers to the same device as before, and the one used is free again.\<close>

theorem alt_stat_device:
  assumes "alt_find_dev D file (alt_dev_list F) F = Some dev" and "dev \<noteq> 0"
    and "dev_open (D dev) = None" and "dev_fstat (D dev) = None" and "dev_close (D dev) = None"
    and "\<forall>i. fd_flags (alt_fd_list F i) AND ALT_FD_EXCL = 0"
    and "\<forall>j<3. fd_dev (alt_fd_list F j) \<noteq> 0" and "\<exists>k<32. fd_dev (alt_fd_list F k) = 0"
  shows "\<exists>F'. alt_stat D mode file m (F, x) = Returns (0, IFCHR, F', x) \<and> fd_errno F' = fd_errno F \<and>
    (\<forall>j. fd_dev (alt_fd_list F' j) = fd_dev (alt_fd_list F j))"
proof -
  define k where "k = (LEAST k. fd_dev (alt_fd_list F k) = 0)"
  define F2 where "F2 = upd_fd k (\<lambda>d. d\<lparr>fd_flags := 0 AND NOT ALT_FD_FLAGS_MASK OR ALT_FD_DEV\<rparr>) (taken k dev F)"
  have op: "alt_open D file 0 mode (F, x) = Returns (int k, F2, x)"
    unfolding F2_def k_def by (rule alt_open_plain) (use assms in auto)
  from assms(8) obtain j where j: "j < 32" "fd_dev (alt_fd_list F j) = 0" by blast
  then have "k \<le> j" unfolding k_def by (intro Least_le)
  with j have k32: "k < 32" by simp
  have free: "fd_dev (alt_fd_list F k) = 0" unfolding k_def using j(2) by (rule LeastI)
  have k3: "\<not> k < 3" using free assms(7) by blast
  have dev: "fd_dev (alt_fd_list F2 k) = dev" by (simp add: F2_def taken_def)
  have st: "alt_fstat D (int k) m (F2, x) = Returns (0, IFCHR, F2, x)"
    using k32 dev assms(2,4) by (simp add: alt_fstat_def with_fd_def with_dev_def ALT_MAX_FD_def)
  have cl: "alt_close D (int k) (F2, x) = Returns (0, alt_release_fd (int k) F2, x)"
    using k32 dev assms(2,5) by (simp add: alt_close_def with_fd_def with_dev_def ALT_MAX_FD_def)
  have "alt_stat D mode file m (F, x) = Returns (0, IFCHR, alt_release_fd (int k) F2, x)"
    by (simp add: alt_stat_def op st cl)
  then show ?thesis using k3 free by (auto simp: alt_release_fd_def F2_def taken_def)
qed

theorem alt_stat_device_witness:
  "\<exists>F'. alt_stat (\<lambda>_. alt_dev_null) 0 ''/dev/null'' 0 (fds_at_reset 5 8 9, ()) = Returns (0, IFCHR, F', ()) \<and>
    fd_errno F' = fd_errno (fds_at_reset 5 8 9) \<and>
    (\<forall>j. fd_dev (alt_fd_list F' j) = fd_dev (alt_fd_list (fds_at_reset 5 8 9) j))"
proof (rule alt_stat_device [where dev = 5])
  have "dll (dev_llist (fds_at_reset 5 8 9)) 8 [5]"
    using dll_insert [of "\<lparr>l_next = id, l_prev = id\<rparr>" 8 "[]" 5]
    by (simp add: fds_at_reset_def dll_def)
  from find_dev_loop_eq [of _ _ "[]", simplified, OF this] dll_next_head [OF this]
  show "alt_find_dev (\<lambda>_. alt_dev_null) ''/dev/null'' (alt_dev_list (fds_at_reset 5 8 9))
      (fds_at_reset 5 8 9) = Some 5"
    by (simp add: alt_find_dev_def alt_dev_null_def fds_at_reset_def)
  show "\<exists>k<32. fd_dev (alt_fd_list (fds_at_reset 5 8 9) k) = 0"
    by (intro exI [of _ 3]) (simp add: fds_at_reset_def fd_free_def)
qed (simp_all add: alt_dev_null_def fds_at_reset_def fd_free_def)

text \<open>A defect: for a name that is neither a device nor a file the reason is lost. The failed
  \<open>open\<close> reports ENODEV, but its result -1 is passed on to \<open>fstat\<close> and \<open>close\<close>, which replace
  the error by EBADFD.\<close>

theorem alt_stat_missing_loses_errno:
  assumes "alt_find_dev D file (alt_dev_list F) F = Some 0" and "alt_find_file D file F = Some 0"
  shows "alt_open D file 0 mode (F, x) = Returns (- 1, F\<lparr>fd_errno := ENODEV\<rparr>, x) \<and>
    alt_stat D mode file m (F, x) = Returns (- 1, m, F\<lparr>fd_errno := EBADFD\<rparr>, x)"
  using assms
  by (simp add: alt_stat_def alt_open_def alt_fstat_def alt_close_def with_fd_def alt_release_fd_def
      set_errno_def Let_def)

theorem alt_stat_missing_loses_errno_witness:
  "\<exists>F'. alt_stat (\<lambda>_. alt_dev_null) 0 ''x'' 7 (F' :: fds, ()) =
    Returns (- 1, 7, F'\<lparr>fd_errno := EBADFD\<rparr>, ())"
proof -
  define F :: fds where "F = \<lparr>alt_fd_list = (\<lambda>_. fd_free), alt_max_fd = - 1,
     dev_llist = \<lparr>l_next = id, l_prev = id\<rparr>, alt_dev_list = 8, alt_fs_list = 9, fd_errno = 0\<rparr>"
  have "alt_find_dev (\<lambda>_. alt_dev_null) ''x'' (alt_dev_list F) F = Some 0"
    "alt_find_file (\<lambda>_. alt_dev_null) ''x'' F = Some 0"
    by (simp_all add: alt_find_dev_def alt_find_file_def F_def find_dev_loop.simps find_file_loop.simps)
  from alt_stat_missing_loses_errno [OF this, where mode = 0 and m = 7 and x = "()"]
  show ?thesis by blast
qed

text \<open>The timestamp counts up from the start of the timer: with the hardware's down-counter at
  \<open>c\<close> when the snapshot is taken (any junk in the upper halves of the two registers) the result
  is \<open>2^32 - 1 - c\<close>; the snapshot is taken before the two halves are read. Without a timestamp
  timer it is the largest number.\<close>

theorem alt_timestamp_counts_up:
  assumes "take_bit 16 (resp (hw s @ [Wr32 (ts_base T + 16) 0]) (ts_base T + 16)) = take_bit 16 c"
    and "take_bit 16 (resp (hw s @ [Wr32 (ts_base T + 16) 0, Rd (ts_base T + 16)
      (resp (hw s @ [Wr32 (ts_base T + 16) 0]) (ts_base T + 16))]) (ts_base T + 20)) = drop_bit 16 c"
  shows "unat (fst (alt_timestamp (trace_bus resp) T s)) =
    (if ts_freq T = 0 then 2 ^ 32 - 1 else 2 ^ 32 - 1 - unat c)"
proof (cases "ts_freq T = 0")
  case True
  then show ?thesis by (simp add: alt_timestamp_def)
next
  case False
  define h where "h = hw s @ [Wr32 (ts_base T + 16) 0]"
  define l where "l = resp h (ts_base T + 16)"
  define u where "u = resp (h @ [Rd (ts_base T + 16) l]) (ts_base T + 20)"
  have F: "0xFFFF = (mask 16 :: u32)" by (simp add: mask_eq_exp_minus_1)
  have l: "l AND 0xFFFF = take_bit 16 c" and u: "u AND 0xFFFF = drop_bit 16 c"
    using assms unfolding F by (simp_all add: l_def u_def h_def take_bit_eq_mask [symmetric])
  have "push_bit 16 (u AND 0xFFFF) OR (l AND 0xFFFF) = c"
    unfolding l u by (rule bit_word_eqI) (auto simp: bit_simps)
  then have "fst (alt_timestamp (trace_bus resp) T s) = 0xFFFFFFFF - c"
    using False by (simp add: alt_timestamp_def trace_IO_reg TIMER_SNAPL_REG_def TIMER_SNAPH_REG_def
        Let_def l_def u_def h_def)
  moreover have "unat (0xFFFFFFFF - c) = 2 ^ 32 - 1 - unat c"
    using unat_u32_bound [of c] by (subst unat_sub) (simp_all add: word_le_nat_alt)
  ultimately show ?thesis using False by simp
qed

theorem alt_timestamp_counts_up_witness:
  "unat (fst (alt_timestamp (trace_bus (\<lambda>_ a. if a = 0x74 then 2 else 0xFF000001))
     \<lparr>ts_base = 0x60, ts_freq = 50000000\<rparr> (reset_machine []))) = 2 ^ 32 - 1 - 131073"
  using alt_timestamp_counts_up [of "\<lambda>_ a. if a = 0x74 then 2 else 0xFF000001" "reset_machine []"
      "\<lparr>ts_base = 0x60, ts_freq = 50000000\<rparr>" "0x20001"]
  by (simp add: reset_machine_def take_bit_eq_mod)

text \<open>Signals to the process itself end it, are ignored, or are refused; another process does
  not exist.\<close>

theorem alt_kill_outcomes:
  "alt_kill pid sig st =
     (if pid > 0 then Returns (- 1, set_errno ESRCH st)
      else if sig \<in> {NULL_SIGNAL, SIGCHLD, SIGURG} then Returns (0, st)
      else if (\<exists>n. sig = SIGNUM n) then Returns (- 1, set_errno EINVAL st) else Never)"
  by (cases sig) (auto simp: alt_kill_def ESRCH_def EINVAL_def)

end
