(* ===== verification/Mem_Verify.thy ===== *)
theory Mem_Verify
  imports Soc_Bus
begin

text \<open>
  The memory test of the application, \<open>TMEM_Verify\<close> in \<open>mem_verify.c\<close>. The memory under test
  is a parameter: \<open>memcpy\<close> into it, a word read from it, and the cache flush of the bus.
\<close>

section \<open>The test\<close>

record 'h memory =
  mem_copy :: "u32 \<Rightarrow> u8 list \<Rightarrow> 'h \<Rightarrow> 'h"
  mem_load :: "u32 \<Rightarrow> 'h \<Rightarrow> u32 \<times> 'h"
  mem_flush :: "'h \<Rightarrow> 'h"

text \<open>\<open>szData\<close>, filled in order from whatever the stack held.\<close>

definition sz_data :: "u32 \<Rightarrow> (nat \<Rightarrow> u32) \<Rightarrow> nat \<Rightarrow> u32" where
  "sz_data InitValue junk =
     (let szData = for_range 0 257
            (\<lambda>i d. if i = 0 then d(i := InitValue) else d(i := d (i - 1) * 13)) junk;
          szData = szData(257 - 1 := 0xAAAAAAAA);
          szData = szData(257 - 2 := 0x55555555);
          szData = szData(257 - 3 := 0x00000000)
      in szData(257 - 4 := 0xFFFFFFFF))"

definition word_bytes :: "u32 \<Rightarrow> u8 list" where
  "word_bytes w = map (\<lambda>i. byte_of i w) [0..<4]"

definition data_bytes :: "(nat \<Rightarrow> u32) \<Rightarrow> u8 list" where
  "data_bytes d = concat (map (\<lambda>i. word_bytes (d i)) [0..<257])"

definition szProgress :: "u32 \<Rightarrow> nat \<Rightarrow> u32" where
  "szProgress ByteLen i = ByteLen div 10 * of_nat (i + 1)"

definition progress :: "bool \<Rightarrow> u32 \<Rightarrow> u32 \<Rightarrow> nat \<times> 'h machine \<Rightarrow> nat \<times> 'h machine" where
  "progress bShowMessage ByteLen nPos = (\<lambda>(nProgressIndex, s).
     if bShowMessage \<and> nProgressIndex \<le> 9 \<and> nPos \<ge> szProgress ByteLen nProgressIndex
     then (nProgressIndex + 1, printf ''%02d%% '' [int (nProgressIndex + 1) * 10] s)
     else (nProgressIndex, s))"

text \<open>
  The length of the next piece. The two lengths are compared as signed numbers; a negative one
  makes \<open>memcpy\<close> run beyond \<open>szData\<close>, which is \<open>None\<close>.
\<close>

definition next_access :: "u32 \<Rightarrow> u32 \<Rightarrow> u32 \<Rightarrow> u32" where
  "next_access ByteLen nPos nAccessLen =
     (let nRemainedLen = ByteLen - nPos
      in if sint nAccessLen > sint nRemainedLen then nRemainedLen else nAccessLen)"

partial_function (option) write_loop ::
  "'h memory \<Rightarrow> (nat \<Rightarrow> u32) \<Rightarrow> bool \<Rightarrow> u32 \<Rightarrow> u32 \<Rightarrow> u32 \<Rightarrow> u32 \<Rightarrow> nat \<Rightarrow> 'h machine \<Rightarrow> 'h machine option" where
  "write_loop M szData bShowMessage ByteLen pDes nPos nAccessLen nProgressIndex s =
     (if nPos < ByteLen then
        let nAccessLen = next_access ByteLen nPos nAccessLen;
            nItemNum = nAccessLen div 4
        in if unat nAccessLen > 1028 then None
           else let s = s\<lparr>hw := mem_copy M pDes (take (unat nAccessLen) (data_bytes szData)) (hw s)\<rparr>;
                    pDes = pDes + 4 * nItemNum;
                    nPos = nPos + nAccessLen;
                    p = progress bShowMessage ByteLen nPos (nProgressIndex, s)
                in write_loop M szData bShowMessage ByteLen pDes nPos nAccessLen (fst p) (snd p)
      else Some s)"

text \<open>\<open>for (i = 0; i < nItemNum && bPass; i++)\<close>; a mismatch reads the word once more to report it.\<close>

function check_items ::
  "'h memory \<Rightarrow> (nat \<Rightarrow> u32) \<Rightarrow> bool \<Rightarrow> u32 \<Rightarrow> nat \<Rightarrow> nat \<Rightarrow> u32 \<Rightarrow> 'h machine \<Rightarrow> bool \<times> u32 \<times> 'h machine"
where
  "check_items M szData bShowMessage nPos nItemNum i pSrc s =
     (if i < nItemNum then
        case mem_load M pSrc (hw s) of (v, h) \<Rightarrow>
          let s = s\<lparr>hw := h\<rparr>;
              pSrc = pSrc + 4
          in if v \<noteq> szData i then
               (False, pSrc,
                if bShowMessage
                then case mem_load M (pSrc - 4) (hw s) of (w, h) \<Rightarrow>
                  printf ''verify ng,address==%08Xh, read=%08Xh, expected=%08Xh, WordIndex=%Xh\<newline>''
                    [uint (pSrc - 4), sint w, sint (szData i), uint (nPos div 4) + int i] (s\<lparr>hw := h\<rparr>)
                else s)
             else check_items M szData bShowMessage nPos nItemNum (i + 1) pSrc s
      else (True, pSrc, s))"
  by pat_completeness auto
termination
  by (relation "measure (\<lambda>(M, szData, bShowMessage, nPos, nItemNum, i, pSrc, s). nItemNum - i)") auto

declare check_items.simps [simp del]

partial_function (option) verify_loop ::
  "'h memory \<Rightarrow> (nat \<Rightarrow> u32) \<Rightarrow> bool \<Rightarrow> u32 \<Rightarrow> bool \<Rightarrow> u32 \<Rightarrow> u32 \<Rightarrow> u32 \<Rightarrow> nat \<Rightarrow> 'h machine \<Rightarrow>
   (bool \<times> 'h machine) option" where
  "verify_loop M szData bShowMessage ByteLen bPass pSrc nPos nAccessLen nProgressIndex s =
     (if bPass \<and> nPos < ByteLen then
        let nAccessLen = next_access ByteLen nPos nAccessLen;
            nItemNum = nAccessLen div 4
        in if unat nAccessLen > 1028 then None
           else case check_items M szData bShowMessage nPos (unat nItemNum) 0 pSrc s of (bPass, pSrc, s) \<Rightarrow>
             let nPos = nPos + nAccessLen;
                 p = progress bShowMessage ByteLen nPos (nProgressIndex, s)
             in verify_loop M szData bShowMessage ByteLen bPass pSrc nPos nAccessLen (fst p) (snd p)
      else Some (bPass, s))"

declare write_loop.simps [code] verify_loop.simps [code]

definition say :: "bool \<Rightarrow> string \<Rightarrow> 'h machine \<Rightarrow> 'h machine" where
  "say bShowMessage fmt s = (if bShowMessage then printf fmt [] s else s)"

definition TMEM_Verify ::
  "'h memory \<Rightarrow> (nat \<Rightarrow> u32) \<Rightarrow> u32 \<Rightarrow> u32 \<Rightarrow> u32 \<Rightarrow> bool \<Rightarrow> 'h machine \<Rightarrow> (bool \<times> 'h machine) option"
where
  "TMEM_Verify M junk BaseAddr ByteLen InitValue bShowMessage s = do {
     let szData = sz_data InitValue junk;
     let s = say bShowMessage ''write...\<newline>'' s;
     s \<leftarrow> write_loop M szData bShowMessage ByteLen BaseAddr 0 1028 0 s;
     let s = s\<lparr>hw := mem_flush M (hw s)\<rparr>;
     let s = say bShowMessage ''\<newline>read/verify...\<newline>'' s;
     (bPass, s) \<leftarrow> verify_loop M szData bShowMessage ByteLen True BaseAddr 0 1028 0 s;
     Some (bPass, say bShowMessage ''\<newline>'' s) }"

section \<open>Memory as a history\<close>

datatype mem_access = Copy u32 "u8 list" | Load u32 u32 | Flush

definition trace_mem :: "(mem_access list \<Rightarrow> u32 \<Rightarrow> u32) \<Rightarrow> mem_access list memory" where
  "trace_mem resp = \<lparr>mem_copy = (\<lambda>a bs h. h @ [Copy a bs]),
     mem_load = (\<lambda>a h. (resp h a, h @ [Load a (resp h a)])), mem_flush = (\<lambda>h. h @ [Flush])\<rparr>"

lemma trace_mem_simps [simp]:
  "mem_copy (trace_mem resp) a bs h = h @ [Copy a bs]"
  "mem_load (trace_mem resp) a h = (resp h a, h @ [Load a (resp h a)])"
  "mem_flush (trace_mem resp) h = h @ [Flush]"
  by (simp_all add: trace_mem_def)

lemma hw_progress [simp]: "hw (snd (progress b len p (i, s))) = hw s"
  by (simp add: progress_def)

lemma hw_say [simp]: "hw (say b fmt s) = hw s"
  by (simp add: say_def)

text \<open>The pattern, word for word: 257 words, over and over.\<close>

definition pattern_word :: "u32 \<Rightarrow> nat \<Rightarrow> u32" where
  "pattern_word init k =
     (let i = k mod 257
      in if i < 253 then init * 13 ^ i
         else if i = 253 then 0xFFFFFFFF else if i = 254 then 0
         else if i = 255 then 0x55555555 else 0xAAAAAAAA)"

lemma sz_data_eq: "i < 257 \<Longrightarrow> sz_data init junk i = pattern_word init i"
proof -
  have *: "\<forall>j<n. for_range 0 n (\<lambda>i d. if i = 0 then d(i := init) else d(i := d (i - 1) * 13)) junk j = init * 13 ^ j"
    for n
  proof (induction n)
    case (Suc n)
    then show ?case by (cases n) (auto simp: for_range_Suc less_Suc_eq mult.assoc mult.commute)
  qed simp
  assume "i < 257"
  then show ?thesis using spec [OF * [of 257], of i]
    by (auto simp: sz_data_def pattern_word_def Let_def)
qed

section \<open>Lemmas\<close>

text \<open>Number of pieces, and of words, of a region of \<open>l\<close> bytes.\<close>

definition pieces :: "nat \<Rightarrow> nat" where
  "pieces l = (l + 1027) div 1028"

lemma pieces_less: "j < pieces l \<longleftrightarrow> 1028 * j < l"
  using less_eq_div_iff_mult_less_eq [of 1028 "Suc j" "l + 1027"]
  by (simp add: pieces_def Suc_le_eq [symmetric] mult.commute)

lemma length_data_bytes [simp]: "length (data_bytes d) = 1028"
proof -
  have "length (concat (map (\<lambda>i. word_bytes (d i)) [0..<n])) = 4 * n" for n
    by (induction n) (simp_all add: word_bytes_def)
  then show ?thesis by (simp add: data_bytes_def)
qed

lemma next_access_min:
  assumes "unat len < 2 ^ 31" and "unat p \<le> unat len"
  shows "unat (next_access len p 1028) = min 1028 (unat len - unat p)"
proof -
  have u: "unat (len - p) = unat len - unat p" using assms(2) by (simp add: unat_sub word_le_nat_alt)
  with assms(1) have "sint (len - p) = int (unat (len - p))" by (intro sint_u32_small) simp
  then have "sint (1028 :: u32) > sint (len - p) \<longleftrightarrow> 1028 > unat len - unat p" using u by simp
  then show ?thesis using u by (simp add: next_access_def Let_def min_def)
qed

lemma write_loop_eq:
  assumes "unat len < 2 ^ 31" and "j \<le> pieces (unat len)"
    and "pos = of_nat (min (1028 * j) (unat len))"
    and "j < pieces (unat len) \<Longrightarrow> dst = base + of_nat (1028 * j) \<and> acc = 1028"
  shows "\<exists>s'. write_loop (trace_mem resp) d b len dst pos acc i s = Some s' \<and>
    hw s' = hw s @ map (\<lambda>k. Copy (base + of_nat (1028 * k)) (take (unat len - 1028 * k) (data_bytes d)))
      [j..<pieces (unat len)]"
  using assms(2-)
proof (induction "pieces (unat len) - j" arbitrary: j dst pos acc i s)
  case 0
  then have "\<not> 1028 * j < unat len" using pieces_less by (metis diff_is_0_eq not_le)
  then have "pos = len" using "0.prems" by (simp add: min_def)
  with 0 show ?case by (subst write_loop.simps) simp
next
  case (Suc n)
  then have j: "j < pieces (unat len)" by simp
  then have l: "1028 * j < unat len" by (simp add: pieces_less)
  have pos: "unat pos = 1028 * j"
    unfolding Suc.prems(2) unat_of_nat using l assms(1) by simp
  with l have less: "pos < len" by (simp add: word_less_nat_alt)
  define a where "a = next_access len pos 1028"
  have a: "unat a = min 1028 (unat len - 1028 * j)"
    unfolding a_def using next_access_min [OF assms(1), of pos] pos l by simp
  have pos': "pos + a = of_nat (min (1028 * Suc j) (unat len))"
  proof -
    have "pos + a = of_nat (unat pos + unat a)" by simp
    also have "unat pos + unat a = min (1028 * Suc j) (unat len)" unfolding pos a using l by simp
    finally show ?thesis .
  qed
  have nxt: "Suc j < pieces (unat len) \<Longrightarrow> dst + 4 * (a div 4) = base + of_nat (1028 * Suc j) \<and> a = 1028"
  proof
    assume "Suc j < pieces (unat len)"
    then have "1028 * Suc j < unat len" by (simp add: pieces_less)
    then show a1028: "a = 1028" using a by (simp add: word_unat_eq_iff)
    show "dst + 4 * (a div 4) = base + of_nat (1028 * Suc j)"
      using Suc.prems(3) [OF j] by (simp add: a1028)
  qed
  define t where "t = s\<lparr>hw := hw s @ [Copy dst (take (unat a) (data_bytes d))]\<rparr>"
  define q where "q = progress b len (pos + a) (i, t)"
  have "hw (snd q) = hw t" by (simp add: q_def)
  moreover have "n = pieces (unat len) - Suc j" "Suc j \<le> pieces (unat len)" using Suc.hyps(2) j by simp_all
  ultimately obtain s' where
    s': "write_loop (trace_mem resp) d b len (dst + 4 * (a div 4)) (pos + a) a (fst q) (snd q) = Some s'"
    "hw s' = hw t @ map (\<lambda>k. Copy (base + of_nat (1028 * k)) (take (unat len - 1028 * k) (data_bytes d)))
      [Suc j..<pieces (unat len)]"
    using Suc.hyps(1) [of "Suc j" "pos + a" "dst + 4 * (a div 4)" a "fst q" "snd q", OF _ _ pos' nxt] by auto
  have "write_loop (trace_mem resp) d b len dst pos acc i s = Some s'"
  proof -
    have "acc = 1028" "\<not> 1028 < unat a" using Suc.prems(3) [OF j] a by simp_all
    with less s'(1) show ?thesis
      by (subst write_loop.simps) (simp add: Let_def a_def [symmetric] t_def [symmetric] q_def [symmetric])
  qed
  moreover have "take (unat a) (data_bytes d) = take (unat len - 1028 * j) (data_bytes d)"
    unfolding a by (simp add: min_def)
  ultimately show ?case
    using s'(2) Suc.prems(3) [OF j] j by (simp add: t_def upt_conv_Cons)
qed

text \<open>The history after \<open>k\<close> words were read back right, and the word read next.\<close>

definition load_history :: "mem_access list \<Rightarrow> u32 \<Rightarrow> u32 \<Rightarrow> nat \<Rightarrow> mem_access list" where
  "load_history h base init k = h @ map (\<lambda>i. Load (base + of_nat (4 * i)) (pattern_word init i)) [0..<k]"

definition reads_back ::
  "(mem_access list \<Rightarrow> u32 \<Rightarrow> u32) \<Rightarrow> mem_access list \<Rightarrow> u32 \<Rightarrow> u32 \<Rightarrow> nat \<Rightarrow> bool" where
  "reads_back resp h base init k \<longleftrightarrow>
     resp (load_history h base init k) (base + of_nat (4 * k)) = pattern_word init k"

lemma load_history_Suc:
  "load_history h base init (Suc k) =
     load_history h base init k @ [Load (base + of_nat (4 * k)) (pattern_word init k)]"
  by (simp add: load_history_def)

lemma check_items_eq:
  assumes "hw s = load_history h base init (257 * j + i)" and "src = base + of_nat (4 * (257 * j + i))"
    and "N \<le> 257" and "i \<le> N"
  shows "case check_items (trace_mem resp) (sz_data init junk) b pos N i src s of (r, src', s') \<Rightarrow>
    (r \<longleftrightarrow> (\<forall>k. 257 * j + i \<le> k \<and> k < 257 * j + N \<longrightarrow> reads_back resp h base init k)) \<and>
    (r \<longrightarrow> hw s' = load_history h base init (257 * j + N) \<and> src' = base + of_nat (4 * (257 * j + N)))"
  using assms(1,2,4)
proof (induction "N - i" arbitrary: i src s)
  case 0
  then show ?case by (subst check_items.simps) auto
next
  case (Suc n)
  then have i: "i < N" by simp
  define m where "m = 257 * j + i"
  have mi: "m mod 257 = i" using i assms(3) by (simp add: m_def)
  have d: "sz_data init junk i = pattern_word init m"
    using sz_data_eq [of i init junk] i assms(3) mi by (simp add: pattern_word_def)
  define t where "t = s\<lparr>hw := hw s @ [Load src (resp (hw s) src)]\<rparr>"
  have bad: "fst (check_items (trace_mem resp) (sz_data init junk) b pos N i src s) = False"
    if "resp (hw s) src \<noteq> pattern_word init m"
    using i that by (subst check_items.simps) (simp add: Let_def d)
  have good: "check_items (trace_mem resp) (sz_data init junk) b pos N i src s =
      check_items (trace_mem resp) (sz_data init junk) b pos N (Suc i) (src + 4) t"
    if "resp (hw s) src = pattern_word init m"
    using i that by (subst check_items.simps) (simp add: Let_def d t_def)
  have rb: "reads_back resp h base init m \<longleftrightarrow> resp (hw s) src = pattern_word init m"
    using Suc.prems(1,2) by (simp add: reads_back_def m_def)
  show ?case
  proof (cases "reads_back resp h base init m")
    case False
    moreover have "257 * j + i \<le> m \<and> m < 257 * j + N" using i by (simp add: m_def)
    ultimately have "\<not> (\<forall>k. 257 * j + i \<le> k \<and> k < 257 * j + N \<longrightarrow> reads_back resp h base init k)" by blast
    moreover have "\<not> fst (check_items (trace_mem resp) (sz_data init junk) b pos N i src s)"
      using False rb bad by simp
    ultimately show ?thesis by (auto split: prod.split)
  next
    case True
    with rb have t: "hw t = load_history h base init (257 * j + Suc i)"
      using Suc.prems(1,2) by (simp add: t_def load_history_Suc m_def)
    have src: "src + 4 = base + of_nat (4 * (257 * j + Suc i))" using Suc.prems(2) by simp
    have all: "(\<forall>k. 257 * j + i \<le> k \<and> k < 257 * j + N \<longrightarrow> reads_back resp h base init k) \<longleftrightarrow>
        (\<forall>k. 257 * j + Suc i \<le> k \<and> k < 257 * j + N \<longrightarrow> reads_back resp h base init k)"
      using True unfolding m_def by (metis add_Suc_right le_eq_less_or_eq Suc_leI Suc_le_eq)
    have "n = N - Suc i" "Suc i \<le> N" using Suc.hyps(2) i by simp_all
    from Suc.hyps(1) [OF this(1) t src this(2)] show ?thesis
      using True rb unfolding good [OF iffD1 [OF rb True]] all by simp
  qed
qed

lemma verify_loop_False: "verify_loop M d b len False src pos acc i s = Some (False, s)"
  by (subst verify_loop.simps) simp

lemma verify_loop_eq:
  assumes "unat len < 2 ^ 31" and "j \<le> pieces (unat len)"
    and "pos = of_nat (min (1028 * j) (unat len))"
    and "j < pieces (unat len) \<Longrightarrow> src = base + of_nat (4 * (257 * j)) \<and> acc = 1028"
    and "hw s = load_history h base init (min (257 * j) (unat len div 4))"
  shows "\<exists>r s'. verify_loop (trace_mem resp) (sz_data init junk) b len True src pos acc i s = Some (r, s') \<and>
    (r \<longleftrightarrow> (\<forall>k. 257 * j \<le> k \<and> k < unat len div 4 \<longrightarrow> reads_back resp h base init k)) \<and>
    (r \<longrightarrow> hw s' = load_history h base init (unat len div 4))"
  using assms(2-)
proof (induction "pieces (unat len) - j" arbitrary: j src pos acc i s)
  case 0
  then have le: "unat len \<le> 1028 * j" using pieces_less by (metis diff_is_0_eq not_le)
  then have "pos = len" "unat len div 4 \<le> 257 * j" using "0.prems" by (simp_all add: min_def)
  with 0 show ?case by (subst verify_loop.simps) auto
next
  case (Suc n)
  then have j: "j < pieces (unat len)" by simp
  then have l: "1028 * j < unat len" by (simp add: pieces_less)
  have pos: "unat pos = 1028 * j"
    unfolding Suc.prems(2) unat_of_nat using l assms(1) by simp
  with l have less: "pos < len" by (simp add: word_less_nat_alt)
  define a where "a = next_access len pos 1028"
  have a: "unat a = min 1028 (unat len - 1028 * j)"
    unfolding a_def using next_access_min [OF assms(1), of pos] pos l by simp
  define N where "N = unat (a div 4)"
  have N: "N \<le> 257" "257 * j + N = min (257 * Suc j) (unat len div 4)"
    using a l by (auto simp: N_def unat_div_distrib min_def)
  have "257 * j \<le> unat len div 4" using l by simp
  then have s: "hw s = load_history h base init (257 * j + 0)" using Suc.prems(4) by (simp add: min_def)
  obtain r src' s1 where c: "check_items (trace_mem resp) (sz_data init junk) b pos N 0 src s = (r, src', s1)"
    by (metis prod.exhaust)
  have src: "src = base + of_nat (4 * (257 * j + 0))" using Suc.prems(3) [OF j] by simp
  from check_items_eq [OF s src N(1), of resp junk b pos] c have r:
    "r \<longleftrightarrow> (\<forall>k. 257 * j \<le> k \<and> k < 257 * j + N \<longrightarrow> reads_back resp h base init k)"
    "r \<Longrightarrow> hw s1 = load_history h base init (257 * j + N) \<and> src' = base + of_nat (4 * (257 * j + N))"
    by auto
  define q where "q = progress b len (pos + a) (i, s1)"
  have step: "verify_loop (trace_mem resp) (sz_data init junk) b len True src pos acc i s =
      verify_loop (trace_mem resp) (sz_data init junk) b len r src' (pos + a) a (fst q) (snd q)"
  proof -
    have "acc = 1028" "\<not> 1028 < unat a" using Suc.prems(3) [OF j] a by simp_all
    with less c show ?thesis
      by (subst verify_loop.simps) (simp add: Let_def a_def [symmetric] N_def [symmetric] q_def [symmetric])
  qed
  show ?case
  proof (cases r)
    case False
    with r(1) have "\<not> (\<forall>k. 257 * j \<le> k \<and> k < unat len div 4 \<longrightarrow> reads_back resp h base init k)"
      unfolding N(2) by auto
    with False show ?thesis unfolding step by (auto simp: verify_loop_False)
  next
    case True
    have pos': "pos + a = of_nat (min (1028 * Suc j) (unat len))"
    proof -
      have "pos + a = of_nat (unat pos + unat a)" by simp
      also have "unat pos + unat a = min (1028 * Suc j) (unat len)" unfolding pos a using l by simp
      finally show ?thesis .
    qed
    have nxt: "Suc j < pieces (unat len) \<Longrightarrow> src' = base + of_nat (4 * (257 * Suc j)) \<and> a = 1028"
    proof
      assume "Suc j < pieces (unat len)"
      then have big: "1028 * Suc j < unat len" by (simp add: pieces_less)
      then show "a = 1028" using a by (simp add: word_unat_eq_iff)
      have "257 * j + N = 257 * Suc j" using N(2) big by simp
      with r(2) [OF True] show "src' = base + of_nat (4 * (257 * Suc j))" by presburger
    qed
    have hq: "hw (snd q) = load_history h base init (min (257 * Suc j) (unat len div 4))"
      using r(2) [OF True] unfolding N(2) q_def by simp
    have n: "n = pieces (unat len) - Suc j" "Suc j \<le> pieces (unat len)" using Suc.hyps(2) j by simp_all
    have all: "(\<forall>k. 257 * j \<le> k \<and> k < unat len div 4 \<longrightarrow> reads_back resp h base init k) \<longleftrightarrow>
        (\<forall>k. 257 * Suc j \<le> k \<and> k < unat len div 4 \<longrightarrow> reads_back resp h base init k)"
    proof (intro iffI allI impI)
      fix k
      assume "\<forall>k. 257 * Suc j \<le> k \<and> k < unat len div 4 \<longrightarrow> reads_back resp h base init k"
        and k: "257 * j \<le> k \<and> k < unat len div 4"
      then show "reads_back resp h base init k"
        using r(1) True unfolding N(2) by (cases "k < 257 * Suc j") simp_all
    qed simp
    from Suc.hyps(1) [OF n pos' nxt hq, of "fst q"] True show ?thesis
      unfolding step all by simp
  qed
qed

section \<open>Properties\<close>

text \<open>The history after the pattern was written and the cache flushed.\<close>

definition written_history :: "mem_access list \<Rightarrow> (nat \<Rightarrow> u32) \<Rightarrow> u32 \<Rightarrow> nat \<Rightarrow> mem_access list" where
  "written_history h d base l =
     h @ map (\<lambda>k. Copy (base + of_nat (1028 * k)) (take (l - 1028 * k) (data_bytes d))) [0..<pieces l] @ [Flush]"

text \<open>C31: On arbitrary memory and for every length below 2 GB the test terminates. It fills the
  region piece by piece with the pattern of 257 words, flushes the cache, and passes exactly
  when every whole word, read after all the words before it, reads back its pattern word; the
  last bytes of a length that is not a multiple of four are written and never checked.\<close>

theorem TMEM_Verify_verdict:
  assumes "unat ByteLen < 2 ^ 31"
  shows "\<exists>pass s'. TMEM_Verify (trace_mem resp) junk BaseAddr ByteLen init b s = Some (pass, s') \<and>
    (let h = written_history (hw s) (sz_data init junk) BaseAddr (unat ByteLen)
     in (pass \<longleftrightarrow> (\<forall>k. k < unat ByteLen div 4 \<longrightarrow> reads_back resp h BaseAddr init k)) \<and>
        (pass \<longrightarrow> hw s' = load_history h BaseAddr init (unat ByteLen div 4)))"
proof -
  define d where "d = sz_data init junk"
  define s0 where "s0 = say b ''write...\<newline>'' s"
  obtain s1 where s1: "write_loop (trace_mem resp) d b ByteLen BaseAddr 0 1028 0 s0 = Some s1"
    and h1: "hw s1 = hw s @ map (\<lambda>k. Copy (BaseAddr + of_nat (1028 * k))
      (take (unat ByteLen - 1028 * k) (data_bytes d))) [0..<pieces (unat ByteLen)]"
    using write_loop_eq [OF assms, of 0 0 BaseAddr BaseAddr 1028 resp d b 0 s0] by (auto simp: s0_def)
  define s2 where "s2 = say b ''\<newline>read/verify...\<newline>'' (s1\<lparr>hw := hw s1 @ [Flush]\<rparr>)"
  define h where "h = written_history (hw s) d BaseAddr (unat ByteLen)"
  have h2: "hw s2 = load_history h BaseAddr init (min (257 * 0) (unat ByteLen div 4))"
    by (simp add: s2_def h_def h1 written_history_def load_history_def)
  obtain r s3 where v: "verify_loop (trace_mem resp) d b ByteLen True BaseAddr 0 1028 0 s2 = Some (r, s3)"
    and r: "r \<longleftrightarrow> (\<forall>k. k < unat ByteLen div 4 \<longrightarrow> reads_back resp h BaseAddr init k)"
      "r \<longrightarrow> hw s3 = load_history h BaseAddr init (unat ByteLen div 4)"
    using verify_loop_eq [OF assms _ _ _ h2, of 0 BaseAddr 1028 resp junk b 0] by (auto simp: d_def)
  have "TMEM_Verify (trace_mem resp) junk BaseAddr ByteLen init b s = Some (r, say b ''\<newline>'' s3)"
    using s1 v by (simp add: TMEM_Verify_def d_def [symmetric] s0_def [symmetric] s2_def [symmetric] Let_def)
  with r show ?thesis unfolding d_def [symmetric] h_def [symmetric] Let_def by auto
qed

theorem TMEM_Verify_verdict_witness:
  "\<exists>s'. TMEM_Verify (trace_mem (\<lambda>_ _. 7)) (\<lambda>_. 0) 0x1000 6 7 False (reset_machine []) = Some (True, s') \<and>
    hw s' = [Copy 0x1000 [7, 0, 0, 0, 91, 0], Flush, Load 0x1000 7]"
proof -
  have "take 6 (data_bytes (sz_data 7 (\<lambda>_. 0))) = [7, 0, 0, 0, 91, 0]"
  proof -
    have up: "[0..<257] = 0 # 1 # [2..<257]" by (simp only: upt_conv_Cons) (simp add: upt_conv_Cons)
    have "data_bytes d = word_bytes (d 0) @ word_bytes (d 1) @ concat (map (\<lambda>i. word_bytes (d i)) [2..<257])" for d
      unfolding data_bytes_def up by (simp only: list.map concat.simps)
    moreover have wb: "word_bytes w = [byte_of 0 w, byte_of 1 w, byte_of 2 w, byte_of 3 w]" for w
      by (simp add: word_bytes_def upt_conv_Cons numeral_eq_Suc)
    ultimately have "take 6 (data_bytes d) = word_bytes (d 0) @ take 2 (word_bytes (d 1))" for d
      by (simp only: take_append wb) simp
    then show ?thesis unfolding wb by (simp add: sz_data_eq pattern_word_def byte_of_def)
  qed
  moreover have "written_history [] d a 6 = [Copy a (take 6 (data_bytes d)), Flush]" for d a
    by (simp add: written_history_def pieces_def)
  moreover have "reads_back (\<lambda>_ _. 7) h a 7 0" for h a by (simp add: reads_back_def pattern_word_def)
  ultimately show ?thesis
    using TMEM_Verify_verdict [of 6 "\<lambda>_ _. 7" "\<lambda>_. 0" "0x1000" 7 False "reset_machine []"]
    by (auto simp: Let_def reset_machine_def load_history_def pattern_word_def)
qed

text \<open>A length of 2 GB or more is taken for negative, and the very first copy runs out of bounds.\<close>

theorem TMEM_Verify_huge:
  "TMEM_Verify M junk base 0x80000000 init b s = None"
proof -
  have "sint (0x80000000 :: u32) = - 2147483648" by simp
  then have "next_access 0x80000000 0 1028 = 0x80000000" by (simp add: next_access_def)
  then have "write_loop M d b 0x80000000 a 0 1028 i t = None" for d a i t
    by (subst write_loop.simps) (simp add: Let_def)
  then show ?thesis by (simp add: TMEM_Verify_def Let_def)
qed

end
