(* ===== verification/Npu_App.thy ===== *)
theory Npu_App
  imports Npu_Driver
begin

text \<open>
  The verification programs of \<open>software/npu/main.c\<close>: the full-system test, the streaming batch
  test, the test of one processing element and the menu. \<open>junk\<close> stands for the content of the
  uninitialised local array \<open>hw_matrix\<close>. The programs are built from the same pieces as their
  Linux copies.
\<close>

section \<open>Pieces\<close>

text \<open>\<open>for (i = 0; i < 64; i++)\<close> of \<open>Clearing Memories\<close>.\<close>

definition clear_regions :: "'h bus \<Rightarrow> u32 \<Rightarrow> u32 \<Rightarrow> u32 \<Rightarrow> 'h machine \<Rightarrow> 'h machine" where
  "clear_regions B weights_addr inputs_addr dst_addr s =
     for_range 0 64 (\<lambda>i s.
       let s = IOWR_32DIRECT B weights_addr (of_nat (i * 4)) 0 s;
           s = IOWR_32DIRECT B inputs_addr (of_nat (i * 4)) 0 s
       in IOWR_32DIRECT B dst_addr (of_nat (i * 4)) 0 s) s"

definition test_weights :: mat8 where
  "test_weights = for_range 0 8 (\<lambda>i m. mat_upd m i i 1) (\<lambda>_ _. 0)"

definition test_inputs :: mat8 where
  "test_inputs = fst (for_range 0 8 (\<lambda>r st. for_range 0 8 (\<lambda>c (m, val).
     (mat_upd m r c (of_nat val), val + 1)) st) ((\<lambda>_ _. 0), 1 :: nat))"

text \<open>\<open>npu_format_*\<close>, \<open>npu_load_weights\<close> and the calls that run one matrix.\<close>

definition print_matrix :: "(nat \<Rightarrow> nat \<Rightarrow> int) \<Rightarrow> 'h machine \<Rightarrow> 'h machine" where
  "print_matrix m s =
     for_range 0 8 (\<lambda>r s.
       let s = for_range 0 8 (\<lambda>c s. printf ''%3d '' [m r c] s) s
       in printf ''\<newline>'' [] s) s"

definition check_full :: "mat32 \<Rightarrow> 'h machine \<Rightarrow> nat \<times> 'h machine" where
  "check_full hw_matrix s =
     for_range 0 8 (\<lambda>r st. for_range 0 8 (\<lambda>c (errors, s).
       let hw_val = hw_matrix r c;
           np_val = of_nat (r * 8 + c + 1)
       in if hw_val \<noteq> np_val
          then (errors + 1, printf ''Mismatch at [%d, %d]: HW=0x%08x, Expected=0x%08x\<newline>''
                  [int r, int c, sint hw_val, sint (np_val :: u32)] s)
          else (errors, s)) st) (0, s)"

definition full_report :: "nat \<Rightarrow> 'h machine \<Rightarrow> 'h machine" where
  "full_report errors s =
     (if errors = 0
      then printf ''\<newline>Full System Validation: PASS! All 64 elements matched correctly.\<newline>'' [] s
      else printf ''\<newline>Full System Validation: FAIL (%d errors)\<newline>'' [int errors] s)"

text \<open>From \<open>Phase 1\<close> to the end of \<open>verify_full_system\<close>.\<close>

definition full_system_run ::
  "'h bus \<Rightarrow> board \<Rightarrow> mat32 \<Rightarrow> u32 \<Rightarrow> u32 \<Rightarrow> 'h machine \<Rightarrow> 'h machine option" where
  "full_system_run B bd junk physical_base dst_addr s = do {
     let s = printf ''Phase 1: Loading Weights via MSGDMA API...\<newline>'' [] s;
     s \<leftarrow> npu_load_weights B bd physical_base 1 s;
     let s = printf ''Weights Loaded!\<newline>'' [] s;
     let s = printf ''Phase 2: Execution via MSGDMA API...\<newline>'' [] s;
     let s = npu_get_matrix B bd (physical_base + 0x2000) 1 s;
     let s = npu_load_matrix B bd (physical_base + 0x1000) 1 s;
     s \<leftarrow> npu_wait_execution B bd s;
     let s = printf ''Execution Finished!\<newline>\<newline>'' [] s;
     let s = printf ''Verifying Output (Expecting Y=X for 8x8 matrix)...\<newline>'' [] s;
     let (hw_matrix, s) = npu_parse_output B dst_addr junk s;
     let s = printf ''\<newline>=== Hardware Output Matrix ===\<newline>'' [] s;
     let s = print_matrix (\<lambda>r c. sint (hw_matrix r c)) s;
     let s = printf ''\<newline>=== Expected Output Matrix ===\<newline>'' [] s;
     let s = print_matrix (\<lambda>r c. int (r * 8 + c + 1)) s;
     let s = printf ''\<newline>'' [] s;
     let (errors, s) = check_full hw_matrix s;
     Some (full_report errors s) }"

section \<open>The full-system test\<close>

definition verify_full_system :: "'h bus \<Rightarrow> board \<Rightarrow> mat32 \<Rightarrow> 'h machine \<Rightarrow> 'h machine option" where
  "verify_full_system B bd junk s = do {
     let s = printf ''\<newline>Starting Full System Matrix Validation (Fixed 8x8 HW with 4x4 submatrix)...\<newline>'' [] s;
     let s = msgdma_init B (DDR_READ_ST_CSR_BASE bd) s;
     let s = msgdma_init B (DDR_WRITE_ST_CSR_BASE bd) s;
     let s = IOWR B (NPU_CTRL_BASE bd) REG_CTRL 0 s;
     let s = IOWR B (NPU_CTRL_BASE bd) REG_CTRL 0 s;
     s \<leftarrow> poll_npu_idle B bd s;
     let s = IOWR_32DIRECT B ADDRESS_SPAN_EXTENDER_0_CNTL_BASE 0 0x20000000 s;
     let physical_base = 0x20000000;
     let weights_addr = DDR3_WINDOW_BASE bd;
     let inputs_addr = DDR3_WINDOW_BASE bd + 0x1000;
     let dst_addr = DDR3_WINDOW_BASE bd + 0x2000;
     let s = printf ''Clearing Memories...\<newline>'' [] s;
     let s = clear_regions B weights_addr inputs_addr dst_addr s;
     let s = printf ''Preparing 8x8 Identity Weight Matrix...\<newline>'' [] s;
     let s = npu_format_weights B weights_addr test_weights s;
     let s = npu_format_inputs B inputs_addr test_inputs s;
     let s = alt_dcache_flush_all B s;
     full_system_run B bd junk physical_base dst_addr s }"

section \<open>The streaming batch test\<close>

definition identity_weights :: mat8 where
  "identity_weights = (\<lambda>r c. if r = c then 1 else 0)"

text \<open>\<open>(signed char)(((i * 10 + r * 8 + c) % 256) - 128)\<close>\<close>

definition batch_input :: "nat \<Rightarrow> mat8" where
  "batch_input i = (\<lambda>r c. of_int (int (i * 10 + r * 8 + c) mod 256 - 128))"

definition format_batch :: "'h bus \<Rightarrow> u32 \<Rightarrow> (nat \<Rightarrow> mat8) \<Rightarrow> nat \<Rightarrow> 'h machine \<Rightarrow> 'h machine" where
  "format_batch B inputs_addr mats n s =
     for_range 0 n (\<lambda>i s. npu_format_inputs B (inputs_addr + of_nat (i * NPU_MAT_BYTES)) (mats i) s) s"

definition clear_outputs :: "'h bus \<Rightarrow> u32 \<Rightarrow> 'h machine \<Rightarrow> 'h machine" where
  "clear_outputs B outputs_addr s =
     for_range 0 ((10 * NPU_OUT_BYTES) div 4)
       (\<lambda>i s. IOWR_32DIRECT B outputs_addr (of_nat (i * 4)) 0 s) s"

definition check_batch :: "nat \<Rightarrow> mat32 \<Rightarrow> 'h machine \<Rightarrow> nat \<times> 'h machine" where
  "check_batch i hw_matrix s =
     for_range 0 8 (\<lambda>r st. for_range 0 8 (\<lambda>c (errors, s).
       let hw_val = hw_matrix r c;
           expected_signed = sint (of_int (int (i * 10 + r * 8 + c) mod 256 - 128) :: u8);
           expected = of_int expected_signed
       in if hw_val \<noteq> expected
          then let s = (if errors < 5
                 then printf ''Batch %d Mismatch [%d, %d]: HW=0x%08x, Exp=0x%08x\<newline>''
                   [int i, int r, int c, uint hw_val, uint (expected :: u32)] s else s)
               in (errors + 1, s)
          else (errors, s)) st) (0, s)"

definition check_batches :: "'h bus \<Rightarrow> mat32 \<Rightarrow> u32 \<Rightarrow> 'h machine \<Rightarrow> nat \<times> 'h machine" where
  "check_batches B junk outputs_addr s =
     for_range 0 10 (\<lambda>i (total_errors, s).
       let (hw_matrix, s) = npu_parse_output B (outputs_addr + of_nat (i * NPU_OUT_BYTES)) junk s;
           (errors, s) = check_batch i hw_matrix s
       in if errors = 0 then (total_errors, printf ''Batch %d: PASS\<newline>'' [int i] s)
          else (total_errors + errors,
            printf ''Batch %d: FAIL (%d errors)\<newline>'' [int i, int errors] s)) (0, s)"

definition stream_report :: "nat \<Rightarrow> 'h machine \<Rightarrow> 'h machine" where
  "stream_report total_errors s =
     (if total_errors = 0
      then printf ''\<newline>Streaming Validation: PASS! All 10 batches successfully fully matched.\<newline>'' [] s
      else printf ''\<newline>Streaming Validation: FAIL (%d total errors)\<newline>'' [int total_errors] s)"

text \<open>From \<open>Loading Weights\<close> to the end, with the offsets of the inputs and outputs.\<close>

definition stream_run ::
  "'h bus \<Rightarrow> board \<Rightarrow> mat32 \<Rightarrow> u32 \<Rightarrow> u32 \<Rightarrow> u32 \<Rightarrow> u32 \<Rightarrow> 'h machine \<Rightarrow> 'h machine option" where
  "stream_run B bd junk physical_base in_off out_off outputs_addr s = do {
     let s = printf ''Loading Weights...\<newline>'' [] s;
     s \<leftarrow> npu_load_weights B bd physical_base 1 s;
     let s = printf ''Firing 10-Batch Streaming Pipeline...\<newline>'' [] s;
     let s = IOWR B (NPU_CTRL_BASE bd) REG_SEQ_ROWS (10 * 8) s;
     let s = npu_get_matrix B bd (physical_base + out_off) 10 s;
     let s = npu_load_matrix B bd (physical_base + in_off) 10 s;
     s \<leftarrow> npu_wait_execution B bd s;
     let (total_errors, s) = check_batches B junk outputs_addr s;
     Some (stream_report total_errors s) }"

definition verify_streaming_batch ::
  "'h bus \<Rightarrow> board \<Rightarrow> mat32 \<Rightarrow> 'h machine \<Rightarrow> 'h machine option" where
  "verify_streaming_batch B bd junk s = do {
     let s = printf ''\<newline>Starting Streaming Batch Test (10 Matrices)...\<newline>'' [] s;
     let s = msgdma_init B (DDR_READ_ST_CSR_BASE bd) s;
     let s = msgdma_init B (DDR_WRITE_ST_CSR_BASE bd) s;
     let s = IOWR_32DIRECT B ADDRESS_SPAN_EXTENDER_0_CNTL_BASE 0 0x20000000 s;
     let physical_base = 0x20000000;
     let weights_addr = DDR3_WINDOW_BASE bd;
     let inputs_addr = DDR3_WINDOW_BASE bd + 0x1000;
     let outputs_addr = DDR3_WINDOW_BASE bd + 0x8000;
     let s = npu_format_weights B weights_addr identity_weights s;
     let s = format_batch B inputs_addr batch_input 10 s;
     let s = printf ''Clearing Memories...\<newline>'' [] s;
     let s = clear_outputs B outputs_addr s;
     let s = alt_dcache_flush_all B s;
     stream_run B bd junk physical_base 0x1000 0x8000 outputs_addr s }"

section \<open>The processing element test and the menu\<close>

definition mac_report :: "u32 \<Rightarrow> 'h machine \<Rightarrow> 'h machine" where
  "mac_report result s =
     (let s = printf ''Result: %d (Expected: 31)\<newline>'' [sint result] s
      in if result = 31 then printf ''MAC PE Test: PASS\<newline>'' [] s
         else printf ''MAC PE Test: FAIL\<newline>'' [] s)"

definition verify_mac_pe :: "'h bus \<Rightarrow> board \<Rightarrow> 'h machine \<Rightarrow> 'h machine" where
  "verify_mac_pe B bd s =
     (let s = printf ''\<newline>Starting MAC PE Verification...\<newline>'' [] s;
          s = IOWR B (NPU_CTRL_BASE bd) REG_PE_X_IN 7 s;
          s = IOWR B (NPU_CTRL_BASE bd) REG_PE_CTRL 3 s;
          s = IOWR B (NPU_CTRL_BASE bd) REG_PE_CTRL 0 s;
          s = IOWR B (NPU_CTRL_BASE bd) REG_LATCH 1 s;
          s = IOWR B (NPU_CTRL_BASE bd) REG_LATCH 0 s;
          s = IOWR B (NPU_CTRL_BASE bd) REG_PE_X_IN 3 s;
          s = IOWR B (NPU_CTRL_BASE bd) REG_PE_Y_IN 10 s;
          s = IOWR B (NPU_CTRL_BASE bd) REG_PE_CTRL 2 s;
          s = IOWR B (NPU_CTRL_BASE bd) REG_PE_CTRL 0 s;
          (result, s) = IORD B (NPU_CTRL_BASE bd) REG_PE_Y_OUT s
      in mac_report result s)"

text \<open>One turn of the \<open>while (1)\<close> loop; the flag says that \<open>q\<close> was chosen.\<close>

definition menu_turn :: "'h bus \<Rightarrow> board \<Rightarrow> mat32 \<Rightarrow> 'h machine \<Rightarrow> (bool \<times> 'h machine) option" where
  "menu_turn B bd junk s = do {
     let s = printf ''\<newline>NPU System Verification (Full Framework)\<newline>'' [] s;
     let s = printf ''----------------------------------------------\<newline>'' [] s;
     let s = printf ''1. Verify MAC PE\<newline>'' [] s;
     let s = printf ''2. Verify Full System Data path\<newline>'' [] s;
     let s = printf ''3. Verify 10-Batch Streaming Pipeline\<newline>'' [] s;
     let s = printf ''q. Quit\<newline>'' [] s;
     let s = printf ''Choose: '' [] s;
     (c, s) \<leftarrow> get_char_polled B s;
     let s = printf ''%c\<newline>'' [sint c] s;
     if c = 0x31 then Some (False, verify_mac_pe B bd s)
     else if c = 0x32 then map_option (Pair False) (verify_full_system B bd junk s)
     else if c = 0x33 then map_option (Pair False) (verify_streaming_batch B bd junk s)
     else if c = 0x71 then Some (True, printf ''Exiting...\<newline>'' [] s)
     else Some (False, s) }"

partial_function (option) npu_main :: "'h bus \<Rightarrow> board \<Rightarrow> mat32 \<Rightarrow> 'h machine \<Rightarrow> (int \<times> 'h machine) option" where
  "npu_main B bd junk s =
     Option.bind (menu_turn B bd junk s)
       (\<lambda>(quit, s). if quit then Some (0, s) else npu_main B bd junk s)"

declare npu_main.simps [code]

section \<open>Printing and counting\<close>

text \<open>Only the console grew.\<close>

definition said :: "'h machine \<Rightarrow> 'h machine \<Rightarrow> bool" where
  "said s s' \<longleftrightarrow> (\<exists>l. s' = s\<lparr>console := console s @ l\<rparr>)"

lemma said_refl [simp]: "said s s"
  unfolding said_def by (rule exI [of _ "[]"]) simp

lemma said_printf [simp]: "said s (printf f a s)"
  by (auto simp: said_def printf_def)

lemma said_trans [trans]: "said s t \<Longrightarrow> said t u \<Longrightarrow> said s u"
  by (auto simp: said_def)

lemma said_for_range: "(\<And>i t. said t (body i t)) \<Longrightarrow> a \<le> b \<Longrightarrow> said s (for_range a b body s)"
  by (rule for_range_inv [where P = "\<lambda>_ t. said s t"]) (auto intro: said_trans)

lemma said_print_matrix [simp]: "said s (print_matrix m s)"
  unfolding print_matrix_def Let_def
  by (intro said_for_range said_trans [OF said_for_range said_printf]) simp_all

lemma said_hw: "said s s' \<Longrightarrow> hw s' = hw s \<and> cpu_status s' = cpu_status s"
  by (auto simp: said_def)

text \<open>The double loop that counts the bad entries.\<close>

definition bad_count :: "(nat \<Rightarrow> nat \<Rightarrow> bool) \<Rightarrow> nat" where
  "bad_count bad = card {(r, c). r < 8 \<and> c < 8 \<and> bad r c}"

lemma bad_count_0: "bad_count bad = 0 \<longleftrightarrow> (\<forall>r<8. \<forall>c<8. \<not> bad r c)"
proof -
  have "finite {(r, c). r < (8::nat) \<and> c < (8::nat) \<and> bad r c}"
    by (rule finite_subset [of _ "{..<8} \<times> {..<8}"]) auto
  then show ?thesis by (auto simp: bad_count_def)
qed

lemma scan_row:
  assumes "\<And>c e s. said s (snd (body c (e, s))) \<and> fst (body c (e, s)) = (if bad c then e + 1 else e)"
  shows "said s (snd (for_range 0 n body (e, s))) \<and>
    fst (for_range 0 n body (e, s)) = e + card {c. c < n \<and> bad c}"
proof (induction n)
  case (Suc n)
  obtain e1 s1 where st: "for_range 0 n body (e, s) = (e1, s1)" by (rule prod.exhaust)
  have "{c. c < Suc n \<and> bad c} = (if bad n then insert n {c. c < n \<and> bad c} else {c. c < n \<and> bad c})"
    by (auto simp: less_Suc_eq)
  with Suc st assms [of s1 n e1] show ?case
    by (auto simp: for_range_Suc intro: said_trans)
qed simp

lemma scan_all:
  assumes "\<And>r c e s. said s (snd (body r c (e, s))) \<and>
    fst (body r c (e, s)) = (if bad r c then e + 1 else e)"
  shows "said s (snd (for_range 0 8 (\<lambda>r st. for_range 0 8 (body r) st) (e, s))) \<and>
    fst (for_range 0 8 (\<lambda>r st. for_range 0 8 (body r) st) (e, s)) = e + bad_count bad"
proof -
  have "said s (snd (for_range 0 n (\<lambda>r st. for_range 0 8 (body r) st) (e, s))) \<and>
    fst (for_range 0 n (\<lambda>r st. for_range 0 8 (body r) st) (e, s)) =
      e + (\<Sum>r<n. card {c. c < 8 \<and> bad r c})" for n
  proof (induction n)
    case (Suc n)
    obtain e1 s1 where st: "for_range 0 n (\<lambda>r st. for_range 0 8 (body r) st) (e, s) = (e1, s1)"
      by (rule prod.exhaust)
    with Suc scan_row [of "body n" "bad n" s1 8 e1] assms show ?case
      by (auto simp: for_range_Suc intro: said_trans)
  qed simp
  moreover have "bad_count bad = (\<Sum>r<8. card {c. c < 8 \<and> bad r c})"
  proof -
    have "{(r, c). r < 8 \<and> c < 8 \<and> bad r c} = Sigma {..<8} (\<lambda>r. {c. c < 8 \<and> bad r c})" by auto
    then show ?thesis by (simp add: bad_count_def card_SigmaI)
  qed
  ultimately show ?thesis by simp
qed

lemma check_full_count:
  "\<exists>s'. check_full m s = (bad_count (\<lambda>r c. m r c \<noteq> of_nat (r * 8 + c + 1)), s') \<and> said s s'"
proof -
  have "said s (snd (check_full m s)) \<and>
    fst (check_full m s) = bad_count (\<lambda>r c. m r c \<noteq> of_nat (r * 8 + c + 1))"
    unfolding check_full_def by (rule scan_all [where e = 0, simplified]) (auto simp: Let_def)
  then show ?thesis by (metis prod.collapse)
qed

text \<open>What the streaming test expects: the input itself, extended to 32 bits.\<close>

definition expected_batch :: "nat \<Rightarrow> nat \<Rightarrow> nat \<Rightarrow> u32" where
  "expected_batch i r c = scast (batch_input i r c)"

lemma check_batch_count:
  "\<exists>s'. check_batch i m s = (bad_count (\<lambda>r c. m r c \<noteq> expected_batch i r c), s') \<and> said s s'"
proof -
  have "expected_batch i r c = of_int (sint (of_int (int (i * 10 + r * 8 + c) mod 256 - 128) :: u8))"
    for r c by (simp add: expected_batch_def batch_input_def)
  then have "said s (snd (check_batch i m s)) \<and>
    fst (check_batch i m s) = bad_count (\<lambda>r c. m r c \<noteq> expected_batch i r c)"
    unfolding check_batch_def by (intro scan_all [where e = 0, simplified]) (auto simp: Let_def)
  then show ?thesis by (metis prod.collapse)
qed

section \<open>The accesses of the pieces\<close>

definition buffer_writes :: "u32 \<Rightarrow> nat \<Rightarrow> (nat \<Rightarrow> u32) \<Rightarrow> access list" where
  "buffer_writes d n g = map (\<lambda>j. Wr32 (d + of_nat (j * 4)) (g j)) [0..<n]"

lemma store_words_trace:
  "store_words (trace_bus resp) d n g s = s\<lparr>hw := hw s @ buffer_writes d n g\<rparr>"
  by (induction n) (simp_all add: buffer_writes_def trace_IO)

definition input_writes :: "u32 \<Rightarrow> mat8 \<Rightarrow> access list" where
  "input_writes d m = buffer_writes d 16 (\<lambda>j. line_word (m (j div 2)) (j mod 2))"

definition weight_writes :: "u32 \<Rightarrow> mat8 \<Rightarrow> access list" where
  "weight_writes d m = buffer_writes d 16 (\<lambda>j. line_word (\<lambda>r. m r (7 - j div 2)) (j mod 2))"

lemma format_trace:
  "npu_format_inputs (trace_bus resp) d m s = s\<lparr>hw := hw s @ input_writes d m\<rparr>"
  "npu_format_weights (trace_bus resp) d m s = s\<lparr>hw := hw s @ weight_writes d m\<rparr>"
  by (simp_all add: npu_format_inputs_words npu_format_weights_words store_words_trace
      input_writes_def weight_writes_def)

text \<open>A loop whose body appends accesses appends them all.\<close>

lemma for_range_trace:
  assumes "\<And>i s. body i s = s\<lparr>hw := hw s @ f i\<rparr>"
  shows "for_range 0 n body s = (s :: access list machine)\<lparr>hw := hw s @ concat (map f [0..<n])\<rparr>"
  by (induction n) (simp_all add: for_range_Suc assms)

definition clear_writes :: "u32 \<Rightarrow> u32 \<Rightarrow> u32 \<Rightarrow> access list" where
  "clear_writes w x d = concat (map (\<lambda>i. [Wr32 (w + of_nat (i * 4)) 0,
     Wr32 (x + of_nat (i * 4)) 0, Wr32 (d + of_nat (i * 4)) 0]) [0..<64])"

lemma clear_trace:
  "clear_regions (trace_bus resp) w x d s = s\<lparr>hw := hw s @ clear_writes w x d\<rparr>"
  unfolding clear_regions_def clear_writes_def
  by (rule for_range_trace) (simp add: trace_IO Let_def)

definition batch_writes :: "u32 \<Rightarrow> (nat \<Rightarrow> mat8) \<Rightarrow> nat \<Rightarrow> access list" where
  "batch_writes d mats n = concat (map (\<lambda>i. input_writes (d + of_nat (i * 64)) (mats i)) [0..<n])"

lemma format_batch_trace:
  "format_batch (trace_bus resp) d mats n s = s\<lparr>hw := hw s @ batch_writes d mats n\<rparr>"
  unfolding format_batch_def batch_writes_def
  by (rule for_range_trace) (simp add: format_trace NPU_MAT_BYTES_def NPU_MAT_SIZE_def)

lemma clear_outputs_trace:
  "clear_outputs (trace_bus resp) d s = s\<lparr>hw := hw s @ buffer_writes d 640 (\<lambda>_. 0)\<rparr>"
proof -
  have "for_range 0 n (\<lambda>i s. IOWR_32DIRECT (trace_bus resp) d (of_nat (i * 4)) 0 s) s =
      s\<lparr>hw := hw s @ buffer_writes d n (\<lambda>_. 0)\<rparr>" for n
    by (subst for_range_trace [where f = "\<lambda>i. [Wr32 (d + of_nat (i * 4)) 0]"])
      (simp_all add: trace_IO buffer_writes_def concat_map_singleton)
  then show ?thesis by (simp add: clear_outputs_def NPU_OUT_BYTES_def NPU_MAT_SIZE_def)
qed

text \<open>The 64 reads of an output matrix \<open>m\<close> at \<open>d\<close>: each entry is the byte-reversed answer
  of the hardware at the word with the swapped column.\<close>

definition row_reads :: "u32 \<Rightarrow> mat32 \<Rightarrow> nat \<Rightarrow> nat \<Rightarrow> access list" where
  "row_reads d m r n = map (\<lambda>c. Rd (d + of_nat ((r * 8 + (c XOR 1)) * 4)) (bswap32 (m r c))) [0..<n]"

definition parse_reads :: "u32 \<Rightarrow> mat32 \<Rightarrow> access list" where
  "parse_reads d m = concat (map (\<lambda>r. row_reads d m r 8) [0..<8])"

lemma row_reads_cong: "(\<And>c. c < n \<Longrightarrow> m r c = m' r c) \<Longrightarrow> row_reads d m r n = row_reads d m' r n"
  by (auto simp: row_reads_def)

lemma parse_row_reads:
  "\<exists>m. for_range 0 n (\<lambda>c (m, s).
       let hw_c = c XOR 1;
           (raw, s) = IORD_32DIRECT (trace_bus resp) d (of_nat ((r * 8 + hw_c) * 4)) s
       in (mat_upd m r c (bswap32 raw), s)) (m0, s) =
     (m, s\<lparr>hw := hw s @ row_reads d m r n\<rparr>) \<and> (\<forall>q. q \<noteq> r \<longrightarrow> m q = m0 q)"
proof -
  define body where "body = (\<lambda>c (m, s).
       let hw_c = c XOR 1;
           (raw, s) = IORD_32DIRECT (trace_bus resp) d (of_nat ((r * 8 + hw_c) * 4)) s
       in (mat_upd m r c (bswap32 raw), s))"
  have "\<exists>m. for_range 0 n body (m0, s) = (m, s\<lparr>hw := hw s @ row_reads d m r n\<rparr>) \<and>
      (\<forall>q. q \<noteq> r \<longrightarrow> m q = m0 q)"
  proof (induction n)
    case 0
    then show ?case by (simp add: row_reads_def)
  next
    case (Suc n)
    then obtain m where m: "for_range 0 n body (m0, s) = (m, s\<lparr>hw := hw s @ row_reads d m r n\<rparr>)"
      and q: "\<forall>q. q \<noteq> r \<longrightarrow> m q = m0 q" by blast
    define v where "v = resp (hw s @ row_reads d m r n) (d + of_nat ((r * 8 + (n XOR 1)) * 4))"
    let ?m = "mat_upd m r n (bswap32 v)"
    have "row_reads d ?m r n = row_reads d m r n" by (rule row_reads_cong) (simp add: mat_upd_def)
    moreover have "?m r n = bswap32 v" by (simp add: mat_upd_def)
    ultimately have "row_reads d ?m r (Suc n) =
        row_reads d m r n @ [Rd (d + of_nat ((r * 8 + (n XOR 1)) * 4)) v]"
      by (simp add: row_reads_def)
    moreover have "body n (m, s\<lparr>hw := hw s @ row_reads d m r n\<rparr>) =
        (?m, s\<lparr>hw := hw s @ row_reads d m r n @ [Rd (d + of_nat ((r * 8 + (n XOR 1)) * 4)) v]\<rparr>)"
      by (simp add: body_def Let_def trace_IO v_def)
    moreover have "\<forall>q. q \<noteq> r \<longrightarrow> ?m q = m0 q" using q by (simp add: mat_upd_def)
    ultimately show ?case using m by (intro exI [of _ ?m]) (simp add: for_range_Suc)
  qed
  then show ?thesis unfolding body_def .
qed

lemma parse_trace:
  "\<exists>m. npu_parse_output (trace_bus resp) d m0 s = (m, s\<lparr>hw := hw s @ parse_reads d m\<rparr>)"
proof -
  let ?row = "\<lambda>r (m, s). for_range 0 8 (\<lambda>c (m, s).
       let hw_c = c XOR 1;
           (raw, s) = IORD_32DIRECT (trace_bus resp) d (of_nat ((r * 8 + hw_c) * 4)) s
       in (mat_upd m r c (bswap32 raw), s)) (m, s)"
  have "\<exists>m. for_range 0 n ?row (m0, s) =
      (m, s\<lparr>hw := hw s @ concat (map (\<lambda>r. row_reads d m r 8) [0..<n])\<rparr>)" for n
  proof (induction n)
    case (Suc n)
    then obtain m where m: "for_range 0 n ?row (m0, s) =
        (m, s\<lparr>hw := hw s @ concat (map (\<lambda>r. row_reads d m r 8) [0..<n])\<rparr>)" by blast
    obtain m' where m': "?row n (m, s\<lparr>hw := hw s @ concat (map (\<lambda>r. row_reads d m r 8) [0..<n])\<rparr>) =
        (m', s\<lparr>hw := (hw s @ concat (map (\<lambda>r. row_reads d m r 8) [0..<n])) @ row_reads d m' n 8\<rparr>)"
      and eq: "\<forall>q. q \<noteq> n \<longrightarrow> m' q = m q"
      using parse_row_reads [of 8 resp d n m "s\<lparr>hw := hw s @ concat (map (\<lambda>r. row_reads d m r 8) [0..<n])\<rparr>"]
      by auto
    have "map (\<lambda>r. row_reads d m r 8) [0..<n] = map (\<lambda>r. row_reads d m' r 8) [0..<n]"
      using eq by (auto intro!: row_reads_cong)
    with m m' show ?case by (intro exI [of _ m']) (simp add: for_range_Suc)
  qed simp
  from this [of 8] show ?thesis by (simp add: npu_parse_output_def parse_reads_def)
qed

section \<open>Whole programs\<close>

definition adv :: "access list machine \<Rightarrow> access list \<Rightarrow> console_event list \<Rightarrow> access list machine" where
  "adv s h l = s\<lparr>hw := hw s @ h, console := console s @ l\<rparr>"

lemma adv_simps [simp]:
  "adv (adv s h l) h' l' = adv s (h @ h') (l @ l')" "adv s [] [] = s"
  "hw (adv s h l) = hw s @ h" "console (adv s h l) = console s @ l"
  "cpu_status (adv s h l) = cpu_status s"
  by (simp_all add: adv_def)

lemma adv_hw: "s\<lparr>hw := hw s @ h\<rparr> = adv s h []"
  by (simp add: adv_def)

lemma adv_printf: "printf f a s = adv s [] [Printf f a]"
  by (simp add: adv_def printf_def)

lemma adv_said: "said s s' \<longleftrightarrow> (\<exists>l. s' = adv s [] l)"
  by (simp add: said_def adv_def)

lemma adv_print_matrix: "\<exists>l. print_matrix m s = adv s [] l"
  using said_print_matrix adv_said by blast

text \<open>The hardware never stays busy: each of the three status registers shows idle after
  finitely many reads, whatever happened before.\<close>

definition goes_idle :: "(access list \<Rightarrow> u32 \<Rightarrow> u32) \<Rightarrow> u32 \<Rightarrow> bool" where
  "goes_idle resp a \<longleftrightarrow> (\<forall>h. \<exists>n. resp (busy_reads resp a h n) a AND 1 = 0)"

definition idles :: "(access list \<Rightarrow> u32 \<Rightarrow> u32) \<Rightarrow> board \<Rightarrow> bool" where
  "idles resp bd \<longleftrightarrow> goes_idle resp (DDR_READ_ST_CSR_BASE bd) \<and>
     goes_idle resp (DDR_WRITE_ST_CSR_BASE bd) \<and> goes_idle resp (NPU_CTRL_BASE bd + 4)"

lemma goes_idle_polled:
  assumes "goes_idle resp a"
  shows "\<exists>t. polled resp a h (h @ t) \<and> writes t = []"
proof -
  from assms polled_ex [of resp a h] obtain h' where p: "polled resp a h h'"
    by (auto simp: goes_idle_def)
  from polled_appends [OF p] obtain t where "h' = h @ t" "\<forall>x\<in>set t. \<exists>v. x = Rd a v" by blast
  with p show ?thesis by (fastforce simp: writes_def filter_empty_conv)
qed

lemma poll_npu_adv:
  assumes "idles resp bd"
  shows "\<exists>h. poll_npu_idle (trace_bus resp) bd s = Some (adv s h []) \<and> writes h = []"
proof -
  from assms goes_idle_polled [of resp "NPU_CTRL_BASE bd + 4" "hw s"] obtain t where
    "polled resp (NPU_CTRL_BASE bd + 4) (hw s) (hw s @ t)" "writes t = []" by (auto simp: idles_def)
  then show ?thesis using poll_npu_idle_trace [of resp bd s] by (metis adv_hw)
qed

definition load_writes :: "board \<Rightarrow> u32 \<Rightarrow> nat \<Rightarrow> access list" where
  "load_writes bd w n = Wr32 (NPU_CTRL_BASE bd) 3 #
     push_trace (DDR_READ_ST_DESCRIPTOR_SLAVE_BASE bd) w 0 (of_nat (64 * n)) 0x80000300 @
     [Wr32 (NPU_CTRL_BASE bd + 28) 1, Wr32 (NPU_CTRL_BASE bd + 28) 0]"

lemma writes_push [simp]: "writes (push_trace b x d n c) = push_trace b x d n c"
  by (simp add: push_trace_def)

lemma load_weights_adv:
  assumes "idles resp bd"
  shows "\<exists>h. npu_load_weights (trace_bus resp) bd w n s = Some (adv s h []) \<and>
    writes h = load_writes bd w n"
proof -
  let ?h = "Wr32 (NPU_CTRL_BASE bd) 3 #
     push_trace (DDR_READ_ST_DESCRIPTOR_SLAVE_BASE bd) w 0 (of_nat (64 * n)) 0x80000300"
  from assms goes_idle_polled obtain t1 where
    1: "polled resp (DDR_READ_ST_CSR_BASE bd) (hw s @ ?h) ((hw s @ ?h) @ t1)" "writes t1 = []"
    unfolding idles_def by blast
  from assms goes_idle_polled obtain t2 where
    2: "polled resp (NPU_CTRL_BASE bd + 4) ((hw s @ ?h) @ t1) (((hw s @ ?h) @ t1) @ t2)" "writes t2 = []"
    unfolding idles_def by blast
  let ?l = "[Wr32 (NPU_CTRL_BASE bd + 28) 1, Wr32 (NPU_CTRL_BASE bd + 28) 0]"
  have "npu_load_weights (trace_bus resp) bd w n s =
      Some (s\<lparr>hw := (((hw s @ ?h) @ t1) @ t2) @ ?l\<rparr>)"
    unfolding npu_load_weights_alt bind_poll_trace
    by (rule exI [of _ "(hw s @ ?h) @ t1"], rule conjI, use 1 in simp,
        rule exI [of _ "((hw s @ ?h) @ t1) @ t2"], use 2 in simp)
  then have "npu_load_weights (trace_bus resp) bd w n s = Some (adv s (?h @ t1 @ t2 @ ?l) [])"
    by (simp add: adv_def)
  moreover have "writes (?h @ t1 @ t2 @ ?l) = load_writes bd w n"
    by (simp add: 1(2) 2(2) load_writes_def)
  ultimately show ?thesis by blast
qed

lemma wait_adv:
  assumes "idles resp bd"
  shows "\<exists>h. npu_wait_execution (trace_bus resp) bd s = Some (adv s h []) \<and> writes h = []"
proof -
  from assms goes_idle_polled obtain t1 where
    1: "polled resp (DDR_WRITE_ST_CSR_BASE bd) (hw s) (hw s @ t1)" "writes t1 = []"
    unfolding idles_def by blast
  from assms goes_idle_polled obtain t2 where
    2: "polled resp (NPU_CTRL_BASE bd + 4) (hw s @ t1) ((hw s @ t1) @ t2)" "writes t2 = []"
    unfolding idles_def by blast
  have "npu_wait_execution (trace_bus resp) bd s = Some (s\<lparr>hw := (hw s @ t1) @ t2\<rparr>)"
    unfolding npu_wait_execution_def bind_poll_trace poll_npu_idle_trace
    by (rule exI [of _ "hw s @ t1"], rule conjI, use 1 in simp,
        rule exI [of _ "(hw s @ t1) @ t2"], use 2 in simp)
  then have "npu_wait_execution (trace_bus resp) bd s = Some (adv s (t1 @ t2) [])"
    by (simp add: adv_def)
  with 1(2) 2(2) show ?thesis by (metis append_Nil writes_append)
qed

definition run_writes :: "board \<Rightarrow> u32 \<Rightarrow> u32 \<Rightarrow> nat \<Rightarrow> access list" where
  "run_writes bd x d n =
     push_trace (DDR_WRITE_ST_DESCRIPTOR_SLAVE_BASE bd) 0 d (of_nat (256 * n)) 0x80001000 @
     Wr32 (NPU_CTRL_BASE bd) 1 #
     push_trace (DDR_READ_ST_DESCRIPTOR_SLAVE_BASE bd) x 0 (of_nat (64 * n)) 0x80000300"

lemma run_adv:
  "npu_load_matrix (trace_bus resp) bd x n (npu_get_matrix (trace_bus resp) bd d n s) =
     adv s (run_writes bd x d n) []"
  by (simp add: npu_control_trace run_writes_def adv_def)

lemma writes_run [simp]: "writes (run_writes bd x d n) = run_writes bd x d n"
  by (simp add: run_writes_def)

definition full_verdict :: "nat \<Rightarrow> console_event" where
  "full_verdict n = (if n = 0
     then Printf ''\<newline>Full System Validation: PASS! All 64 elements matched correctly.\<newline>'' []
     else Printf ''\<newline>Full System Validation: FAIL (%d errors)\<newline>'' [int n])"

lemma full_report_adv: "full_report n s = adv s [] [full_verdict n]"
  by (simp add: full_report_def full_verdict_def adv_printf)

lemma full_system_run_adv:
  assumes "idles resp bd"
  shows "\<exists>h l m. full_system_run (trace_bus resp) bd junk p d s = Some (adv s (h @ parse_reads d m)
      (l @ [full_verdict (bad_count (\<lambda>r c. m r c \<noteq> of_nat (r * 8 + c + 1)))])) \<and>
    writes h = load_writes bd p 1 @ run_writes bd (p + 0x1000) (p + 0x2000) 1"
proof -
  let ?B = "trace_bus resp"
  define s1 where "s1 = adv s [] [Printf ''Phase 1: Loading Weights via MSGDMA API...\<newline>'' []]"
  obtain h1 where 1: "npu_load_weights ?B bd p 1 s1 = Some (adv s1 h1 [])"
    "writes h1 = load_writes bd p 1" using load_weights_adv [OF assms] by blast
  define s2 where "s2 = adv s1 (h1 @ run_writes bd (p + 0x1000) (p + 0x2000) 1)
    [Printf ''Weights Loaded!\<newline>'' [], Printf ''Phase 2: Execution via MSGDMA API...\<newline>'' []]"
  obtain h2 where 2: "npu_wait_execution ?B bd s2 = Some (adv s2 h2 [])" "writes h2 = []"
    using wait_adv [OF assms] by blast
  define s3 where "s3 = adv s2 h2 [Printf ''Execution Finished!\<newline>\<newline>'' [],
    Printf ''Verifying Output (Expecting Y=X for 8x8 matrix)...\<newline>'' []]"
  obtain m where 3: "npu_parse_output ?B d junk s3 = (m, adv s3 (parse_reads d m) [])"
    using parse_trace [of resp d junk s3] by (auto simp: adv_hw)
  define s4 where "s4 = adv s3 (parse_reads d m) [Printf ''\<newline>=== Hardware Output Matrix ===\<newline>'' []]"
  obtain l4 where 4: "print_matrix (\<lambda>r c. sint (m r c)) s4 = adv s4 [] l4"
    using adv_print_matrix by blast
  define s5 where "s5 = adv s4 [] (l4 @ [Printf ''\<newline>=== Expected Output Matrix ===\<newline>'' []])"
  obtain l5 where 5: "print_matrix (\<lambda>r c. int (r * 8 + c + 1)) s5 = adv s5 [] l5"
    using adv_print_matrix by blast
  define s6 where "s6 = adv s5 [] (l5 @ [Printf ''\<newline>'' []])"
  let ?n = "bad_count (\<lambda>r c. m r c \<noteq> of_nat (r * 8 + c + 1))"
  obtain l6 where 6: "check_full m s6 = (?n, adv s6 [] l6)"
    using check_full_count [of m s6] unfolding adv_said by auto
  have e: "printf ''Phase 1: Loading Weights via MSGDMA API...\<newline>'' [] s = s1"
    "npu_load_matrix ?B bd (p + 0x1000) 1 (npu_get_matrix ?B bd (p + 0x2000) 1
      (printf ''Phase 2: Execution via MSGDMA API...\<newline>'' []
        (printf ''Weights Loaded!\<newline>'' [] (adv s1 h1 [])))) = s2"
    "printf ''Verifying Output (Expecting Y=X for 8x8 matrix)...\<newline>'' []
      (printf ''Execution Finished!\<newline>\<newline>'' [] (adv s2 h2 [])) = s3"
    "printf ''\<newline>=== Hardware Output Matrix ===\<newline>'' [] (adv s3 (parse_reads d m) []) = s4"
    "printf ''\<newline>=== Expected Output Matrix ===\<newline>'' [] (adv s4 [] l4) = s5"
    "printf ''\<newline>'' [] (adv s5 [] l5) = s6"
    by (simp_all add: run_adv adv_printf s1_def s2_def s3_def s4_def s5_def s6_def)
  have "full_system_run ?B bd junk p d s = Some (adv s6 [] (l6 @ [full_verdict ?n]))"
    unfolding full_system_run_def Let_def e 1(1) bind.simps 2(1) 3 prod.case 4 5 6 full_report_adv
    by simp
  moreover have "\<exists>l. s6 = adv s (h1 @ run_writes bd (p + 0x1000) (p + 0x2000) 1 @ h2 @ parse_reads d m) l"
    by (simp add: s6_def s5_def s4_def s3_def s2_def s1_def) blast
  ultimately obtain l where "full_system_run ?B bd junk p d s =
      Some (adv s ((h1 @ run_writes bd (p + 0x1000) (p + 0x2000) 1 @ h2) @ parse_reads d m)
        ((l @ l6) @ [full_verdict ?n]))" by auto
  moreover have "writes (h1 @ run_writes bd (p + 0x1000) (p + 0x2000) 1 @ h2) =
      load_writes bd p 1 @ run_writes bd (p + 0x1000) (p + 0x2000) 1"
    by (simp add: 1(2) 2(2))
  ultimately show ?thesis by blast
qed

lemma flush_adv: "alt_dcache_flush_all (trace_bus resp) s = adv s [FlushAll] []"
  by (simp add: alt_dcache_flush_all_def adv_def)

lemma init_adv:
  "msgdma_init (trace_bus resp) b s = adv s [Wr32 b 0xFFFFFFFF, Wr32 (b + 4) 0] []"
  by (simp add: adv_def)

lemma IOWR_adv:
  "IOWR_32DIRECT (trace_bus resp) b off v s = adv s [Wr32 (b + off) v] []"
  "IOWR (trace_bus resp) b r v s = adv s [Wr32 (b + of_nat (r * 4)) v] []"
  by (simp_all add: trace_IO trace_IO_reg adv_def)

lemma IORD_adv:
  "IORD (trace_bus resp) b r s =
     (resp (hw s) (b + of_nat (r * 4)),
      adv s [Rd (b + of_nat (r * 4)) (resp (hw s) (b + of_nat (r * 4)))] [])"
  by (simp add: trace_IO_reg adv_def)

lemmas pieces_adv = format_trace [unfolded adv_hw] clear_trace [unfolded adv_hw]
  format_batch_trace [unfolded adv_hw] clear_outputs_trace [unfolded adv_hw] flush_adv init_adv
  IOWR_adv adv_printf

lemma writes_buffers [simp]:
  "writes (buffer_writes d n g) = buffer_writes d n g"
  "writes (weight_writes d m) = weight_writes d m" "writes (input_writes d m) = input_writes d m"
  "writes (clear_writes w x y) = clear_writes w x y"
  "writes (batch_writes d ms n) = batch_writes d ms n"
proof -
  have all: "writes h = h" if "\<forall>x\<in>set h. is_write x" for h
    using that by (simp add: writes_def)
  show "writes (buffer_writes d n g) = buffer_writes d n g" "writes (weight_writes d m) = weight_writes d m"
    "writes (input_writes d m) = input_writes d m" "writes (clear_writes w x y) = clear_writes w x y"
    "writes (batch_writes d ms n) = batch_writes d ms n"
    by (rule all; auto simp: buffer_writes_def weight_writes_def input_writes_def clear_writes_def
        batch_writes_def)+
qed

definition init_writes :: "board \<Rightarrow> access list" where
  "init_writes bd = [Wr32 (DDR_READ_ST_CSR_BASE bd) 0xFFFFFFFF, Wr32 (DDR_READ_ST_CSR_BASE bd + 4) 0,
     Wr32 (DDR_WRITE_ST_CSR_BASE bd) 0xFFFFFFFF, Wr32 (DDR_WRITE_ST_CSR_BASE bd + 4) 0]"

text \<open>Everything the full-system test writes, in its order; \<open>w\<close> is the memory window.\<close>

definition full_system_writes :: "board \<Rightarrow> access list" where
  "full_system_writes bd =
     (let w = DDR3_WINDOW_BASE bd
      in init_writes bd @ [Wr32 (NPU_CTRL_BASE bd) 0, Wr32 (NPU_CTRL_BASE bd) 0,
           Wr32 ADDRESS_SPAN_EXTENDER_0_CNTL_BASE 0x20000000] @
         clear_writes w (w + 0x1000) (w + 0x2000) @
         weight_writes w test_weights @ input_writes (w + 0x1000) test_inputs @
         load_writes bd 0x20000000 1 @ run_writes bd 0x20001000 0x20002000 1)"

lemma verify_full_system_adv:
  assumes "idles resp bd"
  shows "\<exists>h l m. verify_full_system (trace_bus resp) bd junk s =
      Some (adv s (h @ parse_reads (DDR3_WINDOW_BASE bd + 0x2000) m)
        (l @ [full_verdict (bad_count (\<lambda>r c. m r c \<noteq> of_nat (r * 8 + c + 1)))])) \<and>
    writes h = full_system_writes bd"
proof -
  let ?B = "trace_bus resp" and ?w = "DDR3_WINDOW_BASE bd"
  define h1 where "h1 = init_writes bd @ [Wr32 (NPU_CTRL_BASE bd) 0, Wr32 (NPU_CTRL_BASE bd) 0]"
  define s1 where "s1 = adv s h1 [Printf ''\<newline>Starting Full System Matrix Validation (Fixed 8x8 HW with 4x4 submatrix)...\<newline>'' []]"
  obtain h2 where 1: "poll_npu_idle ?B bd s1 = Some (adv s1 h2 [])" "writes h2 = []"
    using poll_npu_adv [OF assms] by blast
  define h3 where "h3 = Wr32 ADDRESS_SPAN_EXTENDER_0_CNTL_BASE 0x20000000 #
    clear_writes ?w (?w + 0x1000) (?w + 0x2000) @ weight_writes ?w test_weights @
    input_writes (?w + 0x1000) test_inputs @ [FlushAll]"
  define s2 where "s2 = adv s1 (h2 @ h3) [Printf ''Clearing Memories...\<newline>'' [],
    Printf ''Preparing 8x8 Identity Weight Matrix...\<newline>'' []]"
  obtain h4 l m where 2: "full_system_run ?B bd junk 0x20000000 (?w + 0x2000) s2 =
      Some (adv s2 (h4 @ parse_reads (?w + 0x2000) m)
        (l @ [full_verdict (bad_count (\<lambda>r c. m r c \<noteq> of_nat (r * 8 + c + 1)))]))"
    "writes h4 = load_writes bd 0x20000000 1 @ run_writes bd 0x20001000 0x20002000 1"
    using full_system_run_adv [OF assms, of junk "0x20000000" "?w + 0x2000" s2] by auto
  have e: "IOWR ?B (NPU_CTRL_BASE bd) REG_CTRL 0 (IOWR ?B (NPU_CTRL_BASE bd) REG_CTRL 0
      (msgdma_init ?B (DDR_WRITE_ST_CSR_BASE bd) (msgdma_init ?B (DDR_READ_ST_CSR_BASE bd)
      (printf ''\<newline>Starting Full System Matrix Validation (Fixed 8x8 HW with 4x4 submatrix)...\<newline>'' [] s)))) = s1"
    by (simp add: pieces_adv s1_def h1_def init_writes_def REG_CTRL_def)
  have f: "alt_dcache_flush_all ?B (npu_format_inputs ?B (?w + 0x1000) test_inputs
      (npu_format_weights ?B ?w test_weights
      (printf ''Preparing 8x8 Identity Weight Matrix...\<newline>'' []
      (clear_regions ?B ?w (?w + 0x1000) (?w + 0x2000)
      (printf ''Clearing Memories...\<newline>'' []
      (IOWR_32DIRECT ?B ADDRESS_SPAN_EXTENDER_0_CNTL_BASE 0 0x20000000 (adv s1 h2 []))))))) = s2"
    by (simp add: pieces_adv s2_def h3_def)
  have "verify_full_system ?B bd junk s = Some (adv s2 (h4 @ parse_reads (?w + 0x2000) m)
        (l @ [full_verdict (bad_count (\<lambda>r c. m r c \<noteq> of_nat (r * 8 + c + 1)))]))"
    unfolding verify_full_system_def Let_def e 1(1) bind.simps f by (rule 2(1))
  moreover have "writes (h1 @ h2 @ h3 @ h4) = full_system_writes bd"
    by (simp add: h1_def h3_def 1(2) 2(2) full_system_writes_def init_writes_def Let_def)
  ultimately show ?thesis
    by (intro exI [of _ "h1 @ h2 @ h3 @ h4"] exI [of _ "[Printf
      ''\<newline>Starting Full System Matrix Validation (Fixed 8x8 HW with 4x4 submatrix)...\<newline>'' [],
      Printf ''Clearing Memories...\<newline>'' [],
      Printf ''Preparing 8x8 Identity Weight Matrix...\<newline>'' []] @ l"] exI [of _ m])
      (simp add: s2_def s1_def)
qed

text \<open>The outputs of a batch of \<open>n\<close> matrices: the reads, and the number of wrong entries.\<close>

definition batch_reads :: "u32 \<Rightarrow> (nat \<Rightarrow> mat32) \<Rightarrow> nat \<Rightarrow> access list" where
  "batch_reads d ms n = concat (map (\<lambda>i. parse_reads (d + of_nat (i * 256)) (ms i)) [0..<n])"

definition batch_errors :: "(nat \<Rightarrow> nat \<Rightarrow> nat \<Rightarrow> u32) \<Rightarrow> (nat \<Rightarrow> mat32) \<Rightarrow> nat \<Rightarrow> nat" where
  "batch_errors expd ms n = (\<Sum>i<n. bad_count (\<lambda>r c. ms i r c \<noteq> expd i r c))"

lemma batch_reads_cong: "(\<And>i. i < n \<Longrightarrow> ms i = ms' i) \<Longrightarrow> batch_reads d ms n = batch_reads d ms' n"
  by (auto simp: batch_reads_def intro!: arg_cong [where f = concat] map_cong)

lemma batch_errors_cong:
  "(\<And>i. i < n \<Longrightarrow> ms i = ms' i) \<Longrightarrow> batch_errors e ms n = batch_errors e ms' n"
  by (simp add: batch_errors_def)

text \<open>A loop that parses and checks one matrix per turn.\<close>

lemma batches_adv:
  assumes "\<And>i t s. \<exists>m l. body i (t, s) =
    (t + bad_count (\<lambda>r c. m r c \<noteq> e i r c), adv s (parse_reads (d + of_nat (i * 256)) m) l)"
  shows "\<exists>ms l. for_range 0 n body (0, s) = (batch_errors e ms n, adv s (batch_reads d ms n) l)"
proof (induction n)
  case 0
  then show ?case by (intro exI [of _ "\<lambda>_ _ _. 0"] exI [of _ "[]"]) (simp add: batch_reads_def batch_errors_def)
next
  case (Suc n)
  then obtain ms l where 1: "for_range 0 n body (0, s) = (batch_errors e ms n, adv s (batch_reads d ms n) l)"
    by blast
  obtain m l' where 2: "body n (batch_errors e ms n, adv s (batch_reads d ms n) l) =
      (batch_errors e ms n + bad_count (\<lambda>r c. m r c \<noteq> e n r c),
       adv (adv s (batch_reads d ms n) l) (parse_reads (d + of_nat (n * 256)) m) l')"
    using assms by blast
  define ms' where "ms' = ms(n := m)"
  have "batch_reads d ms' n = batch_reads d ms n" "batch_errors e ms' n = batch_errors e ms n"
    by (rule batch_reads_cong batch_errors_cong; simp add: ms'_def)+
  then have "batch_reads d ms' (Suc n) = batch_reads d ms n @ parse_reads (d + of_nat (n * 256)) m"
    "batch_errors e ms' (Suc n) = batch_errors e ms n + bad_count (\<lambda>r c. m r c \<noteq> e n r c)"
    by (simp_all add: batch_reads_def batch_errors_def ms'_def)
  with 1 2 show ?case
    by (intro exI [of _ ms'] exI [of _ "l @ l'"]) (simp add: for_range_Suc)
qed

lemma check_batches_adv:
  "\<exists>ms l. check_batches (trace_bus resp) junk d s =
     (batch_errors expected_batch ms 10, adv s (batch_reads d ms 10) l)"
  unfolding check_batches_def
proof (rule batches_adv, unfold prod.case)
  fix i t and s :: "access list machine"
  obtain m where 1: "npu_parse_output (trace_bus resp) (d + of_nat (i * 256)) junk s =
      (m, adv s (parse_reads (d + of_nat (i * 256)) m) [])"
    using parse_trace [of resp "d + of_nat (i * 256)" junk s] by (auto simp: adv_hw)
  let ?n = "bad_count (\<lambda>r c. m r c \<noteq> expected_batch i r c)"
  obtain l where 2: "check_batch i m (adv s (parse_reads (d + of_nat (i * 256)) m) []) =
      (?n, adv s (parse_reads (d + of_nat (i * 256)) m) l)"
    using check_batch_count [of i m "adv s (parse_reads (d + of_nat (i * 256)) m) []"]
    unfolding adv_said by auto
  have o: "i * NPU_OUT_BYTES = i * 256" by (simp add: NPU_OUT_BYTES_def NPU_MAT_SIZE_def)
  show "\<exists>m l. (let (hw_matrix, s) = npu_parse_output (trace_bus resp) (d + of_nat (i * NPU_OUT_BYTES)) junk s;
           (errors, s) = check_batch i hw_matrix s
       in if errors = 0 then (t, printf ''Batch %d: PASS\<newline>'' [int i] s)
          else (t + errors, printf ''Batch %d: FAIL (%d errors)\<newline>'' [int i, int errors] s)) =
      (t + bad_count (\<lambda>r c. m r c \<noteq> expected_batch i r c),
       adv s (parse_reads (d + of_nat (i * 256)) m) l)"
  proof (cases "?n = 0")
    case True
    then show ?thesis
      by (intro exI [of _ m] exI [of _ "l @ [Printf ''Batch %d: PASS\<newline>'' [int i]]"])
        (unfold o Let_def 1 2 prod.case adv_printf, simp)
  next
    case False
    then show ?thesis
      by (intro exI [of _ m] exI [of _ "l @ [Printf ''Batch %d: FAIL (%d errors)\<newline>'' [int i, int ?n]]"])
        (unfold o Let_def 1 2 prod.case adv_printf, simp)
  qed
qed

definition stream_verdict :: "nat \<Rightarrow> console_event" where
  "stream_verdict n = (if n = 0
     then Printf ''\<newline>Streaming Validation: PASS! All 10 batches successfully fully matched.\<newline>'' []
     else Printf ''\<newline>Streaming Validation: FAIL (%d total errors)\<newline>'' [int n])"

lemma stream_report_adv: "stream_report n s = adv s [] [stream_verdict n]"
  by (simp add: stream_report_def stream_verdict_def adv_printf)

lemma stream_run_adv:
  assumes "idles resp bd"
  shows "\<exists>h l ms. stream_run (trace_bus resp) bd junk p x y d s =
      Some (adv s (h @ batch_reads d ms 10)
        (l @ [stream_verdict (batch_errors expected_batch ms 10)])) \<and>
    writes h = load_writes bd p 1 @ Wr32 (NPU_CTRL_BASE bd + 24) 80 #
      run_writes bd (p + x) (p + y) 10"
proof -
  let ?B = "trace_bus resp"
  define s1 where "s1 = adv s [] [Printf ''Loading Weights...\<newline>'' []]"
  obtain h1 where 1: "npu_load_weights ?B bd p 1 s1 = Some (adv s1 h1 [])"
    "writes h1 = load_writes bd p 1" using load_weights_adv [OF assms] by blast
  define s2 where "s2 = adv s1 (h1 @ Wr32 (NPU_CTRL_BASE bd + 24) 80 # run_writes bd (p + x) (p + y) 10)
    [Printf ''Firing 10-Batch Streaming Pipeline...\<newline>'' []]"
  obtain h2 where 2: "npu_wait_execution ?B bd s2 = Some (adv s2 h2 [])" "writes h2 = []"
    using wait_adv [OF assms] by blast
  obtain ms l where 3: "check_batches ?B junk d (adv s2 h2 []) =
      (batch_errors expected_batch ms 10, adv (adv s2 h2 []) (batch_reads d ms 10) l)"
    using check_batches_adv by blast
  have e: "printf ''Loading Weights...\<newline>'' [] s = s1"
    "npu_load_matrix ?B bd (p + x) 10 (npu_get_matrix ?B bd (p + y) 10
      (IOWR ?B (NPU_CTRL_BASE bd) REG_SEQ_ROWS (10 * 8)
        (printf ''Firing 10-Batch Streaming Pipeline...\<newline>'' [] (adv s1 h1 [])))) = s2"
    by (simp_all add: run_adv adv_printf IOWR_adv s1_def s2_def REG_SEQ_ROWS_def)
  have "stream_run ?B bd junk p x y d s =
      Some (adv s2 (h2 @ batch_reads d ms 10) (l @ [stream_verdict (batch_errors expected_batch ms 10)]))"
    unfolding stream_run_def Let_def e 1(1) bind.simps 2(1) 3 prod.case stream_report_adv by simp
  moreover have "writes (h1 @ Wr32 (NPU_CTRL_BASE bd + 24) 80 # run_writes bd (p + x) (p + y) 10 @ h2) =
      load_writes bd p 1 @ Wr32 (NPU_CTRL_BASE bd + 24) 80 # run_writes bd (p + x) (p + y) 10"
    by (simp add: 1(2) 2(2))
  ultimately show ?thesis
    by (intro exI [of _ "h1 @ Wr32 (NPU_CTRL_BASE bd + 24) 80 # run_writes bd (p + x) (p + y) 10 @ h2"]
        exI [of _ "[Printf ''Loading Weights...\<newline>'' [],
          Printf ''Firing 10-Batch Streaming Pipeline...\<newline>'' []] @ l"] exI [of _ ms])
      (simp add: s2_def s1_def)
qed

text \<open>Everything the streaming test writes.\<close>

definition streaming_writes :: "board \<Rightarrow> access list" where
  "streaming_writes bd =
     (let w = DDR3_WINDOW_BASE bd
      in init_writes bd @ Wr32 ADDRESS_SPAN_EXTENDER_0_CNTL_BASE 0x20000000 #
         weight_writes w identity_weights @ batch_writes (w + 0x1000) batch_input 10 @
         buffer_writes (w + 0x8000) 640 (\<lambda>_. 0) @
         load_writes bd 0x20000000 1 @ Wr32 (NPU_CTRL_BASE bd + 24) 80 #
         run_writes bd 0x20001000 0x20008000 10)"

lemma verify_streaming_adv:
  assumes "idles resp bd"
  shows "\<exists>h l ms. verify_streaming_batch (trace_bus resp) bd junk s =
      Some (adv s (h @ batch_reads (DDR3_WINDOW_BASE bd + 0x8000) ms 10)
        (l @ [stream_verdict (batch_errors expected_batch ms 10)])) \<and>
    writes h = streaming_writes bd"
proof -
  let ?B = "trace_bus resp" and ?w = "DDR3_WINDOW_BASE bd"
  let ?h = "init_writes bd @ Wr32 ADDRESS_SPAN_EXTENDER_0_CNTL_BASE 0x20000000 #
    weight_writes ?w identity_weights @ batch_writes (?w + 0x1000) batch_input 10 @
    buffer_writes (?w + 0x8000) 640 (\<lambda>_. 0) @ [FlushAll]"
  let ?l = "[Printf ''\<newline>Starting Streaming Batch Test (10 Matrices)...\<newline>'' [],
    Printf ''Clearing Memories...\<newline>'' []]"
  define s1 where "s1 = adv s ?h ?l"
  obtain h l ms where 1: "stream_run ?B bd junk 0x20000000 0x1000 0x8000 (?w + 0x8000) s1 =
      Some (adv s1 (h @ batch_reads (?w + 0x8000) ms 10)
        (l @ [stream_verdict (batch_errors expected_batch ms 10)]))"
    "writes h = load_writes bd 0x20000000 1 @ Wr32 (NPU_CTRL_BASE bd + 24) 80 #
      run_writes bd 0x20001000 0x20008000 10"
    using stream_run_adv [OF assms, of junk "0x20000000" "0x1000" "0x8000" "?w + 0x8000" s1] by auto
  have e: "alt_dcache_flush_all ?B (clear_outputs ?B (?w + 0x8000)
      (printf ''Clearing Memories...\<newline>'' [] (format_batch ?B (?w + 0x1000) batch_input 10
      (npu_format_weights ?B ?w identity_weights
      (IOWR_32DIRECT ?B ADDRESS_SPAN_EXTENDER_0_CNTL_BASE 0 0x20000000
      (msgdma_init ?B (DDR_WRITE_ST_CSR_BASE bd) (msgdma_init ?B (DDR_READ_ST_CSR_BASE bd)
      (printf ''\<newline>Starting Streaming Batch Test (10 Matrices)...\<newline>'' [] s)))))))) = s1"
    by (simp add: pieces_adv s1_def init_writes_def)
  have "verify_streaming_batch ?B bd junk s = Some (adv s1 (h @ batch_reads (?w + 0x8000) ms 10)
        (l @ [stream_verdict (batch_errors expected_batch ms 10)]))"
    unfolding verify_streaming_batch_def Let_def e by (rule 1(1))
  moreover have "writes (?h @ h) = streaming_writes bd"
    by (simp add: 1(2) streaming_writes_def init_writes_def Let_def)
  ultimately show ?thesis
    by (intro exI [of _ "?h @ h"] exI [of _ "?l @ l"] exI [of _ ms]) (simp add: s1_def)
qed

section \<open>Properties\<close>

text \<open>Hardware that is always idle and answers every other read with zero.\<close>

lemma idles_0: "idles (\<lambda>_ _. 0) bd"
  by (simp add: idles_def goes_idle_def)

text \<open>C7: On hardware that eventually goes idle the full-system test always terminates, whatever
  the hardware answers otherwise; what it writes to the bus is one fixed sequence (initialise
  both DMA dispatchers, stop the NPU, clear three regions, store weights and inputs, then
  start the transfers at the physical addresses of those buffers), it then reads the 64 words
  of the result, and its last message is PASS exactly when all 64 decoded entries are right,
  and otherwise FAIL with the exact number of wrong ones.\<close>

theorem verify_full_system_total:
  assumes "idles resp bd"
  shows "\<exists>s' h m. verify_full_system (trace_bus resp) bd junk s = Some s' \<and>
    hw s' = hw s @ h @ parse_reads (DDR3_WINDOW_BASE bd + 0x2000) m \<and>
    writes h = full_system_writes bd \<and>
    last (console s') = full_verdict (bad_count (\<lambda>r c. m r c \<noteq> of_nat (r * 8 + c + 1)))"
proof -
  from verify_full_system_adv [OF assms, of junk s] obtain s' h l m where
    "verify_full_system (trace_bus resp) bd junk s = Some s'" and s': "s' = (adv s (h @ parse_reads (DDR3_WINDOW_BASE bd + 0x2000) m)
        (l @ [full_verdict (bad_count (\<lambda>r c. m r c \<noteq> of_nat (r * 8 + c + 1)))]))"
    and "writes h = full_system_writes bd" by blast
  moreover have "hw s' = hw s @ h @ parse_reads (DDR3_WINDOW_BASE bd + 0x2000) m"
    "last (console s') = full_verdict (bad_count (\<lambda>r c. m r c \<noteq> of_nat (r * 8 + c + 1)))"
    unfolding s' by simp_all
  ultimately show ?thesis by blast
qed

theorem verify_full_system_total_witness:
  "\<exists>s'. verify_full_system (trace_bus (\<lambda>_ _. 0)) nios_board (\<lambda>_ _. 0) (reset_machine []) = Some s'"
  using verify_full_system_total [OF idles_0, of nios_board "\<lambda>_ _. 0" "reset_machine []"] by blast

text \<open>C32: The same for the streaming test: it terminates, writes a fixed sequence, and the last
  message is PASS exactly when every entry of all ten results is the input entry extended to
  32 bits, and otherwise FAIL with the total number of wrong entries.\<close>

theorem verify_streaming_batch_total:
  assumes "idles resp bd"
  shows "\<exists>s' h ms. verify_streaming_batch (trace_bus resp) bd junk s = Some s' \<and>
    hw s' = hw s @ h @ batch_reads (DDR3_WINDOW_BASE bd + 0x8000) ms 10 \<and>
    writes h = streaming_writes bd \<and>
    last (console s') = stream_verdict (batch_errors expected_batch ms 10)"
proof -
  from verify_streaming_adv [OF assms, of junk s] obtain s' h l ms where
    "verify_streaming_batch (trace_bus resp) bd junk s = Some s'" and s': "s' = (adv s (h @ batch_reads (DDR3_WINDOW_BASE bd + 0x8000) ms 10)
        (l @ [stream_verdict (batch_errors expected_batch ms 10)]))"
    and "writes h = streaming_writes bd" by blast
  moreover have "hw s' = hw s @ h @ batch_reads (DDR3_WINDOW_BASE bd + 0x8000) ms 10"
    "last (console s') = stream_verdict (batch_errors expected_batch ms 10)"
    unfolding s' by simp_all
  ultimately show ?thesis by blast
qed

theorem verify_streaming_batch_total_witness:
  "\<exists>s'. verify_streaming_batch (trace_bus (\<lambda>_ _. 0)) nios_board (\<lambda>_ _. 0) (reset_machine []) = Some s'"
  using verify_streaming_batch_total [OF idles_0, of nios_board "\<lambda>_ _. 0" "reset_machine []"] by blast

text \<open>The element test loads the weight 7, latches it, and multiplies: its accesses are nine
  writes and one read, and it reports PASS exactly when the element answers 31 = 7 * 3 + 10.\<close>

theorem verify_mac_pe_accesses:
  "let n = NPU_CTRL_BASE bd;
       h = [Wr32 (n + 36) 7, Wr32 (n + 32) 3, Wr32 (n + 32) 0, Wr32 (n + 28) 1, Wr32 (n + 28) 0,
            Wr32 (n + 36) 3, Wr32 (n + 40) 10, Wr32 (n + 32) 2, Wr32 (n + 32) 0];
       v = resp (hw s @ h) (n + 44);
       s' = verify_mac_pe (trace_bus resp) bd s
   in hw s' = hw s @ h @ [Rd (n + 44) v] \<and>
      (last (console s') = Printf ''MAC PE Test: PASS\<newline>'' [] \<longleftrightarrow> v = 31)"
  unfolding verify_mac_pe_def mac_report_def Let_def adv_printf IOWR_adv adv_simps IORD_adv reg_defs
  by simp

end
