(* ===== verification/Linux_Port.thy ===== *)
theory Linux_Port
  imports Npu_App
begin

text \<open>
  The Linux program \<open>linux_software/npu_test/main.c\<close>: its own copy of the driver over
  \<open>mmap\<close>ed device memory, the same tests, and the comparison with the processor. The bus
  addresses are the virtual addresses of the process. What the operating system and the C
  library supply (the results of \<open>open\<close>, \<open>mmap\<close> and \<open>malloc\<close>, the values of \<open>rand\<close>, the
  clock) is a parameter.
\<close>

section \<open>The environment\<close>

text \<open>\<open>os_rand k\<close> is the value of the call number \<open>k\<close>; \<open>os_cpu_time n\<close> is how long the
  processor takes for \<open>n\<close> products; \<open>os_clock\<close> the microseconds of
  \<open>gettimeofday\<close> in a hardware state, as \<open>get_time_us\<close> combines them: a whole number that a
  \<open>double\<close> holds exactly. \<open>None\<close> of an \<open>mmap\<close> is \<open>MAP_FAILED\<close>.\<close>

record 'h os =
  os_open :: int
  os_mmap_lw :: "u32 option"
  os_mmap_ddr :: "u32 option"
  os_malloc_inputs :: bool
  os_malloc_outputs :: bool
  os_rand :: "nat \<Rightarrow> int"
  os_cpu_time :: "nat \<Rightarrow> nat"
  os_clock :: "'h \<Rightarrow> int"

definition NPU_CTRL_OFFSET :: u32 where "NPU_CTRL_OFFSET = 0x00030000"
definition DDR_READ_ST_CSR_OFFSET :: u32 where "DDR_READ_ST_CSR_OFFSET = 0x31000"
definition DDR_READ_ST_DESC_OFFSET :: u32 where "DDR_READ_ST_DESC_OFFSET = 0x31040"
definition DDR_WRITE_ST_CSR_OFFSET :: u32 where "DDR_WRITE_ST_CSR_OFFSET = 0x31020"
definition DDR_WRITE_ST_DESC_OFFSET :: u32 where "DDR_WRITE_ST_DESC_OFFSET = 0x31050"

definition lx_board :: "u32 \<Rightarrow> u32 \<Rightarrow> board" where
  "lx_board lw_bridge_map ddr_map = \<lparr>NPU_CTRL_BASE = lw_bridge_map + NPU_CTRL_OFFSET,
     DDR_READ_ST_CSR_BASE = lw_bridge_map + DDR_READ_ST_CSR_OFFSET,
     DDR_READ_ST_DESCRIPTOR_SLAVE_BASE = lw_bridge_map + DDR_READ_ST_DESC_OFFSET,
     DDR_WRITE_ST_CSR_BASE = lw_bridge_map + DDR_WRITE_ST_CSR_OFFSET,
     DDR_WRITE_ST_DESCRIPTOR_SLAVE_BASE = lw_bridge_map + DDR_WRITE_ST_DESC_OFFSET,
     DDR3_WINDOW_BASE = ddr_map\<rparr>"

section \<open>The driver\<close>

text \<open>The access macros are plain volatile accesses here.\<close>

definition lx_IOWR_32DIRECT :: "'h bus \<Rightarrow> u32 \<Rightarrow> u32 \<Rightarrow> u32 \<Rightarrow> 'h machine \<Rightarrow> 'h machine" where
  "lx_IOWR_32DIRECT B base off v s = s\<lparr>hw := bus_wr32 B (base + off) v (hw s)\<rparr>"

definition lx_IORD_32DIRECT :: "'h bus \<Rightarrow> u32 \<Rightarrow> u32 \<Rightarrow> 'h machine \<Rightarrow> u32 \<times> 'h machine" where
  "lx_IORD_32DIRECT B base off s = apsnd (\<lambda>h. s\<lparr>hw := h\<rparr>) (bus_rd32 B (base + off) (hw s))"

definition lx_IOWR :: "'h bus \<Rightarrow> u32 \<Rightarrow> nat \<Rightarrow> u32 \<Rightarrow> 'h machine \<Rightarrow> 'h machine" where
  "lx_IOWR B base reg v s = s\<lparr>hw := bus_wr32 B (base + of_nat (reg * 4)) v (hw s)\<rparr>"

definition lx_IORD :: "'h bus \<Rightarrow> u32 \<Rightarrow> nat \<Rightarrow> 'h machine \<Rightarrow> u32 \<times> 'h machine" where
  "lx_IORD B base reg s = apsnd (\<lambda>h. s\<lparr>hw := h\<rparr>) (bus_rd32 B (base + of_nat (reg * 4)) (hw s))"

definition lx_msgdma_init :: "'h bus \<Rightarrow> u32 \<Rightarrow> 'h machine \<Rightarrow> 'h machine" where
  "lx_msgdma_init B csr_base s =
     (let s = lx_IOWR_32DIRECT B csr_base 0x00 0xFFFFFFFF s
      in lx_IOWR_32DIRECT B csr_base 0x04 0x00000000 s)"

definition lx_msgdma_read_stream_push ::
  "'h bus \<Rightarrow> u32 \<Rightarrow> u32 \<Rightarrow> u32 \<Rightarrow> 'h machine \<Rightarrow> 'h machine" where
  "lx_msgdma_read_stream_push B descriptor_base src_addr len s =
     (let s = lx_IOWR_32DIRECT B descriptor_base 0x00 src_addr s;
          s = lx_IOWR_32DIRECT B descriptor_base 0x04 0x00000000 s;
          s = lx_IOWR_32DIRECT B descriptor_base 0x08 len s
      in lx_IOWR_32DIRECT B descriptor_base 0x0C 0x80000300 s)"

definition lx_msgdma_write_stream_push ::
  "'h bus \<Rightarrow> u32 \<Rightarrow> u32 \<Rightarrow> u32 \<Rightarrow> 'h machine \<Rightarrow> 'h machine" where
  "lx_msgdma_write_stream_push B descriptor_base dst_addr len s =
     (let s = lx_IOWR_32DIRECT B descriptor_base 0x00 0x00000000 s;
          s = lx_IOWR_32DIRECT B descriptor_base 0x04 dst_addr s;
          s = lx_IOWR_32DIRECT B descriptor_base 0x08 len s
      in lx_IOWR_32DIRECT B descriptor_base 0x0C 0x80001000 s)"

definition lx_npu_format_inputs :: "'h bus \<Rightarrow> u32 \<Rightarrow> mat8 \<Rightarrow> 'h machine \<Rightarrow> 'h machine" where
  "lx_npu_format_inputs B dst_addr src_matrix s =
     for_range 0 8 (\<lambda>r s.
       let (low_32, high_32) =
             for_range 0 4 (\<lambda>c (low_32, high_32).
               (low_32 OR shl_byte (src_matrix r c) (c * 8),
                high_32 OR shl_byte (src_matrix r (c + 4)) (c * 8))) (0, 0);
           s = lx_IOWR_32DIRECT B dst_addr (of_nat (r * 8 + 0)) low_32 s
       in lx_IOWR_32DIRECT B dst_addr (of_nat (r * 8 + 4)) high_32 s) s"

definition lx_npu_format_weights :: "'h bus \<Rightarrow> u32 \<Rightarrow> mat8 \<Rightarrow> 'h machine \<Rightarrow> 'h machine" where
  "lx_npu_format_weights B dst_addr src_matrix s =
     for_range 0 8 (\<lambda>t s.
       let c = 7 - t;
           (low_32, high_32) =
             for_range 0 4 (\<lambda>r (low_32, high_32).
               (low_32 OR shl_byte (src_matrix r c) (r * 8),
                high_32 OR shl_byte (src_matrix (r + 4) c) (r * 8))) (0, 0);
           s = lx_IOWR_32DIRECT B dst_addr (of_nat (t * 8 + 0)) low_32 s
       in lx_IOWR_32DIRECT B dst_addr (of_nat (t * 8 + 4)) high_32 s) s"

definition lx_npu_parse_output ::
  "'h bus \<Rightarrow> u32 \<Rightarrow> mat32 \<Rightarrow> 'h machine \<Rightarrow> mat32 \<times> 'h machine" where
  "lx_npu_parse_output B src_addr dst_matrix s =
     for_range 0 8 (\<lambda>r (m, s).
       for_range 0 8 (\<lambda>c (m, s).
         let hw_c = c XOR 1;
             (raw, s) = lx_IORD_32DIRECT B src_addr (of_nat ((r * 8 + hw_c) * 4)) s
         in (mat_upd m r c (bswap32 raw), s)) (m, s)) (dst_matrix, s)"

definition lx_npu_load_weights ::
  "'h bus \<Rightarrow> board \<Rightarrow> u32 \<Rightarrow> nat \<Rightarrow> 'h machine \<Rightarrow> 'h machine option" where
  "lx_npu_load_weights B bd weights_addr num_matrices s = do {
     let s = lx_IOWR B (NPU_CTRL_BASE bd) REG_CTRL 0x00000003 s;
     let s = lx_msgdma_read_stream_push B (DDR_READ_ST_DESCRIPTOR_SLAVE_BASE bd) weights_addr
               (of_nat (NPU_MAT_BYTES * num_matrices)) s;
     (_, s) \<leftarrow> spin_while (lx_IORD_32DIRECT B (DDR_READ_ST_CSR_BASE bd) 0) (\<lambda>v. v AND 0x01 \<noteq> 0) s;
     (_, s) \<leftarrow> spin_while (lx_IORD B (NPU_CTRL_BASE bd) REG_STATUS) (\<lambda>v. v AND 0x01 \<noteq> 0) s;
     let s = lx_IOWR B (NPU_CTRL_BASE bd) REG_LATCH 1 s;
     Some (lx_IOWR B (NPU_CTRL_BASE bd) REG_LATCH 0 s) }"

definition lx_npu_get_matrix :: "'h bus \<Rightarrow> board \<Rightarrow> u32 \<Rightarrow> nat \<Rightarrow> 'h machine \<Rightarrow> 'h machine" where
  "lx_npu_get_matrix B bd dst_addr num_matrices s =
     lx_msgdma_write_stream_push B (DDR_WRITE_ST_DESCRIPTOR_SLAVE_BASE bd) dst_addr
       (of_nat (NPU_OUT_BYTES * num_matrices)) s"

definition lx_npu_load_matrix :: "'h bus \<Rightarrow> board \<Rightarrow> u32 \<Rightarrow> nat \<Rightarrow> 'h machine \<Rightarrow> 'h machine" where
  "lx_npu_load_matrix B bd inputs_addr num_matrices s =
     (let s = lx_IOWR B (NPU_CTRL_BASE bd) REG_CTRL 0x00000001 s
      in lx_msgdma_read_stream_push B (DDR_READ_ST_DESCRIPTOR_SLAVE_BASE bd) inputs_addr
           (of_nat (NPU_MAT_BYTES * num_matrices)) s)"

definition lx_npu_wait_execution :: "'h bus \<Rightarrow> board \<Rightarrow> 'h machine \<Rightarrow> 'h machine option" where
  "lx_npu_wait_execution B bd s = do {
     (_, s) \<leftarrow> spin_while (lx_IORD_32DIRECT B (DDR_WRITE_ST_CSR_BASE bd) 0) (\<lambda>v. v AND 0x01 \<noteq> 0) s;
     (_, s) \<leftarrow> spin_while (lx_IORD B (NPU_CTRL_BASE bd) REG_STATUS) (\<lambda>v. v AND 0x01 \<noteq> 0) s;
     Some s }"

text \<open>The two copies of the driver are the same functions.\<close>

lemma lx_IO: "lx_IOWR_32DIRECT = IOWR_32DIRECT" "lx_IORD_32DIRECT = IORD_32DIRECT"
  "lx_IOWR = IOWR" "lx_IORD = IORD"
  by (simp_all add: fun_eq_iff lx_IOWR_32DIRECT_def IOWR_32DIRECT_def lx_IORD_32DIRECT_def
      IORD_32DIRECT_def lx_IOWR_def IOWR_def lx_IORD_def IORD_def IO_CALC_ADDRESS_NATIVE_def
      split: prod.splits)

lemma bind_map_snd:
  "Option.bind (map_option snd x) f = Option.bind x (\<lambda>(_, s). f s)"
  by (cases x) auto

lemma bind_Some_snd: "Option.bind x (\<lambda>(_, s). Some s) = map_option snd x"
  by (cases x) auto

lemma lx_driver:
  "lx_msgdma_init = msgdma_init" "lx_msgdma_read_stream_push = msgdma_read_stream_push"
  "lx_msgdma_write_stream_push = msgdma_write_stream_push"
  "lx_npu_format_inputs = npu_format_inputs" "lx_npu_format_weights = npu_format_weights"
  "lx_npu_parse_output = npu_parse_output" "lx_npu_get_matrix = npu_get_matrix"
  "lx_npu_load_matrix = npu_load_matrix"
proof -
  show p: "lx_msgdma_init = msgdma_init" "lx_msgdma_read_stream_push = msgdma_read_stream_push"
    "lx_msgdma_write_stream_push = msgdma_write_stream_push"
    by (simp_all add: fun_eq_iff lx_msgdma_init_def msgdma_init_def lx_msgdma_read_stream_push_def
        msgdma_read_stream_push_def lx_msgdma_write_stream_push_def msgdma_write_stream_push_def lx_IO)
  show "lx_npu_format_inputs = npu_format_inputs" "lx_npu_format_weights = npu_format_weights"
    "lx_npu_parse_output = npu_parse_output" "lx_npu_get_matrix = npu_get_matrix"
    "lx_npu_load_matrix = npu_load_matrix"
    by (intro ext, simp only: lx_npu_format_inputs_def npu_format_inputs_def
        lx_npu_format_weights_def npu_format_weights_def lx_npu_parse_output_def
        npu_parse_output_def lx_npu_get_matrix_def npu_get_matrix_def lx_npu_load_matrix_def
        npu_load_matrix_def lx_IO p)+
qed

lemma lx_waits:
  "lx_npu_load_weights = npu_load_weights" "lx_npu_wait_execution = npu_wait_execution"
proof -
  show "lx_npu_load_weights = npu_load_weights"
    by (intro ext, simp only: lx_npu_load_weights_def npu_load_weights_def lx_IO lx_driver
        poll_dma_idle_def poll_npu_idle_def bind_map_snd)
  show "lx_npu_wait_execution = npu_wait_execution"
    by (intro ext, simp only: lx_npu_wait_execution_def npu_wait_execution_def lx_IO
        poll_dma_idle_def poll_npu_idle_def bind_map_snd bind_Some_snd)
qed

section \<open>The tests\<close>

text \<open>\<open>usleep(us)\<close> lets time pass. The parts shared with \<open>software/npu/main.c\<close> are the same
  text there and here.\<close>

definition usleep :: "'h bus \<Rightarrow> nat \<Rightarrow> 'h machine \<Rightarrow> 'h machine" where
  "usleep B us s = s\<lparr>hw := bus_delay B us (hw s)\<rparr>"

definition lx_verify_full_system :: "'h bus \<Rightarrow> board \<Rightarrow> mat32 \<Rightarrow> 'h machine \<Rightarrow> 'h machine option" where
  "lx_verify_full_system B bd junk s = do {
     let s = printf ''\<newline>Starting Full System Matrix Validation (Fixed 8x8 HW with 4x4 submatrix)...\<newline>'' [] s;
     let s = lx_msgdma_init B (DDR_READ_ST_CSR_BASE bd) s;
     let s = lx_msgdma_init B (DDR_WRITE_ST_CSR_BASE bd) s;
     let s = lx_IOWR B (NPU_CTRL_BASE bd) REG_CTRL 0 s;
     let s = lx_IOWR B (NPU_CTRL_BASE bd) REG_CTRL 0 s;
     (_, s) \<leftarrow> spin_while (lx_IORD B (NPU_CTRL_BASE bd) REG_STATUS) (\<lambda>v. v AND 0x01 \<noteq> 0) s;
     let physical_base = 0x20000000;
     let weights_addr = DDR3_WINDOW_BASE bd;
     let inputs_addr = DDR3_WINDOW_BASE bd + 0x1000;
     let dst_addr = DDR3_WINDOW_BASE bd + 0x2000;
     let s = printf ''Clearing Memories...\<newline>'' [] s;
     let s = clear_regions B weights_addr inputs_addr dst_addr s;
     let s = printf ''Preparing 8x8 Identity Weight Matrix...\<newline>'' [] s;
     let s = lx_npu_format_weights B weights_addr test_weights s;
     let s = lx_npu_format_inputs B inputs_addr test_inputs s;
     full_system_run B bd junk physical_base dst_addr s }"

definition lx_verify_streaming_batch ::
  "'h bus \<Rightarrow> board \<Rightarrow> mat32 \<Rightarrow> 'h machine \<Rightarrow> 'h machine option" where
  "lx_verify_streaming_batch B bd junk s = do {
     let s = printf ''\<newline>Starting Streaming Batch Test (10 Matrices)....\<newline>'' [] s;
     let s = lx_msgdma_init B (DDR_READ_ST_CSR_BASE bd) s;
     let s = lx_msgdma_init B (DDR_WRITE_ST_CSR_BASE bd) s;
     let physical_base = 0x20000000;
     let weights_addr = DDR3_WINDOW_BASE bd;
     let inputs_addr = DDR3_WINDOW_BASE bd + 0x100000;
     let outputs_addr = DDR3_WINDOW_BASE bd + 0x200000;
     let s = lx_npu_format_weights B weights_addr identity_weights s;
     let s = format_batch B inputs_addr batch_input 10 s;
     let s = printf ''Clearing Memories...\<newline>'' [] s;
     let s = clear_outputs B outputs_addr s;
     stream_run B bd junk physical_base 0x100000 0x200000 outputs_addr s }"

definition lx_verify_mac_pe :: "'h bus \<Rightarrow> board \<Rightarrow> 'h machine \<Rightarrow> 'h machine" where
  "lx_verify_mac_pe B bd s =
     (let s = printf ''\<newline>Starting MAC PE Verification...\<newline>'' [] s;
          s = lx_IOWR B (NPU_CTRL_BASE bd) REG_PE_X_IN 7 s;
          s = usleep B 1 s;
          s = lx_IOWR B (NPU_CTRL_BASE bd) REG_PE_CTRL 3 s;
          s = usleep B 1 s;
          s = lx_IOWR B (NPU_CTRL_BASE bd) REG_PE_CTRL 0 s;
          s = usleep B 1 s;
          s = lx_IOWR B (NPU_CTRL_BASE bd) REG_LATCH 1 s;
          s = usleep B 1 s;
          s = lx_IOWR B (NPU_CTRL_BASE bd) REG_LATCH 0 s;
          s = usleep B 1 s;
          s = lx_IOWR B (NPU_CTRL_BASE bd) REG_PE_X_IN 3 s;
          s = usleep B 1 s;
          s = lx_IOWR B (NPU_CTRL_BASE bd) REG_PE_Y_IN 10 s;
          s = usleep B 1 s;
          s = lx_IOWR B (NPU_CTRL_BASE bd) REG_PE_CTRL 2 s;
          s = usleep B 1 s;
          s = lx_IOWR B (NPU_CTRL_BASE bd) REG_PE_CTRL 0 s;
          s = usleep B 1 s;
          (result, s) = lx_IORD B (NPU_CTRL_BASE bd) REG_PE_Y_OUT s
      in mac_report result s)"

section \<open>The comparison with the processor\<close>

definition get_time_us :: "'h os \<Rightarrow> 'h machine \<Rightarrow> int" where
  "get_time_us E s = os_clock E (hw s)"

text \<open>A matrix of \<open>(rand() % 256) - 128\<close>, with the number of the next call of \<open>rand\<close>.\<close>

definition rand_matrix :: "(nat \<Rightarrow> int) \<Rightarrow> nat \<Rightarrow> mat8 \<times> nat" where
  "rand_matrix rnd k =
     for_range 0 8 (\<lambda>r st. for_range 0 8 (\<lambda>c (m, k).
       (mat_upd m r c (of_int (rnd k mod 256 - 128)), k + 1)) st) ((\<lambda>_ _. 0), k)"

definition rand_matrices :: "(nat \<Rightarrow> int) \<Rightarrow> nat \<Rightarrow> nat \<Rightarrow> (nat \<Rightarrow> mat8) \<times> nat" where
  "rand_matrices rnd n k =
     for_range 0 n (\<lambda>b (ms, k). case rand_matrix rnd k of (m, k) \<Rightarrow> (ms(b := m), k))
       ((\<lambda>_ _ _. 0), k)"

definition cpu_products :: "(nat \<Rightarrow> mat8) \<Rightarrow> mat8 \<Rightarrow> nat \<Rightarrow> nat \<Rightarrow> mat32" where
  "cpu_products input_matrices weight_matrix n =
     for_range 0 n (\<lambda>b out.
       let out = out(b := (\<lambda>_ _. 0))
       in out(b := cpu_matmul_8x8 (input_matrices b) weight_matrix (out b))) (\<lambda>_ _ _. 0)"

definition check_performance ::
  "'h bus \<Rightarrow> mat32 \<Rightarrow> u32 \<Rightarrow> (nat \<Rightarrow> mat32) \<Rightarrow> nat \<Rightarrow> 'h machine \<Rightarrow> nat \<times> 'h machine" where
  "check_performance B junk outputs_addr cpu_output n s =
     for_range 0 n (\<lambda>b (total_errors, s).
       let (hw_matrix, s) = lx_npu_parse_output B (outputs_addr + of_nat (b * NPU_OUT_BYTES)) junk s
       in for_range 0 8 (\<lambda>r st. for_range 0 8 (\<lambda>c (total_errors, s).
         let hw_val = hw_matrix r c;
             cpu_val = cpu_output b r c
         in if hw_val \<noteq> cpu_val
            then let s = (if total_errors < 5
                   then printf ''Mismatch Batch %d [%d,%d] - NPU: %08x, CPU: %08x\<newline>''
                     [int b, int r, int c, sint hw_val, sint cpu_val] s else s)
                 in (total_errors + 1, s)
            else (total_errors, s)) st) (total_errors, s)) (0, s)"

definition performance_report :: "int \<Rightarrow> nat \<Rightarrow> int \<Rightarrow> int \<Rightarrow> 'h machine \<Rightarrow> 'h machine" where
  "performance_report batch_count total_errors cpu_duration npu_duration s =
     (let s = printf ''\<newline>=== Performance Results (%d Batches) ===\<newline>'' [batch_count] s;
          s = (if total_errors = 0
               then printf ''Verification: PASS (NPU output perfectly matches CPU)\<newline>'' [] s
               else printf ''Verification: FAIL (%d errors detected)\<newline>'' [int total_errors] s);
          s = printf ''CPU Time : %.3f us\<newline>'' [cpu_duration] s;
          s = printf ''NPU Time : %.3f us (Includes DMA Setup overhead)\<newline>'' [npu_duration] s
      in if npu_duration > 0 then printf ''Speedup  : %.2f x\<newline>'' [cpu_duration, npu_duration] s else s)"

text \<open>\<open>k\<close> is the number of the next call of \<open>rand\<close>, also returned. The last argument pair of
  \<open>Speedup\<close> stands for its quotient.\<close>

definition lx_verify_performance_cpu_vs_npu ::
  "'h bus \<Rightarrow> 'h os \<Rightarrow> board \<Rightarrow> mat32 \<Rightarrow> int \<Rightarrow> nat \<Rightarrow> 'h machine \<Rightarrow> (nat \<times> 'h machine) option" where
  "lx_verify_performance_cpu_vs_npu B E bd junk batch_count k s =
     (if batch_count \<le> 0 then Some (k, printf ''Invalid batch count. Must be > 0.\<newline>'' [] s)
      else if batch_count > 4000 then
        let s = printf ''\<newline>[ERROR] Batch count exceeds hardware DMA limits!\<newline>'' [] s;
            s = printf ''        Maximum allowed is 4000 batches to stay under the 1MB MSGDMA transfer limit.\<newline>'' [] s
        in Some (k, s)
      else do {
        let n = nat batch_count;
        let s = printf ''\<newline>Starting CPU vs NPU Performance Comparison (%d Batches of 8x8)...\<newline>'' [batch_count] s;
        let s = lx_msgdma_init B (DDR_READ_ST_CSR_BASE bd) s;
        let s = lx_msgdma_init B (DDR_WRITE_ST_CSR_BASE bd) s;
        let physical_base = 0x20000000;
        let weights_addr = DDR3_WINDOW_BASE bd;
        let inputs_addr = DDR3_WINDOW_BASE bd + 0x100000;
        let outputs_addr = DDR3_WINDOW_BASE bd + 0x200000;
        if \<not> os_malloc_inputs E \<or> \<not> os_malloc_outputs E
        then Some (k, printf ''Failed to allocate memory for matrices.\<newline>'' [] s)
        else do {
          let (weight_matrix, k) = rand_matrix (os_rand E) k;
          let (input_matrices, k) = rand_matrices (os_rand E) n k;
          let s = lx_npu_format_weights B weights_addr weight_matrix s;
          let s = for_range 0 n (\<lambda>b s. lx_npu_format_inputs B (inputs_addr + of_nat (b * NPU_MAT_BYTES))
                    (input_matrices b) s) s;
          let cpu_start = get_time_us E s;
          let cpu_output = cpu_products input_matrices weight_matrix n;
          let s = s\<lparr>hw := bus_delay B (os_cpu_time E n) (hw s)\<rparr>;
          let cpu_end = get_time_us E s;
          s \<leftarrow> lx_npu_load_weights B bd physical_base 1 s;
          let npu_start = get_time_us E s;
          let s = lx_IOWR B (NPU_CTRL_BASE bd) REG_SEQ_ROWS (of_int (batch_count * 8)) s;
          let s = lx_npu_get_matrix B bd (physical_base + 0x200000) n s;
          let s = lx_npu_load_matrix B bd (physical_base + 0x100000) n s;
          s \<leftarrow> lx_npu_wait_execution B bd s;
          let npu_end = get_time_us E s;
          let (total_errors, s) = check_performance B junk outputs_addr cpu_output n s;
          Some (k, performance_report batch_count total_errors (cpu_end - cpu_start)
                     (npu_end - npu_start) s) } })"

section \<open>The menu\<close>

text \<open>
  The C library on standard input, a list of characters: \<open>scanf(" %c")\<close>, \<open>scanf("%d")\<close> (a number
  is clamped to the 32-bit range) and \<open>getchar\<close>. \<open>None\<close> of a conversion is end of file or a
  mismatch, which leaves the offending character unread.
\<close>

definition isspace :: "char \<Rightarrow> bool" where
  "isspace c \<longleftrightarrow> c \<in> {CHR '' '', CHR ''\<newline>'', CHR 0x09, CHR 0x0B, CHR 0x0C, CHR 0x0D}"

definition isdigit :: "char \<Rightarrow> bool" where
  "isdigit c \<longleftrightarrow> 48 \<le> (of_char c :: nat) \<and> (of_char c :: nat) \<le> 57"

definition scan_char :: "string \<Rightarrow> char option \<times> string" where
  "scan_char inp = (case dropWhile isspace inp of [] \<Rightarrow> (None, []) | c # cs \<Rightarrow> (Some c, cs))"

definition digits_value :: "string \<Rightarrow> int" where
  "digits_value ds = foldl (\<lambda>v c. 10 * v + (of_char c - 48)) 0 ds"

definition scan_int :: "string \<Rightarrow> int option \<times> string" where
  "scan_int inp =
     (let inp = dropWhile isspace inp;
          neg = (inp \<noteq> [] \<and> hd inp = CHR ''-'');
          inp = (if inp \<noteq> [] \<and> (hd inp = CHR ''-'' \<or> hd inp = CHR ''+'') then tl inp else inp);
          ds = takeWhile isdigit inp;
          rest = dropWhile isdigit inp;
          v = (if neg then - digits_value ds else digits_value ds)
      in if ds = [] then (None, rest) else (Some (max (- 2147483648) (min 2147483647 v)), rest))"

definition lx_get_char_polled :: "string \<Rightarrow> char \<times> string" where
  "lx_get_char_polled inp =
     (case scan_char inp of (None, inp) \<Rightarrow> (CHR ''q'', inp) | (Some ch, inp) \<Rightarrow> (ch, inp))"

text \<open>\<open>while (getchar() != '\n');\<close>: at end of file \<open>getchar\<close> keeps returning \<open>EOF\<close>.\<close>

partial_function (option) skip_line :: "string \<Rightarrow> string option" where
  "skip_line inp = (case inp of [] \<Rightarrow> skip_line [] | c # cs \<Rightarrow>
     if c = CHR ''\<newline>'' then Some cs else skip_line cs)"

declare skip_line.simps [code]

text \<open>The state of the process: its input, the number of the next \<open>rand\<close> call, the machine.\<close>

type_synonym 'h proc = "string \<times> nat \<times> 'h machine"

definition lx_turn ::
  "'h bus \<Rightarrow> 'h os \<Rightarrow> board \<Rightarrow> mat32 \<Rightarrow> 'h proc \<Rightarrow> (bool \<times> 'h proc) option" where
  "lx_turn B E bd junk = (\<lambda>(inp, k, s). do {
     let s = printf ''\<newline>NPU System Verification (Full Framework)\<newline>'' [] s;
     let s = printf ''----------------------------------------------\<newline>'' [] s;
     let s = printf ''1. Verify MAC PE\<newline>'' [] s;
     let s = printf ''2. Verify Full System Data path\<newline>'' [] s;
     let s = printf ''3. Verify Streaming Pipeline (N Batches)\<newline>'' [] s;
     let s = printf ''4. CPU vs NPU Performance Comparison\<newline>'' [] s;
     let s = printf ''q. Quit\<newline>'' [] s;
     let s = printf ''Choose: '' [] s;
     let (c, inp) = lx_get_char_polled inp;
     let s = printf ''%c\<newline>'' [of_char c] s;
     if c = CHR ''1'' then Some (False, inp, k, lx_verify_mac_pe B bd s)
     else if c = CHR ''2'' then map_option (\<lambda>s. (False, inp, k, s)) (lx_verify_full_system B bd junk s)
     else if c = CHR ''3'' then map_option (\<lambda>s. (False, inp, k, s)) (lx_verify_streaming_batch B bd junk s)
     else if c = CHR ''4'' then
       (let s = printf ''Enter number of batches (e.g., 10, 100, 1000): '' [] s
        in case scan_int inp of
             (Some batches, inp) \<Rightarrow>
               map_option (\<lambda>(k, s). (False, inp, k, s))
                 (lx_verify_performance_cpu_vs_npu B E bd junk batches k s)
           | (None, inp) \<Rightarrow>
               (let s = printf ''Invalid input.\<newline>'' [] s
                in map_option (\<lambda>inp. (False, inp, k, s)) (skip_line inp)))
     else if c = CHR ''q'' then Some (True, inp, k, printf ''Exiting...\<newline>'' [] s)
     else Some (False, inp, k, s) })"

partial_function (option) lx_loop ::
  "'h bus \<Rightarrow> 'h os \<Rightarrow> board \<Rightarrow> mat32 \<Rightarrow> 'h proc \<Rightarrow> 'h proc option" where
  "lx_loop B E bd junk st =
     Option.bind (lx_turn B E bd junk st)
       (\<lambda>(quit, st). if quit then Some st else lx_loop B E bd junk st)"

declare lx_loop.simps [code]

text \<open>\<open>perror\<close> prints on standard error. Unmapping and closing do not concern the model.\<close>

definition EXIT_FAILURE :: int where "EXIT_FAILURE = 1"

definition lx_main :: "'h bus \<Rightarrow> 'h os \<Rightarrow> mat32 \<Rightarrow> 'h proc \<Rightarrow> (int \<times> 'h proc) option" where
  "lx_main B E junk = (\<lambda>(inp, k, s).
     if os_open E < 0 then Some (EXIT_FAILURE, inp, k, printf ''open /dev/mem'' [] s)
     else case os_mmap_lw E of
       None \<Rightarrow> Some (EXIT_FAILURE, inp, k, printf ''mmap lw_bridge_map'' [] s)
     | Some lw_bridge_map \<Rightarrow>
         (case os_mmap_ddr E of
           None \<Rightarrow> Some (EXIT_FAILURE, inp, k, printf ''mmap ddr_map'' [] s)
         | Some ddr_map \<Rightarrow>
             map_option (Pair 0) (lx_loop B E (lx_board lw_bridge_map ddr_map) junk (inp, k, s))))"

section \<open>What the tests do on the bus\<close>

lemma lx_full_eq:
  "lx_verify_full_system B bd junk s =
     Option.bind (poll_npu_idle B bd
       (IOWR B (NPU_CTRL_BASE bd) REG_CTRL 0 (IOWR B (NPU_CTRL_BASE bd) REG_CTRL 0
       (msgdma_init B (DDR_WRITE_ST_CSR_BASE bd) (msgdma_init B (DDR_READ_ST_CSR_BASE bd)
       (printf ''\<newline>Starting Full System Matrix Validation (Fixed 8x8 HW with 4x4 submatrix)...\<newline>'' [] s))))))
     (\<lambda>s. full_system_run B bd junk 0x20000000 (DDR3_WINDOW_BASE bd + 0x2000)
       (npu_format_inputs B (DDR3_WINDOW_BASE bd + 0x1000) test_inputs
       (npu_format_weights B (DDR3_WINDOW_BASE bd) test_weights
       (printf ''Preparing 8x8 Identity Weight Matrix...\<newline>'' []
       (clear_regions B (DDR3_WINDOW_BASE bd) (DDR3_WINDOW_BASE bd + 0x1000)
         (DDR3_WINDOW_BASE bd + 0x2000) (printf ''Clearing Memories...\<newline>'' [] s))))))"
  unfolding lx_verify_full_system_def Let_def lx_IO lx_driver poll_npu_idle_def bind_map_snd ..

definition lx_full_system_writes :: "board \<Rightarrow> access list" where
  "lx_full_system_writes bd =
     (let w = DDR3_WINDOW_BASE bd
      in init_writes bd @ [Wr32 (NPU_CTRL_BASE bd) 0, Wr32 (NPU_CTRL_BASE bd) 0] @
         clear_writes w (w + 0x1000) (w + 0x2000) @
         weight_writes w test_weights @ input_writes (w + 0x1000) test_inputs @
         load_writes bd 0x20000000 1 @ run_writes bd 0x20001000 0x20002000 1)"

lemma lx_full_adv:
  assumes "idles resp bd"
  shows "\<exists>h l m. lx_verify_full_system (trace_bus resp) bd junk s =
      Some (adv s (h @ parse_reads (DDR3_WINDOW_BASE bd + 0x2000) m)
        (l @ [full_verdict (bad_count (\<lambda>r c. m r c \<noteq> of_nat (r * 8 + c + 1)))])) \<and>
    writes h = lx_full_system_writes bd"
proof -
  let ?B = "trace_bus resp" and ?w = "DDR3_WINDOW_BASE bd"
  let ?h1 = "init_writes bd @ [Wr32 (NPU_CTRL_BASE bd) 0, Wr32 (NPU_CTRL_BASE bd) 0]"
  let ?l = "[Printf ''\<newline>Starting Full System Matrix Validation (Fixed 8x8 HW with 4x4 submatrix)...\<newline>'' []]"
  define s1 where "s1 = adv s ?h1 ?l"
  obtain h2 where 1: "poll_npu_idle ?B bd s1 = Some (adv s1 h2 [])" "writes h2 = []"
    using poll_npu_adv [OF assms] by blast
  let ?h3 = "clear_writes ?w (?w + 0x1000) (?w + 0x2000) @ weight_writes ?w test_weights @
    input_writes (?w + 0x1000) test_inputs"
  let ?l2 = "[Printf ''Clearing Memories...\<newline>'' [],
    Printf ''Preparing 8x8 Identity Weight Matrix...\<newline>'' []]"
  define s2 where "s2 = adv s1 (h2 @ ?h3) ?l2"
  obtain h4 l m where 2: "full_system_run ?B bd junk 0x20000000 (?w + 0x2000) s2 =
      Some (adv s2 (h4 @ parse_reads (?w + 0x2000) m)
        (l @ [full_verdict (bad_count (\<lambda>r c. m r c \<noteq> of_nat (r * 8 + c + 1)))]))"
    "writes h4 = load_writes bd 0x20000000 1 @ run_writes bd 0x20001000 0x20002000 1"
    using full_system_run_adv [OF assms, of junk "0x20000000" "?w + 0x2000" s2] by auto
  have e: "IOWR ?B (NPU_CTRL_BASE bd) REG_CTRL 0 (IOWR ?B (NPU_CTRL_BASE bd) REG_CTRL 0
      (msgdma_init ?B (DDR_WRITE_ST_CSR_BASE bd) (msgdma_init ?B (DDR_READ_ST_CSR_BASE bd)
      (printf ''\<newline>Starting Full System Matrix Validation (Fixed 8x8 HW with 4x4 submatrix)...\<newline>'' [] s)))) = s1"
    by (simp add: pieces_adv s1_def init_writes_def REG_CTRL_def)
  have f: "npu_format_inputs ?B (?w + 0x1000) test_inputs (npu_format_weights ?B ?w test_weights
      (printf ''Preparing 8x8 Identity Weight Matrix...\<newline>'' []
      (clear_regions ?B ?w (?w + 0x1000) (?w + 0x2000)
      (printf ''Clearing Memories...\<newline>'' [] (adv s1 h2 []))))) = s2"
    by (simp add: pieces_adv s2_def)
  have "lx_verify_full_system ?B bd junk s = Some (adv s2 (h4 @ parse_reads (?w + 0x2000) m)
        (l @ [full_verdict (bad_count (\<lambda>r c. m r c \<noteq> of_nat (r * 8 + c + 1)))]))"
    unfolding lx_full_eq e 1(1) bind.simps f by (rule 2(1))
  moreover have "writes (?h1 @ h2 @ ?h3 @ h4) = lx_full_system_writes bd"
    by (simp add: 1(2) 2(2) lx_full_system_writes_def init_writes_def Let_def)
  ultimately show ?thesis
    by (intro exI [of _ "?h1 @ h2 @ ?h3 @ h4"] exI [of _ "?l @ ?l2 @ l"] exI [of _ m])
      (simp add: s2_def s1_def)
qed

text \<open>The processor's products.\<close>

lemma cpu_products_eq:
  assumes "b < n" and "r < 8" and "c < 8"
  shows "cpu_products A W n b r c = of_int (dot8 (A b) W r c)"
proof -
  have "cpu_products A W n = for_range 0 n (\<lambda>b out. out(b := cpu_matmul_8x8 (A b) W (\<lambda>_ _. 0))) (\<lambda>_ _ _. 0)"
    unfolding cpu_products_def by (intro for_range_cong) (simp add: Let_def)
  then show ?thesis using assms by (simp add: for_range_upd cpu_matmul_8x8_eq)
qed

lemma bad_count_cong:
  "(\<And>r c. r < 8 \<Longrightarrow> c < 8 \<Longrightarrow> bad r c = bad' r c) \<Longrightarrow> bad_count bad = bad_count bad'"
  unfolding bad_count_def by (rule arg_cong [where f = card]) auto

lemma check_performance_adv:
  "\<exists>ms l. check_performance (trace_bus resp) junk d out n s =
     (batch_errors out ms n, adv s (batch_reads d ms n) l)"
  unfolding check_performance_def
proof (rule batches_adv, unfold prod.case)
  fix i t :: nat and s :: "access list machine"
  obtain m where 1: "npu_parse_output (trace_bus resp) (d + of_nat (i * 256)) junk s =
      (m, adv s (parse_reads (d + of_nat (i * 256)) m) [])"
    using parse_trace [of resp "d + of_nat (i * 256)" junk s] by (auto simp: adv_hw)
  let ?loop = "for_range 0 8 (\<lambda>r st. for_range 0 8 (\<lambda>c (total_errors, s).
      let hw_val = m r c; cpu_val = out i r c
      in if hw_val \<noteq> cpu_val
         then let s = (if total_errors < 5
                then printf ''Mismatch Batch %d [%d,%d] - NPU: %08x, CPU: %08x\<newline>''
                  [int i, int r, int c, sint hw_val, sint cpu_val] s else s)
              in (total_errors + 1, s)
         else (total_errors, s)) st) (t, adv s (parse_reads (d + of_nat (i * 256)) m) [])"
  have "said (adv s (parse_reads (d + of_nat (i * 256)) m) []) (snd ?loop) \<and>
      fst ?loop = t + bad_count (\<lambda>r c. m r c \<noteq> out i r c)"
    by (rule scan_all) (auto simp: Let_def)
  then obtain l where 2: "?loop = (t + bad_count (\<lambda>r c. m r c \<noteq> out i r c),
      adv s (parse_reads (d + of_nat (i * 256)) m) l)"
    unfolding adv_said by (metis (no_types, lifting) adv_simps(1) append_Nil append_Nil2 prod.collapse)
  have o: "i * NPU_OUT_BYTES = i * 256" by (simp add: NPU_OUT_BYTES_def NPU_MAT_SIZE_def)
  show "\<exists>m l. (let (hw_matrix, s) = lx_npu_parse_output (trace_bus resp)
         (d + of_nat (i * NPU_OUT_BYTES)) junk s
       in for_range 0 8 (\<lambda>r st. for_range 0 8 (\<lambda>c (total_errors, s).
         let hw_val = hw_matrix r c; cpu_val = out i r c
         in if hw_val \<noteq> cpu_val
            then let s = (if total_errors < 5
                   then printf ''Mismatch Batch %d [%d,%d] - NPU: %08x, CPU: %08x\<newline>''
                     [int i, int r, int c, sint hw_val, sint cpu_val] s else s)
                 in (total_errors + 1, s)
            else (total_errors, s)) st) (t, s)) =
      (t + bad_count (\<lambda>r c. m r c \<noteq> out i r c), adv s (parse_reads (d + of_nat (i * 256)) m) l)"
    using 2 by (intro exI [of _ m] exI [of _ l]) (unfold lx_driver o 1 Let_def prod.case)
qed

definition perf_verdict :: "nat \<Rightarrow> console_event" where
  "perf_verdict n = (if n = 0
     then Printf ''Verification: PASS (NPU output perfectly matches CPU)\<newline>'' []
     else Printf ''Verification: FAIL (%d errors detected)\<newline>'' [int n])"

lemma performance_report_adv:
  "\<exists>l. performance_report n e t u s =
     adv s [] (Printf ''\<newline>=== Performance Results (%d Batches) ===\<newline>'' [n] # perf_verdict e # l)"
  by (rule exI [of _ "Printf ''CPU Time : %.3f us\<newline>'' [t] #
      Printf ''NPU Time : %.3f us (Includes DMA Setup overhead)\<newline>'' [u] #
      (if u > 0 then [Printf ''Speedup  : %.2f x\<newline>'' [t, u]] else [])"])
    (simp add: performance_report_def perf_verdict_def adv_printf Let_def)

lemma delay_adv: "s\<lparr>hw := bus_delay (trace_bus resp) us (hw s)\<rparr> = adv s [Delay us] []"
  by (simp add: adv_def)

text \<open>Everything the comparison writes, for the random matrices \<open>W\<close> and \<open>A\<close>.\<close>

definition performance_writes :: "board \<Rightarrow> mat8 \<Rightarrow> (nat \<Rightarrow> mat8) \<Rightarrow> nat \<Rightarrow> access list" where
  "performance_writes bd W A n =
     (let w = DDR3_WINDOW_BASE bd
      in init_writes bd @ weight_writes w W @ batch_writes (w + 0x100000) A n @
         load_writes bd 0x20000000 1 @ Wr32 (NPU_CTRL_BASE bd + 24) (of_int (int n * 8)) #
         run_writes bd 0x20100000 0x20200000 n)"

text \<open>The correct product, entry by entry, as the 32-bit word of the exact integer.\<close>

definition product :: "(nat \<Rightarrow> mat8) \<Rightarrow> mat8 \<Rightarrow> nat \<Rightarrow> nat \<Rightarrow> nat \<Rightarrow> u32" where
  "product A W b r c = of_int (\<Sum>k<8. sint (A b r k) * sint (W k c))"

lemma batch_errors_product:
  "batch_errors (cpu_products A W n) ms n = batch_errors (product A W) ms n"
  unfolding batch_errors_def
  by (intro sum.cong refl bad_count_cong) (simp add: cpu_products_eq product_def dot8_def)

lemma lx_performance_adv:
  assumes "idles resp bd" and "0 < n" and "n \<le> 4000"
    and "os_malloc_inputs E" and "os_malloc_outputs E"
    and "rand_matrix (os_rand E) k = (W, k1)" and "rand_matrices (os_rand E) n k1 = (A, k2)"
  shows "\<exists>h ms l l'. lx_verify_performance_cpu_vs_npu (trace_bus resp) E bd junk (int n) k s =
      Some (k2, adv s (h @ batch_reads (DDR3_WINDOW_BASE bd + 0x200000) ms n)
        (l @ Printf ''\<newline>=== Performance Results (%d Batches) ===\<newline>'' [int n] #
         perf_verdict (batch_errors (product A W) ms n) # l')) \<and>
    writes h = performance_writes bd W A n"
proof -
  let ?B = "trace_bus resp" and ?w = "DDR3_WINDOW_BASE bd" and ?p = "0x20000000 :: u32"
  let ?h = "init_writes bd @ weight_writes ?w W @ batch_writes (?w + 0x100000) A n"
  let ?l = "[Printf ''\<newline>Starting CPU vs NPU Performance Comparison (%d Batches of 8x8)...\<newline>'' [int n]]"
  define s1 where "s1 = adv s ?h ?l"
  define s1' where "s1' = adv s1 [Delay (os_cpu_time E n)] []"
  obtain h1 where 1: "npu_load_weights ?B bd ?p 1 s1' = Some (adv s1' h1 [])"
    "writes h1 = load_writes bd ?p 1" using load_weights_adv [OF assms(1)] by blast
  define s2 where "s2 = adv s1' (h1 @ Wr32 (NPU_CTRL_BASE bd + 24) (of_int (int n * 8)) #
    run_writes bd (?p + 0x100000) (?p + 0x200000) n) []"
  obtain h2 where 2: "npu_wait_execution ?B bd s2 = Some (adv s2 h2 [])" "writes h2 = []"
    using wait_adv [OF assms(1)] by blast
  obtain ms l3 where 3: "check_performance ?B junk (?w + 0x200000) (cpu_products A W n) n (adv s2 h2 []) =
      (batch_errors (cpu_products A W n) ms n, adv (adv s2 h2 []) (batch_reads (?w + 0x200000) ms n) l3)"
    using check_performance_adv by blast
  define s3 where "s3 = adv (adv s2 h2 []) (batch_reads (?w + 0x200000) ms n) l3"
  let ?e = "batch_errors (product A W) ms n"
  have e0: "printf ''\<newline>Starting CPU vs NPU Performance Comparison (%d Batches of 8x8)...\<newline>'' [int n] s = adv s [] ?l"
    by (simp add: adv_printf)
  have e1: "format_batch ?B (?w + 0x100000) A n (npu_format_weights ?B ?w W
      (msgdma_init ?B (DDR_WRITE_ST_CSR_BASE bd) (msgdma_init ?B (DDR_READ_ST_CSR_BASE bd)
      (adv s [] ?l)))) = s1"
    by (simp add: pieces_adv s1_def init_writes_def)
  have e2: "npu_load_matrix ?B bd (?p + 0x100000) n (npu_get_matrix ?B bd (?p + 0x200000) n
      (IOWR ?B (NPU_CTRL_BASE bd) REG_SEQ_ROWS (of_int (int n * 8)) (adv s1' h1 []))) = s2"
    by (simp add: run_adv IOWR_adv s2_def REG_SEQ_ROWS_def)
  obtain l4 where 4: "performance_report (int n) ?e
      (get_time_us E s1' - get_time_us E s1) (get_time_us E (adv s2 h2 []) - get_time_us E (adv s1' h1 [])) s3 =
      adv s3 [] (Printf ''\<newline>=== Performance Results (%d Batches) ===\<newline>'' [int n] # perf_verdict ?e # l4)"
    using performance_report_adv by blast
  have n: "\<not> int n \<le> 0" "\<not> int n > 4000" "nat (int n) = n" "\<not> (\<not> os_malloc_inputs E \<or> \<not> os_malloc_outputs E)"
    using assms(2-5) by simp_all
  have "lx_verify_performance_cpu_vs_npu ?B E bd junk (int n) k s = Some (k2, adv s3 []
      (Printf ''\<newline>=== Performance Results (%d Batches) ===\<newline>'' [int n] # perf_verdict ?e # l4))"
    unfolding lx_verify_performance_cpu_vs_npu_def if_not_P [OF n(1)] if_not_P [OF n(2)] Let_def n(3)
      if_not_P [OF n(4)] lx_IO lx_driver lx_waits e0 assms(6,7) prod.case
      format_batch_def [symmetric] e1 delay_adv s1'_def [symmetric] 1(1) bind.simps e2 2(1) 3
      s3_def [symmetric] batch_errors_product 4 ..
  moreover have "writes (?h @ [Delay (os_cpu_time E n)] @ h1 @ Wr32 (NPU_CTRL_BASE bd + 24) (of_int (int n * 8)) #
      run_writes bd (?p + 0x100000) (?p + 0x200000) n @ h2) = performance_writes bd W A n"
    by (simp add: 1(2) 2(2) performance_writes_def init_writes_def Let_def)
  ultimately show ?thesis
    by (intro exI [of _ "?h @ [Delay (os_cpu_time E n)] @ h1 @ Wr32 (NPU_CTRL_BASE bd + 24) (of_int (int n * 8)) #
          run_writes bd (?p + 0x100000) (?p + 0x200000) n @ h2"]
        exI [of _ ms] exI [of _ "?l @ l3"] exI [of _ l4])
      (simp add: s3_def s2_def s1'_def s1_def)
qed

lemma skip_line_newline:
  assumes "skip_line inp = Some r"
  shows "CHR ''\<newline>'' \<in> set inp"
proof (rule skip_line.raw_induct [where P = "\<lambda>inp r. CHR ''\<newline>'' \<in> set inp", OF _ assms])
  fix skip inp r
  assume IH: "\<And>inp r. skip inp = Some r \<Longrightarrow> CHR ''\<newline>'' \<in> set inp"
    and eq: "(case inp of [] \<Rightarrow> skip [] | c # cs \<Rightarrow> if c = CHR ''\<newline>'' then Some cs else skip cs) = Some r"
  show "CHR ''\<newline>'' \<in> set inp"
  proof (cases inp)
    case Nil
    with eq IH [of "[]" r] show ?thesis by simp
  next
    case (Cons c cs)
    with eq IH [of cs r] show ?thesis by (auto split: if_splits)
  qed
qed

section \<open>Properties\<close>

text \<open>The Linux copy of the driver is the same as the one of the Nios II program, function by
  function, so that everything proved of one holds of the other over its own base addresses.\<close>

theorem linux_driver_agrees:
  "lx_msgdma_init = msgdma_init \<and> lx_msgdma_read_stream_push = msgdma_read_stream_push \<and>
   lx_msgdma_write_stream_push = msgdma_write_stream_push \<and>
   lx_npu_format_inputs = npu_format_inputs \<and> lx_npu_format_weights = npu_format_weights \<and>
   lx_npu_parse_output = npu_parse_output \<and> lx_npu_load_weights = npu_load_weights \<and>
   lx_npu_get_matrix = npu_get_matrix \<and> lx_npu_load_matrix = npu_load_matrix \<and>
   lx_npu_wait_execution = npu_wait_execution"
  by (simp only: lx_driver lx_waits simp_thms)

text \<open>On hardware that eventually goes idle the Linux full-system test terminates, writes a
  fixed sequence that is the one of the Nios II test without the span extender, and reports
  PASS exactly when all 64 decoded entries are right, else the number of wrong ones.\<close>

theorem lx_verify_full_system_total:
  assumes "idles resp bd"
  shows "\<exists>s' h m. lx_verify_full_system (trace_bus resp) bd junk s = Some s' \<and>
    hw s' = hw s @ h @ parse_reads (DDR3_WINDOW_BASE bd + 0x2000) m \<and>
    writes h = take 6 (full_system_writes bd) @ drop 7 (full_system_writes bd) \<and>
    last (console s') = full_verdict (bad_count (\<lambda>r c. m r c \<noteq> of_nat (r * 8 + c + 1)))"
proof -
  from lx_full_adv [OF assms, of junk s] obtain s' h l m where
    "lx_verify_full_system (trace_bus resp) bd junk s = Some s'"
    and s': "s' = (adv s (h @ parse_reads (DDR3_WINDOW_BASE bd + 0x2000) m)
        (l @ [full_verdict (bad_count (\<lambda>r c. m r c \<noteq> of_nat (r * 8 + c + 1)))]))"
    and h: "writes h = lx_full_system_writes bd" by blast
  moreover have "writes h = take 6 (full_system_writes bd) @ drop 7 (full_system_writes bd)"
    unfolding h by (simp add: lx_full_system_writes_def full_system_writes_def init_writes_def Let_def)
  moreover have "hw s' = hw s @ h @ parse_reads (DDR3_WINDOW_BASE bd + 0x2000) m"
    "last (console s') = full_verdict (bad_count (\<lambda>r c. m r c \<noteq> of_nat (r * 8 + c + 1)))"
    unfolding s' by simp_all
  ultimately show ?thesis by blast
qed

theorem lx_verify_full_system_total_witness:
  "\<exists>s'. lx_verify_full_system (trace_bus (\<lambda>_ _. 0)) (lx_board 0 0x1000000) (\<lambda>_ _. 0) (reset_machine []) = Some s'"
  using lx_verify_full_system_total [OF idles_0, of "lx_board 0 0x1000000" "\<lambda>_ _. 0" "reset_machine []"]
  by blast

text \<open>C24: For every accepted batch count the comparison terminates on hardware that eventually
  goes idle; it stores the random weights and inputs where the DMA transfers it starts read
  them, and reports PASS exactly when every entry of every result the hardware delivers is the
  exact integer product, and otherwise the number of wrong entries. A count that is not
  positive or above 4000 touches no hardware.\<close>

theorem lx_performance_total:
  assumes "idles resp bd" and "os_malloc_inputs E" and "os_malloc_outputs E"
    and "rand_matrix (os_rand E) k = (W, k1)" and "rand_matrices (os_rand E) (nat n) k1 = (A, k2)"
  shows "case lx_verify_performance_cpu_vs_npu (trace_bus resp) E bd junk n k s of
      None \<Rightarrow> False
    | Some (k', s') \<Rightarrow>
        if n \<le> 0 \<or> n > 4000 then hw s' = hw s
        else \<exists>h ms l l'. hw s' = hw s @ h @ batch_reads (DDR3_WINDOW_BASE bd + 0x200000) ms (nat n) \<and>
          writes h = performance_writes bd W A (nat n) \<and>
          console s' = console s @ l @ perf_verdict (batch_errors (product A W) ms (nat n)) # l'"
proof (cases "n \<le> 0 \<or> n > 4000")
  case True
  then show ?thesis by (auto simp: lx_verify_performance_cpu_vs_npu_def Let_def)
next
  case False
  then have "0 < nat n" "nat n \<le> 4000" "int (nat n) = n" by linarith+
  with lx_performance_adv [OF assms(1) this(1,2) assms(2-5), of junk s] obtain h ms l l' where
    "lx_verify_performance_cpu_vs_npu (trace_bus resp) E bd junk n k s =
      Some (k2, adv s (h @ batch_reads (DDR3_WINDOW_BASE bd + 0x200000) ms (nat n))
        (l @ Printf ''\<newline>=== Performance Results (%d Batches) ===\<newline>'' [n] #
         perf_verdict (batch_errors (product A W) ms (nat n)) # l'))"
    "writes h = performance_writes bd W A (nat n)" by auto
  moreover define l2 where "l2 = l @ [Printf ''\<newline>=== Performance Results (%d Batches) ===\<newline>'' [n]]"
  ultimately have "lx_verify_performance_cpu_vs_npu (trace_bus resp) E bd junk n k s =
      Some (k2, adv s (h @ batch_reads (DDR3_WINDOW_BASE bd + 0x200000) ms (nat n))
        (l2 @ perf_verdict (batch_errors (product A W) ms (nat n)) # l'))"
    and "writes h = performance_writes bd W A (nat n)" by simp_all
  with False show ?thesis
    by (simp, intro exI [of _ h] exI [of _ ms] exI [of _ l2] exI [of _ l'] conjI) simp_all
qed

definition test_os :: "'h os" where
  "test_os = \<lparr>os_open = 3, os_mmap_lw = Some 0, os_mmap_ddr = Some 0x1000000,
     os_malloc_inputs = True, os_malloc_outputs = True, os_rand = (\<lambda>k. int k), os_cpu_time = (\<lambda>n. n),
     os_clock = (\<lambda>_. 0)\<rparr>"

theorem lx_performance_total_witness:
  "\<exists>r. lx_verify_performance_cpu_vs_npu (trace_bus (\<lambda>_ _. 0)) test_os (lx_board 0 0x1000000)
     (\<lambda>_ _. 0) 10 0 (reset_machine []) = Some r"
proof -
  let ?E = "test_os :: access list os"
  obtain W k1 where W: "rand_matrix (os_rand ?E) 0 = (W, k1)" by (rule prod.exhaust)
  obtain A k2 where A: "rand_matrices (os_rand ?E) (nat 10) k1 = (A, k2)" by (rule prod.exhaust)
  have m: "os_malloc_inputs ?E" "os_malloc_outputs ?E" by (simp_all add: test_os_def)
  from lx_performance_total [OF idles_0 m W A, where bd = "lx_board 0 0x1000000" and junk = "\<lambda>_ _. 0"
    and s = "reset_machine []"]
  show ?thesis by (auto split: option.splits)
qed

text \<open>A defect of the Linux menu: when the batch count cannot be read and no line end follows,
  as at end of file, the program loops in \<open>getchar\<close> forever.\<close>

theorem lx_bad_count_at_eof_hangs:
  assumes "scan_int inp = (None, rest)" and "CHR ''\<newline>'' \<notin> set rest"
  shows "lx_loop B E bd junk (CHR ''4'' # inp, k, s) = None"
proof -
  have "skip_line rest = None" using skip_line_newline assms(2) by (cases "skip_line rest") auto
  then have "lx_turn B E bd junk (CHR ''4'' # inp, k, s) = None"
    using assms(1) by (simp add: lx_turn_def lx_get_char_polled_def scan_char_def isspace_def Let_def)
  then show ?thesis by (simp add: lx_loop.simps)
qed

theorem lx_bad_count_at_eof_hangs_witness:
  "lx_loop B E bd junk (''4'', k, s) = None"
  using lx_bad_count_at_eof_hangs [of "[]" "[]" B E bd junk k s] by (simp add: scan_int_def)

end
