(* ===== verification/Elastic_Pipe.thy ===== *)
theory Elastic_Pipe
  imports Npu_Prelude
begin

text \<open>
  The abstract behaviour of the NPU's data path: an elastic pipeline of \<open>D\<close> stages, each empty or
  holding one token. In a cycle a token moves into stage \<open>d\<close> when the stage is empty or its own
  token moves on; the token in the last stage leaves when the environment is ready. The pipeline
  is a queue: nothing is lost, repeated or reordered, and it drains.
\<close>

type_synonym 'a pipe = "nat \<Rightarrow> 'a option"

text \<open>What stands before stage \<open>d\<close>: the input, or the stage before it.\<close>

definition before :: "'a option \<Rightarrow> 'a pipe \<Rightarrow> nat \<Rightarrow> 'a option" where
  "before inp p d = (case d of 0 \<Rightarrow> inp | Suc e \<Rightarrow> p e)"

lemma before_simps [simp]: "before inp p 0 = inp" "before inp p (Suc d) = p d"
  by (simp_all add: before_def)

text \<open>A token moves into stage \<open>d\<close>; into stage \<open>D\<close> means out of the pipeline.\<close>

function moves :: "nat \<Rightarrow> 'a pipe \<Rightarrow> 'a option \<Rightarrow> bool \<Rightarrow> nat \<Rightarrow> bool" where
  "moves D p inp rdy d =
     (if d \<ge> D then rdy \<and> before inp p D \<noteq> None
      else before inp p d \<noteq> None \<and> (p d = None \<or> moves D p inp rdy (Suc d)))"
  by pat_completeness auto
termination by (relation "measure (\<lambda>(D, p, inp, rdy, d). D - d)") auto

declare moves.simps [simp del]

definition pipe_step :: "nat \<Rightarrow> 'a pipe \<Rightarrow> 'a option \<Rightarrow> bool \<Rightarrow> 'a pipe" where
  "pipe_step D p inp rdy d =
     (if d \<ge> D then None
      else if moves D p inp rdy d then before inp p d
      else if moves D p inp rdy (Suc d) then None else p d)"

lemma moves_last [simp]: "moves D p inp rdy D \<longleftrightarrow> rdy \<and> before inp p D \<noteq> None"
  by (simp add: moves.simps)

lemma moves_into:
  "d < D \<Longrightarrow> moves D p inp rdy d \<longleftrightarrow> before inp p d \<noteq> None \<and> (p d = None \<or> moves D p inp rdy (Suc d))"
  by (subst moves.simps) simp

lemma moves_before: "moves D p inp rdy d \<Longrightarrow> d \<le> D \<Longrightarrow> before inp p d \<noteq> None"
  by (cases "d = D") (simp_all add: moves_into)

section \<open>The pipeline is a queue\<close>

text \<open>The tokens in the stages from \<open>d\<close> on, the oldest first.\<close>

definition opt_list :: "'a option \<Rightarrow> 'a list" where
  "opt_list a = (case a of None \<Rightarrow> [] | Some x \<Rightarrow> [x])"

lemma opt_list_simps [simp]: "opt_list None = []" "opt_list (Some x) = [x]"
  by (simp_all add: opt_list_def)

definition tokens_from :: "nat \<Rightarrow> 'a pipe \<Rightarrow> nat \<Rightarrow> 'a list" where
  "tokens_from D p d = concat (map (\<lambda>e. opt_list (p e)) (rev [d..<D]))"

definition tokens :: "nat \<Rightarrow> 'a pipe \<Rightarrow> 'a list" where
  "tokens D p = tokens_from D p 0"

lemma tokens_from_last [simp]: "tokens_from D p D = []"
  by (simp add: tokens_from_def)

lemma tokens_from_Suc: "d < D \<Longrightarrow> tokens_from D p d = tokens_from D p (Suc d) @ opt_list (p d)"
  by (simp add: tokens_from_def upt_conv_Cons)

definition popped :: "nat \<Rightarrow> 'a pipe \<Rightarrow> 'a option \<Rightarrow> bool \<Rightarrow> 'a list" where
  "popped D p inp rdy = (if moves D p inp rdy D then opt_list (before inp p D) else [])"

lemma pipe_step_from:
  "d \<le> D \<Longrightarrow> popped D p inp rdy @ tokens_from D (pipe_step D p inp rdy) d =
     tokens_from D p d @ (if moves D p inp rdy d then opt_list (before inp p d) else [])"
proof (induction rule: inc_induct)
  case base
  show ?case by (simp add: popped_def)
next
  case (step d)
  have d: "d < D" using step.hyps by simp
  then have "\<not> D \<le> d" by simp
  then show ?case
    using step.IH moves_into [OF d, of p inp rdy]
    by (cases "p d") (auto simp: tokens_from_Suc [OF d] pipe_step_def simp flip: append_assoc)
qed

lemma pipe_step_queue:
  "popped D p inp rdy @ tokens D (pipe_step D p inp rdy) =
     tokens D p @ (if moves D p inp rdy 0 then opt_list inp else [])"
  using pipe_step_from [of 0 D p inp rdy] by (simp add: tokens_def)

section \<open>The pipeline drains\<close>

text \<open>With the environment ready every token moves.\<close>

lemma moves_ready: "d \<le> D \<Longrightarrow> moves D p inp True d \<longleftrightarrow> before inp p d \<noteq> None"
proof (induction rule: inc_induct)
  case (step d)
  then show ?case by (auto simp: moves_into)
qed simp

lemma pipe_step_ready: "d < D \<Longrightarrow> pipe_step D p inp True d = before inp p d"
  by (simp add: pipe_step_def moves_ready)

fun pipe_run :: "nat \<Rightarrow> ('a option \<times> bool) list \<Rightarrow> 'a pipe \<Rightarrow> 'a list \<times> 'a list \<times> 'a pipe" where
  "pipe_run D [] p = ([], [], p)"
| "pipe_run D ((inp, rdy) # is) p =
     (case pipe_run D is (pipe_step D p inp rdy) of (acc, out, p') \<Rightarrow>
        ((if moves D p inp rdy 0 then opt_list inp else []) @ acc, popped D p inp rdy @ out, p'))"

text \<open>What went in follows what was inside, and is what came out followed by what is inside.\<close>

lemma pipe_run_queue:
  "pipe_run D is p = (acc, out, p') \<Longrightarrow> out @ tokens D p' = tokens D p @ acc"
proof (induction "is" arbitrary: p acc out)
  case (Cons i "is")
  obtain inp rdy where i: "i = (inp, rdy)" by (rule prod.exhaust)
  obtain acc1 out1 where r: "pipe_run D is (pipe_step D p inp rdy) = (acc1, out1, p')"
    and e: "acc = (if moves D p inp rdy 0 then opt_list inp else []) @ acc1"
      "out = popped D p inp rdy @ out1"
    using Cons.prems by (auto simp: i split: prod.splits)
  from Cons.IH [OF r] pipe_step_queue [of D p inp rdy] show ?case
    unfolding e by simp
qed simp

lemma drain_step: "pipe_step D p None True d = (if d < D \<and> 0 < d then p (d - 1) else None)"
proof (cases "d < D")
  case True
  then show ?thesis by (cases d) (simp_all add: pipe_step_ready)
qed (simp add: pipe_step_def)

lemma drain_shift:
  assumes "\<And>d. D \<le> d \<Longrightarrow> p d = None"
  shows "snd (snd (pipe_run D (replicate n (None, True)) p)) d =
     (if d < D \<and> n \<le> d then p (d - n) else None)"
  using assms
proof (induction n arbitrary: p)
  case 0
  then show ?case by simp
next
  case (Suc n)
  have "snd (snd (pipe_run D (replicate (Suc n) (None, True)) p)) d =
      snd (snd (pipe_run D (replicate n (None, True)) (pipe_step D p None True))) d"
    by (simp split: prod.splits)
  also have "\<dots> = (if d < D \<and> n \<le> d then pipe_step D p None True (d - n) else None)"
    by (rule Suc.IH) (simp add: drain_step)
  also have "\<dots> = (if d < D \<and> Suc n \<le> d then p (d - Suc n) else None)"
    by (auto simp: drain_step)
  finally show ?case .
qed

lemma pipe_drains:
  "(\<And>d. D \<le> d \<Longrightarrow> p d = None) \<Longrightarrow> snd (snd (pipe_run D (replicate D (None, True)) p)) d = None"
  by (simp only: drain_shift) simp

lemma tokens_empty: "\<forall>d<D. p d = None \<Longrightarrow> tokens D p = []"
  by (simp add: tokens_def tokens_from_def)

section \<open>How far the tokens have to go\<close>

definition distance :: "nat \<Rightarrow> 'a pipe \<Rightarrow> nat" where
  "distance D p = (\<Sum>d<D. if p d = None then 0 else D - d)"

lemma length_tokens: "length (tokens D p) = card {d. d < D \<and> p d \<noteq> None}"
proof -
  have "length (tokens D p) = (\<Sum>d\<leftarrow>[0..<D]. if p d = None then 0 else 1)"
    by (simp add: tokens_def tokens_from_def length_concat opt_list_def comp_def option.case_eq_if
        if_distrib [where f = length] sum_list_rev flip: rev_map cong: if_cong)
  also have "\<dots> = (\<Sum>d<D. if p d = None then 0 else 1)"
    by (simp add: interv_sum_list_conv_sum_set_nat atLeast0LessThan)
  also have "\<dots> = card {d. d < D \<and> p d \<noteq> None}"
    by (simp add: sum.If_cases lessThan_def Int_def Compl_eq conj_commute cong: conj_cong)
  finally show ?thesis .
qed

lemma distance_bound: "distance D p \<le> D * length (tokens D p)"
proof -
  have "distance D p \<le> (\<Sum>d<D. if p d \<noteq> None then D else 0)"
    unfolding distance_def by (intro sum_mono) auto
  also have "\<dots> = D * card {d. d < D \<and> p d \<noteq> None}"
    by (simp add: sum.If_cases lessThan_def Int_def conj_commute cong: conj_cong)
  finally show ?thesis by (simp add: length_tokens)
qed

text \<open>No step takes a token back.\<close>

lemma distance_from_step:
  "d \<le> D \<Longrightarrow> (\<Sum>e=d..<D. if pipe_step D p inp rdy e = None then 0 else D - e) \<le>
     (\<Sum>e=d..<D. if p e = None then 0 else D - e) + (if moves D p inp rdy d then D - d else 0)"
proof (induction rule: inc_induct)
  case (step d)
  have d: "d < D" using step.hyps by simp
  have "(if pipe_step D p inp rdy d = None then 0 else D - d) +
      (if moves D p inp rdy (Suc d) then D - Suc d else 0) \<le>
      (if p d = None then 0 else D - d) + (if moves D p inp rdy d then D - d else 0)"
    using moves_before [of D p inp rdy "Suc d"] moves_before [of D p inp rdy d] d
    by (auto simp: pipe_step_def)
  with step.IH show ?case using d by (simp add: sum.atLeast_Suc_lessThan)
qed simp

lemma distance_step: "distance D (pipe_step D p None rdy) \<le> distance D p"
proof (cases D)
  case (Suc m)
  then have "\<not> moves D p None rdy 0" using moves_before [of D p None rdy 0] by auto
  then show ?thesis using distance_from_step [of 0 D p None rdy]
    by (simp add: distance_def lessThan_atLeast0)
qed (simp add: distance_def)

text \<open>With the environment ready each token comes one stage closer.\<close>

lemma distance_step_ready:
  "distance D (pipe_step D p None True) + length (tokens D p) = distance D p"
proof (cases D)
  case (Suc m)
  have "distance D (pipe_step D p None True) = (\<Sum>d<D. if d = 0 \<or> p (d - 1) = None then 0 else D - d)"
    unfolding distance_def by (intro sum.cong) (auto simp: drain_step)
  also have "\<dots> = (\<Sum>d<m. if p d = None then 0 else m - d)"
    unfolding Suc sum.lessThan_Suc_shift by (simp cong: if_cong)
  also have "\<dots> = (\<Sum>d<D. if p d = None then 0 else m - d)"
    by (simp add: Suc)
  finally have e: "distance D (pipe_step D p None True) = (\<Sum>d<D. if p d = None then 0 else m - d)" .
  have t: "length (tokens D p) = (\<Sum>d<D. if p d = None then 0 else 1)"
    by (simp add: length_tokens sum.If_cases lessThan_def Int_def Compl_eq conj_commute cong: conj_cong)
  show ?thesis
    unfolding e t unfolding distance_def sum.distrib [symmetric] by (intro sum.cong) (auto simp: Suc)
qed (simp add: distance_def tokens_def tokens_from_def)

lemma distance_0: "distance D p = 0 \<longleftrightarrow> tokens D p = []"
proof
  assume "distance D p = 0"
  then have "\<forall>d<D. p d = None" by (auto simp: distance_def split: if_splits)
  then show "tokens D p = []" by (rule tokens_empty)
next
  assume "tokens D p = []"
  then show "distance D p = 0" using distance_bound [of D p] by simp
qed

end
