(* ===== verification/Rtl_Mac.thy ===== *)
theory Rtl_Mac
  imports Npu_Format Elastic_Pipe
begin

text \<open>
  The processing element of \<open>rtl/mac_pe.v\<close>, with \<open>DATA_WIDTH = 8\<close> and \<open>ACC_WIDTH = 32\<close> as
  \<open>rtl/npu_unit.v\<close> instantiates it. A module is a record of its registers; its input ports are a
  second record, its wires are functions of the two, and the clocked block is a step function
  whose non-blocking assignments read the old record.
\<close>

section \<open>The module\<close>

record pe =
  shadow_weight_reg :: u8
  active_weight_reg :: u8
  x_out :: u8
  y_out :: u32
  valid_out_x :: bool
  valid_out_y :: bool
  weight_shift_out :: bool

record pe_in =
  valid_in_x :: bool
  weight_shift_in :: bool
  x_in :: u8
  ready_in_x :: bool
  valid_in_y :: bool
  y_in :: u32
  ready_in_y :: bool
  weight_latch_en :: bool

definition pe_reset :: pe where
  "pe_reset = \<lparr>shadow_weight_reg = 0, active_weight_reg = 0, x_out = 0, y_out = 0,
     valid_out_x = False, valid_out_y = False, weight_shift_out = False\<rparr>"

definition mult_out :: "u8 \<Rightarrow> u8 \<Rightarrow> u16" where
  "mult_out x w = scast x * scast w"

definition mult_ext :: "u8 \<Rightarrow> u8 \<Rightarrow> u32" where
  "mult_ext x w = scast (mult_out x w)"

definition add_out :: "pe \<Rightarrow> pe_in \<Rightarrow> u32" where
  "add_out p i = y_in i + mult_ext (x_in i) (active_weight_reg p)"

definition stall_x :: "pe \<Rightarrow> pe_in \<Rightarrow> bool" where
  "stall_x p i \<longleftrightarrow> valid_out_x p \<and> \<not> ready_in_x i"

definition stall_y :: "pe \<Rightarrow> pe_in \<Rightarrow> bool" where
  "stall_y p i \<longleftrightarrow> valid_out_y p \<and> \<not> ready_in_y i"

definition fire_load :: "pe \<Rightarrow> pe_in \<Rightarrow> bool" where
  "fire_load p i \<longleftrightarrow> valid_in_x i \<and> weight_shift_in i \<and> \<not> stall_x p i"

definition fire_calc :: "pe \<Rightarrow> pe_in \<Rightarrow> bool" where
  "fire_calc p i \<longleftrightarrow>
     valid_in_x i \<and> valid_in_y i \<and> \<not> weight_shift_in i \<and> \<not> stall_x p i \<and> \<not> stall_y p i"

definition ready_out_x :: "pe \<Rightarrow> pe_in \<Rightarrow> bool" where
  "ready_out_x p i \<longleftrightarrow> fire_load p i \<or> fire_calc p i"

definition ready_out_y :: "pe \<Rightarrow> pe_in \<Rightarrow> bool" where
  "ready_out_y p i \<longleftrightarrow> fire_calc p i"

definition pe_step :: "pe \<Rightarrow> pe_in \<Rightarrow> pe" where
  "pe_step p i =
     (let q = (if weight_latch_en i then p\<lparr>active_weight_reg := shadow_weight_reg p\<rparr> else p)
      in if fire_load p i then
           q\<lparr>shadow_weight_reg := x_in i, x_out := shadow_weight_reg p, valid_out_x := True,
             valid_out_y := False, weight_shift_out := True\<rparr>
         else if fire_calc p i then
           q\<lparr>x_out := x_in i, y_out := add_out p i, valid_out_x := True, valid_out_y := True,
             weight_shift_out := False\<rparr>
         else
           q\<lparr>valid_out_x := (if valid_out_x p \<and> ready_in_x i then False else valid_out_x p),
             valid_out_y := (if valid_out_y p \<and> ready_in_y i then False else valid_out_y p)\<rparr>)"

section \<open>The arithmetic\<close>

text \<open>The product of two signed bytes fits 16 bits, so extending it loses nothing.\<close>

lemma sint_mult_out: "sint (mult_out x w) = sint x * sint w"
proof -
  have "sint (mult_out x w) = signed_take_bit 15 (sint x * sint w)"
    by (simp add: mult_out_def sint_word_ariths sint_up_scast is_up)
  also have "\<dots> = sint x * sint w"
    using u8_prod_bound [of x w] by (intro signed_take_bit_int_eq_self) auto
  finally show ?thesis .
qed

lemma mult_ext_word: "mult_ext x w = scast x * scast w"
proof -
  have "mult_ext x w = word_of_int (sint x * sint w)"
    unfolding mult_ext_def sint_mult_out [symmetric] by (simp only: scast_eq)
  then show ?thesis by simp
qed

section \<open>One step\<close>

text \<open>A stalled element keeps its outputs; an element that fires in a phase does that phase's work.\<close>

lemma pe_step_calc:
  "fire_calc p i \<Longrightarrow> pe_step p i =
     p\<lparr>active_weight_reg := (if weight_latch_en i then shadow_weight_reg p else active_weight_reg p),
       x_out := x_in i, y_out := add_out p i, valid_out_x := True, valid_out_y := True,
       weight_shift_out := False\<rparr>"
  by (auto simp: pe_step_def fire_calc_def fire_load_def Let_def)

lemma pe_step_load:
  "fire_load p i \<Longrightarrow> pe_step p i =
     p\<lparr>active_weight_reg := (if weight_latch_en i then shadow_weight_reg p else active_weight_reg p),
       shadow_weight_reg := x_in i, x_out := shadow_weight_reg p, valid_out_x := True,
       valid_out_y := False, weight_shift_out := True\<rparr>"
  by (auto simp: pe_step_def Let_def)

lemma pe_step_idle:
  "\<not> fire_load p i \<Longrightarrow> \<not> fire_calc p i \<Longrightarrow> pe_step p i =
     p\<lparr>active_weight_reg := (if weight_latch_en i then shadow_weight_reg p else active_weight_reg p),
       valid_out_x := stall_x p i, valid_out_y := stall_y p i\<rparr>"
  by (auto simp: pe_step_def stall_x_def stall_y_def Let_def)

lemma pe_step_latch:
  "active_weight_reg (pe_step p i) =
     (if weight_latch_en i then shadow_weight_reg p else active_weight_reg p)"
  by (simp add: pe_step_def Let_def)

end
