(* ===== verification/Rtl_Core.thy ===== *)
theory Rtl_Core
  imports Rtl_Mac
begin

text \<open>
  The systolic array (\<open>rtl/systolic_array.v\<close>) and the core around it (\<open>rtl/systolic_core.v\<close>):
  the skew registers of the inputs, \<open>N\<close> by \<open>N\<close> processing elements, and the deskew registers of
  the outputs, with the valid and ready wires between them. A bus of \<open>N\<close> lanes is a function of
  the lane; a generate loop's registers are a function of the loop indices.
\<close>

section \<open>The array\<close>

record array_in =
  row_load_weight :: "nat \<Rightarrow> bool"
  row_valid :: "nat \<Rightarrow> bool"
  row_x :: "nat \<Rightarrow> u8"
  col_y :: "nat \<Rightarrow> u32"
  array_latch :: bool
  col_ready :: "nat \<Rightarrow> bool"

type_synonym pes = "nat \<Rightarrow> nat \<Rightarrow> pe"

definition x_wire :: "pes \<Rightarrow> array_in \<Rightarrow> nat \<Rightarrow> nat \<Rightarrow> u8" where
  "x_wire A I i j = (case j of 0 \<Rightarrow> row_x I i | Suc c \<Rightarrow> x_out (A i c))"

definition v_wire_x :: "pes \<Rightarrow> array_in \<Rightarrow> nat \<Rightarrow> nat \<Rightarrow> bool" where
  "v_wire_x A I i j = (case j of 0 \<Rightarrow> row_valid I i | Suc c \<Rightarrow> valid_out_x (A i c))"

definition lw_wire :: "pes \<Rightarrow> array_in \<Rightarrow> nat \<Rightarrow> nat \<Rightarrow> bool" where
  "lw_wire A I i j = (case j of 0 \<Rightarrow> row_load_weight I i | Suc c \<Rightarrow> weight_shift_out (A i c))"

definition y_wire :: "pes \<Rightarrow> array_in \<Rightarrow> nat \<Rightarrow> nat \<Rightarrow> u32" where
  "y_wire A I i j = (case i of 0 \<Rightarrow> col_y I j | Suc r \<Rightarrow> y_out (A r j))"

definition v_wire_y :: "pes \<Rightarrow> nat \<Rightarrow> nat \<Rightarrow> bool" where
  "v_wire_y A i j = (case i of 0 \<Rightarrow> True | Suc r \<Rightarrow> valid_out_y (A r j))"

definition pe_ports :: "pes \<Rightarrow> array_in \<Rightarrow> nat \<Rightarrow> nat \<Rightarrow> bool \<Rightarrow> bool \<Rightarrow> pe_in" where
  "pe_ports A I i j rx ry =
     \<lparr>valid_in_x = v_wire_x A I i j, weight_shift_in = lw_wire A I i j, x_in = x_wire A I i j,
      ready_in_x = rx, valid_in_y = v_wire_y A i j, y_in = y_wire A I i j, ready_in_y = ry,
      weight_latch_en = array_latch I\<rparr>"

text \<open>The ready wires run from the right and bottom edges to the left and top edges.\<close>

function r_wire_x :: "nat \<Rightarrow> pes \<Rightarrow> array_in \<Rightarrow> nat \<Rightarrow> nat \<Rightarrow> bool"
and r_wire_y :: "nat \<Rightarrow> pes \<Rightarrow> array_in \<Rightarrow> nat \<Rightarrow> nat \<Rightarrow> bool" where
  "r_wire_x N A I i j =
     (if i < N \<and> j < N then
        ready_out_x (A i j)
          (pe_ports A I i j (r_wire_x N A I i (Suc j)) (r_wire_y N A I (Suc i) j))
      else True)"
| "r_wire_y N A I i j =
     (if i < N \<and> j < N then
        ready_out_y (A i j)
          (pe_ports A I i j (r_wire_x N A I i (Suc j)) (r_wire_y N A I (Suc i) j))
      else col_ready I j)"
  by pat_completeness auto
termination
  by (relation "measure (\<lambda>z. case z of
        Inl (N, A, I, i, j) \<Rightarrow> (N - i) + (N - j) | Inr (N, A, I, i, j) \<Rightarrow> (N - i) + (N - j))") auto

declare r_wire_x.simps [simp del] r_wire_y.simps [simp del]

definition pe_inputs :: "nat \<Rightarrow> pes \<Rightarrow> array_in \<Rightarrow> nat \<Rightarrow> nat \<Rightarrow> pe_in" where
  "pe_inputs N A I i j =
     pe_ports A I i j (r_wire_x N A I i (Suc j)) (r_wire_y N A I (Suc i) j)"

definition array_step :: "nat \<Rightarrow> pes \<Rightarrow> array_in \<Rightarrow> pes" where
  "array_step N A I i j = (if i < N \<and> j < N then pe_step (A i j) (pe_inputs N A I i j) else A i j)"

section \<open>The core\<close>

record skew_reg =
  x_reg :: u8
  xv_reg :: bool
  lw_reg :: bool

record deskew_reg =
  y_reg :: u32
  yv_reg :: bool

record core =
  array_pe :: pes
  skew_stage :: "nat \<Rightarrow> nat \<Rightarrow> skew_reg"
  deskew_stage :: "nat \<Rightarrow> nat \<Rightarrow> deskew_reg"

record core_in =
  load_weight_in :: "nat \<Rightarrow> bool"
  core_valid_in :: bool
  core_x_in :: "nat \<Rightarrow> u8"
  core_y_in :: "nat \<Rightarrow> u32"
  core_latch_en :: bool
  core_ready_in :: bool

definition core_reset :: core where
  "core_reset = \<lparr>array_pe = \<lambda>i j. pe_reset,
     skew_stage = \<lambda>i j. \<lparr>x_reg = 0, xv_reg = False, lw_reg = False\<rparr>,
     deskew_stage = \<lambda>j k. \<lparr>y_reg = 0, yv_reg = False\<rparr>\<rparr>"

subsection \<open>The output side\<close>

definition y_pipe :: "nat \<Rightarrow> core \<Rightarrow> nat \<Rightarrow> nat \<Rightarrow> u32" where
  "y_pipe N C j k = (case k of 0 \<Rightarrow> y_out (array_pe C (N - 1) j) | Suc m \<Rightarrow> y_reg (deskew_stage C j m))"

definition yvalid_pipe :: "nat \<Rightarrow> core \<Rightarrow> nat \<Rightarrow> nat \<Rightarrow> bool" where
  "yvalid_pipe N C j k =
     (case k of 0 \<Rightarrow> valid_out_y (array_pe C (N - 1) j) | Suc m \<Rightarrow> yv_reg (deskew_stage C j m))"

definition DELAY :: "nat \<Rightarrow> nat \<Rightarrow> nat" where "DELAY N j = (N - 1) - j"

definition core_valid_out :: "nat \<Rightarrow> core \<Rightarrow> bool" where
  "core_valid_out N C = (\<forall>j<N. yvalid_pipe N C j (DELAY N j))"

definition core_y_out :: "nat \<Rightarrow> core \<Rightarrow> nat \<Rightarrow> u32" where
  "core_y_out N C j = y_pipe N C j (DELAY N j)"

function yready_pipe :: "nat \<Rightarrow> core \<Rightarrow> core_in \<Rightarrow> nat \<Rightarrow> nat \<Rightarrow> bool" where
  "yready_pipe N C I j k =
     (if DELAY N j \<le> k then (core_ready_in I \<and> core_valid_out N C) \<or> \<not> yvalid_pipe N C j (DELAY N j)
      else yready_pipe N C I j (Suc k) \<or> \<not> yv_reg (deskew_stage C j k))"
  by pat_completeness auto
termination by (relation "measure (\<lambda>(N, C, I, j, k). DELAY N j - k)") auto

declare yready_pipe.simps [simp del]

definition deskew_step :: "nat \<Rightarrow> core \<Rightarrow> core_in \<Rightarrow> nat \<Rightarrow> nat \<Rightarrow> deskew_reg" where
  "deskew_step N C I j k =
     (let d = deskew_stage C j k
      in if yready_pipe N C I j k \<and> yvalid_pipe N C j k then d\<lparr>y_reg := y_pipe N C j k, yv_reg := True\<rparr>
         else if yready_pipe N C I j (Suc k) then d\<lparr>yv_reg := False\<rparr>
         else d)"

subsection \<open>The input side\<close>

definition x_pipe :: "core \<Rightarrow> core_in \<Rightarrow> nat \<Rightarrow> nat \<Rightarrow> u8" where
  "x_pipe C I i j = (case j of 0 \<Rightarrow> core_x_in I i | Suc m \<Rightarrow> x_reg (skew_stage C i m))"

definition xvalid_pipe :: "core \<Rightarrow> core_in \<Rightarrow> nat \<Rightarrow> nat \<Rightarrow> bool" where
  "xvalid_pipe C I i j = (case j of 0 \<Rightarrow> core_valid_in I | Suc m \<Rightarrow> xv_reg (skew_stage C i m))"

definition lw_pipe :: "core \<Rightarrow> core_in \<Rightarrow> nat \<Rightarrow> nat \<Rightarrow> bool" where
  "lw_pipe C I i j = (case j of 0 \<Rightarrow> load_weight_in I i | Suc m \<Rightarrow> lw_reg (skew_stage C i m))"

definition array_inputs :: "nat \<Rightarrow> core \<Rightarrow> core_in \<Rightarrow> array_in" where
  "array_inputs N C I =
     \<lparr>row_load_weight = \<lambda>i. lw_pipe C I i i, row_valid = \<lambda>i. xvalid_pipe C I i i,
      row_x = \<lambda>i. x_pipe C I i i, col_y = core_y_in I, array_latch = core_latch_en I,
      col_ready = \<lambda>j. yready_pipe N C I j 0\<rparr>"

function xready_pipe :: "nat \<Rightarrow> core \<Rightarrow> core_in \<Rightarrow> nat \<Rightarrow> nat \<Rightarrow> bool" where
  "xready_pipe N C I i j =
     (if i \<le> j then r_wire_x N (array_pe C) (array_inputs N C I) i 0
      else xready_pipe N C I i (Suc j) \<or> \<not> xv_reg (skew_stage C i j))"
  by pat_completeness auto
termination by (relation "measure (\<lambda>(N, C, I, i, j). i - j)") auto

declare xready_pipe.simps [simp del]

definition core_ready_out :: "nat \<Rightarrow> core \<Rightarrow> core_in \<Rightarrow> bool" where
  "core_ready_out N C I = (\<forall>i<N. xready_pipe N C I i 0)"

definition skew_step :: "nat \<Rightarrow> core \<Rightarrow> core_in \<Rightarrow> nat \<Rightarrow> nat \<Rightarrow> skew_reg" where
  "skew_step N C I i j =
     (let s = skew_stage C i j
      in if xready_pipe N C I i j \<and> xvalid_pipe C I i j then
           s\<lparr>x_reg := x_pipe C I i j, xv_reg := True, lw_reg := lw_pipe C I i j\<rparr>
         else if xready_pipe N C I i (Suc j) then s\<lparr>xv_reg := False\<rparr>
         else s)"

definition core_step :: "nat \<Rightarrow> core \<Rightarrow> core_in \<Rightarrow> core" where
  "core_step N C I =
     \<lparr>array_pe = array_step N (array_pe C) (array_inputs N C I),
      skew_stage = (\<lambda>i j. if i < N \<and> j < i then skew_step N C I i j else skew_stage C i j),
      deskew_stage = (\<lambda>j k. if j < N \<and> k < DELAY N j then deskew_step N C I j k else deskew_stage C j k)\<rparr>"

end
