(* ===== verification/Rtl_Calc.thy ===== *)
theory Rtl_Calc
  imports Rtl_Core
begin

text \<open>
  The multiply phase: the core is an elastic pipeline of \<open>2N - 1\<close> stages whose tokens are the
  rows of the input. Stage \<open>d\<close> is the anti-diagonal \<open>i + j = d\<close> of the array, with the skew
  registers \<open>j = d\<close> of the rows the token has still to enter, and the deskew registers of the columns that
  have finished with it. In the element \<open>(i, j)\<close> a token is the partial sum of its rows up to \<open>i\<close>.
\<close>

type_synonym row = "nat \<Rightarrow> u8"
type_synonym weights = "nat \<Rightarrow> nat \<Rightarrow> u8"

text \<open>The partial sum of column \<open>c\<close> below row \<open>i\<close>.\<close>

fun psum :: "weights \<Rightarrow> (nat \<Rightarrow> u32) \<Rightarrow> row \<Rightarrow> nat \<Rightarrow> nat \<Rightarrow> u32" where
  "psum W Y x 0 c = Y c + mult_ext (x 0) (W 0 c)"
| "psum W Y x (Suc i) c = psum W Y x i c + mult_ext (x (Suc i)) (W (Suc i) c)"

section \<open>The refinement relation\<close>

definition skew_rel :: "nat \<Rightarrow> row option \<Rightarrow> skew_reg \<Rightarrow> bool" where
  "skew_rel i t s = (case t of None \<Rightarrow> \<not> xv_reg s | Some x \<Rightarrow> xv_reg s \<and> \<not> lw_reg s \<and> x_reg s = x i)"

definition deskew_rel ::
  "nat \<Rightarrow> weights \<Rightarrow> (nat \<Rightarrow> u32) \<Rightarrow> nat \<Rightarrow> row option \<Rightarrow> deskew_reg \<Rightarrow> bool" where
  "deskew_rel N W Y j t r =
     (case t of None \<Rightarrow> \<not> yv_reg r | Some x \<Rightarrow> yv_reg r \<and> y_reg r = psum W Y x (N - 1) j)"

text \<open>In the last column nothing is said about the horizontal output, which leaves the array.\<close>

definition pe_rel ::
  "nat \<Rightarrow> weights \<Rightarrow> weights \<Rightarrow> (nat \<Rightarrow> u32) \<Rightarrow> nat \<Rightarrow> nat \<Rightarrow> row option \<Rightarrow> pe \<Rightarrow> bool" where
  "pe_rel N W S Y i j t p \<longleftrightarrow>
     active_weight_reg p = W i j \<and> shadow_weight_reg p = S i j \<and>
     valid_out_y p = (t \<noteq> None) \<and> (Suc j < N \<longrightarrow> valid_out_x p = (t \<noteq> None)) \<and>
     (case t of None \<Rightarrow> True | Some x \<Rightarrow>
        y_out p = psum W Y x i j \<and> (Suc j < N \<longrightarrow> x_out p = x i \<and> \<not> weight_shift_out p))"

definition core_rel ::
  "nat \<Rightarrow> weights \<Rightarrow> weights \<Rightarrow> (nat \<Rightarrow> u32) \<Rightarrow> core \<Rightarrow> row pipe \<Rightarrow> bool" where
  "core_rel N W S Y C p \<longleftrightarrow>
     (\<forall>i<N. \<forall>j<i. skew_rel i (p j) (skew_stage C i j)) \<and>
     (\<forall>i<N. \<forall>j<N. pe_rel N W S Y i j (p (i + j)) (array_pe C i j)) \<and>
     (\<forall>j<N. \<forall>k<DELAY N j. deskew_rel N W Y j (p (N + j + k)) (deskew_stage C j k))"

definition stages :: "nat \<Rightarrow> nat" where "stages N = 2 * N - 1"

section \<open>A chain of register stages\<close>

text \<open>
  Skew and deskew registers are the same chain: stage \<open>k\<close> of \<open>K\<close> is ready when it is empty or the next is.
\<close>

lemma chain_ready:
  assumes R: "\<And>k. k < K \<Longrightarrow> R k = (R (Suc k) \<or> p (b + k) = None)"
    and last: "before inp p (b + K) \<noteq> None \<Longrightarrow> R K = moves D p inp rdy (b + K)"
    and D: "b + K \<le> D"
  shows "k \<le> K \<Longrightarrow> before inp p (b + k) \<noteq> None \<Longrightarrow> R k = moves D p inp rdy (b + k)"
proof (induction rule: inc_induct)
  case base
  then show ?case by (rule last)
next
  case (step k)
  have d: "b + k < D" using step.hyps D by simp
  show ?case
    using step.IH step.prems R [OF step.hyps(2)] moves_into [OF d, of p inp rdy]
    by (cases "p (b + k)") simp_all
qed

section \<open>A cycle of the multiply phase\<close>

definition calc_cycle ::
  "nat \<Rightarrow> weights \<Rightarrow> weights \<Rightarrow> (nat \<Rightarrow> u32) \<Rightarrow> core \<Rightarrow> row pipe \<Rightarrow> core_in \<Rightarrow> row option \<Rightarrow> bool" where
  "calc_cycle N W S Y C p I inp \<longleftrightarrow>
     core_rel N W S Y C p \<and> 0 < N \<and>
     core_valid_in I = (inp \<noteq> None) \<and> (\<forall>x i. inp = Some x \<longrightarrow> i < N \<longrightarrow> core_x_in I i = x i) \<and>
     (\<forall>i<N. inp \<noteq> None \<longrightarrow> \<not> load_weight_in I i) \<and> core_y_in I = Y \<and> \<not> core_latch_en I"

lemma calc_cycle_facts:
  assumes cc: "calc_cycle N W S Y C p I inp"
  shows skew: "i < N \<Longrightarrow> j < i \<Longrightarrow> skew_rel i (p j) (skew_stage C i j)"
    and elem: "i < N \<Longrightarrow> j < N \<Longrightarrow> pe_rel N W S Y i j (p (i + j)) (array_pe C i j)"
    and desk: "j < N \<Longrightarrow> k < DELAY N j \<Longrightarrow> deskew_rel N W Y j (p (N + j + k)) (deskew_stage C j k)"
    and N_pos: "0 < N"
    and valid_inp: "core_valid_in I = (inp \<noteq> None)"
    and x_inp: "inp = Some x \<Longrightarrow> i < N \<Longrightarrow> core_x_in I i = x i"
    and no_load: "inp \<noteq> None \<Longrightarrow> i < N \<Longrightarrow> \<not> load_weight_in I i"
    and y_inp: "core_y_in I = Y" and no_latch: "\<not> core_latch_en I"
  using cc by (auto simp: calc_cycle_def core_rel_def)

subsection \<open>The wires carry the tokens\<close>

lemma calc_skew_wires:
  assumes cc: "calc_cycle N W S Y C p I inp" and i: "i < N" and j: "j \<le> i"
  shows xvalid: "xvalid_pipe C I i j = (before inp p j \<noteq> None)"
    and xdata: "before inp p j = Some x \<Longrightarrow> x_pipe C I i j = x i \<and> \<not> lw_pipe C I i j"
  using skew [OF cc i, of "j - 1"] valid_inp [OF cc] x_inp [OF cc] no_load [OF cc] i j
  by (cases j; auto simp: xvalid_pipe_def x_pipe_def lw_pipe_def skew_rel_def split: option.splits)+

lemma calc_x_wires:
  assumes cc: "calc_cycle N W S Y C p I inp" and i: "i < N" and j: "j < N"
  shows vx: "v_wire_x (array_pe C) (array_inputs N C I) i j = (before inp p (i + j) \<noteq> None)"
    and dx: "before inp p (i + j) = Some x \<Longrightarrow>
      x_wire (array_pe C) (array_inputs N C I) i j = x i \<and>
      \<not> lw_wire (array_pe C) (array_inputs N C I) i j"
  using elem [OF cc i, of "j - 1"] xvalid [OF cc i, of i] xdata [OF cc i, of i x] j
  by (cases j; auto simp: v_wire_x_def x_wire_def lw_wire_def array_inputs_def pe_rel_def)+

lemma calc_y_wires:
  assumes cc: "calc_cycle N W S Y C p I inp" and i: "i < N" and j: "j < N"
  shows vy: "before inp p (i + j) \<noteq> None \<Longrightarrow> v_wire_y (array_pe C) i j"
    and dy: "before inp p (i + j) = Some x \<Longrightarrow>
      y_wire (array_pe C) (array_inputs N C I) i j =
        (case i of 0 \<Rightarrow> Y j | Suc r \<Rightarrow> psum W Y x r j)"
  using elem [OF cc, of "i - 1" j] y_inp [OF cc] i j
  by (cases i; auto simp: v_wire_y_def y_wire_def pe_rel_def array_inputs_def)+

lemma calc_out_wires:
  assumes cc: "calc_cycle N W S Y C p I inp" and j: "j < N" and k: "k \<le> DELAY N j"
  shows yvalid: "yvalid_pipe N C j k = (p (N - 1 + j + k) \<noteq> None)"
    and ydata: "p (N - 1 + j + k) = Some x \<Longrightarrow> y_pipe N C j k = psum W Y x (N - 1) j"
  using elem [OF cc _ j, of "N - 1"] desk [OF cc j, of "k - 1"] N_pos [OF cc] k
  by (cases k; auto simp: yvalid_pipe_def y_pipe_def pe_rel_def deskew_rel_def split: option.splits)+

lemma last_stage: "j < N \<Longrightarrow> N - 1 + j + DELAY N j = stages N - 1"
  by (simp add: DELAY_def stages_def)

lemma calc_outputs:
  assumes cc: "calc_cycle N W S Y C p I inp"
  shows valid_out: "core_valid_out N C = (p (stages N - 1) \<noteq> None)"
    and result: "j < N \<Longrightarrow> p (stages N - 1) = Some x \<Longrightarrow> core_y_out N C j = psum W Y x (N - 1) j"
  using N_pos [OF cc] last_stage yvalid [OF cc] ydata [OF cc]
  by (auto simp: core_valid_out_def core_y_out_def)

subsection \<open>The ready wires are the moves\<close>

lemma yready:
  assumes cc: "calc_cycle N W S Y C p I inp" and j: "j < N" and k: "k \<le> DELAY N j"
    and v: "p (N - 1 + j + k) \<noteq> None"
  shows "yready_pipe N C I j k = moves (stages N) p inp (core_ready_in I) (N + j + k)"
proof -
  have N: "0 < N" by (rule N_pos [OF cc])
  have last: "yready_pipe N C I j (DELAY N j) = moves (stages N) p inp (core_ready_in I) (N + j + DELAY N j)"
    if "before inp p (N + j + DELAY N j) \<noteq> None"
  proof -
    have e: "N + j + DELAY N j = stages N" using j by (simp add: DELAY_def stages_def)
    obtain m where m: "stages N = Suc m" using N by (cases "stages N") (auto simp: stages_def)
    show ?thesis
      using that valid_out [OF cc] yvalid [OF cc j order_refl] last_stage [OF j]
      unfolding e by (simp add: yready_pipe.simps m)
  qed
  have "before inp p (N + j + k) \<noteq> None" using v N by (cases "N + j + k") auto
  moreover have "yready_pipe N C I j m = (yready_pipe N C I j (Suc m) \<or> p (N + j + m) = None)"
    if "m < DELAY N j" for m
    using desk [OF cc j that] that
    by (subst yready_pipe.simps) (auto simp: deskew_rel_def split: option.splits)
  moreover have "N + j + DELAY N j \<le> stages N" using j by (simp add: DELAY_def stages_def)
  ultimately show ?thesis
    using chain_ready [where R = "yready_pipe N C I j" and b = "N + j" and K = "DELAY N j"] last k
    by blast
qed

text \<open>An element fires exactly when its token moves.\<close>

lemma elem_fires:
  assumes cc: "calc_cycle N W S Y C p I inp" and i: "i < N" and j: "j < N"
    and rx: "p (i + j) \<noteq> None \<Longrightarrow> Suc j < N \<Longrightarrow> rx = moves (stages N) p inp rdy (Suc (i + j))"
    and edge: "\<not> Suc j < N \<Longrightarrow> rx"
    and ry: "p (i + j) \<noteq> None \<Longrightarrow> ry = moves (stages N) p inp rdy (Suc (i + j))"
  shows "\<not> fire_load (array_pe C i j) (pe_ports (array_pe C) (array_inputs N C I) i j rx ry)"
    and "fire_calc (array_pe C i j) (pe_ports (array_pe C) (array_inputs N C I) i j rx ry) =
      moves (stages N) p inp rdy (i + j)"
proof -
  have d: "i + j < stages N" using i j by (simp add: stages_def)
  note wires = vx [OF cc i j] dx [OF cc i j] vy [OF cc i j] elem [OF cc i j]
  show "\<not> fire_load (array_pe C i j) (pe_ports (array_pe C) (array_inputs N C I) i j rx ry)"
    using wires by (auto simp: fire_load_def pe_ports_def)
  show "fire_calc (array_pe C i j) (pe_ports (array_pe C) (array_inputs N C I) i j rx ry) =
      moves (stages N) p inp rdy (i + j)"
  proof (cases "before inp p (i + j)")
    case None
    then show ?thesis using wires(1) moves_before [of "stages N" p inp rdy "i + j"] d
      by (auto simp: fire_calc_def pe_ports_def)
  next
    case (Some x)
    have "(\<not> stall_x (array_pe C i j) (pe_ports (array_pe C) (array_inputs N C I) i j rx ry) \<and>
        \<not> stall_y (array_pe C i j) (pe_ports (array_pe C) (array_inputs N C I) i j rx ry)) =
        (p (i + j) = None \<or> moves (stages N) p inp rdy (Suc (i + j)))"
      using wires(4) rx edge ry by (cases "Suc j < N") (auto simp: stall_x_def stall_y_def pe_ports_def pe_rel_def)
    then show ?thesis
      using Some wires(1,3) wires(2) [OF Some] by (auto simp: fire_calc_def moves_into [OF d] pe_ports_def)
  qed
qed

lemma array_ready:
  assumes cc: "calc_cycle N W S Y C p I inp"
  shows "i < N \<Longrightarrow> j < N \<Longrightarrow>
    r_wire_x N (array_pe C) (array_inputs N C I) i j =
      moves (stages N) p inp (core_ready_in I) (i + j) \<and>
    r_wire_y N (array_pe C) (array_inputs N C I) i j =
      moves (stages N) p inp (core_ready_in I) (i + j)"
proof (induction "(N - i) + (N - j)" arbitrary: i j rule: less_induct)
  case less
  let ?A = "array_pe C" and ?I = "array_inputs N C I"
  have rx: "p (i + j) \<noteq> None \<Longrightarrow> Suc j < N \<Longrightarrow>
      r_wire_x N ?A ?I i (Suc j) = moves (stages N) p inp (core_ready_in I) (Suc (i + j))"
    using less.hyps [of i "Suc j"] less.prems by simp
  have edge: "\<not> Suc j < N \<Longrightarrow> r_wire_x N ?A ?I i (Suc j)"
    by (simp add: r_wire_x.simps)
  have ry: "r_wire_y N ?A ?I (Suc i) j = moves (stages N) p inp (core_ready_in I) (Suc (i + j))"
    if "p (i + j) \<noteq> None"
  proof (cases "Suc i < N")
    case True
    then show ?thesis using less.hyps [of "Suc i" j] less.prems by simp
  next
    case False
    then have "Suc i = N" using less.prems by simp
    then show ?thesis using yready [OF cc less.prems(2), of 0] that
      by (auto simp: r_wire_y.simps array_inputs_def)
  qed
  note fires = elem_fires [OF cc less.prems rx edge ry]
  show ?case
    using fires less.prems
    by (simp add: r_wire_x.simps [of N ?A ?I i j] r_wire_y.simps [of N ?A ?I i j] ready_out_x_def ready_out_y_def)
qed


lemma xready:
  assumes cc: "calc_cycle N W S Y C p I inp" and i: "i < N" and j: "j \<le> i"
    and v: "before inp p j \<noteq> None"
  shows "xready_pipe N C I i j = moves (stages N) p inp (core_ready_in I) j"
proof -
  have "xready_pipe N C I i i = moves (stages N) p inp (core_ready_in I) (0 + i)"
    using array_ready [OF cc i, of 0] i by (simp add: xready_pipe.simps)
  moreover have "xready_pipe N C I i m = (xready_pipe N C I i (Suc m) \<or> p (0 + m) = None)"
    if "m < i" for m
    using skew [OF cc i that] that
    by (subst xready_pipe.simps) (auto simp: skew_rel_def split: option.splits)
  moreover have "0 + i \<le> stages N" using i by (simp add: stages_def)
  moreover have "before inp p (0 + j) \<noteq> None" using v by simp
  ultimately have "xready_pipe N C I i j = moves (stages N) p inp (core_ready_in I) (0 + j)"
    using chain_ready [where R = "xready_pipe N C I i" and b = 0 and K = i] j by blast
  then show ?thesis by simp
qed

lemma ready_out:
  assumes cc: "calc_cycle N W S Y C p I inp" and v: "core_valid_in I"
  shows "core_ready_out N C I = moves (stages N) p inp (core_ready_in I) 0"
  using xready [OF cc _ le0] v valid_inp [OF cc] N_pos [OF cc] by (auto simp: core_ready_out_def)

lemma elem_ports:
  assumes cc: "calc_cycle N W S Y C p I inp" and i: "i < N" and j: "j < N"
  shows "\<not> fire_load (array_pe C i j) (pe_inputs N (array_pe C) (array_inputs N C I) i j)"
    and "fire_calc (array_pe C i j) (pe_inputs N (array_pe C) (array_inputs N C I) i j) =
      moves (stages N) p inp (core_ready_in I) (i + j)"
    and "stall_y (array_pe C i j) (pe_inputs N (array_pe C) (array_inputs N C I) i j) =
      (p (i + j) \<noteq> None \<and> \<not> moves (stages N) p inp (core_ready_in I) (Suc (i + j)))"
    and "Suc j < N \<Longrightarrow>
      stall_x (array_pe C i j) (pe_inputs N (array_pe C) (array_inputs N C I) i j) =
      (p (i + j) \<noteq> None \<and> \<not> moves (stages N) p inp (core_ready_in I) (Suc (i + j)))"
proof -
  let ?A = "array_pe C" and ?I = "array_inputs N C I"
  have rx: "Suc j < N \<Longrightarrow>
      r_wire_x N ?A ?I i (Suc j) = moves (stages N) p inp (core_ready_in I) (Suc (i + j))"
    using array_ready [OF cc i, of "Suc j"] by simp
  have edge: "\<not> Suc j < N \<Longrightarrow> r_wire_x N ?A ?I i (Suc j)"
    by (simp add: r_wire_x.simps)
  have ry: "r_wire_y N ?A ?I (Suc i) j = moves (stages N) p inp (core_ready_in I) (Suc (i + j))"
    if "p (i + j) \<noteq> None"
  proof (cases "Suc i < N")
    case True
    then show ?thesis using array_ready [OF cc, of "Suc i" j] j by simp
  next
    case False
    then have "Suc i = N" using i by simp
    then show ?thesis using yready [OF cc j, of 0] that by (auto simp: r_wire_y.simps array_inputs_def)
  qed
  note fires = elem_fires [OF cc i j rx edge ry, folded pe_inputs_def]
  show "\<not> fire_load (?A i j) (pe_inputs N ?A ?I i j)" by (rule fires(1))
  show "fire_calc (?A i j) (pe_inputs N ?A ?I i j) = moves (stages N) p inp (core_ready_in I) (i + j)"
    by (rule fires(2))
  show "stall_y (?A i j) (pe_inputs N ?A ?I i j) =
      (p (i + j) \<noteq> None \<and> \<not> moves (stages N) p inp (core_ready_in I) (Suc (i + j)))"
    using elem [OF cc i j] ry by (auto simp: stall_y_def pe_inputs_def pe_ports_def pe_rel_def)
  show "stall_x (?A i j) (pe_inputs N ?A ?I i j) =
      (p (i + j) \<noteq> None \<and> \<not> moves (stages N) p inp (core_ready_in I) (Suc (i + j)))" if "Suc j < N"
    using elem [OF cc i j] rx [OF that] that by (auto simp: stall_x_def pe_inputs_def pe_ports_def pe_rel_def)
qed

section \<open>The core is the elastic pipeline\<close>

lemma skew_step_rel:
  assumes cc: "calc_cycle N W S Y C p I inp" and i: "i < N" and j: "j < i"
  shows "skew_rel i (pipe_step (stages N) p inp (core_ready_in I) j) (skew_step N C I i j)"
proof -
  have d: "j < stages N" using i j by (simp add: stages_def)
  show ?thesis
    using skew [OF cc i j] xvalid [OF cc i, of j] xdata [OF cc i, of j] j
      xready [OF cc i, of j] xready [OF cc i, of "Suc j"] d
      moves_before [of "stages N" p inp "core_ready_in I" j]
      moves_before [of "stages N" p inp "core_ready_in I" "Suc j"]
      moves_into [OF d, of p inp "core_ready_in I"]
    by (auto simp: skew_step_def Let_def skew_rel_def pipe_step_def split: option.splits if_splits)
qed

lemma deskew_step_rel:
  assumes cc: "calc_cycle N W S Y C p I inp" and j: "j < N" and k: "k < DELAY N j"
  shows "deskew_rel N W Y j (pipe_step (stages N) p inp (core_ready_in I) (N + j + k)) (deskew_step N C I j k)"
proof -
  have d: "N + j + k < stages N" using j k by (simp add: stages_def DELAY_def)
  obtain m where m: "N + j + k = Suc m" "N - 1 + j + k = m" "N - 1 + j + Suc k = Suc m"
    using N_pos [OF cc] by (cases "N + j + k") auto
  show ?thesis
    using desk [OF cc j k] yvalid [OF cc j, of k] ydata [OF cc j, of k] k
      yready [OF cc j, of k] yready [OF cc j, of "Suc k"] d
      moves_before [of "stages N" p inp "core_ready_in I" "N + j + k"]
      moves_before [of "stages N" p inp "core_ready_in I" "Suc (N + j + k)"]
      moves_into [OF d, of p inp "core_ready_in I"]
    unfolding m add_Suc_right
    by (auto simp: deskew_step_def Let_def deskew_rel_def pipe_step_def split: option.splits if_splits)
qed

lemma pe_step_rel:
  assumes cc: "calc_cycle N W S Y C p I inp" and i: "i < N" and j: "j < N"
  shows "pe_rel N W S Y i j (pipe_step (stages N) p inp (core_ready_in I) (i + j))
    (pe_step (array_pe C i j) (pe_inputs N (array_pe C) (array_inputs N C I) i j))"
    (is "pe_rel N W S Y i j ?p (pe_step ?q ?in)")
proof -
  have d: "i + j < stages N" using i j by (simp add: stages_def)
  note fires = elem_ports [OF cc i j] and q = elem [OF cc i j]
  have latch: "\<not> weight_latch_en ?in"
    using no_latch [OF cc] by (simp add: pe_inputs_def pe_ports_def array_inputs_def)
  show ?thesis
  proof (cases "moves (stages N) p inp (core_ready_in I) (i + j)")
    case True
    then obtain x where x: "before inp p (i + j) = Some x"
      using moves_before [of "stages N" p inp "core_ready_in I" "i + j"] d by auto
    have "add_out ?q ?in = psum W Y x i j"
      using dy [OF cc i j x] dx [OF cc i j x] q
      by (cases i) (simp_all add: add_out_def pe_inputs_def pe_ports_def pe_rel_def)
    then show ?thesis
      using True x q dx [OF cc i j x] fires(2) latch d
      by (simp add: pe_step_calc pe_rel_def pipe_step_def)
        (simp add: pe_inputs_def pe_ports_def)
  next
    case False
    then show ?thesis
      using q fires(1,2,3) fires(4) latch d moves_into [OF d, of p inp "core_ready_in I"]
        moves_before [of "stages N" p inp "core_ready_in I" "Suc (i + j)"]
      by (auto simp: pe_step_idle pe_rel_def pipe_step_def split: option.splits)
  qed
qed

theorem core_step_rel:
  assumes cc: "calc_cycle N W S Y C p I inp"
  shows "core_rel N W S Y (core_step N C I) (pipe_step (stages N) p inp (core_ready_in I))"
  using skew_step_rel [OF cc] pe_step_rel [OF cc] deskew_step_rel [OF cc]
  by (auto simp: core_rel_def core_step_def array_step_def)

text \<open>In the reset state the pipeline is empty.\<close>

lemma core_reset_rel: "core_rel N (\<lambda>_ _. 0) (\<lambda>_ _. 0) Y core_reset (\<lambda>_. None)"
  by (simp add: core_rel_def core_reset_def skew_rel_def deskew_rel_def pe_rel_def pe_reset_def)

end
