(* ===== verification/Rtl_Load.thy ===== *)
theory Rtl_Load
  imports Rtl_Calc
begin

text \<open>
  The weight-load phase. The rows of the array are shift registers: a beat that enters element
  \<open>(i, j)\<close> pushes the weight that was there to \<open>(i, j + 1)\<close>. Nothing stalls, so \<open>cnt d\<close>, the number of
  beats that have entered the stage \<open>d = i + j\<close>, is \<open>cnt (d - 1)\<close> of the cycle before, and
  element \<open>(i, j)\<close> holds lane \<open>i\<close> of beat \<open>cnt (i + j) - 1 - j\<close>. Beats with a negative number
  are the weights before the load.
\<close>

section \<open>The invariant of the phase\<close>

definition skew_load :: "nat \<Rightarrow> (int \<Rightarrow> row) \<Rightarrow> (nat \<Rightarrow> nat) \<Rightarrow> nat \<Rightarrow> skew_reg \<Rightarrow> bool" where
  "skew_load i val cnt j s \<longleftrightarrow>
     xv_reg s = (cnt (Suc j) < cnt j) \<and> (xv_reg s \<longrightarrow> lw_reg s \<and> x_reg s = val (int (cnt (Suc j))) i)"

definition pe_load ::
  "nat \<Rightarrow> weights \<Rightarrow> (int \<Rightarrow> row) \<Rightarrow> (nat \<Rightarrow> nat) \<Rightarrow> nat \<Rightarrow> nat \<Rightarrow> pe \<Rightarrow> bool" where
  "pe_load N W val cnt i j p \<longleftrightarrow>
     active_weight_reg p = W i j \<and> \<not> valid_out_y p \<and>
     shadow_weight_reg p = val (int (cnt (i + j)) - 1 - int j) i \<and>
     (Suc j < N \<longrightarrow>
        valid_out_x p = (cnt (Suc (i + j)) < cnt (i + j)) \<and>
        (valid_out_x p \<longrightarrow> weight_shift_out p \<and> x_out p = val (int (cnt (Suc (i + j))) - 1 - int j) i))"

definition load_rel :: "nat \<Rightarrow> weights \<Rightarrow> (int \<Rightarrow> row) \<Rightarrow> (nat \<Rightarrow> nat) \<Rightarrow> core \<Rightarrow> bool" where
  "load_rel N W val cnt C \<longleftrightarrow>
     (\<forall>i<N. \<forall>j<i. skew_load i val cnt j (skew_stage C i j)) \<and>
     (\<forall>i<N. \<forall>j<N. pe_load N W val cnt i j (array_pe C i j)) \<and>
     (\<forall>j<N. \<forall>k<DELAY N j. \<not> yv_reg (deskew_stage C j k))"

text \<open>Neighbouring counts differ by at most one, and the counts move one stage per cycle.\<close>

definition steps_of_one :: "(nat \<Rightarrow> nat) \<Rightarrow> bool" where
  "steps_of_one cnt \<longleftrightarrow> (\<forall>d. cnt (Suc d) \<le> cnt d \<and> cnt d \<le> Suc (cnt (Suc d)))"

definition shift_cnt :: "bool \<Rightarrow> (nat \<Rightarrow> nat) \<Rightarrow> nat \<Rightarrow> nat" where
  "shift_cnt v cnt d = (case d of 0 \<Rightarrow> (if v then Suc (cnt 0) else cnt 0) | Suc e \<Rightarrow> cnt e)"

lemma shift_cnt_simps [simp]:
  "shift_cnt v cnt 0 = (if v then Suc (cnt 0) else cnt 0)" "shift_cnt v cnt (Suc d) = cnt d"
  by (simp_all add: shift_cnt_def)

lemma steps_of_one_shift: "steps_of_one cnt \<Longrightarrow> steps_of_one (shift_cnt v cnt)"
  unfolding steps_of_one_def
proof (intro allI)
  fix d
  assume "\<forall>d. cnt (Suc d) \<le> cnt d \<and> cnt d \<le> Suc (cnt (Suc d))"
  then show "shift_cnt v cnt (Suc d) \<le> shift_cnt v cnt d \<and>
      shift_cnt v cnt d \<le> Suc (shift_cnt v cnt (Suc d))"
    by (cases d) simp_all
qed

section \<open>A cycle of the load phase\<close>

text \<open>With a beat at the input (\<open>v\<close>) its lanes are \<open>x\<close> and every row has its load bit.\<close>

definition load_cycle :: "nat \<Rightarrow> core_in \<Rightarrow> bool \<Rightarrow> row \<Rightarrow> bool" where
  "load_cycle N I v x \<longleftrightarrow>
     core_valid_in I = v \<and> (v \<longrightarrow> (\<forall>i<N. core_x_in I i = x i \<and> load_weight_in I i)) \<and>
     \<not> core_latch_en I"

text \<open>A beat stands before stage \<open>d\<close>.\<close>

definition arrives :: "bool \<Rightarrow> (nat \<Rightarrow> nat) \<Rightarrow> nat \<Rightarrow> bool" where
  "arrives v cnt d = (case d of 0 \<Rightarrow> v | Suc e \<Rightarrow> cnt d < cnt e)"

lemma arrives_simps [simp]:
  "arrives v cnt 0 = v" "arrives v cnt (Suc e) = (cnt (Suc e) < cnt e)"
  by (simp_all add: arrives_def)

lemma shift_cnt_arrives:
  "steps_of_one cnt \<Longrightarrow>
    shift_cnt v cnt d = (if arrives v cnt d then Suc (cnt d) else cnt d)"
  unfolding steps_of_one_def by (cases d) (force simp: not_less le_antisym le_Suc_eq)+

lemma load_rel_facts:
  assumes "load_rel N W val cnt C"
  shows load_skew: "i < N \<Longrightarrow> j < i \<Longrightarrow> skew_load i val cnt j (skew_stage C i j)"
    and load_elem: "i < N \<Longrightarrow> j < N \<Longrightarrow> pe_load N W val cnt i j (array_pe C i j)"
    and load_desk: "j < N \<Longrightarrow> k < DELAY N j \<Longrightarrow> \<not> yv_reg (deskew_stage C j k)"
  using assms by (auto simp: load_rel_def)

lemma load_x_wires:
  assumes rel: "load_rel N W val cnt C" and I: "load_cycle N I v (val (int (cnt 0)))"
    and i: "i < N" and j: "j \<le> i"
  shows load_xvalid: "xvalid_pipe C I i j = arrives v cnt j"
    and load_xdata: "arrives v cnt j \<Longrightarrow> x_pipe C I i j = val (int (cnt j)) i \<and> lw_pipe C I i j"
  using load_skew [OF rel i, of "j - 1"] I i j
  by (cases j; auto simp: load_cycle_def xvalid_pipe_def x_pipe_def lw_pipe_def skew_load_def)+

lemma load_wires:
  assumes rel: "load_rel N W val cnt C" and I: "load_cycle N I v (val (int (cnt 0)))"
    and i: "i < N" and j: "j < N"
  shows load_vx: "v_wire_x (array_pe C) (array_inputs N C I) i j = arrives v cnt (i + j)"
    and load_dx: "arrives v cnt (i + j) \<Longrightarrow>
      x_wire (array_pe C) (array_inputs N C I) i j = val (int (cnt (i + j)) - int j) i \<and>
      lw_wire (array_pe C) (array_inputs N C I) i j"
proof -
  have first: "xvalid_pipe C I i i = arrives v cnt i"
    "arrives v cnt i \<Longrightarrow> x_pipe C I i i = val (int (cnt i)) i \<and> lw_pipe C I i i"
    using load_x_wires [OF rel I i order_refl] by auto
  show "v_wire_x (array_pe C) (array_inputs N C I) i j = arrives v cnt (i + j)"
    using load_elem [OF rel i, of "j - 1"] first(1) j
    by (cases j) (simp_all add: v_wire_x_def array_inputs_def pe_load_def)
  show "x_wire (array_pe C) (array_inputs N C I) i j = val (int (cnt (i + j)) - int j) i \<and>
      lw_wire (array_pe C) (array_inputs N C I) i j" if "arrives v cnt (i + j)"
  proof (cases j)
    case 0
    then show ?thesis using first(2) that by (simp add: x_wire_def lw_wire_def array_inputs_def)
  next
    case (Suc c)
    then have "int (cnt (i + j)) - int j = int (cnt (Suc (i + c))) - 1 - int c" by simp
    then show ?thesis
      using load_elem [OF rel i, of c] that j Suc by (simp only: x_wire_def lw_wire_def pe_load_def) simp
  qed
qed

text \<open>Every beat moves on: an element is ready when a beat stands before it.\<close>

lemma load_r_wire:
  assumes rel: "load_rel N W val cnt C" and I: "load_cycle N I v (val (int (cnt 0)))"
    and i: "i < N"
  shows "j < N \<Longrightarrow> r_wire_x N (array_pe C) (array_inputs N C I) i j = arrives v cnt (i + j)"
proof (induction "N - j" arbitrary: j rule: less_induct)
  case less
  have "r_wire_x N (array_pe C) (array_inputs N C I) i (Suc j)"
    if "valid_out_x (array_pe C i j)"
  proof (cases "Suc j < N")
    case True
    then show ?thesis
      using less.hyps [of "Suc j"] that load_elem [OF rel i less.prems] by (simp add: pe_load_def)
  next
    case False
    then show ?thesis by (simp add: r_wire_x.simps)
  qed
  then show ?case
    using load_wires [OF rel I i less.prems] i less.prems
    by (subst r_wire_x.simps)
      (auto simp: ready_out_x_def fire_load_def fire_calc_def stall_x_def pe_ports_def)
qed

lemma load_xready:
  assumes rel: "load_rel N W val cnt C" and I: "load_cycle N I v (val (int (cnt 0)))"
    and i: "i < N"
  shows "j \<le> i \<Longrightarrow> arrives v cnt j \<Longrightarrow> xready_pipe N C I i j"
proof (induction rule: inc_induct)
  case base
  then show ?case using load_r_wire [OF rel I i, of 0] i by (simp add: xready_pipe.simps)
next
  case (step j)
  then show ?case
    using load_skew [OF rel i step.hyps(2)] by (subst xready_pipe.simps) (auto simp: skew_load_def)
qed

lemma load_ready_out:
  assumes rel: "load_rel N W val cnt C" and I: "load_cycle N I v (val (int (cnt 0)))"
    and N: "0 < N"
  shows "core_ready_out N C I = core_valid_in I"
proof -
  have "xready_pipe N C I 0 0 = core_valid_in I"
    using load_r_wire [OF rel I N N] I by (simp add: xready_pipe.simps load_cycle_def)
  moreover have "core_valid_in I \<Longrightarrow> i < N \<Longrightarrow> xready_pipe N C I i 0" for i
    using load_xready [OF rel I, of i 0] I by (simp add: load_cycle_def)
  ultimately show ?thesis using N by (auto simp: core_ready_out_def)
qed

lemma load_skew_step:
  assumes rel: "load_rel N W val cnt C" and I: "load_cycle N I v (val (int (cnt 0)))"
    and cnt: "steps_of_one cnt" and i: "i < N" and j: "j < i"
  shows "skew_load i val (shift_cnt v cnt) j (skew_step N C I i j)"
proof -
  have wires: "xvalid_pipe C I i j = arrives v cnt j"
    "arrives v cnt j \<Longrightarrow> x_pipe C I i j = val (int (cnt j)) i \<and> lw_pipe C I i j"
    "arrives v cnt j \<Longrightarrow> xready_pipe N C I i j"
    "arrives v cnt (Suc j) \<Longrightarrow> xready_pipe N C I i (Suc j)"
    using load_x_wires [OF rel I i, of j] load_xready [OF rel I i, of j]
      load_xready [OF rel I i, of "Suc j"] j by auto
  show ?thesis
    using wires load_skew [OF rel i j] shift_cnt_arrives [OF cnt, of v j]
    by (cases "arrives v cnt j") (auto simp: skew_step_def skew_load_def Let_def)
qed

lemma load_fires:
  assumes rel: "load_rel N W val cnt C" and I: "load_cycle N I v (val (int (cnt 0)))"
    and i: "i < N" and j: "j < N"
  shows "fire_load (array_pe C i j) (pe_inputs N (array_pe C) (array_inputs N C I) i j) =
      arrives v cnt (i + j)"
    and "\<not> fire_calc (array_pe C i j) (pe_inputs N (array_pe C) (array_inputs N C I) i j)"
    and "\<not> (Suc j < N \<and> stall_x (array_pe C i j) (pe_inputs N (array_pe C) (array_inputs N C I) i j))"
proof -
  have rx: "r_wire_x N (array_pe C) (array_inputs N C I) i (Suc j)" if "valid_out_x (array_pe C i j)"
    using load_r_wire [OF rel I i, of "Suc j"] load_elem [OF rel i j] that
    by (cases "Suc j < N") (auto simp: pe_load_def r_wire_x.simps)
  note wires = load_wires [OF rel I i j]
  show "fire_load (array_pe C i j) (pe_inputs N (array_pe C) (array_inputs N C I) i j) =
      arrives v cnt (i + j)"
    using wires rx by (auto simp: fire_load_def stall_x_def pe_inputs_def pe_ports_def)
  show "\<not> fire_calc (array_pe C i j) (pe_inputs N (array_pe C) (array_inputs N C I) i j)"
    using wires by (auto simp: fire_calc_def pe_inputs_def pe_ports_def)
  show "\<not> (Suc j < N \<and> stall_x (array_pe C i j) (pe_inputs N (array_pe C) (array_inputs N C I) i j))"
    using rx by (auto simp: stall_x_def pe_inputs_def pe_ports_def)
qed

lemma load_pe_step:
  assumes rel: "load_rel N W val cnt C" and I: "load_cycle N I v (val (int (cnt 0)))"
    and cnt: "steps_of_one cnt" and i: "i < N" and j: "j < N"
  shows "pe_load N W val (shift_cnt v cnt) i j
    (pe_step (array_pe C i j) (pe_inputs N (array_pe C) (array_inputs N C I) i j))"
proof -
  note fires = load_fires [OF rel I i j] and wires = load_wires [OF rel I i j]
  have latch: "\<not> weight_latch_en (pe_inputs N (array_pe C) (array_inputs N C I) i j)"
    using I by (simp add: load_cycle_def pe_inputs_def pe_ports_def array_inputs_def)
  have x: "x_in (pe_inputs N (array_pe C) (array_inputs N C I) i j) =
      x_wire (array_pe C) (array_inputs N C I) i j"
    by (simp add: pe_inputs_def pe_ports_def)
  show ?thesis
  proof (cases "arrives v cnt (i + j)")
    case True
    then show ?thesis
      using fires wires load_elem [OF rel i j] latch x shift_cnt_arrives [OF cnt, of v "i + j"]
      by (simp add: pe_step_load pe_load_def)
  next
    case False
    have "\<not> stall_y (array_pe C i j) (pe_inputs N (array_pe C) (array_inputs N C I) i j)"
      using load_elem [OF rel i j] by (simp add: stall_y_def pe_load_def)
    then show ?thesis
      using False fires load_elem [OF rel i j] latch shift_cnt_arrives [OF cnt, of v "i + j"]
      by (simp add: pe_step_idle pe_load_def)
  qed
qed

lemma load_yvalid: "load_rel N W val cnt C \<Longrightarrow> j < N \<Longrightarrow> k \<le> DELAY N j \<Longrightarrow> \<not> yvalid_pipe N C j k"
  using load_elem [of N W val cnt C "N - 1" j] load_desk [of N W val cnt C j "k - 1"]
  by (cases k) (auto simp: yvalid_pipe_def pe_load_def)

lemma load_valid_out: "load_rel N W val cnt C \<Longrightarrow> 0 < N \<Longrightarrow> \<not> core_valid_out N C"
  using load_yvalid by (auto simp: core_valid_out_def)

theorem load_step_rel:
  assumes rel: "load_rel N W val cnt C" and I: "load_cycle N I v (val (int (cnt 0)))"
    and cnt: "steps_of_one cnt"
  shows "load_rel N W val (shift_cnt v cnt) (core_step N C I)"
proof -
  have "\<not> yv_reg (deskew_step N C I j k)" if "j < N" "k < DELAY N j" for j k
    using load_yvalid [OF rel that(1), of k] load_desk [OF rel that] that(2)
    by (simp add: deskew_step_def Let_def)
  then show ?thesis
    using load_skew_step [OF rel I cnt] load_pe_step [OF rel I cnt]
    by (auto simp: load_rel_def core_step_def array_step_def)
qed

section \<open>Into the phase and out of it\<close>

text \<open>The beats before the load, and the beats of the load, by number.\<close>

definition history :: "weights \<Rightarrow> row list \<Rightarrow> int \<Rightarrow> row" where
  "history S beats m = (if m < 0 then (\<lambda>i. S i (nat (- 1 - m))) else beats ! nat m)"

text \<open>The shadow weights after the beats: the last beat in column 0, the one before it in column 1.\<close>

definition loaded :: "weights \<Rightarrow> row list \<Rightarrow> weights" where
  "loaded S beats i j = (if j < length beats then (beats ! (length beats - 1 - j)) i
                         else S i (j - length beats))"

lemma history_loaded: "history S beats (int (length beats) - 1 - int j) i = loaded S beats i j"
proof (cases "j < length beats")
  case True
  then have "nat (int (length beats) - 1 - int j) = length beats - 1 - j"
    "\<not> int (length beats) - 1 - int j < 0" by simp_all
  then show ?thesis using True by (simp only: history_def loaded_def if_True if_False)
next
  case False
  then have "nat (- 1 - (int (length beats) - 1 - int j)) = j - length beats"
    "int (length beats) - 1 - int j < 0" by simp_all
  then show ?thesis using False by (simp only: history_def loaded_def if_True if_False)
qed

lemma load_starts:
  "core_rel N W S Y C (\<lambda>_. None) \<Longrightarrow> load_rel N W (history S beats) (\<lambda>_. 0) C"
  by (auto simp: core_rel_def load_rel_def skew_rel_def skew_load_def deskew_rel_def pe_rel_def pe_load_def
      history_def)

lemma load_ends:
  assumes rel: "load_rel N W (history S beats) cnt C"
    and same: "\<And>d. d < stages N \<Longrightarrow> cnt d = length beats"
  shows "core_rel N W (loaded S beats) Y C (\<lambda>_. None)"
proof -
  have "skew_rel i None (skew_stage C i j)" if "i < N" "j < i" for i j
    using load_skew [OF rel that] same [of j] same [of "Suc j"] that
    by (simp add: skew_load_def skew_rel_def stages_def)
  moreover have "pe_rel N W (loaded S beats) Y i j None (array_pe C i j)" if "i < N" "j < N" for i j
    using load_elem [OF rel that] same [of "i + j"] same [of "Suc (i + j)"] that
    by (simp add: pe_load_def pe_rel_def stages_def history_loaded)
  ultimately show ?thesis
    using load_desk [OF rel] by (simp add: core_rel_def deskew_rel_def)
qed

text \<open>The latch pulse copies the shadow weights of an idle core.\<close>

lemma latch_step:
  assumes rel: "core_rel N W S Y C (\<lambda>_. None)" and v: "\<not> core_valid_in I" and l: "core_latch_en I"
  shows "core_rel N S S Y (core_step N C I) (\<lambda>_. None)"
proof -
  have skew: "\<not> xv_reg (skew_stage C i j)" if "i < N" "j < i" for i j
    using rel that by (simp add: core_rel_def skew_rel_def)
  have elem: "pe_rel N W S Y i j None (array_pe C i j)" if "i < N" "j < N" for i j
    using rel that by (simp add: core_rel_def)
  have desk: "\<not> yv_reg (deskew_stage C j k)" if "j < N" "k < DELAY N j" for j k
    using rel that by (simp add: core_rel_def deskew_rel_def)
  have xv: "\<not> xvalid_pipe C I i j" if "i < N" "j \<le> i" for i j
    using skew [of i "j - 1"] v that by (cases j) (auto simp: xvalid_pipe_def)
  have "\<not> v_wire_x (array_pe C) (array_inputs N C I) i j" if "i < N" "j < N" for i j
    using elem [of i "j - 1"] xv [of i i] that
    by (cases j) (auto simp: v_wire_x_def array_inputs_def pe_rel_def)
  then have "pe_rel N S S Y i j None
      (pe_step (array_pe C i j) (pe_inputs N (array_pe C) (array_inputs N C I) i j))"
    if "i < N" "j < N" for i j
    using elem [OF that] that l
    by (subst pe_step_idle)
      (auto simp: fire_load_def fire_calc_def pe_rel_def stall_x_def stall_y_def pe_inputs_def pe_ports_def array_inputs_def)
  moreover have "\<not> yvalid_pipe N C j k" if "j < N" "k < DELAY N j" for j k
    using elem [of "N - 1" j] desk [of j "k - 1"] that by (cases k) (auto simp: yvalid_pipe_def pe_rel_def)
  ultimately show ?thesis
    using skew desk xv
    by (auto simp: core_rel_def core_step_def array_step_def skew_rel_def deskew_rel_def skew_step_def
        deskew_step_def Let_def)
qed

end
