(* ===== verification/Rtl_Run.thy ===== *)
theory Rtl_Run
  imports Rtl_Load
begin

text \<open>
  Runs of the core: what it accepted, what it delivered, and the state afterwards, for any
  pattern of valid and ready on its two sides.
\<close>

fun core_run :: "nat \<Rightarrow> core_in list \<Rightarrow> core \<Rightarrow> row list \<times> u32 list list \<times> core" where
  "core_run N [] C = ([], [], C)"
| "core_run N (I # Is) C =
     (case core_run N Is (core_step N C I) of (acc, out, C') \<Rightarrow>
        ((if core_valid_in I \<and> core_ready_out N C I then [core_x_in I] else []) @ acc,
         (if core_valid_out N C \<and> core_ready_in I then [map (core_y_out N C) [0..<N]] else []) @ out,
         C'))"

lemma core_run_state: "snd (snd (core_run N Is C)) = fold (\<lambda>I C. core_step N C I) Is C"
  by (induction Is arbitrary: C) (simp_all add: case_prod_unfold)

section \<open>The multiply phase\<close>

text \<open>The row of results that belongs to a row of inputs.\<close>

definition core_product :: "nat \<Rightarrow> weights \<Rightarrow> (nat \<Rightarrow> u32) \<Rightarrow> row \<Rightarrow> u32 list" where
  "core_product N W Y x = map (psum W Y x (N - 1)) [0..<N]"

definition calc_input :: "nat \<Rightarrow> (nat \<Rightarrow> u32) \<Rightarrow> core_in \<Rightarrow> bool" where
  "calc_input N Y I \<longleftrightarrow>
     (core_valid_in I \<longrightarrow> (\<forall>i<N. \<not> load_weight_in I i)) \<and> core_y_in I = Y \<and> \<not> core_latch_en I"

definition input_token :: "core_in \<Rightarrow> row option" where
  "input_token I = (if core_valid_in I then Some (core_x_in I) else None)"

lemma calc_input_cycle:
  "core_rel N W S Y C p \<Longrightarrow> 0 < N \<Longrightarrow> calc_input N Y I \<Longrightarrow> calc_cycle N W S Y C p I (input_token I)"
  by (auto simp: calc_cycle_def calc_input_def input_token_def)

lemma core_cycle_acc:
  assumes cc: "calc_cycle N W S Y C p I (input_token I)"
  shows "(if core_valid_in I \<and> core_ready_out N C I then [core_x_in I] else []) =
    (if moves (stages N) p (input_token I) (core_ready_in I) 0 then opt_list (input_token I) else [])"
proof -
  have "0 < stages N" using N_pos [OF cc] by (simp add: stages_def)
  then show ?thesis
    using ready_out [OF cc] moves_before [of "stages N" p "input_token I" "core_ready_in I" 0]
    by (auto simp: input_token_def split: if_splits)
qed

lemma core_cycle_out:
  assumes cc: "calc_cycle N W S Y C p I inp"
  shows "(if core_valid_out N C \<and> core_ready_in I then [map (core_y_out N C) [0..<N]] else []) =
    map (core_product N W Y) (popped (stages N) p inp (core_ready_in I))"
proof -
  obtain m where m: "stages N = Suc m" using N_pos [OF cc] by (cases "stages N") (auto simp: stages_def)
  show ?thesis
    using valid_out [OF cc] result [OF cc] m
    by (cases "p m") (auto simp: popped_def core_product_def)
qed

theorem core_run_pipe:
  assumes "core_rel N W S Y C p" and "0 < N" and "\<forall>I\<in>set Is. calc_input N Y I"
    and "core_run N Is C = (acc, out, C')"
    and "pipe_run (stages N) (map (\<lambda>I. (input_token I, core_ready_in I)) Is) p = (acc', toks, p')"
  shows "acc = acc' \<and> out = map (core_product N W Y) toks \<and> core_rel N W S Y C' p'"
  using assms
proof (induction Is arbitrary: C p acc out acc' toks)
  case (Cons I Is)
  have cc: "calc_cycle N W S Y C p I (input_token I)"
    using Cons.prems by (intro calc_input_cycle) auto
  note rel = core_step_rel [OF cc]
  obtain acc1 out1 where r: "core_run N Is (core_step N C I) = (acc1, out1, C')"
    and e: "acc = (if core_valid_in I \<and> core_ready_out N C I then [core_x_in I] else []) @ acc1"
      "out = (if core_valid_out N C \<and> core_ready_in I then [map (core_y_out N C) [0..<N]] else []) @ out1"
    using Cons.prems(4) by (auto split: prod.splits)
  obtain acc2 toks2 where r2: "pipe_run (stages N) (map (\<lambda>I. (input_token I, core_ready_in I)) Is)
        (pipe_step (stages N) p (input_token I) (core_ready_in I)) = (acc2, toks2, p')"
    and e2: "acc' = (if moves (stages N) p (input_token I) (core_ready_in I) 0
        then opt_list (input_token I) else []) @ acc2"
      "toks = popped (stages N) p (input_token I) (core_ready_in I) @ toks2"
    using Cons.prems(5) by (auto split: prod.splits)
  show ?case
    using Cons.IH [OF rel Cons.prems(2) _ r r2] Cons.prems(3)
    unfolding e e2 core_cycle_acc [OF cc] core_cycle_out [OF cc] by simp
qed simp

section \<open>The load phase\<close>

definition load_input :: "nat \<Rightarrow> core_in \<Rightarrow> bool" where
  "load_input N I \<longleftrightarrow> (core_valid_in I \<longrightarrow> (\<forall>i<N. load_weight_in I i)) \<and> \<not> core_latch_en I"

definition input_rows :: "core_in list \<Rightarrow> row list" where
  "input_rows Is = map core_x_in (filter core_valid_in Is)"

text \<open>The count of stage \<open>d\<close> is the number of beats up to \<open>d\<close> cycles ago.\<close>

definition beat_cnt :: "core_in list \<Rightarrow> nat \<Rightarrow> nat" where
  "beat_cnt Is d = length (input_rows (take (length Is - d) Is))"

lemma beat_cnt_snoc: "beat_cnt (Is @ [I]) = shift_cnt (core_valid_in I) (beat_cnt Is)"
proof
  fix d
  show "beat_cnt (Is @ [I]) d = shift_cnt (core_valid_in I) (beat_cnt Is) d"
    by (cases d) (simp_all add: beat_cnt_def input_rows_def)
qed

lemma steps_beat_cnt: "steps_of_one (beat_cnt Is)"
proof (induction Is rule: rev_induct)
  case Nil
  then show ?case by (simp add: steps_of_one_def beat_cnt_def input_rows_def)
next
  case (snoc I Is)
  then show ?case by (simp add: beat_cnt_snoc steps_of_one_shift)
qed

lemma load_run_rel:
  assumes rel: "core_rel N W S Y C (\<lambda>_. None)" and inp: "\<forall>I\<in>set (Is @ Js). load_input N I"
  shows "load_rel N W (history S (input_rows (Is @ Js))) (beat_cnt Is)
    (fold (\<lambda>I C. core_step N C I) Is C)"
  using inp
proof (induction Is arbitrary: Js rule: rev_induct)
  case Nil
  then show ?case
    using load_starts [OF rel] by (simp add: beat_cnt_def input_rows_def)
next
  case (snoc I Is)
  have IH: "load_rel N W (history S (input_rows (Is @ I # Js))) (beat_cnt Is)
      (fold (\<lambda>I C. core_step N C I) Is C)"
    using snoc.IH [of "I # Js"] snoc.prems by simp
  have "load_input N I" using snoc.prems by simp
  then have "load_cycle N I (core_valid_in I) (history S (input_rows (Is @ I # Js)) (int (beat_cnt Is 0)))"
    by (simp add: load_cycle_def load_input_def history_def beat_cnt_def input_rows_def nth_append)
  from load_step_rel [OF IH this steps_beat_cnt] show ?case
    by (simp add: beat_cnt_snoc)
qed

text \<open>After the beats and enough idle cycles the weights are in place and the core is idle.\<close>

theorem load_run_weights:
  assumes rel: "core_rel N W S Y C (\<lambda>_. None)" and inp: "\<forall>I\<in>set (Is @ Js). load_input N I"
    and idle: "\<forall>I\<in>set Js. \<not> core_valid_in I" and wait: "stages N \<le> Suc (length Js)"
  shows "core_rel N W (loaded S (input_rows Is)) Y (fold (\<lambda>I C. core_step N C I) (Is @ Js) C) (\<lambda>_. None)"
proof -
  have js: "input_rows (Is @ Js) = input_rows Is" using idle by (simp add: input_rows_def)
  have "beat_cnt (Is @ Js) d = length (input_rows Is)" if "d < stages N" for d
  proof -
    have "take (length (Is @ Js) - d) (Is @ Js) = Is @ take (length Js - d) Js"
      using that wait by simp
    moreover have "filter core_valid_in (take (length Js - d) Js) = []"
      using idle by (auto simp: filter_empty_conv dest: in_set_takeD)
    ultimately show ?thesis by (simp only: beat_cnt_def input_rows_def) simp
  qed
  then show ?thesis
    using load_ends [of N W S "input_rows (Is @ Js)" "beat_cnt (Is @ Js)" _ Y] load_run_rel [OF rel, of "Is @ Js" "[]"]
      inp by (simp add: js)
qed

section \<open>Properties\<close>

text \<open>C3: For every size of the array: the core is a queue of matrix products. Whatever the pattern of
  valid inputs and of a ready receiver, the rows it delivers, followed by the products of the
  rows still inside, are the products of the rows that were inside and of those it accepted, in order.\<close>

theorem core_multiplies_in_order:
  assumes "core_rel N W S Y C p" and "0 < N" and "\<forall>I\<in>set Is. calc_input N Y I"
    and "core_run N Is C = (acc, out, C')"
  shows "\<exists>p'. core_rel N W S Y C' p' \<and>
    out @ map (core_product N W Y) (tokens (stages N) p') =
      map (core_product N W Y) (tokens (stages N) p @ acc)"
proof -
  obtain acc' toks p' where r:
    "pipe_run (stages N) (map (\<lambda>I. (input_token I, core_ready_in I)) Is) p = (acc', toks, p')"
    by (rule prod_cases3)
  from core_run_pipe [OF assms r] pipe_run_queue [OF r] show ?thesis
    by (intro exI [of _ p']) (simp flip: map_append)
qed

definition sample_input :: "bool \<Rightarrow> bool \<Rightarrow> bool \<Rightarrow> nat \<Rightarrow> core_in" where
  "sample_input load v rdy k =
     \<lparr>load_weight_in = (\<lambda>_. load), core_valid_in = v, core_x_in = (\<lambda>i. of_nat (k + i)),
      core_y_in = (\<lambda>_. 5), core_latch_en = False, core_ready_in = rdy\<rparr>"

theorem core_multiplies_in_order_witness:
  "\<exists>acc out C' p'.
    core_run 4 (map (\<lambda>t. sample_input False (t mod 3 < 2) (even t) t) [0..<30]) core_reset = (acc, out, C') \<and>
    core_rel 4 (\<lambda>_ _. 0) (\<lambda>_ _. 0) (\<lambda>_. 5) C' p' \<and>
    out @ map (core_product 4 (\<lambda>_ _. 0) (\<lambda>_. 5)) (tokens (stages 4) p') =
      map (core_product 4 (\<lambda>_ _. 0) (\<lambda>_. 5)) (tokens (stages 4) (\<lambda>_. None) @ acc)"
proof -
  let ?Is = "map (\<lambda>t. sample_input False (t mod 3 < 2) (even t) t) [0..<30]"
  obtain acc out C' where r: "core_run 4 ?Is core_reset = (acc, out, C')" by (rule prod_cases3)
  have "\<forall>I\<in>set ?Is. calc_input 4 (\<lambda>_. 5) I" by (simp add: calc_input_def sample_input_def)
  from core_multiplies_in_order [OF core_reset_rel _ this r] r show ?thesis by auto
qed

text \<open>C5: For every size of the array: an idle core takes every weight beat at once, and after a pause
  of \<open>2N - 2\<close> cycles the latch pulse makes the beats the weights it multiplies with, the last beat in
  the first column.\<close>

theorem core_loads_weights:
  assumes "core_rel N W S Y C (\<lambda>_. None)" and "\<forall>I\<in>set (Is @ Js). load_input N I"
    and "\<forall>I\<in>set Js. \<not> core_valid_in I" and "stages N \<le> Suc (length Js)"
    and "\<not> core_valid_in L" and "core_latch_en L"
  shows "core_rel N (loaded S (input_rows Is)) (loaded S (input_rows Is)) Y
    (core_step N (fold (\<lambda>I C. core_step N C I) (Is @ Js) C) L) (\<lambda>_. None)"
  by (rule latch_step [OF load_run_weights [OF assms(1-4)] assms(5,6)])

theorem core_loads_weights_witness:
  "core_rel 3 (loaded (\<lambda>_ _. 0) (input_rows (map (sample_input True True False) [0..<5])))
      (loaded (\<lambda>_ _. 0) (input_rows (map (sample_input True True False) [0..<5]))) (\<lambda>_. 5)
    (core_step 3 (fold (\<lambda>I C. core_step 3 C I)
        (map (sample_input True True False) [0..<5] @ map (sample_input False False True) [0..<4]) core_reset)
      ((sample_input False False True 0)\<lparr>core_latch_en := True\<rparr>)) (\<lambda>_. None)"
  by (rule core_loads_weights [OF core_reset_rel])
    (auto simp: load_input_def sample_input_def stages_def)

text \<open>C23: The pause cannot be shorter: one cycle less, and the last element still holds, and would
  latch, the weight of the beat before.\<close>

theorem core_latch_too_early:
  assumes rel: "core_rel N W S Y C (\<lambda>_. None)" and inp: "\<forall>I\<in>set (Is @ L # Js). load_input N I"
    and L: "core_valid_in L" and idle: "\<forall>I\<in>set Js. \<not> core_valid_in I" and N: "1 < N"
    and wait: "Suc (Suc (length Js)) = stages N"
  shows "shadow_weight_reg (array_pe (fold (\<lambda>I C. core_step N C I) (Is @ L # Js) C) (N - 1) (N - 1)) =
    loaded S (input_rows Is) (N - 1) (N - 1)"
proof -
  let ?Is = "Is @ L # Js" and ?n = "length (input_rows Is)"
  have d: "(N - 1) + (N - 1) = Suc (length Js)" using wait by (simp add: stages_def)
  have cnt: "beat_cnt ?Is ((N - 1) + (N - 1)) = ?n"
    unfolding d by (simp add: beat_cnt_def)
  have "shadow_weight_reg (array_pe (fold (\<lambda>I C. core_step N C I) ?Is C) (N - 1) (N - 1)) =
      history S (input_rows ?Is) (int ?n - 1 - int (N - 1)) (N - 1)"
    using load_elem [OF load_run_rel [OF rel, of ?Is "[]"], of "N - 1" "N - 1"] inp N cnt
    by (simp add: pe_load_def)
  also have "\<dots> = history S (input_rows Is) (int ?n - 1 - int (N - 1)) (N - 1)"
  proof -
    have "nat (int ?n - 1 - int (N - 1)) < ?n \<or> int ?n - 1 - int (N - 1) < 0" by linarith
    then show ?thesis by (auto simp: history_def input_rows_def nth_append)
  qed
  finally show ?thesis by (simp only: history_loaded)
qed

theorem core_latch_too_early_witness:
  "shadow_weight_reg (array_pe (fold (\<lambda>I C. core_step 8 C I)
      (map (sample_input True True False) [0..<7] @ sample_input True True False 7 #
       map (sample_input False False True) [0..<13]) core_reset) (8 - 1) (8 - 1)) =
    loaded (\<lambda>_ _. 0) (input_rows (map (sample_input True True False) [0..<7])) (8 - 1) (8 - 1)"
  by (rule core_latch_too_early [OF core_reset_rel])
    (auto simp: load_input_def sample_input_def stages_def)

end
