(* ===== verification/Rtl_Stream.thy ===== *)
theory Rtl_Stream
  imports Npu_Prelude
begin

text \<open>
  The stream controller of the NPU (\<open>rtl/npu_stream_ctrl.v\<close>): an eight-entry FIFO of 256-bit rows
  and the serializer that sends each row as four 64-bit flits, the low bits first, with the
  packet marks of a sequence of \<open>seq_total_rows\<close> rows. Pointers and counters have the widths of the registers.
\<close>

type_synonym u256 = "256 word"

section \<open>The module\<close>

record stream =
  out_fifo :: "nat \<Rightarrow> u256"
  fifo_wr_ptr :: "3 word"
  fifo_rd_ptr :: "3 word"
  fifo_count :: "4 word"
  tx_shift_reg :: u256
  tx_count :: "3 word"
  tx_active :: bool
  tx_sending_flit :: bool
  tx_row_count :: u32

record stream_in =
  st_source_ready :: bool
  stream_total_rows :: u32
  pe_dout :: u256
  pe_valid_out :: bool

definition stream_reset :: stream where
  "stream_reset = \<lparr>out_fifo = \<lambda>_. 0, fifo_wr_ptr = 0, fifo_rd_ptr = 0, fifo_count = 0,
     tx_shift_reg = 0, tx_count = 0, tx_active = False, tx_sending_flit = False, tx_row_count = 0\<rparr>"

definition out_fifo_full :: "stream \<Rightarrow> bool" where "out_fifo_full s \<longleftrightarrow> 8 \<le> fifo_count s"
definition fifo_empty :: "stream \<Rightarrow> bool" where "fifo_empty s \<longleftrightarrow> fifo_count s = 0"

definition fifo_push :: "stream \<Rightarrow> stream_in \<Rightarrow> bool" where
  "fifo_push s i \<longleftrightarrow> pe_valid_out i \<and> \<not> out_fifo_full s"

definition fifo_pop :: "stream \<Rightarrow> stream_in \<Rightarrow> bool" where
  "fifo_pop s i \<longleftrightarrow> (\<not> tx_active s \<and> \<not> fifo_empty s) \<or>
     (tx_active s \<and> st_source_ready i \<and> tx_sending_flit s \<and> tx_count s = 3 \<and> \<not> fifo_empty s)"

definition pe_ready_out :: "stream \<Rightarrow> bool" where "pe_ready_out s \<longleftrightarrow> \<not> out_fifo_full s"

definition st_source_data :: "stream \<Rightarrow> u64" where "st_source_data s = ucast (tx_shift_reg s)"
definition st_source_valid :: "stream \<Rightarrow> bool" where "st_source_valid s = tx_sending_flit s"

definition st_source_startofpacket :: "stream \<Rightarrow> bool" where
  "st_source_startofpacket s \<longleftrightarrow> tx_sending_flit s \<and> tx_count s = 0 \<and> tx_row_count s = 0"

definition st_source_endofpacket :: "stream \<Rightarrow> u32 \<Rightarrow> bool" where
  "st_source_endofpacket s n_rows \<longleftrightarrow>
     0 < n_rows \<and> tx_sending_flit s \<and> tx_count s = 3 \<and> tx_row_count s = n_rows - 1"

text \<open>The two clocked blocks: the write side, then the read side with the serializer.\<close>

definition fifo_write :: "stream \<Rightarrow> stream_in \<Rightarrow> stream \<Rightarrow> stream" where
  "fifo_write s i t =
     (if pe_valid_out i \<and> \<not> out_fifo_full s then
        t\<lparr>out_fifo := (out_fifo s)(unat (fifo_wr_ptr s) := pe_dout i), fifo_wr_ptr := fifo_wr_ptr s + 1\<rparr>
      else t)"

definition next_row :: "u32 \<Rightarrow> u32 \<Rightarrow> u32" where
  "next_row n_rows r = (if 0 < n_rows \<and> r = n_rows - 1 then 0 else r + 1)"

definition fifo_read :: "stream \<Rightarrow> stream_in \<Rightarrow> stream \<Rightarrow> stream" where
  "fifo_read s i t =
     (let t = (if fifo_push s i \<and> \<not> fifo_pop s i then t\<lparr>fifo_count := fifo_count s + 1\<rparr>
               else if \<not> fifo_push s i \<and> fifo_pop s i then t\<lparr>fifo_count := fifo_count s - 1\<rparr>
               else t);
          load = (\<lambda>t. t\<lparr>tx_shift_reg := out_fifo s (unat (fifo_rd_ptr s)),
                        fifo_rd_ptr := fifo_rd_ptr s + 1, tx_count := 0\<rparr>)
      in if \<not> tx_active s then
           (if \<not> fifo_empty s then (load t)\<lparr>tx_active := True, tx_sending_flit := True\<rparr> else t)
         else if st_source_ready i \<and> tx_sending_flit s then
           (if tx_count s = 3 then
              (let t = t\<lparr>tx_row_count := next_row (stream_total_rows i) (tx_row_count s)\<rparr>
               in if \<not> fifo_empty s then load t
                  else t\<lparr>tx_active := False, tx_sending_flit := False\<rparr>)
            else t\<lparr>tx_shift_reg := drop_bit 64 (tx_shift_reg s), tx_count := tx_count s + 1\<rparr>)
         else t)"

definition stream_step :: "stream \<Rightarrow> stream_in \<Rightarrow> stream" where
  "stream_step s i = fifo_write s i (fifo_read s i s)"

section \<open>The contents\<close>

text \<open>What a read of the FIFO order finds, and the invariant of pointers and flags.\<close>

definition fifo_rows :: "stream \<Rightarrow> u256 list" where
  "fifo_rows s = map (\<lambda>k. out_fifo s (unat (fifo_rd_ptr s + of_nat k))) [0..<unat (fifo_count s)]"

definition stream_inv :: "stream \<Rightarrow> bool" where
  "stream_inv s \<longleftrightarrow>
     fifo_wr_ptr s = fifo_rd_ptr s + of_nat (unat (fifo_count s)) \<and> unat (fifo_count s) \<le> 8 \<and>
     tx_sending_flit s = tx_active s \<and> unat (tx_count s) \<le> 3"

lemma stream_reset_inv: "stream_inv stream_reset"
  by (simp add: stream_inv_def stream_reset_def)

lemma out_fifo_full_iff: "out_fifo_full s \<longleftrightarrow> 8 \<le> unat (fifo_count s)"
  by (simp add: out_fifo_full_def word_le_nat_alt)

lemma fifo_empty_iff: "fifo_empty s \<longleftrightarrow> fifo_rows s = []"
  by (simp add: fifo_empty_def fifo_rows_def unat_eq_0)

lemma length_fifo_rows [simp]: "length (fifo_rows s) = unat (fifo_count s)"
  by (simp add: fifo_rows_def)

lemma ptr_inj: "(p :: 3 word) + of_nat k = p + of_nat m \<Longrightarrow> k < 8 \<Longrightarrow> m < 8 \<Longrightarrow> k = m"
proof -
  assume "p + of_nat k = p + of_nat m" "k < 8" "m < 8"
  then have "unat (of_nat k :: 3 word) = unat (of_nat m :: 3 word)" by simp
  then show "k = m" using \<open>k < 8\<close> \<open>m < 8\<close> by (simp add: unat_of_nat)
qed

definition fifo_slice :: "(nat \<Rightarrow> 'a) \<Rightarrow> 3 word \<Rightarrow> nat \<Rightarrow> 'a list" where
  "fifo_slice f p n = map (\<lambda>k. f (unat (p + of_nat k))) [0..<n]"

lemma fifo_rows_ring: "fifo_rows s = fifo_slice (out_fifo s) (fifo_rd_ptr s) (unat (fifo_count s))"
  by (simp add: fifo_rows_def fifo_slice_def)

lemma ring_0 [simp]: "fifo_slice f p 0 = []"
  by (simp add: fifo_slice_def)

lemma ring_write:
  "n < 8 \<Longrightarrow> m \<le> n \<Longrightarrow> fifo_slice (f(unat (p + of_nat n) := d)) p m = fifo_slice f p m"
  unfolding fifo_slice_def
proof (rule map_cong [OF refl])
  fix k
  assume "n < 8" "m \<le> n" "k \<in> set [0..<m]"
  then have "p + of_nat k \<noteq> p + of_nat n" using ptr_inj [of p k n] by auto
  then show "(f(unat (p + of_nat n) := d)) (unat (p + of_nat k)) = f (unat (p + of_nat k))"
    by (simp only: word_unat_eq_iff fun_upd_apply if_False)
qed

lemma ring_push: "n < 8 \<Longrightarrow> fifo_slice (f(unat (p + of_nat n) := d)) p (Suc n) = fifo_slice f p n @ [d]"
  using ring_write [of n n f p d] by (simp add: fifo_slice_def)

lemma ring_Suc: "fifo_slice f p (Suc n) = f (unat p) # fifo_slice f (p + 1) n"
proof -
  have "[0..<Suc n] = 0 # map Suc [0..<n]" by (simp add: upt_conv_Cons map_Suc_upt)
  then show ?thesis by (simp add: fifo_slice_def add.assoc del: upt_Suc)
qed

lemma stream_step_ptrs:
  "fifo_wr_ptr (stream_step s i) = (if fifo_push s i then fifo_wr_ptr s + 1 else fifo_wr_ptr s)"
  "fifo_rd_ptr (stream_step s i) = (if fifo_pop s i then fifo_rd_ptr s + 1 else fifo_rd_ptr s)"
  "out_fifo (stream_step s i) =
     (if fifo_push s i then (out_fifo s)(unat (fifo_wr_ptr s) := pe_dout i) else out_fifo s)"
  "fifo_count (stream_step s i) =
     (if fifo_push s i \<and> \<not> fifo_pop s i then fifo_count s + 1
      else if \<not> fifo_push s i \<and> fifo_pop s i then fifo_count s - 1 else fifo_count s)"
  by (auto simp: stream_step_def fifo_write_def fifo_read_def fifo_push_def fifo_pop_def Let_def)

lemma fifo_pop_nonempty: "fifo_pop s i \<Longrightarrow> 0 < unat (fifo_count s)"
  by (auto simp: fifo_pop_def fifo_empty_def unat_gt_0)

lemma fifo_count_step:
  assumes "stream_inv s"
  shows "unat (fifo_count (stream_step s i)) =
    unat (fifo_count s) + (if fifo_push s i then 1 else 0) - (if fifo_pop s i then 1 else 0)"
proof -
  have c: "unat (fifo_count s) \<le> 8" using assms by (simp add: stream_inv_def)
  have up: "unat (fifo_count s + 1) = unat (fifo_count s) + 1" if "fifo_push s i"
  proof -
    have "unat (fifo_count s) < 8" using that c by (simp add: fifo_push_def out_fifo_full_iff)
    then show ?thesis by (simp add: unat_word_ariths)
  qed
  have down: "unat (fifo_count s - 1) = unat (fifo_count s) - 1" if "fifo_pop s i"
    using fifo_pop_nonempty [OF that] by (simp add: unat_sub word_le_nat_alt)
  show ?thesis using up down by (auto simp: stream_step_ptrs)
qed

lemma fifo_rows_step:
  assumes inv: "stream_inv s"
  shows "fifo_rows (stream_step s i) =
    (if fifo_pop s i then tl (fifo_rows s) else fifo_rows s) @ (if fifo_push s i then [pe_dout i] else [])"
proof -
  define n where "n = unat (fifo_count s)"
  have wr: "fifo_wr_ptr s = fifo_rd_ptr s + of_nat n" using inv by (simp add: stream_inv_def n_def)
  have n8: "fifo_push s i \<Longrightarrow> n < 8" by (auto simp: n_def fifo_push_def out_fifo_full_iff)
  have n0: "fifo_pop s i \<Longrightarrow> \<exists>m. n = Suc m"
    using fifo_pop_nonempty [of s i] by (cases n) (auto simp: n_def)
  have count: "unat (fifo_count (stream_step s i)) =
      n + (if fifo_push s i then 1 else 0) - (if fifo_pop s i then 1 else 0)"
    using fifo_count_step [OF inv] by (simp add: n_def)
  have pushed: "fifo_push s i \<Longrightarrow>
      fifo_slice ((out_fifo s)(unat (fifo_rd_ptr s + of_nat n) := pe_dout i)) (fifo_rd_ptr s) (Suc n) =
      fifo_slice (out_fifo s) (fifo_rd_ptr s) n @ [pe_dout i]"
    by (rule ring_push [OF n8])
  show ?thesis
    unfolding fifo_rows_ring count stream_step_ptrs(2,3) wr n_def [symmetric]
    using n0 pushed by (auto simp: ring_Suc)
qed

lemma stream_step_inv: "stream_inv s \<Longrightarrow> stream_inv (stream_step s i)"
proof -
  assume inv: "stream_inv s"
  define n where "n = unat (fifo_count s)"
  have "fifo_push s i \<Longrightarrow> n < 8" by (auto simp: n_def fifo_push_def out_fifo_full_iff)
  moreover have "fifo_pop s i \<Longrightarrow> 0 < n" using fifo_pop_nonempty by (simp add: n_def)
  moreover have "n \<le> 8" "fifo_wr_ptr s = fifo_rd_ptr s + of_nat n"
    using inv by (simp_all add: stream_inv_def n_def)
  ultimately have "fifo_wr_ptr (stream_step s i) =
      fifo_rd_ptr (stream_step s i) + of_nat (unat (fifo_count (stream_step s i))) \<and>
      unat (fifo_count (stream_step s i)) \<le> 8"
    unfolding fifo_count_step [OF inv] n_def [symmetric] stream_step_ptrs(1,2)
    by (cases n) (auto simp: of_nat_diff)
  moreover have "tx_sending_flit (stream_step s i) = tx_active (stream_step s i)"
    using inv by (auto simp: stream_inv_def stream_step_def fifo_write_def fifo_read_def Let_def)
  moreover have "unat (tx_count (stream_step s i)) \<le> 3"
  proof -
    have "unat (tx_count s + 1) \<le> 3" if "tx_count s \<noteq> 3"
    proof -
      have "unat (tx_count s) \<noteq> unat (3 :: 3 word)" using that by (simp only: word_unat_eq_iff) simp
      then have "unat (tx_count s) < 3" using inv by (simp add: stream_inv_def)
      then show ?thesis by (simp add: unat_word_ariths)
    qed
    then show ?thesis
      using inv by (auto simp: stream_inv_def stream_step_def fifo_write_def fifo_read_def Let_def)
  qed
  ultimately show "stream_inv (stream_step s i)" by (simp add: stream_inv_def)
qed

section \<open>The flits\<close>

text \<open>
  A flit with its start and end marks. A row is sent from flit \<open>c\<close> on, the bits that are left at
  the bottom of the word; rows of a sequence are numbered modulo its length.
\<close>

type_synonym flit = "u64 \<times> bool \<times> bool"

definition row_flits :: "u32 \<Rightarrow> u32 \<Rightarrow> nat \<Rightarrow> u256 \<Rightarrow> flit list" where
  "row_flits n_rows r c w =
     map (\<lambda>k. (ucast (drop_bit (64 * (k - c)) w), k = 0 \<and> r = 0, 0 < n_rows \<and> k = 3 \<and> r = n_rows - 1))
       [c..<4]"

fun seq_flits :: "u32 \<Rightarrow> u32 \<Rightarrow> u256 list \<Rightarrow> flit list" where
  "seq_flits n_rows r [] = []"
| "seq_flits n_rows r (w # ws) = row_flits n_rows r 0 w @ seq_flits n_rows (next_row n_rows r) ws"

definition to_send :: "u32 \<Rightarrow> stream \<Rightarrow> flit list" where
  "to_send n_rows s =
     (if tx_active s then
        row_flits n_rows (tx_row_count s) (unat (tx_count s)) (tx_shift_reg s) @
        seq_flits n_rows (next_row n_rows (tx_row_count s)) (fifo_rows s)
      else seq_flits n_rows (tx_row_count s) (fifo_rows s))"

text \<open>The number of the row that is pushed next.\<close>

definition row_no :: "u32 \<Rightarrow> stream \<Rightarrow> u32" where
  "row_no n_rows s =
     (next_row n_rows ^^ (length (fifo_rows s) + (if tx_active s then 1 else 0))) (tx_row_count s)"

definition sent :: "stream \<Rightarrow> stream_in \<Rightarrow> flit list" where
  "sent s i =
     (if st_source_valid s \<and> st_source_ready i then
        [(st_source_data s, st_source_startofpacket s, st_source_endofpacket s (stream_total_rows i))]
      else [])"

lemma seq_flits_append:
  "seq_flits n r (ws @ vs) = seq_flits n r ws @ seq_flits n ((next_row n ^^ length ws) r) vs"
  by (induction ws arbitrary: r) (simp_all add: funpow_swap1)

lemma row_flits_Suc:
  "c < 4 \<Longrightarrow> row_flits n r c w =
     (ucast w, c = 0 \<and> r = 0, 0 < n \<and> c = 3 \<and> r = n - 1) # row_flits n r (Suc c) (drop_bit 64 w)"
  by (auto simp: row_flits_def upt_conv_Cons drop_bit_drop_bit Suc_diff_le algebra_simps
      intro!: map_cong arg_cong [where f = ucast])

lemma row_flits_done [simp]: "row_flits n r 4 w = []"
  by (simp add: row_flits_def)

lemma stream_step_tx:
  "tx_row_count (stream_step s i) =
     (if tx_active s \<and> st_source_ready i \<and> tx_sending_flit s \<and> tx_count s = 3
      then next_row (stream_total_rows i) (tx_row_count s) else tx_row_count s)"
  "tx_active (stream_step s i) =
     (if tx_active s then \<not> (st_source_ready i \<and> tx_sending_flit s \<and> tx_count s = 3 \<and> fifo_empty s)
      else \<not> fifo_empty s)"
  "tx_count (stream_step s i) =
     (if fifo_pop s i then 0
      else if tx_active s \<and> st_source_ready i \<and> tx_sending_flit s \<and> tx_count s \<noteq> 3 then tx_count s + 1
      else tx_count s)"
  "tx_shift_reg (stream_step s i) =
     (if fifo_pop s i then out_fifo s (unat (fifo_rd_ptr s))
      else if tx_active s \<and> st_source_ready i \<and> tx_sending_flit s \<and> tx_count s \<noteq> 3
      then drop_bit 64 (tx_shift_reg s) else tx_shift_reg s)"
  by (auto simp: stream_step_def fifo_write_def fifo_read_def fifo_pop_def Let_def)

lemma fifo_front:
  "0 < unat (fifo_count s) \<Longrightarrow> fifo_rows s = out_fifo s (unat (fifo_rd_ptr s)) # tl (fifo_rows s)"
  by (cases "unat (fifo_count s)") (simp_all add: fifo_rows_ring ring_Suc)

lemma unat_tx_count: "stream_inv s \<Longrightarrow> tx_count s \<noteq> 3 \<Longrightarrow> unat (tx_count s) < 3 \<and> unat (tx_count s + 1) = Suc (unat (tx_count s))"
proof -
  assume inv: "stream_inv s" and "tx_count s \<noteq> 3"
  then have "unat (tx_count s) \<noteq> unat (3 :: 3 word)" by (simp only: word_unat_eq_iff) simp
  with inv have "unat (tx_count s) < 3" by (simp add: stream_inv_def)
  then show ?thesis by (simp add: unat_word_ariths)
qed

text \<open>
  The controller is a queue of flits: those sent in a cycle, then those still to be sent, are
  those that were to be sent and the four of the row that is pushed.
\<close>

theorem stream_step_flits:
  assumes inv: "stream_inv s" and n: "stream_total_rows i = n"
  shows "sent s i @ to_send n (stream_step s i) =
    to_send n s @ (if fifo_push s i then row_flits n (row_no n s) 0 (pe_dout i) else [])"
proof -
  have act: "tx_sending_flit s = tx_active s" using inv by (simp add: stream_inv_def)
  have empty: "fifo_empty s \<longleftrightarrow> unat (fifo_count s) = 0" by (simp add: fifo_empty_def unat_eq_0)
  have queue: "seq_flits n r (fifo_rows s @ (if fifo_push s i then [pe_dout i] else [])) =
      seq_flits n r (fifo_rows s) @
      (if fifo_push s i then row_flits n ((next_row n ^^ length (fifo_rows s)) r) 0 (pe_dout i) else [])" for r
    by (simp add: seq_flits_append)
  have last: "row_flits n r 3 w = [(ucast w, False, 0 < n \<and> r = n - 1)]" for r w
    using row_flits_Suc [of 3 n r w] by simp
  consider (pop) "fifo_pop s i" | (idle) "\<not> fifo_pop s i" "\<not> tx_active s" | (stall) "tx_active s" "\<not> st_source_ready i"
    | (shift) "tx_active s" "st_source_ready i" "tx_count s \<noteq> 3"
    | (drained) "tx_active s" "st_source_ready i" "tx_count s = 3" "fifo_empty s"
    using act by (auto simp: fifo_pop_def)
  then show ?thesis
  proof cases
    case pop
    define w where "w = out_fifo s (unat (fifo_rd_ptr s))"
    have rows: "fifo_rows s = w # tl (fifo_rows s)"
      using fifo_front [OF fifo_pop_nonempty [OF pop]] by (simp add: w_def)
    have after: "to_send n (stream_step s i) =
        (let r = (if tx_active s then next_row n (tx_row_count s) else tx_row_count s)
         in seq_flits n r (fifo_rows s @ (if fifo_push s i then [pe_dout i] else [])))"
      using pop n act
      by (subst rows) (auto simp: to_send_def stream_step_tx fifo_rows_step [OF inv] fifo_pop_def w_def Let_def)
    show ?thesis
    proof (cases "tx_active s")
      case True
      then have "tx_count s = 3" "st_source_ready i" using pop by (auto simp: fifo_pop_def)
      then show ?thesis
        using True act n unfolding after Let_def
        by (simp add: to_send_def queue last sent_def st_source_valid_def st_source_data_def
            st_source_startofpacket_def st_source_endofpacket_def row_no_def funpow_swap1)
    next
      case False
      then show ?thesis
        using act unfolding after Let_def by (simp add: to_send_def queue sent_def st_source_valid_def row_no_def)
    qed
  next
    case idle
    then have "fifo_rows s = []" using empty by (simp add: fifo_pop_def flip: length_0_conv)
    with idle show ?thesis
      using act empty
      by (simp add: to_send_def stream_step_tx fifo_rows_step [OF inv] sent_def st_source_valid_def
          row_no_def fifo_pop_def)
  next
    case stall
    then show ?thesis
      by (simp add: to_send_def stream_step_tx fifo_rows_step [OF inv] fifo_pop_def sent_def row_no_def
          queue funpow_swap1)
  next
    case shift
    then show ?thesis
      using unat_tx_count [OF inv] act n
      by (simp add: to_send_def stream_step_tx fifo_rows_step [OF inv] fifo_pop_def sent_def row_no_def
          queue funpow_swap1 st_source_valid_def st_source_data_def st_source_startofpacket_def
          st_source_endofpacket_def row_flits_Suc unat_eq_0)
  next
    case drained
    then have "fifo_rows s = []" using empty by (simp flip: length_0_conv)
    with drained show ?thesis
      using act n
      by (simp add: to_send_def stream_step_tx fifo_rows_step [OF inv] fifo_pop_def sent_def row_no_def
          st_source_valid_def st_source_data_def st_source_startofpacket_def st_source_endofpacket_def last)
  qed
qed

lemma stream_step_row_no:
  assumes inv: "stream_inv s" and n: "stream_total_rows i = n"
  shows "row_no n (stream_step s i) = (if fifo_push s i then next_row n (row_no n s) else row_no n s)"
proof -
  have act: "tx_sending_flit s = tx_active s" using inv by (simp add: stream_inv_def)
  have empty: "fifo_empty s \<longleftrightarrow> unat (fifo_count s) = 0" by (simp add: fifo_empty_def unat_eq_0)
  show ?thesis
    using act n empty fifo_pop_nonempty [of s i] fifo_count_step [OF inv, of i]
    by (cases "unat (fifo_count s)")
      (auto simp: row_no_def stream_step_tx fifo_pop_def funpow_swap1)
qed

end
