(* ===== verification/Rtl_Npu.thy ===== *)
theory Rtl_Npu
  imports Rtl_Run Rtl_Stream
begin

text \<open>
  The NPU as one clocked machine: the control registers (\<open>rtl/npu_ctrl.v\<close>), the test registers
  of the single processing element (\<open>rtl/mac_pe_ctrl.v\<close>), and their composition with the stream
  controller and the core in \<open>rtl/npu_unit.v\<close>. \<open>seq_busy\<close> and \<open>seq_done\<close> are wires nobody
  drives: their values are inputs of the model.
\<close>

section \<open>The control registers\<close>

record npu_ctrl =
  seq_start :: bool
  seq_mode :: "2 word"
  seq_total_rows :: u32
  latch_pulse :: bool
  sys_readdata :: u32
  sys_readdatavalid :: bool

record mac_pe_ctrl =
  load_weight :: bool
  valid_in :: bool
  csr_x_in :: u8
  csr_y_in :: u32
  reg_readdata :: u32
  reg_readdatavalid :: bool

record unit_in =
  avs_address :: "4 word"
  avs_write :: bool
  avs_writedata :: u32
  avs_read :: bool
  st_sink_data :: u64
  st_sink_valid :: bool
  source_ready :: bool
  seq_busy :: bool
  seq_done :: bool

definition select_pe :: "unit_in \<Rightarrow> bool" where "select_pe I = bit (avs_address I) 3"
definition select_sys :: "unit_in \<Rightarrow> bool" where "select_sys I = (\<not> bit (avs_address I) 3)"

text \<open>\<open>address[2:0]\<close> and \<open>address[1:0]\<close>\<close>

definition sys_addr :: "unit_in \<Rightarrow> nat" where "sys_addr I = unat (avs_address I AND 7)"
definition pe_addr :: "unit_in \<Rightarrow> nat" where "pe_addr I = unat (avs_address I AND 3)"

definition bit1 :: "bool \<Rightarrow> u32" where "bit1 b = (if b then 1 else 0)"

definition ctrl_step :: "npu_ctrl \<Rightarrow> unit_in \<Rightarrow> npu_ctrl" where
  "ctrl_step c I =
     (let d = c\<lparr>seq_start := False, latch_pulse := False,
                sys_readdatavalid := avs_read I \<and> select_sys I\<rparr>;
          d = (if avs_write I \<and> select_sys I then
                 if sys_addr I = 0 then
                   d\<lparr>seq_mode := ucast (drop_bit 1 (avs_writedata I)), seq_start := bit (avs_writedata I) 0\<rparr>
                 else if sys_addr I = 6 then d\<lparr>seq_total_rows := avs_writedata I\<rparr>
                 else if sys_addr I = 7 then d\<lparr>latch_pulse := bit (avs_writedata I) 0\<rparr>
                 else d
               else d)
      in if avs_read I \<and> select_sys I then
           d\<lparr>sys_readdata :=
               (if sys_addr I = 0 then push_bit 1 (ucast (seq_mode c))
                else if sys_addr I = 1 then push_bit 1 (bit1 (seq_done I)) OR bit1 (seq_busy I)
                else if sys_addr I = 6 then seq_total_rows c
                else if sys_addr I = 7 then bit1 (latch_pulse c)
                else 0)\<rparr>
         else d)"

definition csr_step :: "mac_pe_ctrl \<Rightarrow> u32 \<Rightarrow> unit_in \<Rightarrow> mac_pe_ctrl" where
  "csr_step c mac_y I =
     (let d = c\<lparr>reg_readdatavalid := avs_read I \<and> select_pe I\<rparr>;
          d = (if avs_write I \<and> select_pe I then
                 if pe_addr I = 0 then
                   d\<lparr>load_weight := bit (avs_writedata I) 0, valid_in := bit (avs_writedata I) 1\<rparr>
                 else if pe_addr I = 1 then d\<lparr>csr_x_in := ucast (avs_writedata I)\<rparr>
                 else if pe_addr I = 2 then d\<lparr>csr_y_in := avs_writedata I\<rparr>
                 else d
               else d)
      in if avs_read I \<and> select_pe I then
           d\<lparr>reg_readdata :=
               (if pe_addr I = 0 then push_bit 1 (bit1 (valid_in c)) OR bit1 (load_weight c)
                else if pe_addr I = 1 then ucast (csr_x_in c)
                else if pe_addr I = 2 then csr_y_in c
                else mac_y)\<rparr>
         else d)"

section \<open>The unit\<close>

record npu_unit =
  u_ctrl :: npu_ctrl
  u_csr :: mac_pe_ctrl
  u_stream :: stream
  u_core :: core
  u_mac :: pe

definition unit_reset :: npu_unit where
  "unit_reset =
     \<lparr>u_ctrl = \<lparr>seq_start = False, seq_mode = 0, seq_total_rows = 0, latch_pulse = False,
                sys_readdata = 0, sys_readdatavalid = False\<rparr>,
      u_csr = \<lparr>load_weight = False, valid_in = False, csr_x_in = 0, csr_y_in = 0,
               reg_readdata = 0, reg_readdatavalid = False\<rparr>,
      u_stream = stream_reset, u_core = core_reset, u_mac = pe_reset\<rparr>"

definition avs_readdata :: "npu_unit \<Rightarrow> u32" where
  "avs_readdata U =
     (if sys_readdatavalid (u_ctrl U) then sys_readdata (u_ctrl U)
      else if reg_readdatavalid (u_csr U) then reg_readdata (u_csr U) else 0)"

definition avs_readdatavalid :: "npu_unit \<Rightarrow> bool" where
  "avs_readdatavalid U \<longleftrightarrow> sys_readdatavalid (u_ctrl U) \<or> reg_readdatavalid (u_csr U)"

text \<open>The eight byte lanes of a beat, and the 256 bits of a row of results.\<close>

definition lanes :: "u64 \<Rightarrow> row" where "lanes d i = ucast (drop_bit (8 * i) d)"

definition row_word :: "u32 list \<Rightarrow> u256" where "row_word ys = word_rcat (rev ys)"

definition unit_core_in :: "npu_unit \<Rightarrow> unit_in \<Rightarrow> core_in" where
  "unit_core_in U I =
     \<lparr>load_weight_in = (\<lambda>_. bit (seq_mode (u_ctrl U)) 0 \<and> st_sink_valid I),
      core_valid_in = st_sink_valid I, core_x_in = lanes (st_sink_data I), core_y_in = (\<lambda>_. 0),
      core_latch_en = latch_pulse (u_ctrl U), core_ready_in = pe_ready_out (u_stream U)\<rparr>"

definition st_sink_ready :: "npu_unit \<Rightarrow> unit_in \<Rightarrow> bool" where
  "st_sink_ready U I = core_ready_out 8 (u_core U) (unit_core_in U I)"

definition unit_stream_in :: "npu_unit \<Rightarrow> unit_in \<Rightarrow> stream_in" where
  "unit_stream_in U I =
     \<lparr>st_source_ready = source_ready I, stream_total_rows = seq_total_rows (u_ctrl U),
      pe_dout = row_word (map (core_y_out 8 (u_core U)) [0..<8]),
      pe_valid_out = core_valid_out 8 (u_core U)\<rparr>"

definition unit_mac_in :: "npu_unit \<Rightarrow> pe_in" where
  "unit_mac_in U =
     \<lparr>valid_in_x = valid_in (u_csr U), weight_shift_in = load_weight (u_csr U),
      x_in = csr_x_in (u_csr U), ready_in_x = True, valid_in_y = valid_in (u_csr U),
      y_in = csr_y_in (u_csr U), ready_in_y = True, weight_latch_en = True\<rparr>"

definition unit_step :: "npu_unit \<Rightarrow> unit_in \<Rightarrow> npu_unit" where
  "unit_step U I =
     \<lparr>u_ctrl = ctrl_step (u_ctrl U) I, u_csr = csr_step (u_csr U) (y_out (u_mac U)) I,
      u_stream = stream_step (u_stream U) (unit_stream_in U I),
      u_core = core_step 8 (u_core U) (unit_core_in U I),
      u_mac = pe_step (u_mac U) (unit_mac_in U)\<rparr>"

text \<open>A run: the beats taken from the sink, the flits handed to the source, and the state after it.\<close>

fun unit_run :: "unit_in list \<Rightarrow> npu_unit \<Rightarrow> u64 list \<times> flit list \<times> npu_unit" where
  "unit_run [] U = ([], [], U)"
| "unit_run (I # Is) U =
     (case unit_run Is (unit_step U I) of (acc, out, U') \<Rightarrow>
        ((if st_sink_valid I \<and> st_sink_ready U I then [st_sink_data I] else []) @ acc,
         sent (u_stream U) (unit_stream_in U I) @ out, U'))"

lemma unit_run_append:
  "unit_run (Is @ Js) U =
     (case unit_run Is U of (acc, out, V) \<Rightarrow>
        case unit_run Js V of (acc', out', V') \<Rightarrow> (acc @ acc', out @ out', V'))"
  by (induction Is arbitrary: U) (simp_all add: case_prod_unfold)

end
