(* ===== verification/Rtl_Phases.thy ===== *)
theory Rtl_Phases
  imports Rtl_Npu
begin

text \<open>
  The NPU through its phases: loading weights, latching them, multiplying. Each phase is a run of
  \<open>unit_step\<close> whose cycles leave the control registers alone, with any pattern of valid beats and
  of a ready receiver; a control write takes a cycle without a beat.
\<close>

section \<open>Control writes\<close>

definition writes_reg :: "nat \<Rightarrow> unit_in \<Rightarrow> bool" where
  "writes_reg a I \<longleftrightarrow> avs_write I \<and> select_sys I \<and> sys_addr I = a"

text \<open>A cycle that leaves mode and row count alone and does not latch.\<close>

definition no_control :: "unit_in \<Rightarrow> bool" where
  "no_control I \<longleftrightarrow> \<not> writes_reg 0 I \<and> \<not> writes_reg 6 I \<and> (writes_reg 7 I \<longrightarrow> \<not> bit (avs_writedata I) 0)"

lemma no_control_step:
  "no_control I \<Longrightarrow> seq_mode (ctrl_step c I) = seq_mode c"
  "no_control I \<Longrightarrow> seq_total_rows (ctrl_step c I) = seq_total_rows c"
  "no_control I \<Longrightarrow> \<not> latch_pulse (ctrl_step c I)"
  by (auto simp: no_control_def writes_reg_def ctrl_step_def Let_def)

lemma write_mode_step:
  "writes_reg 0 I \<Longrightarrow> bit (seq_mode (ctrl_step c I)) 0 = bit (avs_writedata I) 1"
  "writes_reg 0 I \<Longrightarrow> seq_total_rows (ctrl_step c I) = seq_total_rows c"
  "writes_reg 0 I \<Longrightarrow> \<not> latch_pulse (ctrl_step c I)"
  by (auto simp: writes_reg_def ctrl_step_def Let_def bit_simps)

lemma write_latch_step:
  "writes_reg 7 I \<Longrightarrow> latch_pulse (ctrl_step c I) = bit (avs_writedata I) 0"
  "writes_reg 7 I \<Longrightarrow> seq_mode (ctrl_step c I) = seq_mode c"
  "writes_reg 7 I \<Longrightarrow> seq_total_rows (ctrl_step c I) = seq_total_rows c"
  by (auto simp: writes_reg_def ctrl_step_def Let_def)

lemma unit_step_simps [simp]:
  "u_ctrl (unit_step U I) = ctrl_step (u_ctrl U) I"
  "u_core (unit_step U I) = core_step 8 (u_core U) (unit_core_in U I)"
  "u_stream (unit_step U I) = stream_step (u_stream U) (unit_stream_in U I)"
  by (simp_all add: unit_step_def)

lemma unit_core_in_simps [simp]:
  "core_valid_in (unit_core_in U I) = st_sink_valid I"
  "core_x_in (unit_core_in U I) = lanes (st_sink_data I)"
  "core_y_in (unit_core_in U I) = (\<lambda>_. 0)"
  "core_latch_en (unit_core_in U I) = latch_pulse (u_ctrl U)"
  "load_weight_in (unit_core_in U I) i = (bit (seq_mode (u_ctrl U)) 0 \<and> st_sink_valid I)"
  "core_ready_in (unit_core_in U I) = pe_ready_out (u_stream U)"
  by (simp_all add: unit_core_in_def)

section \<open>The multiply phase\<close>

text \<open>The row of results of a row of inputs as it is queued.\<close>

definition out_row :: "weights \<Rightarrow> row \<Rightarrow> u256" where
  "out_row W x = row_word (core_product 8 W (\<lambda>_. 0) x)"

definition unit_calc :: "weights \<Rightarrow> weights \<Rightarrow> u32 \<Rightarrow> row pipe \<Rightarrow> npu_unit \<Rightarrow> bool" where
  "unit_calc W S n p U \<longleftrightarrow>
     stream_inv (u_stream U) \<and> core_rel 8 W S (\<lambda>_. 0) (u_core U) p \<and>
     \<not> bit (seq_mode (u_ctrl U)) 0 \<and> \<not> latch_pulse (u_ctrl U) \<and> seq_total_rows (u_ctrl U) = n"

text \<open>
  The flits the unit still owes: those queued, then those of the rows in the array and of more
  rows behind them.
\<close>

definition owed :: "weights \<Rightarrow> u32 \<Rightarrow> row pipe \<Rightarrow> row list \<Rightarrow> npu_unit \<Rightarrow> flit list" where
  "owed W n p xs U =
     to_send n (u_stream U) @
     seq_flits n (row_no n (u_stream U)) (map (out_row W) (tokens (stages 8) p @ xs))"

definition unit_token :: "unit_in \<Rightarrow> row option" where
  "unit_token I = (if st_sink_valid I then Some (lanes (st_sink_data I)) else None)"

lemma unit_calc_cycle:
  assumes "unit_calc W S n p U"
  shows "calc_cycle 8 W S (\<lambda>_. 0) (u_core U) p (unit_core_in U I) (input_token (unit_core_in U I))"
  using assms by (intro calc_input_cycle) (auto simp: unit_calc_def calc_input_def)

text \<open>A row leaves the core exactly when the stream controller queues it.\<close>

lemma unit_push:
  assumes "unit_calc W S n p U" and "inp = input_token (unit_core_in U I)"
  shows "(if fifo_push (u_stream U) (unit_stream_in U I) then [pe_dout (unit_stream_in U I)] else []) =
    map (out_row W) (popped (stages 8) p inp (pe_ready_out (u_stream U)))"
proof -
  have "map row_word (if core_valid_out 8 (u_core U) \<and> pe_ready_out (u_stream U)
        then [map (core_y_out 8 (u_core U)) [0..<8]] else []) =
      map row_word (map (core_product 8 W (\<lambda>_. 0)) (popped (stages 8) p inp (pe_ready_out (u_stream U))))"
    using core_cycle_out [OF unit_calc_cycle [OF assms(1), of I]] assms(2) by simp
  then show ?thesis
    by (auto simp: fifo_push_def pe_ready_out_def unit_stream_in_def out_row_def)
qed

text \<open>The beats a cycle takes.\<close>

definition taken_beats :: "npu_unit \<Rightarrow> unit_in \<Rightarrow> u64 list" where
  "taken_beats U I = (if st_sink_valid I \<and> st_sink_ready U I then [st_sink_data I] else [])"

lemma unit_run_Cons:
  assumes "unit_run (I # Is) U = (acc, out, V)"
  obtains acc1 out1 where "unit_run Is (unit_step U I) = (acc1, out1, V)"
    and "acc = taken_beats U I @ acc1" and "out = sent (u_stream U) (unit_stream_in U I) @ out1"
  using assms by (auto simp: taken_beats_def split: prod.splits)

lemma unit_taken:
  assumes "unit_calc W S n p U"
  shows "map lanes (taken_beats U I) =
    (if moves (stages 8) p (unit_token I) (pe_ready_out (u_stream U)) 0 then opt_list (unit_token I) else [])"
proof -
  have "input_token (unit_core_in U I) = unit_token I" by (simp add: input_token_def unit_token_def)
  then have "(if st_sink_valid I \<and> st_sink_ready U I then [lanes (st_sink_data I)] else []) =
    (if moves (stages 8) p (unit_token I) (pe_ready_out (u_stream U)) 0 then opt_list (unit_token I) else [])"
    using core_cycle_acc [OF unit_calc_cycle [OF assms, of I]]
    unfolding unit_core_in_simps st_sink_ready_def by simp
  moreover have "map lanes (taken_beats U I) = (if st_sink_valid I \<and> st_sink_ready U I then [lanes (st_sink_data I)] else [])"
    by (simp add: taken_beats_def)
  ultimately show ?thesis by simp
qed

lemma unit_calc_step:
  assumes rel: "unit_calc W S n p U" and ctl: "no_control I"
  defines "p' \<equiv> pipe_step (stages 8) p (unit_token I) (pe_ready_out (u_stream U))"
  shows "unit_calc W S n p' (unit_step U I)"
    and "sent (u_stream U) (unit_stream_in U I) @ owed W n p' xs (unit_step U I) =
      owed W n p (map lanes (taken_beats U I) @ xs) U"
proof -
  note cc = unit_calc_cycle [OF rel, of I]
  have tok: "input_token (unit_core_in U I) = unit_token I"
    by (simp add: input_token_def unit_token_def)
  have inv: "stream_inv (u_stream U)" and n: "stream_total_rows (unit_stream_in U I) = n"
    using rel by (simp_all add: unit_calc_def unit_stream_in_def)
  show "unit_calc W S n p' (unit_step U I)"
    using core_step_rel [OF cc] rel stream_step_inv [OF inv] no_control_step [OF ctl]
    by (simp add: unit_calc_def tok p'_def)
  let ?push = "fifo_push (u_stream U) (unit_stream_in U I)"
  have "seq_flits n (row_no n (u_stream U)) (map (out_row W) (popped (stages 8) p (unit_token I)
          (pe_ready_out (u_stream U)) @ tokens (stages 8) p' @ xs)) =
      (if ?push then row_flits n (row_no n (u_stream U)) 0 (pe_dout (unit_stream_in U I)) else []) @
      seq_flits n (row_no n (stream_step (u_stream U) (unit_stream_in U I)))
        (map (out_row W) (tokens (stages 8) p' @ xs))"
    using stream_step_row_no [OF inv n] unit_push [OF rel, of "unit_token I" I] tok
    by (simp flip: unit_push [OF rel, of "unit_token I" I])
  then show "sent (u_stream U) (unit_stream_in U I) @ owed W n p' xs (unit_step U I) =
      owed W n p (map lanes (taken_beats U I) @ xs) U"
    using stream_step_flits [OF inv n]
      pipe_step_queue [of "stages 8" p "unit_token I" "pe_ready_out (u_stream U)", folded p'_def]
    unfolding owed_def unit_taken [OF rel] append_assoc [symmetric] by simp
qed

text \<open>
  Over a run: the flits sent and those owed at the end are those owed at the start and four for
  each accepted row, in order, for any pattern of valid beats and of a ready receiver.
\<close>

theorem unit_calc_run:
  assumes "unit_calc W S n p U" and "\<forall>I\<in>set Is. no_control I" and "unit_run Is U = (acc, out, V)"
  shows "\<exists>p'. unit_calc W S n p' V \<and> out @ owed W n p' [] V = owed W n p (map lanes acc) U"
  using assms
proof (induction Is arbitrary: U p acc out)
  case (Cons I Is)
  then have ctl: "no_control I" by simp
  note step = unit_calc_step [OF Cons.prems(1) ctl]
  obtain acc1 out1 where r: "unit_run Is (unit_step U I) = (acc1, out1, V)"
    and e: "acc = taken_beats U I @ acc1" "out = sent (u_stream U) (unit_stream_in U I) @ out1"
    using Cons.prems(3) by (rule unit_run_Cons)
  from Cons.IH [OF step(1) _ r] Cons.prems(2) step(2) [of "map lanes acc1"] show ?case
    unfolding e by auto
qed auto

section \<open>The load phase\<close>

text \<open>The beats that are offered, and the inputs of the core along a run.\<close>

definition offered :: "unit_in list \<Rightarrow> u64 list" where
  "offered Is = map st_sink_data (filter st_sink_valid Is)"

fun core_ins :: "unit_in list \<Rightarrow> npu_unit \<Rightarrow> core_in list" where
  "core_ins [] U = []"
| "core_ins (I # Is) U = unit_core_in U I # core_ins Is (unit_step U I)"

lemma core_ins_append:
  "core_ins (Is @ Js) U = core_ins Is U @ core_ins Js (snd (snd (unit_run Is U)))"
  by (induction Is arbitrary: U) (simp_all add: case_prod_unfold)

lemma unit_run_core:
  "u_core (snd (snd (unit_run Is U))) = fold (\<lambda>I C. core_step 8 C I) (core_ins Is U) (u_core U)"
  by (induction Is arbitrary: U) (simp_all add: case_prod_unfold)

lemma core_ins_valid: "map core_valid_in (core_ins Is U) = map st_sink_valid Is"
  by (induction Is arbitrary: U) simp_all

lemma length_core_ins [simp]: "length (core_ins Is U) = length Is"
  by (induction Is arbitrary: U) simp_all

lemma core_ins_rows: "input_rows (core_ins Is U) = map lanes (offered Is)"
  by (induction Is arbitrary: U) (simp_all add: input_rows_def offered_def)

lemma unit_run_ctrl:
  "\<forall>I\<in>set Is. no_control I \<Longrightarrow> \<not> latch_pulse (u_ctrl U) \<Longrightarrow>
    seq_mode (u_ctrl (snd (snd (unit_run Is U)))) = seq_mode (u_ctrl U) \<and>
    seq_total_rows (u_ctrl (snd (snd (unit_run Is U)))) = seq_total_rows (u_ctrl U) \<and>
    \<not> latch_pulse (u_ctrl (snd (snd (unit_run Is U))))"
  by (induction Is arbitrary: U) (simp_all add: case_prod_unfold no_control_step)

definition load_mode :: "npu_unit \<Rightarrow> bool" where
  "load_mode U \<longleftrightarrow> bit (seq_mode (u_ctrl U)) 0 \<and> \<not> latch_pulse (u_ctrl U)"

lemma load_mode_ins:
  "\<forall>I\<in>set Is. no_control I \<Longrightarrow> load_mode U \<Longrightarrow> \<forall>J\<in>set (core_ins Is U). load_input 8 J"
proof (induction Is arbitrary: U)
  case (Cons I Is)
  then have "load_mode (unit_step U I)" by (simp add: load_mode_def no_control_step)
  moreover have "load_input 8 (unit_core_in U I)"
    using Cons.prems by (simp add: load_mode_def load_input_def)
  ultimately show ?case using Cons.IH [of "unit_step U I"] Cons.prems(1) by simp
qed simp

text \<open>Loading takes every offered beat and leaves the queued flits in order.\<close>

lemma unit_load_run:
  assumes rel: "core_rel 8 W S Y (u_core U) (\<lambda>_. None)" and mode: "load_mode U"
    and inv: "stream_inv (u_stream U)" and ctl: "\<forall>I\<in>set Is. no_control I"
    and run: "unit_run Is U = (acc, out, V)"
  shows "acc = offered Is \<and> stream_inv (u_stream V) \<and>
    out @ to_send (seq_total_rows (u_ctrl U)) (u_stream V) = to_send (seq_total_rows (u_ctrl U)) (u_stream U) \<and>
    row_no (seq_total_rows (u_ctrl U)) (u_stream V) = row_no (seq_total_rows (u_ctrl U)) (u_stream U)"
  using ctl run
proof (induction Is arbitrary: acc out V rule: rev_induct)
  case Nil
  then show ?case using inv by (simp add: offered_def)
next
  case (snoc I Is)
  obtain acc1 out1 V1 where r: "unit_run Is U = (acc1, out1, V1)" by (rule prod_cases3)
  have ctl1: "\<forall>I\<in>set Is. no_control I" using snoc.prems by simp
  note IH = snoc.IH [OF ctl1 r]
  have e: "acc = acc1 @ taken_beats V1 I" "out = out1 @ sent (u_stream V1) (unit_stream_in V1 I)" "V = unit_step V1 I"
    using snoc.prems(2) r by (simp_all add: unit_run_append taken_beats_def)
  have ins: "core_ins (Is @ [I]) U = core_ins Is U @ [unit_core_in V1 I]"
    by (simp add: core_ins_append r)
  have inputs: "\<forall>J\<in>set (core_ins Is U @ [unit_core_in V1 I]). load_input 8 J"
    using load_mode_ins [OF snoc.prems(1) mode] ins by simp
  have core: "u_core V1 = fold (\<lambda>I C. core_step 8 C I) (core_ins Is U) (u_core U)"
    using unit_run_core [of Is U] r by simp
  have lr: "load_rel 8 W (history S (input_rows (core_ins Is U @ [unit_core_in V1 I])))
      (beat_cnt (core_ins Is U)) (u_core V1)"
    using load_run_rel [OF rel inputs] core by simp
  have "load_cycle 8 (unit_core_in V1 I) (st_sink_valid I)
      (history S (input_rows (core_ins Is U @ [unit_core_in V1 I])) (int (beat_cnt (core_ins Is U) 0)))"
    using inputs by (simp add: load_cycle_def load_input_def history_def beat_cnt_def input_rows_def nth_append)
  then have "st_sink_ready V1 I = st_sink_valid I"
    using load_ready_out [OF lr] by (simp add: st_sink_ready_def)
  then have "taken_beats V1 I = offered [I]" by (simp add: taken_beats_def offered_def)
  moreover have n: "seq_total_rows (u_ctrl V1) = seq_total_rows (u_ctrl U)"
    using unit_run_ctrl [OF ctl1, of U] mode r by (simp add: load_mode_def)
  moreover have "\<not> fifo_push (u_stream V1) (unit_stream_in V1 I)"
    using load_valid_out [OF lr] by (simp add: fifo_push_def unit_stream_in_def)
  ultimately show ?case
    using IH stream_step_flits [of "u_stream V1" "unit_stream_in V1 I" "seq_total_rows (u_ctrl U)"]
      stream_step_row_no [of "u_stream V1" "unit_stream_in V1 I" "seq_total_rows (u_ctrl U)"]
      stream_step_inv [of "u_stream V1" "unit_stream_in V1 I"]
    unfolding e by (simp add: unit_stream_in_def offered_def)
qed

lemma unit_load_weights:
  assumes rel: "core_rel 8 W S Y (u_core U) (\<lambda>_. None)" and mode: "load_mode U"
    and ctl: "\<forall>I\<in>set (Ls @ Qs). no_control I"
    and idle: "\<forall>I\<in>set Qs. \<not> st_sink_valid I" and wait: "14 \<le> length Qs"
    and run: "unit_run (Ls @ Qs) U = (acc, out, V)"
  shows "core_rel 8 W (loaded S (map lanes (offered Ls))) Y (u_core V) (\<lambda>_. None)"
proof -
  obtain acc1 out1 V1 where r: "unit_run Ls U = (acc1, out1, V1)" by (rule prod_cases3)
  have ins: "core_ins (Ls @ Qs) U = core_ins Ls U @ core_ins Qs V1"
    by (simp add: core_ins_append r)
  have "\<forall>J\<in>set (core_ins Ls U @ core_ins Qs V1). load_input 8 J"
    using load_mode_ins [OF ctl mode] ins by simp
  moreover have "\<forall>J\<in>set (core_ins Qs V1). \<not> core_valid_in J"
  proof
    fix J
    assume "J \<in> set (core_ins Qs V1)"
    then have "core_valid_in J \<in> set (map st_sink_valid Qs)"
      unfolding core_ins_valid [of Qs V1, symmetric] by simp
    then show "\<not> core_valid_in J" using idle by auto
  qed
  moreover have "stages 8 \<le> Suc (length (core_ins Qs V1))" using wait by (simp add: stages_def)
  ultimately have "core_rel 8 W (loaded S (input_rows (core_ins Ls U))) Y
      (fold (\<lambda>I C. core_step 8 C I) (core_ins Ls U @ core_ins Qs V1) (u_core U)) (\<lambda>_. None)"
    by (rule load_run_weights [OF rel])
  then show ?thesis
    using unit_run_core [of "Ls @ Qs" U] run by (simp add: ins core_ins_rows)
qed

section \<open>Between the phases\<close>

text \<open>
  The unit with an empty array; \<open>E\<close> are the weights it multiplies with once a pending latch pulse is done.
\<close>

definition settled :: "weights \<Rightarrow> weights \<Rightarrow> u32 \<Rightarrow> npu_unit \<Rightarrow> bool" where
  "settled E S n U \<longleftrightarrow>
     stream_inv (u_stream U) \<and> seq_total_rows (u_ctrl U) = n \<and>
     (\<exists>W. core_rel 8 W S (\<lambda>_. 0) (u_core U) (\<lambda>_. None) \<and> (if latch_pulse (u_ctrl U) then S else W) = E)"

text \<open>No flit is lost or added on the way from \<open>U\<close> to \<open>V\<close>.\<close>

definition keeps :: "u32 \<Rightarrow> npu_unit \<Rightarrow> flit list \<Rightarrow> npu_unit \<Rightarrow> bool" where
  "keeps n U out V \<longleftrightarrow>
     out @ to_send n (u_stream V) = to_send n (u_stream U) \<and> row_no n (u_stream V) = row_no n (u_stream U)"

lemma keeps_trans: "keeps n U out1 V \<Longrightarrow> keeps n V out2 X \<Longrightarrow> keeps n U (out1 @ out2) X"
  by (simp add: keeps_def)

lemma pipe_step_empty: "pipe_step D (\<lambda>_. None) None rdy = (\<lambda>_. None)"
proof
  fix d
  have "moves D (\<lambda>_. None) None rdy d \<Longrightarrow> d < D \<Longrightarrow> False"
    using moves_into [of d D "\<lambda>_. None" None rdy] by (cases d) auto
  then show "pipe_step D (\<lambda>_. None) None rdy d = None"
    by (cases d) (auto simp: pipe_step_def)
qed

lemma settled_core_step:
  assumes "settled E S n U" and idle: "\<not> st_sink_valid I"
  shows "core_rel 8 E S (\<lambda>_. 0) (core_step 8 (u_core U) (unit_core_in U I)) (\<lambda>_. None)"
proof -
  obtain W where W: "core_rel 8 W S (\<lambda>_. 0) (u_core U) (\<lambda>_. None)"
    "(if latch_pulse (u_ctrl U) then S else W) = E"
    using assms by (auto simp: settled_def)
  show ?thesis
  proof (cases "latch_pulse (u_ctrl U)")
    case True
    then show ?thesis using latch_step [OF W(1), of "unit_core_in U I"] W(2) idle by simp
  next
    case False
    then have "calc_cycle 8 W S (\<lambda>_. 0) (u_core U) (\<lambda>_. None) (unit_core_in U I) None"
      using W(1) idle by (simp add: calc_cycle_def)
    from core_step_rel [OF this] show ?thesis using W(2) False by (simp add: pipe_step_empty)
  qed
qed

lemma settled_idle_step:
  assumes set: "settled E S n U" and idle: "\<not> st_sink_valid I"
  shows "taken_beats U I = []" and "keeps n U (sent (u_stream U) (unit_stream_in U I)) (unit_step U I)"
    and "no_control I \<or> writes_reg 0 I \<Longrightarrow>
      settled E S n (unit_step U I) \<and> \<not> latch_pulse (u_ctrl (unit_step U I))"
    and "writes_reg 7 I \<Longrightarrow> bit (avs_writedata I) 0 \<Longrightarrow> settled S S n (unit_step U I)"
proof -
  show "taken_beats U I = []" using idle by (simp add: taken_beats_def)
  obtain W where W: "core_rel 8 W S (\<lambda>_. 0) (u_core U) (\<lambda>_. None)"
    and inv: "stream_inv (u_stream U)" and n: "seq_total_rows (u_ctrl U) = n"
    using set by (auto simp: settled_def)
  have n': "stream_total_rows (unit_stream_in U I) = n" using n by (simp add: unit_stream_in_def)
  have "\<not> fifo_push (u_stream U) (unit_stream_in U I)"
    using load_valid_out [OF load_starts [OF W]] by (simp add: fifo_push_def unit_stream_in_def)
  then show "keeps n U (sent (u_stream U) (unit_stream_in U I)) (unit_step U I)"
    using stream_step_flits [OF inv n'] stream_step_row_no [OF inv n'] by (simp add: keeps_def)
  note core = settled_core_step [OF set idle] and inv' = stream_step_inv [OF inv]
  show "no_control I \<or> writes_reg 0 I \<Longrightarrow>
      settled E S n (unit_step U I) \<and> \<not> latch_pulse (u_ctrl (unit_step U I))"
    using core inv' n no_control_step [of I] write_mode_step [of I] by (auto simp: settled_def)
  show "writes_reg 7 I \<Longrightarrow> bit (avs_writedata I) 0 \<Longrightarrow> settled S S n (unit_step U I)"
    using core inv' n write_latch_step [of I] by (auto simp: settled_def)
qed

lemma settled_idle_run:
  assumes "settled E S n U" and "\<forall>I\<in>set Ds. \<not> st_sink_valid I \<and> no_control I"
    and "unit_run Ds U = (acc, out, V)"
  shows "acc = [] \<and> keeps n U out V \<and> settled E S n V"
  using assms
proof (induction Ds arbitrary: U acc out)
  case Nil
  then show ?case by (simp add: keeps_def)
next
  case (Cons I Ds)
  have I: "\<not> st_sink_valid I" "no_control I" using Cons.prems(2) by simp_all
  note step = settled_idle_step [OF Cons.prems(1) I(1)]
  obtain acc1 out1 where r: "unit_run Ds (unit_step U I) = (acc1, out1, V)"
    and e: "acc = taken_beats U I @ acc1" "out = sent (u_stream U) (unit_stream_in U I) @ out1"
    using Cons.prems(3) by (rule unit_run_Cons)
  have "settled E S n (unit_step U I)" using step(3) I(2) by blast
  from Cons.IH [OF this _ r] Cons.prems(2) step(1,2) show ?case
    unfolding e by (auto intro: keeps_trans)
qed

section \<open>The whole sequence\<close>

text \<open>
  The cycles of one use of the unit: a write of the load mode, the weight beats, a pause of at
  least 14 cycles, the latch pulse, idle cycles, a write of the multiply mode, the input beats.
\<close>

definition npu_sequence ::
  "unit_in \<Rightarrow> unit_in list \<Rightarrow> unit_in list \<Rightarrow> unit_in \<Rightarrow> unit_in list \<Rightarrow> unit_in \<Rightarrow> unit_in list \<Rightarrow> bool" where
  "npu_sequence ld Ls Qs lt Ds mul Xs \<longleftrightarrow>
     writes_reg 0 ld \<and> bit (avs_writedata ld) 1 \<and> \<not> st_sink_valid ld \<and>
     (\<forall>I\<in>set (Ls @ Qs @ Ds @ Xs). no_control I) \<and>
     (\<forall>I\<in>set Qs. \<not> st_sink_valid I) \<and> 14 \<le> length Qs \<and>
     writes_reg 7 lt \<and> bit (avs_writedata lt) 0 \<and> \<not> st_sink_valid lt \<and>
     (\<forall>I\<in>set Ds. \<not> st_sink_valid I) \<and>
     writes_reg 0 mul \<and> \<not> bit (avs_writedata mul) 1 \<and> \<not> st_sink_valid mul"

lemma npu_sequence_facts:
  assumes "npu_sequence ld Ls Qs lt Ds mul Xs"
  shows "writes_reg 0 ld" "bit (avs_writedata ld) 1" "\<not> st_sink_valid ld"
    "\<forall>I\<in>set (Ls @ Qs). no_control I" "\<forall>I\<in>set Qs. \<not> st_sink_valid I" "14 \<le> length Qs"
    "writes_reg 7 lt" "bit (avs_writedata lt) 0" "\<not> st_sink_valid lt"
    "\<forall>I\<in>set Ds. \<not> st_sink_valid I \<and> no_control I"
    "writes_reg 0 mul" "\<not> bit (avs_writedata mul) 1" "\<not> st_sink_valid mul"
    "\<forall>I\<in>set Xs. no_control I"
  using assms by (auto simp: npu_sequence_def)

lemma unit_run_append_obtain:
  assumes "unit_run (Is @ Js) U = (acc, out, V)"
  obtains acc1 out1 V1 acc2 out2 where "unit_run Is U = (acc1, out1, V1)"
    and "unit_run Js V1 = (acc2, out2, V)" and "acc = acc1 @ acc2" and "out = out1 @ out2"
  using assms by (auto simp: unit_run_append split: prod.splits)

text \<open>After the latch: the idle cycles and the write of the multiply mode.\<close>

lemma settled_to_calc:
  assumes set: "settled E S n U" and idle: "\<forall>I\<in>set Ds. \<not> st_sink_valid I \<and> no_control I"
    and mul: "writes_reg 0 mul" "\<not> bit (avs_writedata mul) 1" "\<not> st_sink_valid mul"
    and run: "unit_run (Ds @ mul # Xs) U = (acc, out, V)"
  obtains out1 U1 out2 where "unit_run Xs U1 = (acc, out2, V)" and "out = out1 @ out2"
    and "keeps n U out1 U1" and "unit_calc E S n (\<lambda>_. None) U1"
proof -
  obtain acc1 out1 V1 acc2 out2 where r: "unit_run Ds U = (acc1, out1, V1)"
    "unit_run (mul # Xs) V1 = (acc2, out2, V)" "acc = acc1 @ acc2" "out = out1 @ out2"
    using run by (rule unit_run_append_obtain)
  note D = settled_idle_run [OF set idle r(1)]
  then have V1: "settled E S n V1" by simp
  obtain acc3 out3 where r3: "unit_run Xs (unit_step V1 mul) = (acc3, out3, V)"
    "acc2 = taken_beats V1 mul @ acc3" "out2 = sent (u_stream V1) (unit_stream_in V1 mul) @ out3"
    using r(2) by (rule unit_run_Cons)
  note step = settled_idle_step [OF V1 mul(3)]
  have "settled E S n (unit_step V1 mul)" "\<not> latch_pulse (u_ctrl (unit_step V1 mul))"
    using step(3) mul(1) by auto
  then have "unit_calc E S n (\<lambda>_. None) (unit_step V1 mul)"
    using write_mode_step(1) [OF mul(1), of "u_ctrl V1"] mul(2) by (auto simp: settled_def unit_calc_def)
  then show ?thesis
    using that [of "unit_step V1 mul" out3 "out1 @ sent (u_stream V1) (unit_stream_in V1 mul)"] r r3 D step(1,2)
    by (auto intro: keeps_trans)
qed

text \<open>From the write of the load mode to the latch pulse.\<close>

lemma settled_load:
  assumes set: "settled E S n U" and ld: "writes_reg 0 ld" "bit (avs_writedata ld) 1" "\<not> st_sink_valid ld"
    and ctl: "\<forall>I\<in>set (Ls @ Qs). no_control I" and idle: "\<forall>I\<in>set Qs. \<not> st_sink_valid I"
    and wait: "14 \<le> length Qs"
    and run: "unit_run (ld # Ls @ Qs) U = (acc, out, V)"
  shows "acc = offered Ls \<and> keeps n U out V \<and> settled E (loaded S (map lanes (offered Ls))) n V"
proof -
  obtain acc1 out1 where r: "unit_run (Ls @ Qs) (unit_step U ld) = (acc1, out1, V)"
    and e: "acc = taken_beats U ld @ acc1" "out = sent (u_stream U) (unit_stream_in U ld) @ out1"
    using run by (rule unit_run_Cons)
  note step = settled_idle_step [OF set ld(3)]
  have U1: "settled E S n (unit_step U ld)" and mode: "load_mode (unit_step U ld)"
    using step(3) ld(1,2) write_mode_step(1) [OF ld(1), of "u_ctrl U"] by (auto simp: load_mode_def)
  then have rel: "core_rel 8 E S (\<lambda>_. 0) (u_core (unit_step U ld)) (\<lambda>_. None)"
    and inv: "stream_inv (u_stream (unit_step U ld))" and n: "seq_total_rows (u_ctrl (unit_step U ld)) = n"
    by (auto simp: settled_def load_mode_def)
  note load = unit_load_run [OF rel mode inv ctl r, unfolded n]
  have ctrl: "seq_total_rows (u_ctrl V) = n" "\<not> latch_pulse (u_ctrl V)"
    using unit_run_ctrl [OF ctl, of "unit_step U ld"] mode n r by (auto simp: load_mode_def)
  have "acc = offered Ls"
    using load step(1) idle unfolding e by (simp add: offered_def)
  moreover have "keeps n U out V"
    unfolding e using load by (intro keeps_trans [OF step(2)]) (simp add: keeps_def)
  moreover have "settled E (loaded S (map lanes (offered Ls))) n V"
    unfolding settled_def using load ctrl unit_load_weights [OF rel mode ctl idle wait r]
    by (simp add: exI [of _ E])
  ultimately show ?thesis by blast
qed

text \<open>The sequence up to the write of the multiply mode.\<close>

lemma npu_reaches_calc:
  assumes set: "settled E S n U" and seq: "npu_sequence ld Ls Qs lt Ds mul Xs"
    and run: "unit_run ((ld # Ls @ Qs) @ lt # Ds @ mul # Xs) U = (acc, out, V)"
    and W: "W = loaded S (map lanes (offered Ls))"
  obtains xs out0 out1 U1 where "acc = offered Ls @ xs" and "out = out0 @ out1" and "keeps n U out0 U1"
    and "unit_calc W W n (\<lambda>_. None) U1" and "unit_run Xs U1 = (xs, out1, V)"
proof -
  note q = npu_sequence_facts [OF seq]
  obtain acc1 out1 V1 acc2 out2 where r: "unit_run (ld # Ls @ Qs) U = (acc1, out1, V1)"
    "unit_run (lt # Ds @ mul # Xs) V1 = (acc2, out2, V)" "acc = acc1 @ acc2" "out = out1 @ out2"
    using run by (rule unit_run_append_obtain)
  have V1: "acc1 = offered Ls \<and> keeps n U out1 V1 \<and> settled E W n V1"
    unfolding W by (rule settled_load [OF set q(1-6) r(1)])
  obtain acc3 out3 where r3: "unit_run (Ds @ mul # Xs) (unit_step V1 lt) = (acc3, out3, V)"
    and e3: "acc2 = taken_beats V1 lt @ acc3" "out2 = sent (u_stream V1) (unit_stream_in V1 lt) @ out3"
    using r(2) by (rule unit_run_Cons)
  have lt: "taken_beats V1 lt = []" "keeps n V1 (sent (u_stream V1) (unit_stream_in V1 lt)) (unit_step V1 lt)"
    "settled W W n (unit_step V1 lt)"
    using settled_idle_step(1,2,4) [OF _ q(9), of E W n V1] V1 q(7,8) by simp_all
  obtain out4 U1 out5 where r4: "unit_run Xs U1 = (acc3, out5, V)" "out3 = out4 @ out5"
    "keeps n (unit_step V1 lt) out4 U1" "unit_calc W W n (\<lambda>_. None) U1"
    by (rule settled_to_calc [OF lt(3) q(10-13) r3])
  have "keeps n U (out1 @ sent (u_stream V1) (unit_stream_in V1 lt) @ out4) U1"
    using V1 by (intro keeps_trans [OF _ keeps_trans [OF lt(2) r4(3)]]) simp
  with r4 show ?thesis using that [of acc3 _ out5 U1] r(3,4) e3 lt(1) V1 by simp
qed

lemma npu_unit_sequence:
  assumes set: "settled E S n U" and seq: "npu_sequence ld Ls Qs lt Ds mul Xs"
    and run: "unit_run ((ld # Ls @ Qs) @ lt # Ds @ mul # Xs) U = (acc, out, V)"
    and W: "W = loaded S (map lanes (offered Ls))"
  shows "\<exists>p xs. acc = offered Ls @ xs \<and> unit_calc W W n p V \<and>
    out @ owed W n p [] V =
      to_send n (u_stream U) @ seq_flits n (row_no n (u_stream U)) (map (out_row W) (map lanes xs))"
proof -
  obtain xs out0 out1 U1 where r: "acc = offered Ls @ xs" "out = out0 @ out1" "keeps n U out0 U1"
    "unit_calc W W n (\<lambda>_. None) U1" "unit_run Xs U1 = (xs, out1, V)"
    by (rule npu_reaches_calc [OF set seq run W])
  from unit_calc_run [OF r(4) npu_sequence_facts(14) [OF seq] r(5)]
  obtain p' where p': "unit_calc W W n p' V" "out1 @ owed W n p' [] V = owed W n (\<lambda>_. None) (map lanes xs) U1"
    by auto
  then have "out @ owed W n p' [] V =
      to_send n (u_stream U) @ seq_flits n (row_no n (u_stream U)) (map (out_row W) (map lanes xs))"
    using r(2,3) by (simp add: keeps_def owed_def tokens_empty)
  with r(1) p'(1) show ?thesis by blast
qed

end
