(* ===== verification/Rtl_Drain.thy ===== *)
theory Rtl_Drain
  imports Rtl_Phases
begin

text \<open>
  Progress of the NPU: with the receiver ready and no further beats every row leaves the unit in a
  bounded number of cycles, and up to eight rows are taken without a stall, whatever the receiver does.
\<close>

section \<open>The work that is left\<close>

text \<open>Five cycles for a queued row, one for each flit of the row that is being sent.\<close>

definition stream_work :: "stream \<Rightarrow> nat" where
  "stream_work s = 5 * length (fifo_rows s) + (if tx_active s then 4 - unat (tx_count s) else 0)"

lemma stream_work_0: "stream_inv s \<Longrightarrow> stream_work s = 0 \<longleftrightarrow> fifo_rows s = [] \<and> \<not> tx_active s"
  by (auto simp: stream_work_def stream_inv_def simp flip: length_0_conv)

lemma stream_work_pending: "stream_inv s \<Longrightarrow> stream_work s = 0 \<Longrightarrow> to_send n s = []"
  by (simp add: stream_work_0 to_send_def)

lemma stream_work_step:
  assumes inv: "stream_inv s" and rdy: "st_source_ready i"
  shows "stream_work (stream_step s i) + (if stream_work s = 0 then 0 else 1) \<le>
    stream_work s + (if fifo_push s i then 5 else 0)"
proof -
  have act: "tx_sending_flit s = tx_active s" using inv by (simp add: stream_inv_def)
  have empty: "fifo_empty s \<longleftrightarrow> unat (fifo_count s) = 0" by (simp add: fifo_empty_def unat_eq_0)
  note count = fifo_count_step [OF inv, of i] and step = stream_step_tx [of s i]
  consider (pop) "fifo_pop s i" | (idle) "\<not> fifo_pop s i" "\<not> tx_active s"
    | (shift) "\<not> fifo_pop s i" "tx_active s" "tx_count s \<noteq> 3"
    | (drained) "\<not> fifo_pop s i" "tx_active s" "tx_count s = 3"
    by auto
  then show ?thesis
  proof cases
    case pop
    moreover have "tx_active s \<Longrightarrow> tx_count s = 3" using pop by (auto simp: fifo_pop_def)
    moreover have "tx_active (stream_step s i)" using pop by (auto simp: stream_step_tx fifo_pop_def)
    ultimately show ?thesis
      using fifo_pop_nonempty [OF pop] count by (auto simp: stream_work_def stream_step_tx)
  next
    case idle
    then show ?thesis using count empty by (auto simp: stream_work_def stream_step_tx fifo_pop_def)
  next
    case shift
    then show ?thesis
      using count act rdy unat_tx_count [OF inv] by (auto simp: stream_work_def stream_step_tx)
  next
    case drained
    then show ?thesis
      using count act rdy empty by (auto simp: stream_work_def stream_step_tx fifo_pop_def)
  qed
qed

definition unit_work :: "row pipe \<Rightarrow> npu_unit \<Rightarrow> nat" where
  "unit_work p U = 6 * distance (stages 8) p + stream_work (u_stream U)"

section \<open>Draining\<close>

lemma unit_work_step:
  assumes rel: "unit_calc W S n p U" and idle: "\<not> st_sink_valid I" and rdy: "source_ready I"
  shows "unit_work (pipe_step (stages 8) p (unit_token I) (pe_ready_out (u_stream U))) (unit_step U I) \<le>
    unit_work p U - 1"
proof -
  let ?p = "pipe_step (stages 8) p None (pe_ready_out (u_stream U))"
  let ?i = "unit_stream_in U I" and ?s = "u_stream U"
  have inv: "stream_inv ?s" using rel by (simp add: unit_calc_def)
  have tok: "unit_token I = None" using idle by (simp add: unit_token_def)
  have work: "stream_work (stream_step ?s ?i) + (if stream_work ?s = 0 then 0 else 1) \<le>
      stream_work ?s + (if fifo_push ?s ?i then 5 else 0)"
    by (rule stream_work_step [OF inv]) (simp add: unit_stream_in_def rdy)
  have far: "distance (stages 8) ?p \<le> distance (stages 8) p" by (rule distance_step)
  have near: "distance (stages 8) ?p + length (tokens (stages 8) p) = distance (stages 8) p"
    if "pe_ready_out ?s"
    using that distance_step_ready [of "stages 8" p] by simp
  have push: "pe_ready_out ?s \<and> tokens (stages 8) p \<noteq> []" if "fifo_push ?s ?i"
  proof -
    have "core_valid_out 8 (u_core U)" "pe_ready_out ?s"
      using that by (auto simp: fifo_push_def pe_ready_out_def unit_stream_in_def)
    then have "p (stages 8 - 1) \<noteq> None"
      using valid_out [OF unit_calc_cycle [OF rel, of I]] by simp
    then have "card {d. d < stages 8 \<and> p d \<noteq> None} \<noteq> 0"
      by (auto simp: stages_def card_eq_0_iff intro!: exI [of _ 14])
    then have "length (tokens (stages 8) p) \<noteq> 0" by (simp only: length_tokens not_False_eq_True)
    then show ?thesis using \<open>pe_ready_out ?s\<close> by simp
  qed
  have ready: "pe_ready_out ?s" if "stream_work ?s = 0"
    using that by (simp add: pe_ready_out_def out_fifo_full_iff stream_work_def)
  show ?thesis
  proof (cases "tokens (stages 8) p = []")
    case True
    then have "distance (stages 8) p = 0" by (simp add: distance_0)
    with True show ?thesis using work far push by (auto simp: unit_work_def tok split: if_splits)
  next
    case False
    then have "0 < length (tokens (stages 8) p)" by simp
    then have nearer: "distance (stages 8) ?p < distance (stages 8) p" if "pe_ready_out ?s"
      using near [OF that] by linarith
    have "6 * distance (stages 8) ?p + stream_work (stream_step ?s ?i) <
        6 * distance (stages 8) p + stream_work ?s"
    proof (cases "fifo_push ?s ?i")
      case True
      then show ?thesis using work nearer push by (simp split: if_splits)
    next
      case False
      then show ?thesis using work far nearer ready by (cases "stream_work ?s = 0") simp_all
    qed
    then show ?thesis by (simp add: unit_work_def tok)
  qed
qed

lemma core_rel_cong:
  assumes rel: "core_rel N W S Y C p" and eq: "\<And>d. d < stages N \<Longrightarrow> p d = q d"
  shows "core_rel N W S Y C q"
proof -
  have "p j = q j" if "i < N" "j < i" for i j
    using that by (intro eq) (simp add: stages_def)
  moreover have "p (i + j) = q (i + j)" if "i < N" "j < N" for i j
    using that by (intro eq) (simp add: stages_def)
  moreover have "p (N + j + k) = q (N + j + k)" if "j < N" "k < DELAY N j" for j k
    using that by (intro eq) (simp add: stages_def DELAY_def)
  ultimately show ?thesis using rel by (simp add: core_rel_def)
qed

definition drain_cycle :: "unit_in \<Rightarrow> bool" where
  "drain_cycle I \<longleftrightarrow> no_control I \<and> \<not> st_sink_valid I \<and> source_ready I"

lemma unit_drains:
  assumes "unit_calc W S n p U" and "\<forall>I\<in>set Rs. drain_cycle I" and "unit_work p U \<le> length Rs"
    and "unit_run Rs U = (acc, out, V)"
  shows "acc = [] \<and> out = owed W n p [] U \<and> unit_calc W S n (\<lambda>_. None) V \<and> stream_work (u_stream V) = 0"
  using assms
proof (induction Rs arbitrary: U p acc out)
  case Nil
  then have "tokens (stages 8) p = []" "stream_work (u_stream U) = 0"
    by (simp_all add: unit_work_def distance_0)
  moreover have "p d = None" if "d < stages 8" for d
    using Nil.prems(3) that by (auto simp: unit_work_def distance_def split: if_splits)
  then have "core_rel 8 W S (\<lambda>_. 0) (u_core U) (\<lambda>_. None)"
    using Nil.prems(1) core_rel_cong [of 8 W S "\<lambda>_. 0" "u_core U" p "\<lambda>_. None"]
    by (simp add: unit_calc_def)
  ultimately show ?case
    using Nil.prems stream_work_pending by (simp add: owed_def unit_calc_def)
next
  case (Cons I Rs)
  then have I: "no_control I" "\<not> st_sink_valid I" "source_ready I" by (simp_all add: drain_cycle_def)
  note step = unit_calc_step [OF Cons.prems(1) I(1)]
  obtain acc1 out1 where r: "unit_run Rs (unit_step U I) = (acc1, out1, V)"
    and e: "acc = taken_beats U I @ acc1" "out = sent (u_stream U) (unit_stream_in U I) @ out1"
    using Cons.prems(4) by (rule unit_run_Cons)
  have "taken_beats U I = []" using I(2) by (simp add: taken_beats_def)
  with Cons.IH [OF step(1) _ _ r] unit_work_step [OF Cons.prems(1) I(2,3)] Cons.prems(2,3) step(2) [of "[]"]
  show ?case unfolding e by simp
qed

section \<open>Eight rows without a stall\<close>

definition rows_inside :: "row pipe \<Rightarrow> npu_unit \<Rightarrow> nat" where
  "rows_inside p U = length (tokens (stages 8) p) + length (fifo_rows (u_stream U))"

lemma length_opt_list [simp]: "length (opt_list a) = (if a = None then 0 else 1)"
  by (cases a) simp_all

lemma rows_inside_step:
  assumes rel: "unit_calc W S n p U"
  shows "rows_inside (pipe_step (stages 8) p (unit_token I) (pe_ready_out (u_stream U))) (unit_step U I) \<le>
    rows_inside p U + length (taken_beats U I)"
proof -
  let ?r = "pe_ready_out (u_stream U)"
  have inv: "stream_inv (u_stream U)" using rel by (simp add: unit_calc_def)
  have "unit_token I = input_token (unit_core_in U I)" by (simp add: input_token_def unit_token_def)
  from unit_push [OF rel this]
  have "length (popped (stages 8) p (unit_token I) ?r) =
      (if fifo_push (u_stream U) (unit_stream_in U I) then 1 else 0)"
    by (auto dest: arg_cong [where f = length])
  moreover have "length (popped (stages 8) p (unit_token I) ?r) +
      length (tokens (stages 8) (pipe_step (stages 8) p (unit_token I) ?r)) =
      length (tokens (stages 8) p) + length (taken_beats U I)"
    using arg_cong [OF pipe_step_queue [of "stages 8" p "unit_token I" ?r], of length]
      arg_cong [OF unit_taken [OF rel, of I], of length] by simp
  moreover have "length (fifo_rows (stream_step (u_stream U) (unit_stream_in U I))) \<le>
      length (fifo_rows (u_stream U)) + (if fifo_push (u_stream U) (unit_stream_in U I) then 1 else 0)"
    by (simp add: fifo_rows_step [OF inv])
  ultimately show ?thesis by (simp add: rows_inside_def)
qed

lemma unit_takes_eight:
  assumes "unit_calc W S n p U" and "\<forall>I\<in>set Is. no_control I"
    and "rows_inside p U + length (offered Is) \<le> 8" and "unit_run Is U = (acc, out, V)"
  shows "acc = offered Is \<and>
    (\<exists>p'. unit_calc W S n p' V \<and> rows_inside p' V \<le> 8 \<and> out @ owed W n p' [] V = owed W n p (map lanes acc) U)"
  using assms
proof (induction Is arbitrary: U p acc out)
  case Nil
  then show ?case by (auto simp: offered_def)
next
  case (Cons I Is)
  then have I: "no_control I" by simp
  note step = unit_calc_step [OF Cons.prems(1) I]
  obtain acc1 out1 where r: "unit_run Is (unit_step U I) = (acc1, out1, V)"
    and e: "acc = taken_beats U I @ acc1" "out = sent (u_stream U) (unit_stream_in U I) @ out1"
    using Cons.prems(4) by (rule unit_run_Cons)
  have taken_beats: "taken_beats U I = offered [I]"
  proof (cases "st_sink_valid I")
    case True
    then have "length (fifo_rows (u_stream U)) < 8"
      using Cons.prems(3) by (simp add: rows_inside_def offered_def)
    then have rdy: "pe_ready_out (u_stream U)" by (simp add: pe_ready_out_def out_fifo_full_iff)
    then have "map lanes (taken_beats U I) = [lanes (st_sink_data I)]"
      using True unit_taken [OF Cons.prems(1), of I] by (simp add: moves_ready unit_token_def)
    then show ?thesis using True by (auto simp: taken_beats_def offered_def split: if_splits)
  qed (simp add: taken_beats_def offered_def)
  have room: "rows_inside (pipe_step (stages 8) p (unit_token I) (pe_ready_out (u_stream U))) (unit_step U I) +
      length (offered Is) \<le> 8"
    using rows_inside_step [OF Cons.prems(1), of I] Cons.prems(3) taken_beats by (simp add: offered_def split: if_splits)
  have ctl: "\<forall>I\<in>set Is. no_control I" using Cons.prems(2) by simp
  from Cons.IH [OF step(1) ctl room r] step(2) [of "map lanes acc1"] taken_beats show ?case
    unfolding e by (auto simp: offered_def)
qed

lemma unit_work_bound: "unit_calc W S n p U \<Longrightarrow> rows_inside p U \<le> 8 \<Longrightarrow> unit_work p U \<le> 724"
proof -
  assume rel: "unit_calc W S n p U" and rows: "rows_inside p U \<le> 8"
  have "distance (stages 8) p \<le> 15 * length (tokens (stages 8) p)"
    using distance_bound [of "stages 8" p] by (simp add: stages_def)
  moreover have "stream_work (u_stream U) \<le> 5 * length (fifo_rows (u_stream U)) + 4"
    by (simp add: stream_work_def)
  ultimately show ?thesis using rows by (simp add: unit_work_def rows_inside_def)
qed

text \<open>
  A batch of up to eight rows: every beat is taken, and the flits of its results are sent within 724
  cycles in which the receiver is ready.
\<close>

lemma unit_batch:
  assumes rel: "unit_calc W S n p U" and ctl: "\<forall>I\<in>set Is. no_control I"
    and room: "rows_inside p U + length (offered Is) \<le> 8"
    and drain: "\<forall>I\<in>set Rs. drain_cycle I" "724 \<le> length Rs"
    and run: "unit_run (Is @ Rs) U = (acc, out, V)"
  shows "acc = offered Is \<and> out = owed W n p (map lanes (offered Is)) U \<and>
    unit_calc W S n (\<lambda>_. None) V \<and> stream_work (u_stream V) = 0"
proof -
  obtain acc1 out1 V1 acc2 out2 where r: "unit_run Is U = (acc1, out1, V1)"
    "unit_run Rs V1 = (acc2, out2, V)" "acc = acc1 @ acc2" "out = out1 @ out2"
    using run by (rule unit_run_append_obtain)
  from unit_takes_eight [OF rel ctl room r(1)] obtain p' where p': "acc1 = offered Is"
    "unit_calc W S n p' V1" "rows_inside p' V1 \<le> 8" "out1 @ owed W n p' [] V1 = owed W n p (map lanes acc1) U"
    by auto
  have "unit_work p' V1 \<le> length Rs" using unit_work_bound [OF p'(2,3)] drain(2) by simp
  from unit_drains [OF p'(2) drain(1) this r(2)] p' r show ?thesis by simp
qed

end
