(* ===== verification/Rtl_System.thy ===== *)
theory Rtl_System
  imports Rtl_Drain
begin

text \<open>
  The hardware with the software around it: the words that leave the NPU are the exact matrix
  products, the packet marks frame the sequence, and with the driver's formatting on one side
  and its parsing on the other the NPU computes what \<open>cpu_matmul_8x8\<close> computes.
\<close>

section \<open>Reading the flits\<close>

lemma row_word_lane:
  assumes "length ys = 8" and "j < 8"
  shows "ucast (drop_bit (32 * j) (row_word ys)) = ys ! j"
proof (rule bit_word_eqI)
  fix n
  assume n: "n < LENGTH(32)"
  have "bit (row_word ys) (32 * j + n) = bit (ys ! j) n"
    using assms n bit_horner_sum_uint_exp_iff [of ys "32 * j + n"]
    by (simp add: row_word_def word_rcat_def bit_simps)
  then show "bit (ucast (drop_bit (32 * j) (row_word ys)) :: u32) n = bit (ys ! j) n"
    using n by (simp add: bit_simps)
qed

text \<open>The two 32-bit words of a flit.\<close>

definition flit_word :: "u64 \<Rightarrow> nat \<Rightarrow> u32" where
  "flit_word d h = ucast (drop_bit (32 * h) d)"

lemma flit_word_of_row:
  assumes "h < 2"
  shows "flit_word (ucast (drop_bit (64 * k) w)) h = ucast (drop_bit (32 * (2 * k + h)) (w :: u256))"
  unfolding flit_word_def
proof (rule bit_word_eqI)
  fix n
  assume n: "n < LENGTH(32)"
  have "32 * h + n < 64" "64 * k + (32 * h + n) = 32 * (2 * k + h) + n" using n assms by auto
  then show "bit (ucast (drop_bit (32 * h) (ucast (drop_bit (64 * k) w) :: u64)) :: u32) n =
      bit (ucast (drop_bit (32 * (2 * k + h)) w) :: u32) n"
    using n by (simp add: bit_simps add.assoc)
qed

lemma length_row_flits [simp]: "length (row_flits n r c w) = 4 - c"
  by (simp add: row_flits_def)

lemma length_seq_flits [simp]: "length (seq_flits n r ws) = 4 * length ws"
  by (induction ws arbitrary: r) simp_all

text \<open>Flit \<open>k\<close> of row \<open>m\<close>.\<close>

lemma seq_flits_nth:
  assumes "m < length ws" and "k < 4"
  shows "seq_flits n r ws ! (4 * m + k) =
    (ucast (drop_bit (64 * k) (ws ! m)), k = 0 \<and> (next_row n ^^ m) r = 0,
     0 < n \<and> k = 3 \<and> (next_row n ^^ m) r = n - 1)"
  using assms
proof (induction ws arbitrary: m r)
  case (Cons w ws)
  show ?case
  proof (cases m)
    case 0
    then show ?thesis using Cons.prems by (simp add: nth_append row_flits_def)
  next
    case (Suc l)
    then have "seq_flits n r (w # ws) ! (4 * m + k) = seq_flits n (next_row n r) ws ! (4 * l + k)"
      by (simp add: nth_append)
    with Cons.IH [of l "next_row n r"] Cons.prems Suc show ?thesis by (simp add: funpow_swap1)
  qed
qed simp

text \<open>Rows are numbered modulo the length of the sequence.\<close>

lemma next_row_count:
  assumes "0 < n"
  shows "(next_row n ^^ m) 0 = of_nat (m mod unat n)"
proof (induction m)
  case (Suc m)
  have n: "0 < unat n" using assms by (simp add: unat_gt_0)
  have less: "m mod unat n < unat n" using n by simp
  have n32: "unat n < 2 ^ LENGTH(32)" by (rule unsigned_less)
  then have u: "unat (of_nat (m mod unat n) :: u32) = m mod unat n"
    using order.strict_trans [OF less n32] by (simp add: unat_of_nat)
  have "(of_nat (m mod unat n) = n - 1) \<longleftrightarrow> (m mod unat n = unat n - 1)"
    unfolding word_unat_eq_iff u using assms by (simp add: unat_sub word_le_nat_alt Suc_le_eq unat_gt_0)
  moreover have "Suc m mod unat n = (if m mod unat n = unat n - 1 then 0 else Suc (m mod unat n))"
    using n by (auto simp: mod_Suc)
  ultimately show ?case using Suc assms by (simp add: next_row_def)
qed simp

section \<open>The products\<close>

lemma psum_sum: "psum W Y x i c = Y c + (\<Sum>r<Suc i. scast (x r) * scast (W r c))"
  by (induction i) (simp_all add: mult_ext_word add.assoc)

lemma psum_cong: "(\<And>r. r \<le> i \<Longrightarrow> x r = x' r \<and> W r c = W' r c) \<Longrightarrow> psum W Y x i c = psum W' Y x' i c"
  by (induction i) simp_all

text \<open>
  The lanes may reach the array in any order \<open>\<pi>\<close>, the same one for weights and inputs; the sums do not change.
\<close>

lemma psum_permuted:
  fixes \<pi> :: "nat \<Rightarrow> nat"
  assumes pi: "bij_betw \<pi> {..<8} {..<8}"
    and x: "\<And>i. i < 8 \<Longrightarrow> x (\<pi> i) = a i" and W: "\<And>i. i < 8 \<Longrightarrow> W (\<pi> i) c = Bm i c"
  shows "psum W (\<lambda>_. 0) x 7 c = of_int (\<Sum>k<8. sint (a k) * sint (Bm k c))"
proof -
  have "psum W (\<lambda>_. 0) x 7 c = (\<Sum>r\<in>{..<8}. scast (x r) * scast (W r c))"
    by (simp add: psum_sum)
  also have "\<dots> = (\<Sum>k\<in>{..<8}. scast (x (\<pi> k)) * scast (W (\<pi> k) c))"
    using sum.reindex_bij_betw [OF pi, of "\<lambda>r. scast (x r) * scast (W r c) :: u32"] by simp
  also have "\<dots> = (\<Sum>k\<in>{..<8}. scast (a k) * scast (Bm k c))"
    by (intro sum.cong) (simp_all add: x W)
  finally show ?thesis by simp
qed

lemma out_row_word:
  assumes "j < 8" shows "ucast (drop_bit (32 * j) (out_row W x)) = psum W (\<lambda>_. 0) x 7 j"
  using assms row_word_lane [of "core_product 8 W (\<lambda>_. 0) x" j]
  by (simp add: out_row_def core_product_def)

lemma out_row_flit:
  assumes "c < 8"
  shows "flit_word (ucast (drop_bit (64 * (c div 2)) (out_row W x))) (c mod 2) = psum W (\<lambda>_. 0) x 7 c"
proof -
  have "2 * (c div 2) + c mod 2 = c" by simp
  then show ?thesis
    using flit_word_of_row [of "c mod 2" "c div 2" "out_row W x"] out_row_word [OF assms] by simp
qed

lemma pending_empty: "stream_inv s \<Longrightarrow> to_send n s = [] \<longleftrightarrow> stream_work s = 0"
proof -
  assume inv: "stream_inv s"
  have "row_flits n r (unat (tx_count s)) w \<noteq> []" for r w
    using inv by (auto simp: stream_inv_def row_flits_def)
  then have "to_send n s = [] \<longleftrightarrow> \<not> tx_active s \<and> fifo_rows s = []"
    by (cases "fifo_rows s") (auto simp: to_send_def row_flits_def)
  then show ?thesis using stream_work_0 [OF inv] by blast
qed

text \<open>An idle unit with nothing queued, the number of the next row being 0.\<close>

definition unit_ready :: "u32 \<Rightarrow> npu_unit \<Rightarrow> bool" where
  "unit_ready n U \<longleftrightarrow> (\<exists>E S. settled E S n U) \<and> stream_work (u_stream U) = 0 \<and> tx_row_count (u_stream U) = 0"

lemma unit_ready_facts:
  assumes "unit_ready n U"
  obtains E S where "settled E S n U" "to_send n (u_stream U) = []" "row_no n (u_stream U) = 0"
proof -
  obtain E S where s: "settled E S n U" using assms by (auto simp: unit_ready_def)
  then have inv: "stream_inv (u_stream U)" by (simp add: settled_def)
  then have "fifo_rows (u_stream U) = [] \<and> \<not> tx_active (u_stream U)"
    using assms stream_work_0 [OF inv] by (simp add: unit_ready_def)
  with assms show ?thesis by (intro that [OF s]) (simp_all add: to_send_def row_no_def unit_ready_def)
qed

text \<open>Eight weight beats whose lane \<open>\<pi> i\<close> is row \<open>i\<close> of the columns, the last column first.\<close>

definition weight_beats :: "(nat \<Rightarrow> nat) \<Rightarrow> mat8 \<Rightarrow> u64 list \<Rightarrow> bool" where
  "weight_beats \<pi> Bm ds \<longleftrightarrow>
     length ds = 8 \<and> (\<forall>t<8. \<forall>i<8. lanes (ds ! t) (\<pi> i) = Bm i (7 - t))"

lemma loaded_weights:
  assumes "weight_beats \<pi> Bm ds" and "c < 8" and "i < 8"
  shows "loaded S (map lanes ds) (\<pi> i) c = Bm i c"
  using assms by (simp add: loaded_def weight_beats_def)

definition row_product :: "(nat \<Rightarrow> u8) \<Rightarrow> mat8 \<Rightarrow> nat \<Rightarrow> u32" where
  "row_product a Bm c = of_int (\<Sum>k<8. sint (a k) * sint (Bm k c))"

lemma flits_of_products:
  assumes pi: "bij_betw \<pi> {..<8} {..<8}" and W: "W = loaded S (map lanes ds)" "weight_beats \<pi> Bm ds"
    and m: "m < length xs" and c: "c < 8"
  shows "flit_word (fst (seq_flits n r (map (out_row W) (map lanes xs)) ! (4 * m + c div 2))) (c mod 2) =
    row_product (\<lambda>k. lanes (xs ! m) (\<pi> k)) Bm c"
proof -
  have "c div 2 < 4" using c by simp
  then have "fst (seq_flits n r (map (out_row W) (map lanes xs)) ! (4 * m + c div 2)) =
      ucast (drop_bit (64 * (c div 2)) (out_row W (lanes (xs ! m))))"
    using m by (simp add: seq_flits_nth)
  then show ?thesis
    using out_row_flit [OF c] psum_permuted [OF pi, of "lanes (xs ! m)" "\<lambda>k. lanes (xs ! m) (\<pi> k)" W c Bm]
      loaded_weights [OF W(2) c] by (simp add: W(1) row_product_def)
qed

text \<open>
  A batch of up to eight rows from a ready unit: every beat is taken and, after 724 cycles in which
  the receiver is ready, exactly its flits have been sent.
\<close>

lemma npu_batch:
  assumes "unit_ready n U" and seq: "npu_sequence ld Ls Qs lt Ds mul (Xs @ Rs)"
    and batch: "length (offered Xs) \<le> 8" and drain: "\<forall>I\<in>set Rs. drain_cycle I" "724 \<le> length Rs"
    and run: "unit_run ((ld # Ls @ Qs) @ lt # Ds @ mul # Xs @ Rs) U = (acc, out, V)"
  obtains S W where "W = loaded S (map lanes (offered Ls))" and "acc = offered Ls @ offered Xs"
    and "out = seq_flits n 0 (map (out_row W) (map lanes (offered Xs)))"
    and "unit_calc W W n (\<lambda>_. None) V" and "stream_work (u_stream V) = 0"
proof -
  obtain E S where U: "settled E S n U" "to_send n (u_stream U) = []" "row_no n (u_stream U) = 0"
    using assms(1) by (rule unit_ready_facts)
  define W where "W = loaded S (map lanes (offered Ls))"
  obtain xs out0 out1 U1 where r: "acc = offered Ls @ xs" "out = out0 @ out1" "keeps n U out0 U1"
    "unit_calc W W n (\<lambda>_. None) U1" "unit_run (Xs @ Rs) U1 = (xs, out1, V)"
    by (rule npu_reaches_calc [OF U(1) seq run W_def])
  have empty: "out0 = [] \<and> to_send n (u_stream U1) = [] \<and> row_no n (u_stream U1) = 0"
    using r(3) U(2,3) by (simp add: keeps_def)
  have inv: "stream_inv (u_stream U1)" using r(4) by (simp add: unit_calc_def)
  have "fifo_rows (u_stream U1) = []" using empty pending_empty [OF inv, of n] stream_work_0 [OF inv] by simp
  then have "rows_inside (\<lambda>_. None) U1 = 0" by (simp add: rows_inside_def tokens_empty)
  then have room: "rows_inside (\<lambda>_. None) U1 + length (offered Xs) \<le> 8" using batch by simp
  have ctl: "\<forall>I\<in>set Xs. no_control I" using npu_sequence_facts(14) [OF seq] by simp
  from unit_batch [OF r(4) ctl room drain r(5)]
  show ?thesis using that [OF W_def] r(1,2) empty by (simp add: owed_def tokens_empty)
qed

text \<open>
  The two DMA engines, which are not part of the sources, as relations between memory and stream.
  The read DMA presents a line of eight bytes as a beat, byte \<open>i\<close> in lane \<open>\<pi> i\<close>. The write DMA stores a
  flit as \<open>software/npu/main.c\<close> describes the bridge: the high word first, the bytes of both reversed.
\<close>

definition dma_reads :: "(nat \<Rightarrow> nat) \<Rightarrow> (u32 \<Rightarrow> u32) \<Rightarrow> u32 \<Rightarrow> u64 list \<Rightarrow> bool" where
  "dma_reads \<pi> mem d ds \<longleftrightarrow> length ds = 8 \<and>
     (\<forall>t<8. \<forall>i<8. lanes (ds ! t) (\<pi> i) = byte_of (i mod 4) (mem (word_addr d (2 * t + i div 4))))"

definition dma_writes :: "(u32 \<Rightarrow> u32) \<Rightarrow> u32 \<Rightarrow> flit list \<Rightarrow> bool" where
  "dma_writes mem d out \<longleftrightarrow>
     (\<forall>m<length out. \<forall>h<2. mem (word_addr d (2 * m + h)) = bswap32 (flit_word (fst (out ! m)) (1 - h)))"

section \<open>Sample cycles\<close>

text \<open>A cycle without bus access or beat, a register write, and a beat.\<close>

definition bus_idle :: "bool \<Rightarrow> unit_in" where
  "bus_idle rdy = \<lparr>avs_address = 0, avs_write = False, avs_writedata = 0, avs_read = False, st_sink_data = 0,
     st_sink_valid = False, source_ready = rdy, seq_busy = False, seq_done = False\<rparr>"

definition reg_write :: "4 word \<Rightarrow> u32 \<Rightarrow> unit_in" where
  "reg_write a v = (bus_idle True)\<lparr>avs_address := a, avs_write := True, avs_writedata := v\<rparr>"

definition beat :: "u64 \<Rightarrow> unit_in" where
  "beat d = (bus_idle True)\<lparr>st_sink_data := d, st_sink_valid := True\<rparr>"

definition pack8 :: "row \<Rightarrow> u64" where "pack8 f = word_rcat (rev (map f [0..<8]))"

lemma lanes_pack8 [simp]: "i < 8 \<Longrightarrow> lanes (pack8 f) i = f i"
proof (rule bit_word_eqI)
  fix n
  assume i: "i < 8" and n: "n < LENGTH(8)"
  have "bit (pack8 f) (8 * i + n) = bit (f i) n"
    using i n bit_horner_sum_uint_exp_iff [of "map f [0..<8]" "8 * i + n"]
    by (simp add: pack8_def word_rcat_def bit_simps)
  then show "bit (lanes (pack8 f) i) n = bit (f i) n"
    using n by (simp add: lanes_def bit_simps)
qed

lemma sample_cycles [simp]:
  "no_control (bus_idle r)" "\<not> st_sink_valid (bus_idle r)" "drain_cycle (bus_idle True)"
  "no_control (beat d)" "st_sink_valid (beat d)" "st_sink_data (beat d) = d"
  "\<not> st_sink_valid (reg_write a v)" "avs_writedata (reg_write a v) = v"
  by (simp_all add: bus_idle_def beat_def reg_write_def no_control_def writes_reg_def drain_cycle_def)

lemma sample_writes [simp]: "writes_reg 0 (reg_write 0 v)" "writes_reg 7 (reg_write 7 v)"
  by (simp_all add: writes_reg_def reg_write_def bus_idle_def select_sys_def sys_addr_def)

lemma offered_beats [simp]: "offered (map beat ds) = ds"
  by (induction ds) (simp_all add: offered_def)

definition sample_load :: "mat8 \<Rightarrow> u64 list" where
  "sample_load Bm = map (\<lambda>t. pack8 (\<lambda>i. Bm i (7 - t))) [0..<8]"

lemma sample_weight_beats: "weight_beats id Bm (sample_load Bm)"
  by (simp add: weight_beats_def sample_load_def)

lemma sample_sequence:
  "\<forall>I\<in>set Xs. no_control I \<Longrightarrow>
    npu_sequence (reg_write 0 3) (map beat ds) (replicate 14 (bus_idle True)) (reg_write 7 1)
      [reg_write 7 0] (reg_write 0 1) Xs"
  by (auto simp: npu_sequence_def no_control_def writes_reg_def reg_write_def bus_idle_def select_sys_def
      sys_addr_def beat_def)

lemma unit_reset_ready: "unit_ready 0 unit_reset"
proof -
  have "settled (\<lambda>_ _. 0) (\<lambda>_ _. 0) 0 unit_reset"
    using core_reset_rel [of 8 "\<lambda>_. 0"] stream_reset_inv
    by (auto simp: settled_def unit_reset_def)
  moreover have "stream_work stream_reset = 0"
    by (simp add: stream_work_def stream_reset_def)
  ultimately show ?thesis by (auto simp: unit_ready_def unit_reset_def stream_reset_def)
qed

section \<open>Properties\<close>

text \<open>Eight beats and then idle cycles, for the witnesses.\<close>

definition sample_batch :: "nat \<Rightarrow> unit_in list" where
  "sample_batch k = (reg_write 0 3 # map beat (sample_load (\<lambda>i j. of_nat (i + 9 * j))) @
       replicate 14 (bus_idle True)) @ reg_write 7 1 # [reg_write 7 0] @ reg_write 0 1 #
     map beat (map (\<lambda>r. pack8 (\<lambda>k. of_nat (8 * r + k))) [0..<8]) @ replicate k (bus_idle True)"

lemma sample_batch_run:
  assumes "unit_ready n U" and "unit_run (sample_batch 724) U = (acc, out, V)"
  shows "length out = 32"
proof -
  let ?Xs = "map beat (map (\<lambda>r. pack8 (\<lambda>k. of_nat (8 * r + k))) [0..<8])"
    and ?Rs = "replicate 724 (bus_idle True)"
  have ctl: "\<forall>I\<in>set (?Xs @ ?Rs). no_control I" by auto
  have drain: "\<forall>I\<in>set ?Rs. drain_cycle I" "724 \<le> length ?Rs" by simp_all
  have eight: "length (offered ?Xs) \<le> 8" by (simp only: offered_beats) simp
  show ?thesis
  proof (rule npu_batch [OF assms(1) sample_sequence [OF ctl] eight drain assms(2) [unfolded sample_batch_def]])
    fix S W
    assume "out = seq_flits n 0 (map (out_row W) (map lanes (offered ?Xs)))"
    then show "length out = 32" by (simp only: offered_beats) simp
  qed
qed

text \<open>C2: A stream of any length: whatever the pattern of valid beats and of a ready receiver, the
  flits that have left the unit are the exact signed products of the accepted rows with the
  loaded weights, in order, low column first, also when rows are still inside.\<close>

theorem npu_streams_products:
  assumes "unit_ready n U" and seq: "npu_sequence ld Ls Qs lt Ds mul Xs"
    and run: "unit_run ((ld # Ls @ Qs) @ lt # Ds @ mul # Xs) U = (acc, out, V)"
    and pi: "bij_betw \<pi> {..<8} {..<8}" and beats: "weight_beats \<pi> Bm (offered Ls)"
  shows "\<exists>xs. acc = offered Ls @ xs \<and> length out \<le> 4 * length xs \<and>
    (\<forall>m c. c < 8 \<and> 4 * m + c div 2 < length out \<longrightarrow>
      flit_word (fst (out ! (4 * m + c div 2))) (c mod 2) = row_product (\<lambda>k. lanes (xs ! m) (\<pi> k)) Bm c)"
proof -
  obtain E S where U: "settled E S n U" "to_send n (u_stream U) = []" "row_no n (u_stream U) = 0"
    using assms(1) by (rule unit_ready_facts)
  define W where "W = loaded S (map lanes (offered Ls))"
  obtain p xs where xs: "acc = offered Ls @ xs"
    and out: "out @ owed W n p [] V = seq_flits n 0 (map (out_row W) (map lanes xs))"
    using npu_unit_sequence [OF U(1) seq run W_def] U(2,3) by auto
  have len: "length out \<le> 4 * length xs" using arg_cong [OF out, of length] by simp
  have nth: "out ! i = seq_flits n 0 (map (out_row W) (map lanes xs)) ! i" if "i < length out" for i
    using that by (simp only: out [symmetric] nth_append if_True)
  have "flit_word (fst (out ! (4 * m + c div 2))) (c mod 2) = row_product (\<lambda>k. lanes (xs ! m) (\<pi> k)) Bm c"
    if "c < 8" "4 * m + c div 2 < length out" for m c
    using flits_of_products [OF pi W_def beats _ that(1), of m xs n 0] that len nth by simp
  with xs len show ?thesis by blast
qed

theorem npu_streams_products_witness:
  "\<exists>acc out V xs.
    unit_run ((reg_write 0 3 # map beat (sample_load (\<lambda>i j. of_nat (i + 9 * j))) @ replicate 14 (bus_idle True)) @
      reg_write 7 1 # [reg_write 7 0] @ reg_write 0 1 #
        concat (map (\<lambda>t. [beat (of_nat (t * t * 257)), bus_idle (even t)]) [0..<40])) unit_reset = (acc, out, V) \<and>
    acc = sample_load (\<lambda>i j. of_nat (i + 9 * j)) @ xs \<and> length out \<le> 4 * length xs \<and>
    (\<forall>m c. c < 8 \<and> 4 * m + c div 2 < length out \<longrightarrow>
      flit_word (fst (out ! (4 * m + c div 2))) (c mod 2) =
        row_product (\<lambda>k. lanes (xs ! m) (id k)) (\<lambda>i j. of_nat (i + 9 * j)) c)"
proof -
  let ?Xs = "concat (map (\<lambda>t. [beat (of_nat (t * t * 257)), bus_idle (even t)]) [0..<40])"
  obtain acc out V where r: "unit_run ((reg_write 0 3 # map beat (sample_load (\<lambda>i j. of_nat (i + 9 * j))) @
      replicate 14 (bus_idle True)) @ reg_write 7 1 # [reg_write 7 0] @ reg_write 0 1 # ?Xs) unit_reset = (acc, out, V)"
    by (rule prod_cases3)
  have "\<forall>I\<in>set ?Xs. no_control I" by auto
  from npu_streams_products [OF unit_reset_ready sample_sequence [OF this] r, of id "\<lambda>i j. of_nat (i + 9 * j)"]
    sample_weight_beats [of "\<lambda>i j. of_nat (i + 9 * j)"] r
  show ?thesis by (simp only: offered_beats bij_betw_id) blast
qed

text \<open>C1: The whole path for one 8 by 8 product. The buffers are formatted by the driver, the read DMA
  feeds their lines as beats, the write DMA stores the flits with the two words of a beat swapped
  and their bytes reversed, and the driver parses the result: it is the matrix of
  \<open>cpu_matmul_8x8\<close>, complete after 724 cycles, whatever the stalls before.\<close>

theorem npu_computes_matmul:
  assumes ready: "unit_ready n U" and seq: "npu_sequence ld Ls Qs lt Ds mul (Xs @ Rs)"
    and drain: "\<forall>I\<in>set Rs. drain_cycle I" "724 \<le> length Rs"
    and run: "unit_run ((ld # Ls @ Qs) @ lt # Ds @ mul # Xs @ Rs) U = (acc, out, V)"
    and pi: "bij_betw \<pi> {..<8} {..<8}"
    and bufs: "\<forall>j<16. word_addr wd j \<in> win" "\<forall>j<16. word_addr xd j \<in> win" "\<forall>j<64. word_addr od j \<in> win"
    and weights: "dma_reads \<pi> (mem_peek (hw (npu_format_weights (trace_bus (mem_resp win dev)) wd Bm s0))) wd (offered Ls)"
    and inputs: "dma_reads \<pi> (mem_peek (hw (npu_format_inputs (trace_bus (mem_resp win dev)) xd A s1))) xd (offered Xs)"
    and results: "dma_writes (mem_peek (hw s2)) od out"
  shows "acc = offered Ls @ offered Xs \<and> length out = 32 \<and>
    fst (npu_parse_output (trace_bus (mem_resp win dev)) od M s2) = cpu_matmul_8x8 A Bm M"
proof -
  have beats: "weight_beats \<pi> Bm (offered Ls)"
    using weights npu_format_weights_bytes [OF bufs(1)] by (simp add: weight_beats_def dma_reads_def)
  have lens: "length (offered Xs) = 8"
    and rows: "\<And>r k. r < 8 \<Longrightarrow> k < 8 \<Longrightarrow> lanes (offered Xs ! r) (\<pi> k) = A r k"
    using inputs npu_format_inputs_bytes [OF bufs(2)] by (simp_all add: dma_reads_def)
  then have "length (offered Xs) \<le> 8" by simp
  then obtain S W where W: "W = loaded S (map lanes (offered Ls))" and acc: "acc = offered Ls @ offered Xs"
    and out: "out = seq_flits n 0 (map (out_row W) (map lanes (offered Xs)))"
    by (rule npu_batch [OF ready seq _ drain run])
  have len: "length out = 32" using lens by (simp add: out)
  have cell: "bswap32 (mem_peek (hw s2) (word_addr od (r * 8 + (c XOR 1)))) = of_int (dot8 A Bm r c)"
    if r: "r < 8" and c: "c < 8" for r c
  proof -
    have e: "r * 8 + (c XOR 1) = 2 * (4 * r + c div 2) + (1 - c mod 2)"
      by (cases "even c") (auto simp: xor_Suc_0_eq elim!: oddE)
    have m: "4 * r + c div 2 < 32" using r c by simp
    have "1 - (1 - c mod 2) = c mod 2" by simp
    then have "mem_peek (hw s2) (word_addr od (r * 8 + (c XOR 1))) =
        bswap32 (flit_word (fst (out ! (4 * r + c div 2))) (c mod 2))"
      unfolding e using results [unfolded dma_writes_def, rule_format, of "4 * r + c div 2" "1 - c mod 2"] m
      by (simp only: len less_Suc_eq_le)
    moreover have "flit_word (fst (out ! (4 * r + c div 2))) (c mod 2) =
        row_product (\<lambda>k. lanes (offered Xs ! r) (\<pi> k)) Bm c"
      unfolding out using r lens by (intro flits_of_products [OF pi W beats _ c]) simp
    ultimately show ?thesis using rows [OF r] by (simp add: row_product_def dot8_def)
  qed
  then show ?thesis
    unfolding mem.npu_parse_output_peek(1) [OF bufs(3)] cpu_matmul_8x8_eq
    using acc lens by (auto simp: out fun_eq_iff)
qed

lemma dma_reads_weights:
  "\<forall>j<16. word_addr d j \<in> win \<Longrightarrow>
    dma_reads id (mem_peek (hw (npu_format_weights (trace_bus (mem_resp win dev)) d Bm s))) d (sample_load Bm)"
  using npu_format_weights_bytes [of d win] by (simp add: dma_reads_def sample_load_def)

lemma dma_reads_inputs:
  "\<forall>j<16. word_addr d j \<in> win \<Longrightarrow>
    dma_reads id (mem_peek (hw (npu_format_inputs (trace_bus (mem_resp win dev)) d A s))) d
      (map (\<lambda>r. pack8 (A r)) [0..<8])"
  using npu_format_inputs_bytes [of d win] by (simp add: dma_reads_def)

lemma dma_writes_store:
  assumes "\<forall>j<64. word_addr d j \<in> win" and "length out = 32"
  shows "dma_writes (mem_peek (hw (store_words (trace_bus (mem_resp win dev)) d 64
    (\<lambda>j. bswap32 (flit_word (fst (out ! (j div 2))) (1 - j mod 2))) s))) d out"
  unfolding dma_writes_def
proof (intro allI impI)
  fix m h :: nat
  assume "m < length out" "h < 2"
  then show "mem_peek (hw (store_words (trace_bus (mem_resp win dev)) d 64
      (\<lambda>j. bswap32 (flit_word (fst (out ! (j div 2))) (1 - j mod 2))) s)) (word_addr d (2 * m + h)) =
      bswap32 (flit_word (fst (out ! m)) (1 - h))"
    using assms by (subst mem.store_words_at) auto
qed

theorem npu_computes_matmul_witness:
  "\<exists>acc out V. unit_run (sample_batch 724) unit_reset = (acc, out, V) \<and> length out = 32 \<and>
    fst (npu_parse_output (trace_bus (mem_resp UNIV (\<lambda>_ _. 0))) 0x88002000 (\<lambda>_ _. 7)
        (store_words (trace_bus (mem_resp UNIV (\<lambda>_ _. 0))) 0x88002000 64
          (\<lambda>j. bswap32 (flit_word (fst (out ! (j div 2))) (1 - j mod 2))) (reset_machine []))) =
      cpu_matmul_8x8 (\<lambda>r k. of_nat (8 * r + k)) (\<lambda>i j. of_nat (i + 9 * j)) (\<lambda>_ _. 7)"
proof -
  let ?Bm = "\<lambda>i j. of_nat (i + 9 * j) :: u8" and ?A = "\<lambda>r k. of_nat (8 * r + k) :: u8"
  let ?Xs = "map beat (map (\<lambda>r. pack8 (?A r)) [0..<8])" and ?Rs = "replicate 724 (bus_idle True)"
  obtain acc out V where r: "unit_run (sample_batch 724) unit_reset = (acc, out, V)" by (rule prod_cases3)
  have ctl: "\<forall>I\<in>set (?Xs @ ?Rs). no_control I" by auto
  note seq = sample_sequence [OF ctl, of "sample_load ?Bm"]
  have drain: "\<forall>I\<in>set ?Rs. drain_cycle I" "724 \<le> length ?Rs" by simp_all
  note len = sample_batch_run [OF unit_reset_ready r]
  have win: "\<forall>j<16. word_addr 0x88000000 j \<in> UNIV" "\<forall>j<16. word_addr 0x88001000 j \<in> UNIV"
    "\<forall>j<64. word_addr 0x88002000 j \<in> UNIV"
    by simp_all
  have w: "dma_reads id (mem_peek (hw (npu_format_weights (trace_bus (mem_resp UNIV (\<lambda>_ _. 0))) 0x88000000 ?Bm
      (reset_machine [])))) 0x88000000 (offered (map beat (sample_load ?Bm)))"
    unfolding offered_beats by (rule dma_reads_weights [OF win(1)])
  have x: "dma_reads id (mem_peek (hw (npu_format_inputs (trace_bus (mem_resp UNIV (\<lambda>_ _. 0))) 0x88001000 ?A
      (reset_machine [])))) 0x88001000 (offered ?Xs)"
    unfolding offered_beats by (rule dma_reads_inputs [OF win(2)])
  from npu_computes_matmul [OF unit_reset_ready seq drain r [unfolded sample_batch_def] bij_betw_id win w x dma_writes_store [OF win(3) len],
      where M = "\<lambda>_ _. 7"]
  show ?thesis using r by blast
qed

text \<open>C20: The packet marks of a stream with a row count: the start mark is on the first flit of every
  sequence of \<open>n\<close> rows and the end mark on its last flit, and on no other.\<close>

theorem npu_packet_marks:
  assumes "unit_ready n U" and seq: "npu_sequence ld Ls Qs lt Ds mul Xs"
    and run: "unit_run ((ld # Ls @ Qs) @ lt # Ds @ mul # Xs) U = (acc, out, V)" and n: "0 < n"
    and m: "4 * m + k < length out" and k: "k < 4"
  shows "snd (out ! (4 * m + k)) = (k = 0 \<and> m mod unat n = 0, k = 3 \<and> m mod unat n = unat n - 1)"
proof -
  obtain E S where U: "settled E S n U" "to_send n (u_stream U) = []" "row_no n (u_stream U) = 0"
    using assms(1) by (rule unit_ready_facts)
  define W where "W = loaded S (map lanes (offered Ls))"
  obtain p xs where out: "out @ owed W n p [] V = seq_flits n 0 (map (out_row W) (map lanes xs))"
    using npu_unit_sequence [OF U(1) seq run W_def] U(2,3) by auto
  have "length out \<le> 4 * length xs" using arg_cong [OF out, of length] by simp
  then have xs: "m < length (map (out_row W) (map lanes xs))" using m by simp
  have "out ! (4 * m + k) = seq_flits n 0 (map (out_row W) (map lanes xs)) ! (4 * m + k)"
    using m by (simp only: out [symmetric] nth_append if_True)
  also note seq_flits_nth [OF xs k]
  finally have marks: "snd (out ! (4 * m + k)) =
      (k = 0 \<and> (next_row n ^^ m) 0 = 0, 0 < n \<and> k = 3 \<and> (next_row n ^^ m) 0 = n - 1)"
    by simp
  have n0: "0 < unat n" using n by (simp add: unat_gt_0)
  have n32: "unat n < 2 ^ LENGTH(32)" by (rule unsigned_less)
  have less: "m mod unat n < unat n" using n0 by simp
  have u: "unat (of_nat (m mod unat n) :: u32) = m mod unat n"
    using order.strict_trans [OF less n32] by (simp add: unat_of_nat)
  have "((next_row n ^^ m) 0 = 0) = (m mod unat n = 0)"
    unfolding next_row_count [OF n] word_unat_eq_iff u by simp
  moreover have "((next_row n ^^ m) 0 = n - 1) = (m mod unat n = unat n - 1)"
    unfolding next_row_count [OF n] word_unat_eq_iff u
    using n by (simp add: unat_sub word_le_nat_alt Suc_le_eq unat_gt_0)
  ultimately show ?thesis using n marks by simp
qed

lemma unit_reset_rows: "unit_ready v (unit_step unit_reset (reg_write 6 v))"
proof -
  let ?r = "reg_write 6 v"
  have set: "settled (\<lambda>_ _. 0) (\<lambda>_ _. 0) 0 unit_reset"
    using core_reset_rel [of 8 "\<lambda>_. 0"] stream_reset_inv by (auto simp: settled_def unit_reset_def)
  have "\<not> core_valid_out 8 core_reset"
    by (rule load_valid_out [OF load_starts [OF core_reset_rel]]) simp
  then have "u_stream (unit_step unit_reset ?r) = stream_reset"
    by (simp add: unit_reset_def unit_stream_in_def stream_step_def fifo_write_def fifo_read_def
        fifo_push_def fifo_pop_def stream_reset_def fifo_empty_def Let_def)
  moreover have "core_rel 8 (\<lambda>_ _. 0) (\<lambda>_ _. 0) (\<lambda>_. 0) (u_core (unit_step unit_reset ?r)) (\<lambda>_. None)"
    using settled_core_step [OF set] by simp
  moreover have "seq_total_rows (u_ctrl (unit_step unit_reset ?r)) = v"
    "\<not> latch_pulse (u_ctrl (unit_step unit_reset ?r))"
    by (simp_all add: ctrl_step_def reg_write_def bus_idle_def select_sys_def sys_addr_def Let_def)
  ultimately show ?thesis
    using stream_reset_inv unfolding unit_ready_def settled_def
    by (simp add: stream_work_def stream_reset_def) blast
qed

theorem npu_packet_marks_witness:
  "\<exists>acc out V. unit_run (sample_batch 724) (unit_step unit_reset (reg_write 6 2)) = (acc, out, V) \<and>
    snd (out ! (4 * 3 + 3)) = (3 = (0::nat) \<and> 3 mod unat (2 :: u32) = 0,
      3 = (3::nat) \<and> 3 mod unat (2 :: u32) = unat (2 :: u32) - 1)"
proof -
  let ?Xs = "map beat (map (\<lambda>r. pack8 (\<lambda>k. of_nat (8 * r + k))) [0..<8])"
    and ?Rs = "replicate 724 (bus_idle True)"
  obtain acc out V where r: "unit_run (sample_batch 724) (unit_step unit_reset (reg_write 6 2)) = (acc, out, V)"
    by (rule prod_cases3)
  have len: "4 * 3 + 3 < length out" using sample_batch_run [OF unit_reset_rows r] by simp
  have ctl: "\<forall>I\<in>set (?Xs @ ?Rs). no_control I" by auto
  from npu_packet_marks [OF unit_reset_rows sample_sequence [OF ctl] r [unfolded sample_batch_def] _ len] r
  show ?thesis by simp
qed

text \<open>C19: Progress: in any state of the multiply phase 764 cycles without new beats and with the receiver
  ready empty the unit: everything it owes is sent, and nothing stays behind.\<close>

theorem npu_drains:
  assumes "unit_calc W S n p U" and "\<forall>I\<in>set Rs. drain_cycle I" and "764 \<le> length Rs"
    and "unit_run Rs U = (acc, out, V)"
  shows "acc = [] \<and> out = owed W n p [] U \<and> unit_calc W S n (\<lambda>_. None) V \<and> to_send n (u_stream V) = []"
proof -
  have inv: "stream_inv (u_stream U)" using assms(1) by (simp add: unit_calc_def)
  have "distance (stages 8) p \<le> (\<Sum>d<(stages 8). stages 8 - d)"
    unfolding distance_def by (intro sum_mono) simp
  also have "\<dots> = 120" by (simp add: stages_def lessThan_nat_numeral lessThan_Suc eval_nat_numeral)
  finally have "distance (stages 8) p \<le> 120" .
  moreover have "stream_work (u_stream U) \<le> 44"
    using inv by (auto simp: stream_work_def stream_inv_def)
  ultimately have "unit_work p U \<le> length Rs" using assms(3) by (simp add: unit_work_def)
  from unit_drains [OF assms(1,2) this assms(4)] show ?thesis
    using stream_work_pending by (auto simp: unit_calc_def)
qed

theorem npu_drains_witness:
  "\<exists>acc out V W p acc' out' V'.
    unit_run (sample_batch 0) unit_reset = (acc, out, V) \<and> unit_calc W W 0 p V \<and>
    unit_run (replicate 764 (bus_idle True)) V = (acc', out', V') \<and>
    acc' = [] \<and> out' = owed W 0 p [] V \<and> unit_calc W W 0 (\<lambda>_. None) V' \<and> to_send 0 (u_stream V') = []"
proof -
  let ?Xs = "map beat (map (\<lambda>r. pack8 (\<lambda>k. of_nat (8 * r + k))) [0..<8])"
  obtain acc out V where r: "unit_run (sample_batch 0) unit_reset = (acc, out, V)" by (rule prod_cases3)
  have ctl: "\<forall>I\<in>set (?Xs @ replicate 0 (bus_idle True)). no_control I" by auto
  obtain E S where set: "settled E S 0 unit_reset" using unit_reset_ready by (auto simp: unit_ready_def)
  obtain W p where W: "unit_calc W W 0 p V"
    using npu_unit_sequence [OF set sample_sequence [OF ctl] r [unfolded sample_batch_def] refl] by blast
  obtain acc' out' V' where r': "unit_run (replicate 764 (bus_idle True)) V = (acc', out', V')"
    by (rule prod_cases3)
  have "\<forall>I\<in>set (replicate 764 (bus_idle True)). drain_cycle I" "764 \<le> length (replicate 764 (bus_idle True))"
    by simp_all
  from npu_drains [OF W this r'] W r r' show ?thesis by blast
qed

section \<open>Every reachable state\<close>

inductive unit_reach :: "npu_unit \<Rightarrow> bool" where
  reach_reset: "unit_reach unit_reset"
| reach_step: "unit_reach U \<Longrightarrow> unit_reach (unit_step U I)"

lemma reach_inv: "unit_reach U \<Longrightarrow> stream_inv (u_stream U)"
  by (induction rule: unit_reach.induct) (simp_all add: unit_reset_def stream_reset_inv stream_step_inv)

text \<open>C21: Whatever is written to the registers and whatever the streams do, the counters of the output
  side stay consistent: the FIFO holds at most eight rows between its pointers, a flit counter is
  below four, and the unit offers a flit exactly when a row is being sent.\<close>

theorem npu_fifo_consistent:
  assumes "unit_reach U"
  shows "fifo_wr_ptr (u_stream U) = fifo_rd_ptr (u_stream U) + of_nat (unat (fifo_count (u_stream U))) \<and>
    unat (fifo_count (u_stream U)) \<le> 8 \<and> unat (tx_count (u_stream U)) \<le> 3 \<and>
    (st_source_valid (u_stream U) \<longleftrightarrow> tx_active (u_stream U))"
  using reach_inv [OF assms] by (simp add: stream_inv_def st_source_valid_def)

theorem npu_fifo_consistent_witness:
  "fifo_wr_ptr (u_stream (unit_step unit_reset (beat 7))) =
      fifo_rd_ptr (u_stream (unit_step unit_reset (beat 7))) +
        of_nat (unat (fifo_count (u_stream (unit_step unit_reset (beat 7))))) \<and>
    unat (fifo_count (u_stream (unit_step unit_reset (beat 7)))) \<le> 8 \<and>
    unat (tx_count (u_stream (unit_step unit_reset (beat 7)))) \<le> 3 \<and>
    (st_source_valid (u_stream (unit_step unit_reset (beat 7))) \<longleftrightarrow>
      tx_active (u_stream (unit_step unit_reset (beat 7))))"
  by (rule npu_fifo_consistent [OF reach_step [OF reach_reset]])

text \<open>C22: Backpressure: a flit that is offered and not taken is offered again unchanged, with its marks
  when the row count is not rewritten, in every reachable state.\<close>

theorem npu_source_holds:
  assumes "unit_reach U" and "st_source_valid (u_stream U)" and "\<not> source_ready I"
  shows "st_source_valid (u_stream (unit_step U I)) \<and>
    st_source_data (u_stream (unit_step U I)) = st_source_data (u_stream U) \<and>
    st_source_startofpacket (u_stream (unit_step U I)) = st_source_startofpacket (u_stream U) \<and>
    st_source_endofpacket (u_stream (unit_step U I)) n = st_source_endofpacket (u_stream U) n"
proof -
  let ?s = "u_stream U" and ?t = "stream_step (u_stream U) (unit_stream_in U I)"
  have inv: "stream_inv ?s" "stream_inv ?t" using reach_inv [OF assms(1)] by (simp_all add: stream_step_inv)
  then have act: "tx_active ?s" using assms(2) by (simp add: stream_inv_def st_source_valid_def)
  have "\<not> st_source_ready (unit_stream_in U I)" using assms(3) by (simp add: unit_stream_in_def)
  then have "\<not> fifo_pop ?s (unit_stream_in U I)" "tx_active ?t" "tx_count ?t = tx_count ?s"
    "tx_row_count ?t = tx_row_count ?s" "tx_shift_reg ?t = tx_shift_reg ?s"
    using act by (auto simp: fifo_pop_def stream_step_tx)
  then show ?thesis
    using inv act by (simp add: stream_inv_def st_source_valid_def st_source_data_def
        st_source_startofpacket_def st_source_endofpacket_def)
qed

lemma reach_run:
  "unit_reach U \<Longrightarrow> unit_run Is U = (acc, out, V) \<Longrightarrow> out \<noteq> [] \<Longrightarrow>
    \<exists>U'. unit_reach U' \<and> st_source_valid (u_stream U')"
proof (induction Is arbitrary: U acc out)
  case (Cons I Is)
  obtain acc1 out1 where r: "unit_run Is (unit_step U I) = (acc1, out1, V)"
    and e: "out = sent (u_stream U) (unit_stream_in U I) @ out1"
    using Cons.prems(2) by (rule unit_run_Cons)
  show ?case
  proof (cases "st_source_valid (u_stream U)")
    case True
    then show ?thesis using Cons.prems(1) by blast
  next
    case False
    then have "out1 \<noteq> []" using Cons.prems(3) e by (simp add: sent_def)
    then show ?thesis using Cons.IH [OF reach_step [OF Cons.prems(1)] r] by blast
  qed
qed simp

theorem npu_source_holds_witness:
  "\<exists>U. unit_reach U \<and> st_source_valid (u_stream U) \<and>
    st_source_valid (u_stream (unit_step U (bus_idle False))) \<and>
    st_source_data (u_stream (unit_step U (bus_idle False))) = st_source_data (u_stream U) \<and>
    st_source_startofpacket (u_stream (unit_step U (bus_idle False))) = st_source_startofpacket (u_stream U) \<and>
    st_source_endofpacket (u_stream (unit_step U (bus_idle False))) 8 = st_source_endofpacket (u_stream U) 8"
proof -
  obtain acc out V where r: "unit_run (sample_batch 724) unit_reset = (acc, out, V)" by (rule prod_cases3)
  then have "out \<noteq> []" using sample_batch_run [OF unit_reset_ready r] by auto
  from reach_run [OF reach_reset r this] obtain U where U: "unit_reach U" "st_source_valid (u_stream U)"
    by blast
  have "\<not> source_ready (bus_idle False)" by (simp add: bus_idle_def)
  from npu_source_holds [OF U this, of 8] U show ?thesis by blast
qed

end
