(* ===== verification/Rtl_Bus.thy ===== *)
theory Rtl_Bus
  imports Rtl_System Npu_App
begin

text \<open>
  The registers of the NPU as a device on the bus of the driver: an access of the processor is one
  cycle of the hardware model, with any number of other cycles, and any traffic on the streams,
  before it. The element test of \<open>software/npu/main.c\<close> is run on it.
\<close>

section \<open>The device\<close>

text \<open>The hardware state is the unit and the number of accesses so far.\<close>

record rtl_hw =
  rtl_unit :: npu_unit
  rtl_time :: nat

text \<open>
  The environment: the cycles before access \<open>n\<close>, the stream side of the cycle of the access, and
  what other devices answer.
\<close>

record rtl_env =
  env_gap :: "nat \<Rightarrow> unit_in list"
  env_streams :: "nat \<Rightarrow> unit_in"
  env_other :: "nat \<Rightarrow> u32 \<Rightarrow> u32"

definition bus_quiet :: "unit_in \<Rightarrow> bool" where
  "bus_quiet I \<longleftrightarrow> \<not> avs_write I \<and> \<not> avs_read I"

definition env_quiet :: "rtl_env \<Rightarrow> bool" where
  "env_quiet e \<longleftrightarrow> (\<forall>n. \<forall>I\<in>set (env_gap e n). bus_quiet I)"

definition unit_after :: "unit_in list \<Rightarrow> npu_unit \<Rightarrow> npu_unit" where
  "unit_after Is U = fold (\<lambda>I U. unit_step U I) Is U"

text \<open>The slave decodes 16 words from its base.\<close>

definition selected :: "u32 \<Rightarrow> u32 \<Rightarrow> bool" where "selected base a \<longleftrightarrow> a - base < 64"

definition word_of :: "u32 \<Rightarrow> u32 \<Rightarrow> 4 word" where "word_of base a = ucast (drop_bit 2 (a - base))"

definition rtl_write :: "u32 \<Rightarrow> rtl_env \<Rightarrow> u32 \<Rightarrow> u32 \<Rightarrow> rtl_hw \<Rightarrow> rtl_hw" where
  "rtl_write base e a v h =
     (let U = unit_after (env_gap e (rtl_time h)) (rtl_unit h);
          I = env_streams e (rtl_time h)
      in \<lparr>rtl_unit = (if selected base a
            then unit_step U (I\<lparr>avs_address := word_of base a, avs_write := True, avs_writedata := v, avs_read := False\<rparr>)
            else unit_step U (I\<lparr>avs_write := False, avs_read := False\<rparr>)),
          rtl_time = Suc (rtl_time h)\<rparr>)"

definition rtl_read :: "u32 \<Rightarrow> rtl_env \<Rightarrow> u32 \<Rightarrow> rtl_hw \<Rightarrow> u32 \<times> rtl_hw" where
  "rtl_read base e a h =
     (let U = unit_after (env_gap e (rtl_time h)) (rtl_unit h);
          I = env_streams e (rtl_time h);
          U' = (if selected base a
                then unit_step U (I\<lparr>avs_address := word_of base a, avs_write := False, avs_read := True\<rparr>)
                else unit_step U (I\<lparr>avs_write := False, avs_read := False\<rparr>))
      in (if selected base a then avs_readdata U' else env_other e (rtl_time h) a,
          \<lparr>rtl_unit = U', rtl_time = Suc (rtl_time h)\<rparr>))"

text \<open>The driver makes 32-bit accesses only; the narrow ones do not reach the registers.\<close>

definition rtl_bus :: "u32 \<Rightarrow> rtl_env \<Rightarrow> rtl_hw bus" where
  "rtl_bus base e =
     \<lparr>bus_rd32 = rtl_read base e, bus_wr32 = rtl_write base e, bus_wr16 = (\<lambda>a v h. h),
      bus_wr8 = (\<lambda>a v h. h), bus_delay = (\<lambda>us h. h), bus_dcache_flush_all = (\<lambda>h. h)\<rparr>"

section \<open>The test registers and the element\<close>

lemma csr_quiet_step:
  "bus_quiet I \<Longrightarrow> load_weight (csr_step c y I) = load_weight c \<and> valid_in (csr_step c y I) = valid_in c \<and>
    csr_x_in (csr_step c y I) = csr_x_in c \<and> csr_y_in (csr_step c y I) = csr_y_in c"
  by (simp add: csr_step_def bus_quiet_def Let_def)

lemma mac_idle:
  "\<not> valid_in (u_csr U) \<Longrightarrow>
    shadow_weight_reg (pe_step (u_mac U) (unit_mac_in U)) = shadow_weight_reg (u_mac U) \<and>
    active_weight_reg (pe_step (u_mac U) (unit_mac_in U)) = shadow_weight_reg (u_mac U) \<and>
    y_out (pe_step (u_mac U) (unit_mac_in U)) = y_out (u_mac U)"
  by (simp add: pe_step_def unit_mac_in_def fire_load_def fire_calc_def Let_def)

lemma mac_load:
  "valid_in (u_csr U) \<Longrightarrow> load_weight (u_csr U) \<Longrightarrow>
    shadow_weight_reg (pe_step (u_mac U) (unit_mac_in U)) = csr_x_in (u_csr U)"
  by (simp add: pe_step_def unit_mac_in_def fire_load_def stall_x_def Let_def)

lemma mac_calc:
  "valid_in (u_csr U) \<Longrightarrow> \<not> load_weight (u_csr U) \<Longrightarrow>
    y_out (pe_step (u_mac U) (unit_mac_in U)) =
      csr_y_in (u_csr U) + mult_ext (csr_x_in (u_csr U)) (active_weight_reg (u_mac U)) \<and>
    shadow_weight_reg (pe_step (u_mac U) (unit_mac_in U)) = shadow_weight_reg (u_mac U) \<and>
    active_weight_reg (pe_step (u_mac U) (unit_mac_in U)) = shadow_weight_reg (u_mac U)"
  by (simp add: pe_step_def unit_mac_in_def fire_load_def fire_calc_def stall_x_def stall_y_def add_out_def Let_def)

text \<open>The stages of the test.\<close>

definition weight_loading :: "u8 \<Rightarrow> npu_unit \<Rightarrow> bool" where
  "weight_loading w U \<longleftrightarrow> valid_in (u_csr U) \<and> load_weight (u_csr U) \<and> csr_x_in (u_csr U) = w"

definition weight_held :: "u8 \<Rightarrow> npu_unit \<Rightarrow> bool" where
  "weight_held w U \<longleftrightarrow> \<not> valid_in (u_csr U) \<and> shadow_weight_reg (u_mac U) = w"

definition weight_active :: "u8 \<Rightarrow> npu_unit \<Rightarrow> bool" where
  "weight_active w U \<longleftrightarrow> weight_held w U \<and> active_weight_reg (u_mac U) = w"

definition calculating :: "u8 \<Rightarrow> u8 \<Rightarrow> u32 \<Rightarrow> npu_unit \<Rightarrow> bool" where
  "calculating w x y U \<longleftrightarrow> valid_in (u_csr U) \<and> \<not> load_weight (u_csr U) \<and> csr_x_in (u_csr U) = x \<and>
     csr_y_in (u_csr U) = y \<and> shadow_weight_reg (u_mac U) = w \<and> active_weight_reg (u_mac U) = w"

definition answered :: "u32 \<Rightarrow> npu_unit \<Rightarrow> bool" where
  "answered v U \<longleftrightarrow> \<not> valid_in (u_csr U) \<and> y_out (u_mac U) = v"

lemma unit_step_csr [simp]:
  "u_csr (unit_step U I) = csr_step (u_csr U) (y_out (u_mac U)) I"
  "u_mac (unit_step U I) = pe_step (u_mac U) (unit_mac_in U)"
  by (simp_all add: unit_step_def)

text \<open>A stage is kept by the cycles between accesses.\<close>

definition stable :: "(npu_unit \<Rightarrow> bool) \<Rightarrow> bool" where
  "stable P \<longleftrightarrow> (\<forall>U I. bus_quiet I \<longrightarrow> P U \<longrightarrow> P (unit_step U I))"

lemma stable_after: "stable P \<Longrightarrow> \<forall>I\<in>set Is. bus_quiet I \<Longrightarrow> P U \<Longrightarrow> P (unit_after Is U)"
  unfolding unit_after_def by (induction Is arbitrary: U) (simp_all add: stable_def)

lemma stable_stages:
  "stable (\<lambda>U. csr_x_in (u_csr U) = x)" "stable (weight_loading w)" "stable (weight_held w)"
  "stable (weight_active w)" "stable (\<lambda>U. weight_active w U \<and> csr_x_in (u_csr U) = x)"
  "stable (\<lambda>U. weight_active w U \<and> csr_x_in (u_csr U) = x \<and> csr_y_in (u_csr U) = y)"
  "stable (calculating w x y)" "stable (answered v)"
  by (auto simp: stable_def weight_loading_def weight_held_def weight_active_def calculating_def answered_def
      csr_quiet_step mac_idle mac_calc)

section \<open>Register accesses of the driver\<close>

lemma register_address:
  assumes "r < 16"
  shows "selected base (IO_CALC_ADDRESS_NATIVE base r)"
    and "word_of base (IO_CALC_ADDRESS_NATIVE base r) = of_nat r"
proof -
  have u: "unat (of_nat (r * 4) :: u32) = r * 4" unfolding unat_of_nat using assms by simp
  have off: "IO_CALC_ADDRESS_NATIVE base r - base = of_nat (r * 4)"
    by (simp add: IO_CALC_ADDRESS_NATIVE_def)
  show "selected base (IO_CALC_ADDRESS_NATIVE base r)"
    unfolding selected_def off word_less_nat_alt u using assms by simp
  have "unat (drop_bit 2 (of_nat (r * 4) :: u32)) = r"
    unfolding unat_drop_bit_eq u by (simp add: drop_bit_eq_div)
  then have "drop_bit 2 (of_nat (r * 4) :: u32) = of_nat r"
    unfolding word_unat_eq_iff using assms by (simp add: unat_of_nat)
  then show "word_of base (IO_CALC_ADDRESS_NATIVE base r) = of_nat r"
    unfolding word_of_def off using assms by (simp add: unsigned_of_nat take_bit_nat_eq_self)
qed

text \<open>A write of register \<open>r\<close>: from a stage that lasts, one cycle of the unit with the write.\<close>

lemma write_register:
  assumes env: "env_quiet e" and P: "stable P" "P (rtl_unit (hw s))" and r: "r < 16"
    and step: "\<And>U I. P U \<Longrightarrow> avs_write I \<Longrightarrow> \<not> avs_read I \<Longrightarrow> avs_address I = of_nat r \<Longrightarrow>
      avs_writedata I = v \<Longrightarrow> Q (unit_step U I)"
  shows "Q (rtl_unit (hw (IOWR (rtl_bus base e) base r v s)))"
proof -
  have "P (unit_after (env_gap e (rtl_time (hw s))) (rtl_unit (hw s)))"
    using env by (intro stable_after [OF P(1) _ P(2)]) (simp add: env_quiet_def)
  then show ?thesis
    by (simp add: IOWR_def rtl_bus_def rtl_write_def register_address [OF r] Let_def step)
qed

lemma read_register:
  assumes env: "env_quiet e" and P: "stable P" "P (rtl_unit (hw s))" and r: "r < 16"
    and step: "\<And>U I. P U \<Longrightarrow> \<not> avs_write I \<Longrightarrow> avs_read I \<Longrightarrow> avs_address I = of_nat r \<Longrightarrow>
      avs_readdata (unit_step U I) = v"
  shows "fst (IORD (rtl_bus base e) base r s) = v"
proof -
  have "P (unit_after (env_gap e (rtl_time (hw s))) (rtl_unit (hw s)))"
    using env by (intro stable_after [OF P(1) _ P(2)]) (simp add: env_quiet_def)
  then show ?thesis
    by (simp add: IORD_def rtl_bus_def rtl_read_def register_address [OF r] Let_def step case_prod_unfold)
qed

lemma write_x:
  "env_quiet e \<Longrightarrow> csr_x_in (u_csr (rtl_unit (hw (IOWR (rtl_bus base e) base 9 v s)))) = ucast v"
  by (rule write_register [where P = "\<lambda>_. True"])
    (auto simp: stable_def csr_step_def select_pe_def pe_addr_def bit_simps Let_def)

text \<open>The writes of the test, each from the stage before it to the next.\<close>

lemmas csr_write_simps = csr_step_def select_pe_def pe_addr_def bit_simps Let_def

lemma write_load:
  "env_quiet e \<Longrightarrow> csr_x_in (u_csr (rtl_unit (hw s))) = w \<Longrightarrow>
    weight_loading w (rtl_unit (hw (IOWR (rtl_bus base e) base 8 3 s)))"
  by (rule write_register [OF _ stable_stages(1)])
    (auto simp: weight_loading_def csr_write_simps)

lemma write_load_end:
  "env_quiet e \<Longrightarrow> weight_loading w (rtl_unit (hw s)) \<Longrightarrow>
    weight_held w (rtl_unit (hw (IOWR (rtl_bus base e) base 8 0 s)))"
  by (rule write_register [OF _ stable_stages(2)])
    (auto simp: weight_loading_def weight_held_def mac_load csr_write_simps)

lemma write_latch:
  "env_quiet e \<Longrightarrow> weight_held w (rtl_unit (hw s)) \<Longrightarrow>
    weight_active w (rtl_unit (hw (IOWR (rtl_bus base e) base 7 v s)))"
  by (rule write_register [OF _ stable_stages(3)])
    (auto simp: weight_held_def weight_active_def mac_idle csr_write_simps)

lemma write_latch_again:
  "env_quiet e \<Longrightarrow> weight_active w (rtl_unit (hw s)) \<Longrightarrow>
    weight_active w (rtl_unit (hw (IOWR (rtl_bus base e) base 7 v s)))"
  by (rule write_latch) (simp_all add: weight_active_def)

lemma write_x_active:
  "env_quiet e \<Longrightarrow> weight_active w (rtl_unit (hw s)) \<Longrightarrow>
    weight_active w (rtl_unit (hw (IOWR (rtl_bus base e) base 9 v s))) \<and>
    csr_x_in (u_csr (rtl_unit (hw (IOWR (rtl_bus base e) base 9 v s)))) = ucast v"
  by (rule write_register [OF _ stable_stages(4)])
    (auto simp: weight_held_def weight_active_def mac_idle csr_write_simps)

lemma write_y_active:
  "env_quiet e \<Longrightarrow> weight_active w (rtl_unit (hw s)) \<and> csr_x_in (u_csr (rtl_unit (hw s))) = x \<Longrightarrow>
    weight_active w (rtl_unit (hw (IOWR (rtl_bus base e) base 10 v s))) \<and>
    csr_x_in (u_csr (rtl_unit (hw (IOWR (rtl_bus base e) base 10 v s)))) = x \<and>
    csr_y_in (u_csr (rtl_unit (hw (IOWR (rtl_bus base e) base 10 v s)))) = v"
  by (rule write_register [OF _ stable_stages(5)])
    (auto simp: weight_held_def weight_active_def mac_idle csr_write_simps)

lemma write_calc:
  "env_quiet e \<Longrightarrow> weight_active w (rtl_unit (hw s)) \<and> csr_x_in (u_csr (rtl_unit (hw s))) = x \<and>
      csr_y_in (u_csr (rtl_unit (hw s))) = y \<Longrightarrow>
    calculating w x y (rtl_unit (hw (IOWR (rtl_bus base e) base 8 2 s)))"
  by (rule write_register [OF _ stable_stages(6)])
    (auto simp: weight_held_def weight_active_def calculating_def mac_idle csr_write_simps)

lemma write_calc_end:
  "env_quiet e \<Longrightarrow> calculating w x y (rtl_unit (hw s)) \<Longrightarrow>
    answered (y + mult_ext x w) (rtl_unit (hw (IOWR (rtl_bus base e) base 8 0 s)))"
  by (rule write_register [OF _ stable_stages(7)])
    (auto simp: calculating_def answered_def mac_calc csr_write_simps)

lemma read_answer:
  "env_quiet e \<Longrightarrow> answered v (rtl_unit (hw s)) \<Longrightarrow> fst (IORD (rtl_bus base e) base 11 s) = v"
  by (rule read_register [OF _ stable_stages(8)])
    (auto simp: answered_def avs_readdata_def unit_step_def ctrl_step_def select_sys_def csr_write_simps)

text \<open>C4: The element test of the driver passes on the hardware. The accesses reach the unit in program order,
  each one in a clock cycle of its own, with any number of cycles between two of them, also none;
  then, whatever state the unit is in and whatever happens on its streams, the driver reads 31 and
  prints PASS. So with the accesses in order no delay is needed. This disagrees with the repository:
  a comment before the last delay of \<open>linux_software/npu_test/main.c\<close> and the note in section 2 of
  \<open>doc/LESSONS_LEARNED.md\<close> say that without \<open>usleep\<close> the read returns the previous value 10. In the
  hardware description a value 10 comes from a weight that was never latched (section 4 of the same
  document), not from an early read.\<close>

theorem mac_test_passes_on_rtl:
  assumes "env_quiet e"
  shows "last (console (verify_mac_pe (rtl_bus (NPU_CTRL_BASE bd) e) bd s)) =
    Printf ''MAC PE Test: PASS\<newline>'' []"
proof -
  let ?b = "NPU_CTRL_BASE bd"
  let ?B = "rtl_bus ?b e"
  define s0 where "s0 = printf ''\<newline>Starting MAC PE Verification...\<newline>'' [] s"
  define s1 where "s1 = IOWR ?B ?b 9 7 s0"
  define s2 where "s2 = IOWR ?B ?b 8 3 s1"
  define s3 where "s3 = IOWR ?B ?b 8 0 s2"
  define s4 where "s4 = IOWR ?B ?b 7 0 (IOWR ?B ?b 7 1 s3)"
  define s5 where "s5 = IOWR ?B ?b 9 3 s4"
  define s6 where "s6 = IOWR ?B ?b 10 10 s5"
  define s7 where "s7 = IOWR ?B ?b 8 2 s6"
  define s8 where "s8 = IOWR ?B ?b 8 0 s7"
  note q = assms
  have "csr_x_in (u_csr (rtl_unit (hw s1))) = 7"
    unfolding s1_def write_x [OF q] by simp
  then have "weight_held 7 (rtl_unit (hw s3))"
    unfolding s3_def s2_def by (intro write_load_end [OF q] write_load [OF q])
  then have "weight_active 7 (rtl_unit (hw s4))"
    unfolding s4_def by (intro write_latch_again [OF q] write_latch [OF q])
  from write_x_active [OF q this, of ?b 3]
  have "weight_active 7 (rtl_unit (hw s5)) \<and> csr_x_in (u_csr (rtl_unit (hw s5))) = 3"
    by (simp add: s5_def del: hw_IOWR)
  from write_y_active [OF q this, of ?b 10]
  have "calculating 7 3 10 (rtl_unit (hw s7))"
    unfolding s7_def s6_def by (rule write_calc [OF q])
  from write_calc_end [OF q this, of ?b]
  have "answered 31 (rtl_unit (hw s8))" by (simp add: s8_def mult_ext_word del: hw_IOWR)
  from read_answer [OF q this, of ?b] obtain t where "IORD ?B ?b 11 s8 = (31, t)"
    by (metis prod.collapse)
  then have "verify_mac_pe ?B bd s = mac_report 31 t"
    by (simp add: verify_mac_pe_def reg_defs Let_def s0_def s1_def s2_def s3_def s4_def s5_def s6_def s7_def s8_def)
  then show ?thesis by (simp add: mac_report_def printf_def)
qed

theorem mac_test_passes_on_rtl_witness:
  "last (console (verify_mac_pe
      (rtl_bus (NPU_CTRL_BASE nios_board)
        \<lparr>env_gap = (\<lambda>n. replicate n (bus_idle True)), env_streams = (\<lambda>n. beat (of_nat n)), env_other = (\<lambda>_ _. 0)\<rparr>)
      nios_board (reset_machine \<lparr>rtl_unit = unit_reset, rtl_time = 0\<rparr>))) =
    Printf ''MAC PE Test: PASS\<newline>'' []"
  by (rule mac_test_passes_on_rtl) (simp add: env_quiet_def bus_quiet_def bus_idle_def)

end
