(* ===== verification/Hal_Gmon.thy ===== *)
theory Hal_Gmon
  imports Hal_Alarm Hal_Memory
begin

text \<open>
  Profiling (\<open>HAL/src/alt_gmon.c\<close>): the call graph that the compiler's calls of \<open>mcount\<close> build, and
  the histogram of the program counter that the system timer samples. The search of the call
  graph for an existing arc is assembly (\<open>alt_mcount.S\<close>), modelled instruction by instruction but for
  the saving of registers around the call of \<open>__mcount_record\<close>. The abstract specification of the call
  graph is a map from pairs of addresses to counts. The build links the profiler only with
  \<open>hal.enable_gprof\<close>, which is off in this repository.
\<close>

section \<open>State\<close>

text \<open>
  The members of \<open>mcount_fn_entry\<close> and \<open>mcount_fn_arc\<close> by the address of the structure, the heads of
  the lists and the halfwords of the histogram by their address, and the globals. \<open>heap_end\<close> belongs to
  \<open>sbrk\<close>; \<open>s_low_pc\<close> and \<open>s_high_pc\<close> come from the linker.
\<close>

record gmon =
  fn_head_at :: "u32 \<Rightarrow> u32"
  fn_next :: "u32 \<Rightarrow> u32"
  fn_self_pc :: "u32 \<Rightarrow> u32"
  fn_arc_head :: "u32 \<Rightarrow> u32"
  arc_next :: "u32 \<Rightarrow> u32"
  arc_from_pc :: "u32 \<Rightarrow> u32"
  arc_count :: "u32 \<Rightarrow> u32"
  pcsample_need_init :: int
  s_pcsamples :: u32
  pcsamples_at :: "u32 \<Rightarrow> u16"
  s_low_pc :: u32
  s_high_pc :: u32
  alt_gmon_data :: "nat \<Rightarrow> u32"
  mcount_slab_ptr :: u32
  mcount_slab_size :: u32
  gmon_heap_end :: u32

definition PCSAMPLE_BYTES_PER_BUCKET :: u32 where "PCSAMPLE_BYTES_PER_BUCKET = 32"
definition MCOUNT_SLAB_INCREMENT :: u32 where "MCOUNT_SLAB_INCREMENT = 1020"
definition GMON_DATA_PROFILE_DATA :: nat where "GMON_DATA_PROFILE_DATA = 2"
definition GMON_DATA_PROFILE_RATE :: nat where "GMON_DATA_PROFILE_RATE = 6"

lemmas gmon_consts = PCSAMPLE_BYTES_PER_BUCKET_def MCOUNT_SLAB_INCREMENT_def GMON_DATA_PROFILE_DATA_def
  GMON_DATA_PROFILE_RATE_def

text \<open>The size of both structures is three words.\<close>

definition sizeof_fn_entry :: u32 where "sizeof_fn_entry = 12"
definition sizeof_fn_arc :: u32 where "sizeof_fn_arc = 12"

section \<open>Operations\<close>

definition gmon_sbrk :: "u32 \<Rightarrow> u32 \<Rightarrow> gmon \<times> 'h machine \<Rightarrow> u32 \<times> gmon \<times> 'h machine" where
  "gmon_sbrk limit n = (\<lambda>(g, s).
     case alt_sbrk limit n (gmon_heap_end g, s) of (p, e, s) \<Rightarrow> (p, g\<lparr>gmon_heap_end := e\<rparr>, s))"

text \<open>The size is unsigned, so the signed slab size is compared as unsigned.\<close>

definition mcount_allocate :: "u32 \<Rightarrow> u32 \<Rightarrow> gmon \<times> 'h machine \<Rightarrow> u32 \<times> gmon \<times> 'h machine" where
  "mcount_allocate limit n = (\<lambda>(g, s).
     let (g, s) =
           (if n > mcount_slab_size g then
              (case gmon_sbrk limit MCOUNT_SLAB_INCREMENT (g, s) of (p, g, s) \<Rightarrow>
                 (g\<lparr>mcount_slab_ptr := p, mcount_slab_size := MCOUNT_SLAB_INCREMENT\<rparr>, s))
            else (g, s))
     in (mcount_slab_ptr g,
         g\<lparr>mcount_slab_ptr := mcount_slab_ptr g + n, mcount_slab_size := mcount_slab_size g - n\<rparr>, s))"

text \<open>\<open>memset(s_pcsamples, 0, n * 2)\<close> halfword by halfword.\<close>

definition clear_samples :: "u32 \<Rightarrow> nat \<Rightarrow> gmon \<Rightarrow> gmon" where
  "clear_samples p n g =
     for_range 0 n (\<lambda>i g. g\<lparr>pcsamples_at := (pcsamples_at g)(p + of_nat (2 * i) := 0)\<rparr>) g"

definition nios2_pcsample_init ::
  "u32 \<Rightarrow> u32 \<Rightarrow> u32 \<Rightarrow> gmon \<times> 'h tsys \<Rightarrow> int \<times> gmon \<times> 'h tsys" where
  "nios2_pcsample_init limit alarm pcsample = (\<lambda>(g, A, s).
     let prof_rate = alt_ticks_per_second A
     in if prof_rate = 0 then (1, g, A, s)
        else let pcsamples_size = (s_high_pc g - s_low_pc g) div PCSAMPLE_BYTES_PER_BUCKET;
                 (p, g, s) = gmon_sbrk limit (pcsamples_size * 2) (g, s);
                 g = g\<lparr>s_pcsamples := p\<rparr>
             in if s_pcsamples g \<noteq> 0 then
                  let g = clear_samples (s_pcsamples g) (unat pcsamples_size) g;
                      g = g\<lparr>alt_gmon_data := (alt_gmon_data g)(GMON_DATA_PROFILE_DATA := s_pcsamples g)\<rparr>;
                      g = g\<lparr>alt_gmon_data := (alt_gmon_data g)(GMON_DATA_PROFILE_RATE := prof_rate)\<rparr>;
                      (_, A, s) = alt_alarm_start alarm 1 pcsample 0 (A, s)
                  in (0, g, A, s)
                else (0, g, A, s))"

text \<open>The callback; \<open>ea\<close> is the exception return address, the interrupted program counter.\<close>

definition nios2_pcsample :: "u32 \<Rightarrow> gmon \<Rightarrow> u32 \<times> gmon" where
  "nios2_pcsample ea g =
     (if s_low_pc g \<le> ea \<and> ea < s_high_pc g \<and> s_pcsamples g \<noteq> 0 then
        let bucket = (ea - s_low_pc g) div PCSAMPLE_BYTES_PER_BUCKET;
            a = s_pcsamples g + bucket * 2
        in (1, g\<lparr>pcsamples_at := (pcsamples_at g)(a := pcsamples_at g a + 1)\<rparr>)
      else (1, g))"

definition new_fn_entry :: "u32 \<Rightarrow> u32 \<Rightarrow> u32 \<Rightarrow> gmon \<times> 'h machine \<Rightarrow> u32 \<times> gmon \<times> 'h machine" where
  "new_fn_entry limit self_pc fn_head = (\<lambda>st.
     let (fn_entry, g, s) = mcount_allocate limit sizeof_fn_entry st;
         g = g\<lparr>fn_self_pc := (fn_self_pc g)(fn_entry := self_pc)\<rparr>;
         g = g\<lparr>fn_arc_head := (fn_arc_head g)(fn_entry := 0)\<rparr>;
         g = g\<lparr>fn_next := (fn_next g)(fn_entry := fn_head_at g fn_head)\<rparr>;
         g = g\<lparr>fn_head_at := (fn_head_at g)(fn_head := fn_entry)\<rparr>
     in (fn_entry, g, s))"

definition new_arc :: "u32 \<Rightarrow> u32 \<Rightarrow> u32 \<Rightarrow> gmon \<times> 'h machine \<Rightarrow> gmon \<times> 'h machine" where
  "new_arc limit from_pc fn_entry = (\<lambda>st.
     let (arc_entry, g, s) = mcount_allocate limit sizeof_fn_arc st;
         g = g\<lparr>arc_from_pc := (arc_from_pc g)(arc_entry := from_pc)\<rparr>;
         g = g\<lparr>arc_count := (arc_count g)(arc_entry := 1)\<rparr>;
         g = g\<lparr>arc_next := (arc_next g)(arc_entry := fn_arc_head g fn_entry)\<rparr>;
         g = g\<lparr>fn_arc_head := (fn_arc_head g)(fn_entry := arc_entry)\<rparr>
     in (g, s))"

definition mcount_record ::
  "u32 \<Rightarrow> u32 \<Rightarrow> u32 \<Rightarrow> u32 \<Rightarrow> u32 \<Rightarrow> u32 \<Rightarrow> u32 \<Rightarrow> gmon \<times> 'h tsys \<Rightarrow> gmon \<times> 'h tsys" where
  "mcount_record limit alarm pcsample self_pc from_pc fn_entry fn_head = (\<lambda>(g, A, s).
     let (g, A, s) =
           (if pcsample_need_init g \<noteq> 0 then
              case nios2_pcsample_init limit alarm pcsample (g\<lparr>pcsample_need_init := 0\<rparr>, A, s) of (r, g, A, s) \<Rightarrow>
                (g\<lparr>pcsample_need_init := r\<rparr>, A, s)
            else (g, A, s));
         (context, s) = alt_irq_disable_all s;
         (fn_entry, g, s) =
           (if fn_entry = 0 then new_fn_entry limit self_pc fn_head (g, s) else (fn_entry, g, s));
         (g, s) = new_arc limit from_pc fn_entry (g, s)
     in (g, A, alt_irq_enable_all context s))"

text \<open>
  \<open>mcount\<close> (\<open>alt_mcount.S\<close>). \<open>ra\<close> is the address in the called function, \<open>r8\<close> the one in its caller.
  The first loop steps from the list head to the entry of \<open>ra\<close> or to null, the second one from the
  first arc of the entry, which it does not compare with null, to the arc of \<open>r8\<close>; it leaves with
  null in \<open>r3\<close>. A list that is not closed by null would keep a loop going: then the value is \<open>None\<close>.
\<close>

definition mcount_bucket :: "u32 \<Rightarrow> u32 \<Rightarrow> u32" where
  "mcount_bucket mcount_fn_head ra = (drop_bit 3 ra AND 0xFC) + mcount_fn_head"

partial_function (option) find_fn :: "gmon \<Rightarrow> u32 \<Rightarrow> u32 \<Rightarrow> u32 option" where
  "find_fn g ra r10 =
     (if r10 = 0 then Some 0
      else if fn_self_pc g r10 \<noteq> ra then find_fn g ra (fn_next g r10)
      else Some r10)"

partial_function (option) find_arc :: "gmon \<Rightarrow> u32 \<Rightarrow> u32 \<Rightarrow> u32 option" where
  "find_arc g r8 r3 =
     (if arc_from_pc g r3 = r8 then Some r3
      else if arc_next g r3 \<noteq> 0 then find_arc g r8 (arc_next g r3)
      else Some 0)"

definition mcount ::
  "u32 \<Rightarrow> u32 \<Rightarrow> u32 \<Rightarrow> u32 \<Rightarrow> u32 \<Rightarrow> u32 \<Rightarrow> gmon \<times> 'h tsys \<Rightarrow> (gmon \<times> 'h tsys) option" where
  "mcount limit alarm pcsample mcount_fn_head ra r8 = (\<lambda>(g, A, s).
     let r11 = mcount_bucket mcount_fn_head ra
     in case find_fn g ra (fn_head_at g r11) of
          None \<Rightarrow> None
        | Some r10 \<Rightarrow>
            if r10 = 0 then Some (mcount_record limit alarm pcsample ra r8 0 r11 (g, A, s))
            else case find_arc g r8 (fn_arc_head g r10) of
                   None \<Rightarrow> None
                 | Some r3 \<Rightarrow>
                     if r3 = 0 then Some (mcount_record limit alarm pcsample ra r8 r10 r11 (g, A, s))
                     else Some (g\<lparr>arc_count := (arc_count g)(r3 := arc_count g r3 + 1)\<rparr>, A, s))"

section \<open>Lists in memory\<close>

text \<open>The list of the addresses that the links \<open>nx\<close> join, from \<open>p\<close> to null.\<close>

fun chain :: "(u32 \<Rightarrow> u32) \<Rightarrow> u32 \<Rightarrow> u32 list \<Rightarrow> bool" where
  "chain nx p [] \<longleftrightarrow> p = 0"
| "chain nx p (a # as) \<longleftrightarrow> p = a \<and> a \<noteq> 0 \<and> chain nx (nx a) as"

lemma chain_null [simp]: "chain nx 0 as \<longleftrightarrow> as = []"
  by (cases as) auto

lemma chain_not_null: "chain nx p as \<Longrightarrow> 0 \<notin> set as"
  by (induction as arbitrary: p) auto

lemma chain_upd [simp]: "a \<notin> set as \<Longrightarrow> chain (nx(a := b)) p as \<longleftrightarrow> chain nx p as"
  by (induction as arbitrary: p) auto

lemma chain_cong: "(\<And>a. a \<in> set as \<Longrightarrow> nx' a = nx a) \<Longrightarrow> chain nx' p as \<longleftrightarrow> chain nx p as"
  by (induction as arbitrary: p) auto

text \<open>What the two searches return.\<close>

definition first_with :: "(u32 \<Rightarrow> u32) \<Rightarrow> u32 \<Rightarrow> u32 list \<Rightarrow> u32" where
  "first_with f v as = (case filter (\<lambda>a. f a = v) as of [] \<Rightarrow> 0 | a # _ \<Rightarrow> a)"

lemma first_with_none: "v \<notin> f ` set as \<Longrightarrow> first_with f v as = 0"
proof -
  assume "v \<notin> f ` set as"
  then have "filter (\<lambda>a. f a = v) as = []" by (auto simp: filter_empty_conv)
  then show ?thesis by (simp add: first_with_def)
qed

lemma first_with_some:
  assumes "a \<in> set as" and "distinct (map f as)"
  shows "first_with f (f a) as = a"
  using assms
proof (induction as)
  case (Cons b as)
  then show ?case by (cases "f b = f a") (auto simp: first_with_def)
qed simp

lemma find_fn_chain: "chain (fn_next g) p as \<Longrightarrow> find_fn g v p = Some (first_with (fn_self_pc g) v as)"
proof (induction as arbitrary: p)
  case Nil
  then show ?case by (subst find_fn.simps) (simp add: first_with_def)
next
  case (Cons a as)
  then show ?case by (subst find_fn.simps) (auto simp: first_with_def)
qed

lemma find_arc_chain:
  "chain (arc_next g) p as \<Longrightarrow> as \<noteq> [] \<Longrightarrow> find_arc g v p = Some (first_with (arc_from_pc g) v as)"
proof (induction as arbitrary: p)
  case (Cons a as)
  show ?case
  proof (cases "as = []")
    case True
    with Cons.prems show ?thesis by (subst find_arc.simps) (auto simp: first_with_def)
  next
    case False
    with Cons.prems have "arc_next g a \<noteq> 0" by auto
    with Cons False show ?thesis by (subst find_arc.simps) (auto simp: first_with_def)
  qed
qed simp

section \<open>The allocator\<close>

text \<open>The slab lies below the end of the heap, and the heap has room for \<open>n\<close> more slabs.\<close>

definition heap_room :: "u32 \<Rightarrow> nat \<Rightarrow> gmon \<Rightarrow> bool" where
  "heap_room limit n g \<longleftrightarrow> unat limit < 2 ^ 30 \<and> 0 < gmon_heap_end g \<and>
     (mcount_slab_size g = 0 \<or> mcount_slab_ptr g \<noteq> 0) \<and>
     unat (mcount_slab_ptr g) + unat (mcount_slab_size g) \<le> unat (gmon_heap_end g) \<and>
     unat (gmon_heap_end g) + 1023 * n \<le> unat limit"

text \<open>The room that the histogram will take when the sampler starts, in slabs.\<close>

definition histogram_slabs :: "gmon \<Rightarrow> nat" where
  "histogram_slabs g =
     (if pcsample_need_init g = 0 then 0
      else (unat ((s_high_pc g - s_low_pc g) div PCSAMPLE_BYTES_PER_BUCKET * 2) + 3) div 1023 + 1)"

definition text_section :: "gmon \<Rightarrow> u32 \<times> u32" where
  "text_section g = (s_low_pc g, s_high_pc g)"

definition took :: "gmon \<Rightarrow> u32 \<Rightarrow> u32 \<Rightarrow> u32 \<Rightarrow> gmon" where
  "took g p sz e = g\<lparr>mcount_slab_ptr := p, mcount_slab_size := sz, gmon_heap_end := e\<rparr>"

lemma took_fields [simp]:
  "fn_head_at (took g p sz e) = fn_head_at g" "fn_next (took g p sz e) = fn_next g"
  "fn_self_pc (took g p sz e) = fn_self_pc g" "fn_arc_head (took g p sz e) = fn_arc_head g"
  "arc_next (took g p sz e) = arc_next g" "arc_from_pc (took g p sz e) = arc_from_pc g"
  "arc_count (took g p sz e) = arc_count g" "mcount_slab_ptr (took g p sz e) = p"
  "mcount_slab_size (took g p sz e) = sz" "gmon_heap_end (took g p sz e) = e"
  "histogram_slabs (took g p sz e) = histogram_slabs g"
  "text_section (took g p sz e) = text_section g"
  by (simp_all add: took_def histogram_slabs_def text_section_def)

text \<open>The block starts at or above the slab pointer and the new slab pointer is its end.\<close>

lemma mcount_allocate_fresh:
  assumes "heap_room limit (Suc n) g"
  obtains p q sz e where "mcount_allocate limit 12 (g, s) = (p, took g q sz e, s)" "p \<noteq> 0"
    "unat (mcount_slab_ptr g) \<le> unat p" "unat q = unat p + 12" "heap_room limit n (took g q sz e)"
proof (cases "mcount_slab_size g < 12")
  case False
  then have sz: "12 \<le> unat (mcount_slab_size g)" by (simp add: word_less_nat_alt)
  then have "mcount_slab_size g \<noteq> 0" by auto
  with assms have p: "mcount_slab_ptr g \<noteq> 0"
    and le: "unat (mcount_slab_ptr g) + unat (mcount_slab_size g) \<le> unat (gmon_heap_end g)"
    and lim: "unat limit < 2 ^ 30" "unat (gmon_heap_end g) + 1023 * Suc n \<le> unat limit"
    by (simp_all add: heap_room_def)
  have q: "unat (mcount_slab_ptr g + 12) = unat (mcount_slab_ptr g) + 12"
    using sz le lim by (simp add: unat_word_ariths)
  have s12: "unat (mcount_slab_size g - 12) = unat (mcount_slab_size g) - 12"
    using sz by (simp add: unat_sub word_le_nat_alt)
  have "mcount_allocate limit 12 (g, s) =
      (mcount_slab_ptr g, took g (mcount_slab_ptr g + 12) (mcount_slab_size g - 12) (gmon_heap_end g), s)"
    using False by (simp add: mcount_allocate_def Let_def took_def)
  then show ?thesis
    by (rule that) (use assms p q s12 sz le lim in \<open>auto simp: heap_room_def\<close>)
next
  case True
  define a where "a = 4 * ((unat (gmon_heap_end g) + 3) div 4)"
  have lim: "unat limit < 2 ^ 30" "unat (gmon_heap_end g) + 1023 * Suc n \<le> unat limit"
    and e0: "0 < unat (gmon_heap_end g)"
    and le: "unat (mcount_slab_ptr g) \<le> unat (gmon_heap_end g)"
    using assms by (auto simp: heap_room_def word_less_nat_alt)
  have a: "unat (gmon_heap_end g) \<le> a" "a \<le> unat (gmon_heap_end g) + 3" unfolding a_def by presburger+
  have fit: "a + 1020 \<le> unat limit" using a lim by simp
  have ua: "unat (of_nat k :: u32) = k" if "k \<le> a + 1020" for k
    unfolding unat_of_nat using that fit lim by simp
  have sb: "alt_sbrk limit 1020 (gmon_heap_end g, s) = (of_nat a, of_nat (a + 1020), s)"
    using alt_sbrk_eq [of limit 1020 "gmon_heap_end g" s] lim fit
    by (simp add: a_def [symmetric] Let_def)
  have "mcount_allocate limit 12 (g, s) =
      (of_nat a, took g (of_nat a + 12) 1008 (of_nat (a + 1020)), s)"
    using True sb by (simp add: mcount_allocate_def gmon_sbrk_def MCOUNT_SLAB_INCREMENT_def took_def)
  moreover have nz: "(of_nat a :: u32) \<noteq> 0"
    using ua [of a] a e0 by (metis le_add1 not_gr_zero not_le unat_0)
  moreover have q: "unat (of_nat a + 12 :: u32) = a + 12"
    using ua [of "a + 12"] by simp
  moreover have "heap_room limit n (took g (of_nat a + 12) 1008 (of_nat (a + 1020)))"
    using q ua [of "a + 1020"] a lim nz e0 by (auto simp: heap_room_def word_less_nat_alt)
  ultimately show ?thesis using that ua [of a] a le by simp
qed

section \<open>The call graph\<close>

text \<open>
  \<open>fns\<close> gives the entries of the list of each head and \<open>arcs\<close> the arcs of each entry: an entry is in the
  list its address in the called function hashes to, no two entries of a list are for the same
  function and no two arcs of an entry for the same caller, and every structure lies below the
  slab pointer.
\<close>

definition heads :: "u32 \<Rightarrow> u32 set" where "heads base = range (mcount_bucket base)"

definition fn_ok :: "gmon \<Rightarrow> (u32 \<Rightarrow> u32 list) \<Rightarrow> u32 \<Rightarrow> bool" where
  "fn_ok g arcs e \<longleftrightarrow> unat e < unat (mcount_slab_ptr g) \<and>
     chain (arc_next g) (fn_arc_head g e) (arcs e) \<and> distinct (map (arc_from_pc g) (arcs e)) \<and>
     (\<forall>a\<in>set (arcs e). unat a < unat (mcount_slab_ptr g))"

definition list_ok :: "u32 \<Rightarrow> gmon \<Rightarrow> u32 \<Rightarrow> u32 list \<Rightarrow> bool" where
  "list_ok base g h es \<longleftrightarrow> chain (fn_next g) (fn_head_at g h) es \<and> distinct (map (fn_self_pc g) es) \<and>
     (\<forall>e\<in>set es. mcount_bucket base (fn_self_pc g e) = h)"

definition entries :: "u32 \<Rightarrow> (u32 \<Rightarrow> u32 list) \<Rightarrow> u32 set" where
  "entries base fns = (\<Union>h\<in>heads base. set (fns h))"

definition call_graph :: "u32 \<Rightarrow> gmon \<Rightarrow> (u32 \<Rightarrow> u32 list) \<Rightarrow> (u32 \<Rightarrow> u32 list) \<Rightarrow> bool" where
  "call_graph base g fns arcs \<longleftrightarrow> (\<forall>h\<in>heads base. list_ok base g h (fns h)) \<and>
     (\<forall>e\<in>entries base fns. fn_ok g arcs e) \<and>
     (\<forall>e\<in>entries base fns. \<forall>e'\<in>entries base fns. e \<noteq> e' \<longrightarrow> set (arcs e) \<inter> set (arcs e') = {})"

definition counted :: "u32 \<Rightarrow> gmon \<Rightarrow> (u32 \<Rightarrow> u32 list) \<Rightarrow> (u32 \<Rightarrow> u32 list) \<Rightarrow> u32 \<Rightarrow> u32 \<Rightarrow> u32 \<Rightarrow> bool" where
  "counted base g fns arcs ra r8 c \<longleftrightarrow>
     (\<exists>e\<in>set (fns (mcount_bucket base ra)). fn_self_pc g e = ra \<and>
        (\<exists>a\<in>set (arcs e). arc_from_pc g a = r8 \<and> arc_count g a = c))"

lemma bucket_head [simp]: "mcount_bucket base ra \<in> heads base"
  by (simp add: heads_def)

lemma entriesI: "e \<in> set (fns (mcount_bucket base ra)) \<Longrightarrow> e \<in> entries base fns"
  by (auto simp: entries_def heads_def)

text \<open>Two entries of the graph for the same function are the same entry, and the same holds for arcs.\<close>

lemma call_graph_unique:
  assumes "call_graph base g fns arcs" and "e \<in> set (fns (mcount_bucket base ra))" "fn_self_pc g e = ra"
    and "e' \<in> set (fns (mcount_bucket base ra))" "fn_self_pc g e' = ra"
  shows "e' = e"
proof -
  have "distinct (map (fn_self_pc g) (fns (mcount_bucket base ra)))"
    using assms(1) by (simp add: call_graph_def list_ok_def)
  with assms(2-) show ?thesis by (simp add: distinct_map inj_on_def)
qed

lemma call_graph_arc_unique:
  assumes "call_graph base g fns arcs" and "e \<in> entries base fns" and "a \<in> set (arcs e)" "a' \<in> set (arcs e)"
    and "arc_from_pc g a' = arc_from_pc g a"
  shows "a' = a"
proof -
  have "distinct (map (arc_from_pc g) (arcs e))"
    using assms(1,2) by (simp add: call_graph_def fn_ok_def)
  with assms(3-) show ?thesis by (simp add: distinct_map inj_on_def)
qed

lemma counted_is:
  assumes "call_graph base g fns arcs" and "e \<in> set (fns (mcount_bucket base ra))" "fn_self_pc g e = ra"
  shows "counted base g fns arcs ra r8 c \<longleftrightarrow> (\<exists>a\<in>set (arcs e). arc_from_pc g a = r8 \<and> arc_count g a = c)"
proof -
  have "(e' \<in> set (fns (mcount_bucket base ra)) \<and> fn_self_pc g e' = ra) = (e' = e)" for e'
    using call_graph_unique [OF assms, of e'] assms(2,3) by blast
  then show ?thesis unfolding counted_def by (metis (no_types, lifting))
qed

text \<open>The fast path.\<close>

definition count_up :: "gmon \<Rightarrow> u32 \<Rightarrow> gmon" where
  "count_up g a = g\<lparr>arc_count := (arc_count g)(a := arc_count g a + 1)\<rparr>"

lemma count_up_fields [simp]:
  "fn_head_at (count_up g a) = fn_head_at g" "fn_next (count_up g a) = fn_next g"
  "fn_self_pc (count_up g a) = fn_self_pc g" "fn_arc_head (count_up g a) = fn_arc_head g"
  "arc_next (count_up g a) = arc_next g" "arc_from_pc (count_up g a) = arc_from_pc g"
  "arc_count (count_up g a) = (arc_count g)(a := arc_count g a + 1)"
  "mcount_slab_ptr (count_up g a) = mcount_slab_ptr g" "mcount_slab_size (count_up g a) = mcount_slab_size g"
  "gmon_heap_end (count_up g a) = gmon_heap_end g" "histogram_slabs (count_up g a) = histogram_slabs g"
  "text_section (count_up g a) = text_section g"
  by (simp_all add: count_up_def histogram_slabs_def text_section_def)

lemma call_graph_count_up: "call_graph base (count_up g a) fns arcs \<longleftrightarrow> call_graph base g fns arcs"
  by (simp add: call_graph_def fn_ok_def list_ok_def)

text \<open>What is counted depends on the members of the structures of the graph only.\<close>

lemma counted_cong:
  assumes "\<And>e. e \<in> set (fns (mcount_bucket base s)) \<Longrightarrow> fn_self_pc g' e = fn_self_pc g e"
    and "\<And>e. e \<in> set (fns (mcount_bucket base s)) \<Longrightarrow> fn_self_pc g e = s \<Longrightarrow> arcs' e = arcs e"
    and "\<And>e a. e \<in> set (fns (mcount_bucket base s)) \<Longrightarrow> fn_self_pc g e = s \<Longrightarrow> a \<in> set (arcs e) \<Longrightarrow>
      arc_from_pc g' a = arc_from_pc g a \<and> (arc_from_pc g a = f \<longrightarrow> arc_count g' a = arc_count g a)"
  shows "counted base g' fns arcs' s f c \<longleftrightarrow> counted base g fns arcs s f c"
proof -
  have "(\<exists>a\<in>set (arcs' e). arc_from_pc g' a = f \<and> arc_count g' a = c) \<longleftrightarrow>
      (\<exists>a\<in>set (arcs e). arc_from_pc g a = f \<and> arc_count g a = c)"
    if "e \<in> set (fns (mcount_bucket base s))" "fn_self_pc g e = s" for e
    using assms(2,3) [OF that] by (intro bex_cong) auto
  with assms(1) show ?thesis unfolding counted_def by (intro bex_cong) auto
qed

text \<open>The two cases of a structure that belongs to the function \<open>ra\<close>.\<close>

lemma other_fn_arcs:
  assumes "call_graph base g fns arcs" and "e \<in> set (fns (mcount_bucket base ra))" "fn_self_pc g e = ra"
    and "a \<in> set (arcs e)" and "e' \<in> set (fns (mcount_bucket base s))" "fn_self_pc g e' = s" and "s \<noteq> ra"
  shows "a \<notin> set (arcs e')"
proof -
  have "e' \<noteq> e" using assms by auto
  then have "set (arcs e') \<inter> set (arcs e) = {}"
    using assms(1) entriesI [of e' fns base s, OF assms(5)] entriesI [of e fns base ra, OF assms(2)]
    unfolding call_graph_def by blast
  with assms(4) show ?thesis by blast
qed

lemma counted_count_up:
  assumes G: "call_graph base g fns arcs" and e: "e \<in> set (fns (mcount_bucket base ra))" "fn_self_pc g e = ra"
    and a: "a \<in> set (arcs e)" "arc_from_pc g a = r8"
  shows "counted base (count_up g a) fns arcs s f c \<longleftrightarrow>
    (if (s, f) = (ra, r8) then c = arc_count g a + 1 else counted base g fns arcs s f c)"
proof (cases "(s, f) = (ra, r8)")
  case True
  have E: "e \<in> entries base fns" by (rule entriesI) (rule e)
  have G': "call_graph base (count_up g a) fns arcs" using G by (simp add: call_graph_count_up)
  have e': "fn_self_pc (count_up g a) e = ra" using e by simp
  have u: "a' \<in> set (arcs e) \<and> arc_from_pc g a' = r8 \<longleftrightarrow> a' = a" for a'
    using call_graph_arc_unique [OF G E a(1), of a', unfolded a(2)] a by blast
  have "counted base (count_up g a) fns arcs ra r8 c \<longleftrightarrow> arc_count (count_up g a) a = c"
    unfolding counted_is [OF G' e(1) e'] using u by (metis count_up_fields(6))
  with True show ?thesis by auto
next
  case False
  have "counted base (count_up g a) fns arcs s f c \<longleftrightarrow> counted base g fns arcs s f c"
  proof (rule counted_cong)
    fix e' b assume b: "e' \<in> set (fns (mcount_bucket base s))" "fn_self_pc g e' = s" "b \<in> set (arcs e')"
    have "b \<noteq> a" if "arc_from_pc g b = f"
    proof (cases "s = ra")
      case True
      with False a(2) that show ?thesis by auto
    next
      case False
      from other_fn_arcs [OF G e a(1) b(1,2) False] b(3) show ?thesis by blast
    qed
    then show "arc_from_pc (count_up g a) b = arc_from_pc g b \<and>
        (arc_from_pc g b = f \<longrightarrow> arc_count (count_up g a) b = arc_count g b)" by simp
  qed simp_all
  then show ?thesis by (simp only: False if_False)
qed

text \<open>A new entry at the front of the list of its head, and a new arc at the front of its entry.\<close>

definition add_fn :: "gmon \<Rightarrow> u32 \<Rightarrow> u32 \<Rightarrow> u32 \<Rightarrow> gmon" where
  "add_fn g q ra h = g\<lparr>fn_self_pc := (fn_self_pc g)(q := ra), fn_arc_head := (fn_arc_head g)(q := 0),
     fn_next := (fn_next g)(q := fn_head_at g h), fn_head_at := (fn_head_at g)(h := q)\<rparr>"

definition add_arc :: "gmon \<Rightarrow> u32 \<Rightarrow> u32 \<Rightarrow> u32 \<Rightarrow> gmon" where
  "add_arc g p r8 e = g\<lparr>arc_from_pc := (arc_from_pc g)(p := r8), arc_count := (arc_count g)(p := 1),
     arc_next := (arc_next g)(p := fn_arc_head g e), fn_arc_head := (fn_arc_head g)(e := p)\<rparr>"

lemma add_fn_fields [simp]:
  "fn_head_at (add_fn g q ra h) = (fn_head_at g)(h := q)" "fn_next (add_fn g q ra h) = (fn_next g)(q := fn_head_at g h)"
  "fn_self_pc (add_fn g q ra h) = (fn_self_pc g)(q := ra)" "fn_arc_head (add_fn g q ra h) = (fn_arc_head g)(q := 0)"
  "arc_next (add_fn g q ra h) = arc_next g" "arc_from_pc (add_fn g q ra h) = arc_from_pc g"
  "arc_count (add_fn g q ra h) = arc_count g" "mcount_slab_ptr (add_fn g q ra h) = mcount_slab_ptr g"
  "heap_room limit n (add_fn g q ra h) = heap_room limit n g"
  "histogram_slabs (add_fn g q ra h) = histogram_slabs g"
  "text_section (add_fn g q ra h) = text_section g"
  by (simp_all add: add_fn_def heap_room_def histogram_slabs_def text_section_def)

lemma add_arc_fields [simp]:
  "fn_head_at (add_arc g p r8 e) = fn_head_at g" "fn_next (add_arc g p r8 e) = fn_next g"
  "fn_self_pc (add_arc g p r8 e) = fn_self_pc g" "fn_arc_head (add_arc g p r8 e) = (fn_arc_head g)(e := p)"
  "arc_next (add_arc g p r8 e) = (arc_next g)(p := fn_arc_head g e)" "arc_from_pc (add_arc g p r8 e) = (arc_from_pc g)(p := r8)"
  "arc_count (add_arc g p r8 e) = (arc_count g)(p := 1)" "mcount_slab_ptr (add_arc g p r8 e) = mcount_slab_ptr g"
  "heap_room limit n (add_arc g p r8 e) = heap_room limit n g"
  "histogram_slabs (add_arc g p r8 e) = histogram_slabs g"
  "text_section (add_arc g p r8 e) = text_section g"
  by (simp_all add: add_arc_def heap_room_def histogram_slabs_def text_section_def)

lemma new_fn_entry_eq:
  assumes "mcount_allocate limit 12 (g, s) = (q, g1, s)"
  shows "new_fn_entry limit ra h (g, s) = (q, add_fn g1 q ra h, s)"
  using assms by (simp add: new_fn_entry_def sizeof_fn_entry_def add_fn_def Let_def)

lemma new_arc_eq:
  assumes "mcount_allocate limit 12 (g, s) = (p, g1, s)"
  shows "new_arc limit r8 e (g, s) = (add_arc g1 p r8 e, s)"
  using assms by (simp add: new_arc_def sizeof_fn_arc_def add_arc_def Let_def)

text \<open>Allocating moves the slab pointer up and touches nothing of the graph.\<close>

lemma call_graph_took:
  "call_graph base g fns arcs \<Longrightarrow> unat (mcount_slab_ptr g) \<le> unat q \<Longrightarrow>
    call_graph base (took g q sz e) fns arcs"
  by (fastforce simp: call_graph_def fn_ok_def list_ok_def)

lemma counted_took: "counted base (took g q sz e) fns arcs ra r8 c = counted base g fns arcs ra r8 c"
  by (simp add: counted_def)

lemma list_ok_add_fn:
  assumes "list_ok base g k es" and "q \<notin> set es" and "k \<noteq> h"
  shows "list_ok base (add_fn g q ra h) k es"
  using assms by (auto simp: list_ok_def)

lemma list_ok_add_fn_head:
  assumes "list_ok base g h es" and "q \<notin> set es" and "q \<noteq> 0" and "ra \<notin> fn_self_pc g ` set es"
    and "h = mcount_bucket base ra"
  shows "list_ok base (add_fn g q ra h) h (q # es)"
  using assms by (auto simp: list_ok_def)

lemma call_graph_add_fn:
  assumes G: "call_graph base g fns arcs" and q: "q \<notin> entries base fns" "q \<noteq> 0" "unat q < unat (mcount_slab_ptr g)"
    and ra: "ra \<notin> fn_self_pc g ` set (fns (mcount_bucket base ra))"
  shows "call_graph base (add_fn g q ra (mcount_bucket base ra))
    (fns(mcount_bucket base ra := q # fns (mcount_bucket base ra))) (arcs(q := []))"
proof -
  let ?h = "mcount_bucket base ra"
  let ?fns = "fns(?h := q # fns ?h)"
  have E: "entries base ?fns = insert q (entries base fns)"
  proof (rule set_eqI)
    fix x show "x \<in> entries base ?fns \<longleftrightarrow> x \<in> insert q (entries base fns)"
    proof (cases "x = q")
      case True
      then show ?thesis by (auto simp: entries_def intro!: bexI [of _ ?h])
    next
      case False
      then have "x \<in> set (?fns k) \<longleftrightarrow> x \<in> set (fns k)" for k by simp
      with False show ?thesis by (simp add: entries_def)
    qed
  qed
  have "list_ok base (add_fn g q ra ?h) k (?fns k)" if k: "k \<in> heads base" for k
  proof -
    have "list_ok base g k (fns k)" "q \<notin> set (fns k)"
      using G k q(1) by (auto simp: call_graph_def entries_def)
    then show ?thesis using list_ok_add_fn list_ok_add_fn_head ra q(2) by (cases "k = ?h") simp_all
  qed
  moreover have "fn_ok (add_fn g q ra ?h) (arcs(q := [])) e" if "e \<in> entries base fns" for e
    using G that q(1) by (auto simp: call_graph_def fn_ok_def)
  moreover have "fn_ok (add_fn g q ra ?h) (arcs(q := [])) q"
    using q by (simp add: fn_ok_def)
  moreover have "set ((arcs(q := [])) e) \<inter> set ((arcs(q := [])) e') = {}"
    if "e \<in> insert q (entries base fns)" "e' \<in> insert q (entries base fns)" "e \<noteq> e'" for e e'
  proof (cases "e = q \<or> e' = q")
    case False
    with G that have "set (arcs e) \<inter> set (arcs e') = {}" unfolding call_graph_def by blast
    with False show ?thesis by simp
  qed auto
  ultimately show ?thesis unfolding call_graph_def E by blast
qed

lemma counted_add_fn:
  assumes "q \<notin> entries base fns" and "h = mcount_bucket base ra"
  shows "counted base (add_fn g q ra h) (fns(h := q # fns h)) (arcs(q := [])) s f c \<longleftrightarrow>
    counted base g fns arcs s f c"
proof -
  have ne: "e \<noteq> q" if "e \<in> set (fns (mcount_bucket base s))" for e s
    using entriesI [of e fns base s, OF that] assms(1) by auto
  have "counted base (add_fn g q ra h) fns (arcs(q := [])) s f c \<longleftrightarrow> counted base g fns arcs s f c"
    by (rule counted_cong) (use ne in auto)
  moreover have "counted base (add_fn g q ra h) (fns(h := q # fns h)) (arcs(q := [])) s f c \<longleftrightarrow>
      counted base (add_fn g q ra h) fns (arcs(q := [])) s f c"
    using ne by (auto simp: counted_def)
  ultimately show ?thesis by simp
qed

lemma chain_add_arc:
  assumes "chain nx q as" and "p \<notin> set as" and "p \<noteq> 0"
  shows "chain (nx(p := q)) p (p # as)"
  using assms by simp

lemma call_graph_add_arc:
  assumes G: "call_graph base g fns arcs" and e: "e \<in> entries base fns"
    and p: "\<forall>e'\<in>entries base fns. p \<notin> set (arcs e')" "p \<noteq> 0" "unat p < unat (mcount_slab_ptr g)"
    and r8: "r8 \<notin> arc_from_pc g ` set (arcs e)"
  shows "call_graph base (add_arc g p r8 e) fns (arcs(e := p # arcs e))"
proof -
  have "list_ok base (add_arc g p r8 e) h (fns h)" if "h \<in> heads base" for h
    using G that by (simp add: call_graph_def list_ok_def)
  moreover have "fn_ok (add_arc g p r8 e) (arcs(e := p # arcs e)) e'" if e': "e' \<in> entries base fns" for e'
  proof -
    have "fn_ok g arcs e'" "p \<notin> set (arcs e')" using G e' p(1) by (auto simp: call_graph_def)
    then show ?thesis using p r8 by (cases "e' = e") (auto simp: fn_ok_def)
  qed
  moreover have "set ((arcs(e := p # arcs e)) e1) \<inter> set ((arcs(e := p # arcs e)) e2) = {}"
    if "e1 \<in> entries base fns" "e2 \<in> entries base fns" "e1 \<noteq> e2" for e1 e2
  proof -
    have "set (arcs e1) \<inter> set (arcs e2) = {}" using G that unfolding call_graph_def by blast
    with that p(1) show ?thesis by (cases "e1 = e"; cases "e2 = e") simp_all
  qed
  ultimately show ?thesis unfolding call_graph_def by blast
qed

lemma counted_add_arc:
  assumes G: "call_graph base g fns arcs" and e: "e \<in> set (fns (mcount_bucket base ra))" "fn_self_pc g e = ra"
    and p: "\<forall>e'\<in>entries base fns. p \<notin> set (arcs e')" "p \<noteq> 0" "unat p < unat (mcount_slab_ptr g)"
    and r8: "r8 \<notin> arc_from_pc g ` set (arcs e)"
  shows "counted base (add_arc g p r8 e) fns (arcs(e := p # arcs e)) s f c \<longleftrightarrow>
    (if (s, f) = (ra, r8) then c = 1 else counted base g fns arcs s f c)"
proof (cases "s = ra")
  case True
  have E: "e \<in> entries base fns" by (rule entriesI) (rule e)
  note G' = call_graph_add_arc [OF G E p r8]
  have e': "fn_self_pc (add_arc g p r8 e) e = ra" using e by simp
  have ne: "a \<noteq> p" if "a \<in> set (arcs e)" for a using p(1) E that by auto
  show ?thesis unfolding True counted_is [OF G e] counted_is [OF G' e(1) e']
    using ne r8 by auto
next
  case False
  have "counted base (add_arc g p r8 e) fns (arcs(e := p # arcs e)) s f c \<longleftrightarrow> counted base g fns arcs s f c"
    by (rule counted_cong) (use p(1) entriesI [of _ fns base s] e False in auto)
  with False show ?thesis by simp
qed

section \<open>The refinement\<close>

text \<open>The abstract call graph: the count of each pair of addresses that has an arc.\<close>

definition graph_rel :: "u32 \<Rightarrow> gmon \<Rightarrow> (u32 \<times> u32 \<Rightarrow> u32 option) \<Rightarrow> bool" where
  "graph_rel base g C \<longleftrightarrow> (\<exists>fns arcs. call_graph base g fns arcs \<and>
     (\<forall>e\<in>entries base fns. arcs e \<noteq> []) \<and>
     (\<forall>s f c. C (s, f) = Some c \<longleftrightarrow> counted base g fns arcs s f c))"

text \<open>A call counts one more on the arc of its pair, wrapping around; the first one makes the arc.\<close>

definition count_call :: "u32 \<times> u32 \<Rightarrow> (u32 \<times> u32 \<Rightarrow> u32 option) \<Rightarrow> u32 \<times> u32 \<Rightarrow> u32 option" where
  "count_call k C = C(k \<mapsto> (case C k of None \<Rightarrow> 1 | Some c \<Rightarrow> c + 1))"

lemma count_call_iff:
  "count_call k C x = Some c \<longleftrightarrow>
    (if x = k then c = (case C k of None \<Rightarrow> 1 | Some c \<Rightarrow> c + 1) else C x = Some c)"
  by (auto simp: count_call_def)

lemma graph_rel_new_arc:
  assumes G: "call_graph base g fns arcs" and ne: "\<forall>e'\<in>entries base fns. e' \<noteq> e \<longrightarrow> arcs e' \<noteq> []"
    and C: "\<forall>s f c. C (s, f) = Some c \<longleftrightarrow> counted base g fns arcs s f c"
    and e: "e \<in> set (fns (mcount_bucket base ra))" "fn_self_pc g e = ra"
    and r8: "r8 \<notin> arc_from_pc g ` set (arcs e)" and room: "heap_room limit (Suc n) g"
  obtains g' where "new_arc limit r8 e (g, s) = (g', s)" "graph_rel base g' (count_call (ra, r8) C)"
    "heap_room limit n g'" "histogram_slabs g' = histogram_slabs g"
    "text_section g' = text_section g"
proof -
  from mcount_allocate_fresh [OF room, of s] obtain p q sz brk where
    al: "mcount_allocate limit 12 (g, s) = (p, took g q sz brk, s)" and p0: "p \<noteq> 0"
    and p: "unat (mcount_slab_ptr g) \<le> unat p" and q: "unat q = unat p + 12"
    and room': "heap_room limit n (took g q sz brk)" by metis
  let ?g = "took g q sz brk"
  have G': "call_graph base ?g fns arcs" by (rule call_graph_took [OF G]) (use p q in simp)
  have fresh: "\<forall>e'\<in>entries base fns. p \<notin> set (arcs e')"
    using G p unfolding call_graph_def fn_ok_def by fastforce
  have pq: "unat p < unat (mcount_slab_ptr ?g)" using q by simp
  have e': "fn_self_pc ?g e = ra" and r8': "r8 \<notin> arc_from_pc ?g ` set (arcs e)" using e r8 by simp_all
  have E: "e \<in> entries base fns" by (rule entriesI) (rule e)
  have none: "C (ra, r8) = None"
  proof (rule ccontr)
    assume "C (ra, r8) \<noteq> None"
    then obtain c where "counted base g fns arcs ra r8 c" using C by auto
    with counted_is [OF G e] r8 show False by auto
  qed
  show ?thesis
  proof (rule that [OF new_arc_eq [OF al]])
    show "graph_rel base (add_arc ?g p r8 e) (count_call (ra, r8) C)"
      unfolding graph_rel_def
    proof (intro exI conjI allI)
      show "call_graph base (add_arc ?g p r8 e) fns (arcs(e := p # arcs e))"
        by (rule call_graph_add_arc [OF G' E fresh p0 pq r8'])
      show "\<forall>e'\<in>entries base fns. (arcs(e := p # arcs e)) e' \<noteq> []" using ne by simp
      fix s f c
      show "count_call (ra, r8) C (s, f) = Some c \<longleftrightarrow>
          counted base (add_arc ?g p r8 e) fns (arcs(e := p # arcs e)) s f c"
        unfolding counted_add_arc [OF G' e(1) e' fresh p0 pq r8'] counted_took count_call_iff none
        using C by simp
    qed
  qed (use room' in simp_all)
qed

text \<open>The start of the sampler takes a block from the heap and leaves the lists and the slab alone.\<close>

definition same_graph :: "gmon \<Rightarrow> gmon \<Rightarrow> bool" where
  "same_graph g g' \<longleftrightarrow> fn_head_at g' = fn_head_at g \<and> fn_next g' = fn_next g \<and> fn_self_pc g' = fn_self_pc g \<and>
     fn_arc_head g' = fn_arc_head g \<and> arc_next g' = arc_next g \<and> arc_from_pc g' = arc_from_pc g \<and>
     arc_count g' = arc_count g \<and> mcount_slab_ptr g' = mcount_slab_ptr g \<and> mcount_slab_size g' = mcount_slab_size g \<and>
     text_section g' = text_section g"

lemma same_graph_iff:
  assumes "same_graph g g'"
  shows "call_graph base g' fns arcs = call_graph base g fns arcs"
    "counted base g' fns arcs ra r8 c = counted base g fns arcs ra r8 c"
  using assms by (simp_all add: same_graph_def call_graph_def list_ok_def fn_ok_def counted_def)

lemma clear_samples_eq: "\<exists>m. clear_samples p n g = g\<lparr>pcsamples_at := m\<rparr>"
  unfolding clear_samples_def by (induction n) (auto simp: for_range_Suc intro: exI [of _ "pcsamples_at g"])

definition sampler_started :: "u32 \<Rightarrow> u32 \<Rightarrow> u32 \<Rightarrow> gmon \<times> 'h tsys \<Rightarrow> gmon \<times> 'h tsys" where
  "sampler_started limit alarm pcsample = (\<lambda>(g, A, s).
     if pcsample_need_init g \<noteq> 0 then
       case nios2_pcsample_init limit alarm pcsample (g\<lparr>pcsample_need_init := 0\<rparr>, A, s) of (r, g, A, s) \<Rightarrow>
         (g\<lparr>pcsample_need_init := r\<rparr>, A, s)
     else (g, A, s))"

lemma histogram_bytes: "unat ((x :: u32) div 32 * 2) < 2 ^ 28"
proof -
  have "unat x < 2 ^ LENGTH(32)" by (rule unsigned_less)
  then have "unat (x div 32) < 2 ^ 27" by (simp add: unat_div_distrib)
  then show ?thesis unfolding unat_word_ariths by simp
qed

lemma sampler_started_graph:
  assumes room: "heap_room limit (n + histogram_slabs g) g"
  obtains g1 A1 where "sampler_started limit alarm pcsample (g, A, s) = (g1, A1, s)" "same_graph g g1"
    "heap_room limit (n + histogram_slabs g1) g1"
    "A1 = (if pcsample_need_init g \<noteq> 0 \<and> alt_tick_rate A \<noteq> 0 \<and> alarm \<noteq> 0 then started A alarm 1 pcsample 0 else A)"
proof (cases "pcsample_need_init g = 0 \<or> alt_tick_rate A = 0")
  case True
  show ?thesis
  proof (rule that)
    show "sampler_started limit alarm pcsample (g, A, s) =
        (if pcsample_need_init g = 0 then g else g\<lparr>pcsample_need_init := 1\<rparr>, A, s)"
      using True by (auto simp: sampler_started_def nios2_pcsample_init_def alt_ticks_per_second_def)
  qed (use room True in \<open>auto simp: same_graph_def heap_room_def histogram_slabs_def text_section_def\<close>)
next
  case False
  let ?n = "(s_high_pc g - s_low_pc g) div 32 * 2"
  define a where "a = 4 * ((unat (gmon_heap_end g) + 3) div 4)"
  have a: "unat (gmon_heap_end g) \<le> a" "a \<le> unat (gmon_heap_end g) + 3" unfolding a_def by presburger+
  have hs: "unat ?n + 3 \<le> 1023 * histogram_slabs g"
  proof -
    have "unat ?n + 3 < 1023 * ((unat ?n + 3) div 1023 + 1)"
      using dividend_less_times_div [of 1023 "unat ?n + 3"] by (simp add: algebra_simps)
    with False show ?thesis by (simp add: histogram_slabs_def PCSAMPLE_BYTES_PER_BUCKET_def)
  qed
  have lim: "unat limit < 2 ^ 30" "unat (gmon_heap_end g) + 1023 * n + (unat ?n + 3) \<le> unat limit"
    and pos: "0 < unat (gmon_heap_end g)"
    using room hs by (auto simp: heap_room_def word_less_nat_alt algebra_simps)
  have fit: "a + unat ?n + 1023 * n \<le> unat limit" using a lim(2) by simp
  have ua: "unat (of_nat (a + unat ?n) :: u32) = a + unat ?n"
    unfolding unat_of_nat using fit lim(1) by simp
  have "unat ?n < 2 ^ 31" using histogram_bytes [of "s_high_pc g - s_low_pc g"] by simp
  with alt_sbrk_eq [of limit ?n "gmon_heap_end g" s] lim fit
  have sb: "alt_sbrk limit ?n (gmon_heap_end g, s) = (of_nat a, of_nat (a + unat ?n), s)"
    by (simp add: a_def [symmetric] Let_def)
  have nz: "(of_nat a :: u32) \<noteq> 0"
  proof -
    have "unat (of_nat a :: u32) = a" unfolding unat_of_nat using fit lim(1) by simp
    with a(1) pos show ?thesis by (metis le_zero_eq less_irrefl unat_0)
  qed
  obtain m where m: "clear_samples (of_nat a) (unat ((s_high_pc g - s_low_pc g) div 32))
      (g\<lparr>pcsample_need_init := 0, gmon_heap_end := of_nat (a + unat ?n), s_pcsamples := of_nat a\<rparr>) =
      (g\<lparr>pcsample_need_init := 0, gmon_heap_end := of_nat (a + unat ?n), s_pcsamples := of_nat a\<rparr>)\<lparr>pcsamples_at := m\<rparr>"
    using clear_samples_eq by blast
  define g1 where "g1 = g\<lparr>pcsample_need_init := 0, gmon_heap_end := of_nat (a + unat ?n), s_pcsamples := of_nat a,
    pcsamples_at := m, alt_gmon_data := (alt_gmon_data g)(2 := of_nat a, 6 := alt_tick_rate A)\<rparr>"
  show ?thesis
  proof (rule that)
    show "sampler_started limit alarm pcsample (g, A, s) =
        (g1, if pcsample_need_init g \<noteq> 0 \<and> alt_tick_rate A \<noteq> 0 \<and> alarm \<noteq> 0 then started A alarm 1 pcsample 0 else A, s)"
      using False sb nz m
      by (simp add: sampler_started_def nios2_pcsample_init_def alt_ticks_per_second_def gmon_sbrk_def
          alarm_start_eq gmon_consts g1_def Let_def)
    show "same_graph g g1" by (simp add: g1_def same_graph_def text_section_def)
    have "histogram_slabs g1 = 0" by (simp add: g1_def histogram_slabs_def)
    moreover have "heap_room limit n g1"
      using room ua a fit lim pos by (auto simp: heap_room_def g1_def word_less_nat_alt)
    ultimately show "heap_room limit (n + histogram_slabs g1) g1" by simp
  qed simp
qed

lemma mcount_record_started:
  assumes "sampler_started limit alarm pcsample (g, A, s) = (g1, A1, s)"
  shows "mcount_record limit alarm pcsample ra r8 e h (g, A, s) =
    (let s' = s\<lparr>cpu_status := cpu_status s AND NOT NIOS2_STATUS_PIE_MSK\<rparr>;
         (e, g, s') = (if e = 0 then new_fn_entry limit ra h (g1, s') else (e, g1, s'));
         (g, s') = new_arc limit r8 e (g, s')
     in (g, A1, s'\<lparr>cpu_status := cpu_status s\<rparr>))"
proof -
  have "(if pcsample_need_init g \<noteq> 0 then
       case nios2_pcsample_init limit alarm pcsample (g\<lparr>pcsample_need_init := 0\<rparr>, A, s) of (r, g, A, s) \<Rightarrow>
         (g\<lparr>pcsample_need_init := r\<rparr>, A, s)
     else (g, A, s)) = (g1, A1, s)"
    using assms by (simp add: sampler_started_def)
  then show ?thesis
    unfolding mcount_record_def prod.case by (simp add: alt_irq_disable_all_def alt_irq_enable_all_def Let_def)
qed

lemma mcount_refines:
  assumes R: "graph_rel base g C" and room: "heap_room limit (Suc (Suc n) + histogram_slabs g) g"
  obtains g' A' where "mcount limit alarm pcsample base ra r8 (g, A, s) = Some (g', A', s)"
    "graph_rel base g' (count_call (ra, r8) C)" "heap_room limit (n + histogram_slabs g') g'"
    "A' = A \<or> A' = started A alarm 1 pcsample 0" "text_section g' = text_section g"
proof -
  let ?h = "mcount_bucket base ra"
  let ?s = "s\<lparr>cpu_status := cpu_status s AND NOT NIOS2_STATUS_PIE_MSK\<rparr>"
  obtain g1 A1 where st: "sampler_started limit alarm pcsample (g, A, s) = (g1, A1, s)"
    and same: "same_graph g g1" and room2: "heap_room limit (Suc (Suc n) + histogram_slabs g1) g1"
    and A1: "A1 = A \<or> A1 = started A alarm 1 pcsample 0"
    by (rule sampler_started_graph [OF room, of alarm pcsample A s]) metis
  note rec_eq = mcount_record_started [OF st]
  have room1: "heap_room limit (Suc (n + histogram_slabs g1)) g1"
    using room2 by (simp add: heap_room_def)
  from R obtain fns arcs where G: "call_graph base g fns arcs" and ne: "\<forall>e\<in>entries base fns. arcs e \<noteq> []"
    and C: "\<forall>s f c. C (s, f) = Some c \<longleftrightarrow> counted base g fns arcs s f c"
    unfolding graph_rel_def by blast
  have L: "list_ok base g ?h (fns ?h)" using G by (simp add: call_graph_def)
  then have ff: "find_fn g ra (fn_head_at g ?h) = Some (first_with (fn_self_pc g) ra (fns ?h))"
    and dis: "distinct (map (fn_self_pc g) (fns ?h))" and nz: "0 \<notin> set (fns ?h)"
    by (auto simp: list_ok_def intro: find_fn_chain dest: chain_not_null)
  show ?thesis
  proof (cases "ra \<in> fn_self_pc g ` set (fns ?h)")
    case True
    then obtain e where e: "e \<in> set (fns ?h)" "fn_self_pc g e = ra" by blast
    have fe: "find_fn g ra (fn_head_at g ?h) = Some e" and e0: "e \<noteq> 0"
      using ff first_with_some [OF e(1) dis] e nz by auto
    have E: "e \<in> entries base fns" by (rule entriesI) (rule e)
    have "fn_ok g arcs e" using G E by (simp add: call_graph_def)
    then have fa: "find_arc g r8 (fn_arc_head g e) = Some (first_with (arc_from_pc g) r8 (arcs e))"
      and dia: "distinct (map (arc_from_pc g) (arcs e))" and nza: "0 \<notin> set (arcs e)"
      using ne E by (auto simp: fn_ok_def intro: find_arc_chain dest: chain_not_null)
    show ?thesis
    proof (cases "r8 \<in> arc_from_pc g ` set (arcs e)")
      case True
      then obtain a where a: "a \<in> set (arcs e)" "arc_from_pc g a = r8" by blast
      have a': "find_arc g r8 (fn_arc_head g e) = Some a" "a \<noteq> 0"
        using fa first_with_some [OF a(1) dia] a nza by auto
      have cnt: "C (ra, r8) = Some (arc_count g a)" using C counted_is [OF G e] a by auto
      have "graph_rel base (count_up g a) (count_call (ra, r8) C)"
        unfolding graph_rel_def
      proof (intro exI conjI allI)
        show "call_graph base (count_up g a) fns arcs" using G by (simp add: call_graph_count_up)
        show "\<forall>e\<in>entries base fns. arcs e \<noteq> []" by (rule ne)
        show "count_call (ra, r8) C (s, f) = Some c \<longleftrightarrow> counted base (count_up g a) fns arcs s f c" for s f c
          unfolding counted_count_up [OF G e a] count_call_iff cnt using C by simp
      qed
      moreover have "mcount limit alarm pcsample base ra r8 (g, A, s) = Some (count_up g a, A, s)"
        using fe e0 a' by (simp add: mcount_def Let_def count_up_def)
      moreover have "heap_room limit (n + histogram_slabs g) (count_up g a)"
        using room by (simp add: heap_room_def)
      ultimately show ?thesis using that by simp
    next
      case False
      have G1: "call_graph base g1 fns arcs" and C1: "\<forall>s f c. C (s, f) = Some c \<longleftrightarrow> counted base g1 fns arcs s f c"
        and e1: "fn_self_pc g1 e = ra" and new: "r8 \<notin> arc_from_pc g1 ` set (arcs e)"
        using G C e False same same_graph_iff [OF same] by (simp_all add: same_graph_def)
      obtain g' where g': "new_arc limit r8 e (g1, ?s) = (g', ?s)" "graph_rel base g' (count_call (ra, r8) C)"
        "heap_room limit (n + histogram_slabs g1) g'" "histogram_slabs g' = histogram_slabs g1"
        "text_section g' = text_section g1"
        by (rule graph_rel_new_arc [OF G1 _ C1 e(1) e1 new room1, of ?s]) (use ne in auto)
      have "mcount limit alarm pcsample base ra r8 (g, A, s) = Some (g', A1, s)"
        using fe e0 fa first_with_none [OF False] g'(1) by (simp add: mcount_def Let_def rec_eq)
      with g' A1 same show ?thesis using that by (simp add: same_graph_def)
    qed
  next
    case False
    have room2': "heap_room limit (Suc (Suc n + histogram_slabs g1)) g1" using room2 by simp
    from mcount_allocate_fresh [OF room2', of ?s] obtain q p sz brk where
      al: "mcount_allocate limit 12 (g1, ?s) = (q, took g1 p sz brk, ?s)" and q0: "q \<noteq> 0"
      and q: "unat (mcount_slab_ptr g1) \<le> unat q" and p: "unat p = unat q + 12"
      and room': "heap_room limit (Suc n + histogram_slabs g1) (took g1 p sz brk)" by metis
    let ?g = "took g1 p sz brk" and ?fns = "fns(?h := q # fns ?h)" and ?arcs = "arcs(q := [])"
    have G1: "call_graph base g1 fns arcs" by (simp add: same_graph_iff [OF same] G)
    have G': "call_graph base ?g fns arcs" by (rule call_graph_took [OF G1]) (use p q in simp)
    have fresh: "q \<notin> entries base fns"
      using G1 q unfolding call_graph_def fn_ok_def by fastforce
    have False': "ra \<notin> fn_self_pc ?g ` set (fns ?h)" using False same by (simp add: same_graph_def)
    have qp: "unat q < unat (mcount_slab_ptr ?g)" using p by simp
    note G2 = call_graph_add_fn [OF G' fresh q0 qp False']
    obtain g' where g': "new_arc limit r8 q (add_fn ?g q ra ?h, ?s) = (g', ?s)"
      "graph_rel base g' (count_call (ra, r8) C)" "heap_room limit (n + histogram_slabs g1) g'"
      "histogram_slabs g' = histogram_slabs (add_fn ?g q ra ?h)"
      "text_section g' = text_section (add_fn ?g q ra ?h)"
    proof (rule graph_rel_new_arc [OF G2])
      show "\<forall>e'\<in>entries base ?fns. e' \<noteq> q \<longrightarrow> ?arcs e' \<noteq> []"
        using ne by (auto simp: entries_def split: if_splits)
      show "\<forall>s f c. C (s, f) = Some c \<longleftrightarrow> counted base (add_fn ?g q ra ?h) ?fns ?arcs s f c"
        unfolding counted_add_fn [OF fresh refl] counted_took same_graph_iff [OF same] by (rule C)
    qed (use room' in auto)
    have "mcount limit alarm pcsample base ra r8 (g, A, s) = Some (g', A1, s)"
      using ff first_with_none [OF False] new_fn_entry_eq [OF al] g'(1)
      by (simp add: mcount_def Let_def rec_eq)
    with g' A1 same show ?thesis using that by (simp add: same_graph_def)
  qed
qed

text \<open>
  What the lists say of a pair: the count of its arc, 0 when there is none, and \<open>None\<close> when a list
  has no end.
\<close>

definition calls_made :: "u32 \<Rightarrow> gmon \<Rightarrow> u32 \<times> u32 \<Rightarrow> u32 option" where
  "calls_made base g = (\<lambda>(ra, r8).
     case find_fn g ra (fn_head_at g (mcount_bucket base ra)) of
       None \<Rightarrow> None
     | Some e \<Rightarrow>
         if e = 0 then Some 0
         else case find_arc g r8 (fn_arc_head g e) of
                None \<Rightarrow> None
              | Some a \<Rightarrow> Some (if a = 0 then 0 else arc_count g a))"

text \<open>
  A run of an instrumented program: calls of functions, samples of the program counter by the timer
  interrupt, and what happens elsewhere, to the alarms and to the machine (the clock is started or
  ticks, other code runs). The value is \<open>None\<close> when a call does not return, and after a sample outside
  the whole buckets of the text section, which writes behind the histogram (\<open>pcsample_past_end\<close>).
\<close>

datatype 'h profiled = Called u32 u32 | Sampled u32 | Elsewhere "alarms \<Rightarrow> alarms" "'h machine \<Rightarrow> 'h machine"

definition sampled_inside :: "u32 \<times> u32 \<Rightarrow> u32 \<Rightarrow> bool" where
  "sampled_inside = (\<lambda>(low, high) ea. low \<le> ea \<longrightarrow> ea < high \<longrightarrow> (ea - low) div 32 < (high - low) div 32)"

fun profiled_run ::
  "u32 \<Rightarrow> u32 \<Rightarrow> u32 \<Rightarrow> u32 \<Rightarrow> 'h profiled list \<Rightarrow> gmon \<times> 'h tsys \<Rightarrow> (gmon \<times> 'h tsys) option" where
  "profiled_run limit alarm pcsample base [] st = Some st"
| "profiled_run limit alarm pcsample base (Called ra r8 # es) st =
     (case mcount limit alarm pcsample base ra r8 st of
        None \<Rightarrow> None
      | Some st \<Rightarrow> profiled_run limit alarm pcsample base es st)"
| "profiled_run limit alarm pcsample base (Sampled ea # es) (g, A, s) =
     (if s_pcsamples g = 0 \<or> sampled_inside (text_section g) ea
      then profiled_run limit alarm pcsample base es (snd (nios2_pcsample ea g), A, s)
      else None)"
| "profiled_run limit alarm pcsample base (Elsewhere f m # es) (g, A, s) =
     profiled_run limit alarm pcsample base es (g, f A, m s)"

fun calls_of :: "'h profiled list \<Rightarrow> (u32 \<times> u32) list" where
  "calls_of [] = []"
| "calls_of (Called ra r8 # es) = (ra, r8) # calls_of es"
| "calls_of (_ # es) = calls_of es"

fun elsewhere :: "'h profiled list \<Rightarrow> 'h machine \<Rightarrow> 'h machine" where
  "elsewhere [] s = s"
| "elsewhere (Elsewhere f m # es) s = elsewhere es (m s)"
| "elsewhere (_ # es) s = elsewhere es s"

text \<open>A sample changes the histogram only.\<close>

lemma nios2_pcsample_graph:
  "same_graph g (snd (nios2_pcsample ea g))" "text_section (snd (nios2_pcsample ea g)) = text_section g"
  "histogram_slabs (snd (nios2_pcsample ea g)) = histogram_slabs g"
  "heap_room limit n (snd (nios2_pcsample ea g)) = heap_room limit n g"
  by (simp_all add: nios2_pcsample_def same_graph_def text_section_def histogram_slabs_def heap_room_def Let_def)

lemma graph_rel_same: "same_graph g g' \<Longrightarrow> graph_rel base g C \<Longrightarrow> graph_rel base g' C"
  by (simp add: graph_rel_def same_graph_iff)

lemma calls_made_rel:
  assumes "graph_rel base g C"
  shows "calls_made base g k = Some (case C k of None \<Rightarrow> 0 | Some c \<Rightarrow> c)"
proof -
  obtain ra r8 where k: "k = (ra, r8)" by (cases k)
  let ?h = "mcount_bucket base ra"
  from assms obtain fns arcs where G: "call_graph base g fns arcs" and ne: "\<forall>e\<in>entries base fns. arcs e \<noteq> []"
    and C: "\<forall>s f c. C (s, f) = Some c \<longleftrightarrow> counted base g fns arcs s f c"
    unfolding graph_rel_def by blast
  have "list_ok base g ?h (fns ?h)" using G by (simp add: call_graph_def)
  then have ff: "find_fn g ra (fn_head_at g ?h) = Some (first_with (fn_self_pc g) ra (fns ?h))"
    and dis: "distinct (map (fn_self_pc g) (fns ?h))" and nz: "0 \<notin> set (fns ?h)"
    by (auto simp: list_ok_def intro: find_fn_chain dest: chain_not_null)
  show ?thesis
  proof (cases "ra \<in> fn_self_pc g ` set (fns ?h)")
    case False
    then have "\<not> counted base g fns arcs ra r8 c" for c by (auto simp: counted_def)
    with C have "C k = None" unfolding k by (metis not_None_eq)
    with ff first_with_none [OF False] show ?thesis by (simp add: calls_made_def k)
  next
    case True
    then obtain e where e: "e \<in> set (fns ?h)" "fn_self_pc g e = ra" by blast
    have fe: "find_fn g ra (fn_head_at g ?h) = Some e" and e0: "e \<noteq> 0"
      using ff first_with_some [OF e(1) dis] e nz by auto
    have E: "e \<in> entries base fns" by (rule entriesI) (rule e)
    have "fn_ok g arcs e" using G E by (simp add: call_graph_def)
    then have fa: "find_arc g r8 (fn_arc_head g e) = Some (first_with (arc_from_pc g) r8 (arcs e))"
      and dia: "distinct (map (arc_from_pc g) (arcs e))" and nza: "0 \<notin> set (arcs e)"
      using ne E by (auto simp: fn_ok_def intro: find_arc_chain dest: chain_not_null)
    have Ck: "C k = Some c \<longleftrightarrow> (\<exists>a\<in>set (arcs e). arc_from_pc g a = r8 \<and> arc_count g a = c)" for c
      using C counted_is [OF G e] by (simp add: k)
    show ?thesis
    proof (cases "r8 \<in> arc_from_pc g ` set (arcs e)")
      case True
      then obtain a where a: "a \<in> set (arcs e)" "arc_from_pc g a = r8" by blast
      then have "C k = Some (arc_count g a)" using Ck by blast
      moreover have "find_arc g r8 (fn_arc_head g e) = Some a" "a \<noteq> 0"
        using fa first_with_some [OF a(1) dia] a nza by auto
      ultimately show ?thesis using fe e0 by (simp add: calls_made_def k)
    next
      case False
      then have "C k = None" using Ck by (metis image_eqI not_None_eq)
      with fe e0 fa first_with_none [OF False] show ?thesis by (simp add: calls_made_def k)
    qed
  qed
qed

lemma profiled_run_refines:
  assumes "graph_rel base g C" and "heap_room limit (2 * length (calls_of es) + histogram_slabs g) g"
    and "\<forall>ea. Sampled ea \<in> set es \<longrightarrow> sampled_inside (text_section g) ea"
  shows "\<exists>g' A'. profiled_run limit alarm pcsample base es (g, A, s) = Some (g', A', elsewhere es s) \<and>
    graph_rel base g' (fold count_call (calls_of es) C)"
  using assms
proof (induction es arbitrary: g A s C)
  case (Cons ev es)
  show ?case
  proof (cases ev)
    case (Called ra r8)
    have room: "heap_room limit (Suc (Suc (2 * length (calls_of es))) + histogram_slabs g) g"
      using Cons.prems(2) by (simp add: Called)
    obtain g' A' where g': "mcount limit alarm pcsample base ra r8 (g, A, s) = Some (g', A', s)"
      "graph_rel base g' (count_call (ra, r8) C)"
      "heap_room limit (2 * length (calls_of es) + histogram_slabs g') g'" "text_section g' = text_section g"
      by (rule mcount_refines [OF Cons.prems(1) room])
    have "\<forall>ea. Sampled ea \<in> set es \<longrightarrow> sampled_inside (text_section g') ea"
      using Cons.prems(3) g'(4) by simp
    from Cons.IH [OF g'(2,3) this] g'(1) show ?thesis by (simp add: Called)
  next
    case (Sampled ea)
    have "\<exists>g' A'. profiled_run limit alarm pcsample base es (snd (nios2_pcsample ea g), A, s) =
        Some (g', A', elsewhere es s) \<and> graph_rel base g' (fold count_call (calls_of es) C)"
      using Cons.prems by (intro Cons.IH) (simp_all add: Sampled nios2_pcsample_graph graph_rel_same
          [OF nios2_pcsample_graph(1)])
    moreover have "sampled_inside (text_section g) ea" using Cons.prems(3) by (simp add: Sampled)
    ultimately show ?thesis by (simp add: Sampled)
  next
    case (Elsewhere f m)
    have "\<exists>g' A'. profiled_run limit alarm pcsample base es (g, f A, m s) =
        Some (g', A', elsewhere es (m s)) \<and> graph_rel base g' (fold count_call (calls_of es) C)"
      using Cons.prems by (intro Cons.IH) (simp_all add: Elsewhere)
    then show ?thesis by (simp add: Elsewhere)
  qed
qed simp

lemma fold_count_call:
  "(case fold count_call calls C k of None \<Rightarrow> 0 | Some c \<Rightarrow> c) =
    (case C k of None \<Rightarrow> 0 | Some c \<Rightarrow> c) + of_nat (count_list calls k)"
proof (induction calls arbitrary: C)
  case (Cons x calls)
  show ?case unfolding fold_simps Cons.IH
    by (cases "k = x"; cases "C x") (simp_all add: count_call_def)
qed simp

lemma graph_rel_empty:
  assumes "\<forall>ra. fn_head_at g (mcount_bucket base ra) = 0"
  shows "graph_rel base g (\<lambda>_. None)"
  unfolding graph_rel_def
proof (intro exI conjI)
  show "call_graph base g (\<lambda>_. []) (\<lambda>_. [])"
    using assms by (auto simp: call_graph_def list_ok_def entries_def heads_def)
qed (simp_all add: entries_def counted_def)

text \<open>C13: The profiler's call graph is right. From empty lists, in any run of calls of instrumented functions,
  samples of the timer and changes elsewhere, with room in the heap for the structures of the calls
  and, while the sampler has not started, for its histogram: every call of \<open>mcount\<close> returns, also the one
  that starts the sampler because the clock has come to run; at the end the lists hold for every pair
  of called function and caller the number of its calls modulo 2 to the 32, 0 included, and the machine
  with its interrupt state is as the code elsewhere left it. The samples lie outside the text section or
  in its whole buckets of 32 bytes.\<close>

theorem mcount_counts_calls:
  assumes "\<forall>ra. fn_head_at g (mcount_bucket base ra) = 0"
    and "heap_room limit (2 * length (calls_of es) + histogram_slabs g) g"
    and "\<forall>ea. Sampled ea \<in> set es \<longrightarrow> sampled_inside (text_section g) ea"
  shows "\<exists>g' A'. profiled_run limit alarm pcsample base es (g, A, s) = Some (g', A', elsewhere es s) \<and>
    (\<forall>k. calls_made base g' k = Some (of_nat (count_list (calls_of es) k)))"
  using profiled_run_refines [OF graph_rel_empty [OF assms(1)] assms(2,3), of alarm pcsample A s]
    calls_made_rel fold_count_call [where C = "\<lambda>_. None" and calls = "calls_of es"]
  by fastforce

text \<open>The run of the witness: two calls before the clock runs, then the clock starts, a call starts the sampler,
  and a sample falls between two more calls.\<close>

definition gmon_start :: gmon where
  "gmon_start = \<lparr>fn_head_at = (\<lambda>_. 0), fn_next = (\<lambda>_. 0), fn_self_pc = (\<lambda>_. 0), fn_arc_head = (\<lambda>_. 0),
     arc_next = (\<lambda>_. 0), arc_from_pc = (\<lambda>_. 0), arc_count = (\<lambda>_. 0), pcsample_need_init = 1,
     s_pcsamples = 0, pcsamples_at = (\<lambda>_. 0xFFFF), s_low_pc = 0x80000, s_high_pc = 0x80050,
     alt_gmon_data = (\<lambda>_. 0), mcount_slab_ptr = 0, mcount_slab_size = 0, gmon_heap_end = 0x90001\<rparr>"

definition gmon_events :: "unit profiled list" where
  "gmon_events = [Called 0x80120 0x80200, Called 0x80120 0x80300,
     Elsewhere (alt_tick_rate_update (\<lambda>_. 100)) id, Called 0x80020 0x80120, Sampled 0x80024,
     Called 0x80120 0x80200, Called 0x80020 0x80120]"

theorem mcount_counts_calls_witness:
  "\<exists>g' A'. profiled_run 0x986a0 16 1 0x8000 gmon_events (gmon_start, alarm16\<lparr>alt_tick_rate := 0\<rparr>, reset_machine ()) =
      Some (g', A', reset_machine ()) \<and>
    calls_made 0x8000 g' (0x80120, 0x80200) = Some 2 \<and> calls_made 0x8000 g' (0x80020, 0x80120) = Some 2 \<and>
    calls_made 0x8000 g' (0x80200, 0x80120) = Some 0"
proof -
  have "heap_room 0x986a0 (2 * length (calls_of gmon_events) + histogram_slabs gmon_start) gmon_start"
    by (simp add: heap_room_def gmon_start_def gmon_events_def histogram_slabs_def PCSAMPLE_BYTES_PER_BUCKET_def)
  moreover have "\<forall>ea. Sampled ea \<in> set gmon_events \<longrightarrow> sampled_inside (text_section gmon_start) ea"
    by (simp add: gmon_events_def gmon_start_def text_section_def sampled_inside_def)
  ultimately obtain g' A' where "profiled_run 0x986a0 16 1 0x8000 gmon_events
      (gmon_start, alarm16\<lparr>alt_tick_rate := 0\<rparr>, reset_machine ()) = Some (g', A', elsewhere gmon_events (reset_machine ()))"
    and c: "\<And>k. calls_made 0x8000 g' k = Some (of_nat (count_list (calls_of gmon_events) k))"
    using mcount_counts_calls [where g = gmon_start and base = "0x8000" and es = gmon_events and limit = "0x986a0"
        and alarm = 16 and pcsample = 1 and A = "alarm16\<lparr>alt_tick_rate := 0\<rparr>" and s = "reset_machine ()"]
    by (auto simp: gmon_start_def)
  then show ?thesis
    using c [of "(0x80120, 0x80200)"] c [of "(0x80020, 0x80120)"] c [of "(0x80200, 0x80120)"]
    by (auto simp: gmon_events_def)
qed

section \<open>The histogram\<close>

text \<open>The halfwords of two indices of the histogram have different addresses.\<close>

lemma sample_addr_eq:
  assumes "i < 2 ^ 27" and "j < 2 ^ 27"
  shows "(p :: u32) + of_nat (2 * i) = p + of_nat (2 * j) \<longleftrightarrow> i = j"
proof
  assume "p + of_nat (2 * i) = p + of_nat (2 * j)"
  then have "unat (of_nat (2 * i) :: u32) = unat (of_nat (2 * j) :: u32)" by simp
  with assms show "i = j" unfolding unat_of_nat by simp
qed simp

lemma clear_samples_fields:
  "s_low_pc (clear_samples p n g) = s_low_pc g" "s_high_pc (clear_samples p n g) = s_high_pc g"
  "s_pcsamples (clear_samples p n g) = s_pcsamples g"
  unfolding clear_samples_def by (induction n) (simp_all add: for_range_Suc)

lemma clear_samples_zero:
  assumes "b < n" and "n \<le> 2 ^ 27"
  shows "pcsamples_at (clear_samples p n g) (p + of_nat (2 * b)) = 0"
  using assms
proof (induction n)
  case (Suc n)
  have "pcsamples_at (clear_samples p (Suc n) g) =
      (pcsamples_at (clear_samples p n g))(p + of_nat (2 * n) := 0)"
    by (simp add: clear_samples_def for_range_Suc)
  with Suc sample_addr_eq [of b n p] show ?case by (cases "b = n") auto
qed simp

definition in_bucket :: "gmon \<Rightarrow> nat \<Rightarrow> u32 \<Rightarrow> bool" where
  "in_bucket g b ea \<longleftrightarrow> s_low_pc g \<le> ea \<and> ea < s_high_pc g \<and> unat (ea - s_low_pc g) div 32 = b"

lemma nios2_pcsample_fields [simp]:
  "s_low_pc (snd (nios2_pcsample ea g)) = s_low_pc g" "s_high_pc (snd (nios2_pcsample ea g)) = s_high_pc g"
  "s_pcsamples (snd (nios2_pcsample ea g)) = s_pcsamples g"
  by (simp_all add: nios2_pcsample_def Let_def)

lemma bucket_less: "unat (x :: u32) div 32 < 2 ^ 27"
proof -
  have "unat x < 2 ^ LENGTH(32)" by (rule unsigned_less)
  then show ?thesis by simp
qed

lemma nios2_pcsample_counts:
  assumes "s_pcsamples g \<noteq> 0" and "b < 2 ^ 27"
  shows "pcsamples_at (snd (nios2_pcsample ea g)) (s_pcsamples g + of_nat (2 * b)) =
    pcsamples_at g (s_pcsamples g + of_nat (2 * b)) + (if in_bucket g b ea then 1 else 0)"
proof (cases "s_low_pc g \<le> ea \<and> ea < s_high_pc g")
  case True
  let ?n = "unat (ea - s_low_pc g) div 32"
  have "(ea - s_low_pc g) div 32 * 2 = of_nat (2 * ?n)"
  proof (rule word_unat_eq_iff [THEN iffD2])
    have "unat ((ea - s_low_pc g) div 32) = ?n" by (simp add: unat_div_distrib)
    then show "unat ((ea - s_low_pc g) div 32 * 2) = unat (of_nat (2 * ?n) :: u32)"
      using bucket_less [of "ea - s_low_pc g"] unfolding unat_word_ariths unat_of_nat by simp
  qed
  then have "pcsamples_at (snd (nios2_pcsample ea g)) =
      (pcsamples_at g)(s_pcsamples g + of_nat (2 * ?n) :=
        pcsamples_at g (s_pcsamples g + of_nat (2 * ?n)) + 1)"
    using True assms(1) by (simp add: nios2_pcsample_def Let_def PCSAMPLE_BYTES_PER_BUCKET_def)
  with True sample_addr_eq [OF assms(2) bucket_less] show ?thesis
    by (auto simp: in_bucket_def)
next
  case False
  then show ?thesis by (auto simp: nios2_pcsample_def in_bucket_def)
qed

lemma pcsamples_fold:
  assumes "s_pcsamples g \<noteq> 0" and "b < 2 ^ 27"
  shows "pcsamples_at (fold (\<lambda>ea g. snd (nios2_pcsample ea g)) eas g) (s_pcsamples g + of_nat (2 * b)) =
    pcsamples_at g (s_pcsamples g + of_nat (2 * b)) + of_nat (length (filter (in_bucket g b) eas))"
  using assms(1)
proof (induction eas arbitrary: g)
  case (Cons ea eas)
  have "in_bucket (snd (nios2_pcsample ea g)) b = in_bucket g b" by (simp add: fun_eq_iff in_bucket_def)
  with Cons.IH [of "snd (nios2_pcsample ea g)"] Cons.prems nios2_pcsample_counts [OF Cons.prems assms(2), of ea]
  show ?case by simp
qed simp

text \<open>The histogram is right: once sampling has started, any sequence of samples of the program counter leaves in
  each whole bucket of 32 bytes of the text section the number of samples that fell into it, modulo
  2 to the 16.\<close>

theorem pcsample_histogram:
  assumes "nios2_pcsample_init limit alarm fn (g, A, s) = (r, g', A', s')" and "alt_tick_rate A \<noteq> 0"
    and "s_pcsamples g' \<noteq> 0" and "b < unat ((s_high_pc g - s_low_pc g) div 32)"
  shows "pcsamples_at (fold (\<lambda>ea g. snd (nios2_pcsample ea g)) eas g') (s_pcsamples g' + of_nat (2 * b)) =
    of_nat (length (filter (in_bucket g b) eas))"
proof -
  let ?n = "(s_high_pc g - s_low_pc g) div 32"
  obtain p h t where sb: "gmon_sbrk limit (?n * 2) (g, s) = (p, g\<lparr>gmon_heap_end := h\<rparr>, t)"
    unfolding gmon_sbrk_def by (cases "alt_sbrk limit (?n * 2) (gmon_heap_end g, s)") auto
  let ?c = "clear_samples p (unat ?n) (g\<lparr>gmon_heap_end := h, s_pcsamples := p\<rparr>)"
  have p: "p = s_pcsamples g'"
    and g': "pcsamples_at g' = pcsamples_at ?c" "s_low_pc g' = s_low_pc g" "s_high_pc g' = s_high_pc g"
    using assms(1-3) sb
    by (auto simp: nios2_pcsample_init_def alt_ticks_per_second_def Let_def PCSAMPLE_BYTES_PER_BUCKET_def
        clear_samples_fields split: if_splits prod.splits)
  have n: "unat ?n < 2 ^ 27" using bucket_less by (simp add: unat_div_distrib)
  then have b: "b < 2 ^ 27" using assms(4) by simp
  have "in_bucket g' b = in_bucket g b" using g' by (simp add: fun_eq_iff in_bucket_def)
  moreover have "pcsamples_at g' (s_pcsamples g' + of_nat (2 * b)) = 0"
    unfolding g' p [symmetric] by (rule clear_samples_zero [OF assms(4)]) (use n in simp)
  ultimately show ?thesis using pcsamples_fold [OF assms(3) b, of eas] by simp
qed

lemma div_pred_not_dvd: "n mod 32 \<noteq> 0 \<Longrightarrow> (n - 1) div 32 = n div (32 :: nat)"
proof -
  assume "n mod 32 \<noteq> 0"
  then obtain r where "n mod 32 = Suc r" using not0_implies_Suc by blast
  with div_mult_mod_eq [of n 32] have n: "n = n div 32 * 32 + Suc r" by simp
  have "r < 32" using mod_less_divisor [of 32 n] \<open>n mod 32 = Suc r\<close> by simp
  then show ?thesis by (subst n) simp
qed

text \<open>The number of buckets is rounded down: when the size of the text section is no multiple of 32, a sample in
  its last bytes is counted in the halfword after the last one of the histogram.\<close>

theorem pcsample_past_end:
  assumes "s_low_pc g < s_high_pc g" and "(s_high_pc g - s_low_pc g) mod 32 \<noteq> 0" and "s_pcsamples g \<noteq> 0"
  shows "\<exists>ea. pcsamples_at (snd (nios2_pcsample ea g))
      (s_pcsamples g + of_nat (2 * unat ((s_high_pc g - s_low_pc g) div 32))) =
    pcsamples_at g (s_pcsamples g + of_nat (2 * unat ((s_high_pc g - s_low_pc g) div 32))) + 1"
proof
  let ?d = "s_high_pc g - s_low_pc g" and ?ea = "s_high_pc g - 1"
  have lt: "unat (s_low_pc g) < unat (s_high_pc g)" using assms(1) by (simp add: word_less_nat_alt)
  have ea: "unat ?ea = unat (s_high_pc g) - 1"
    by (subst unat_sub) (use lt in \<open>simp_all add: word_le_nat_alt\<close>)
  have eal: "unat (?ea - s_low_pc g) = unat ?d - 1"
    by (subst unat_sub, use lt ea in \<open>simp add: word_le_nat_alt\<close>, subst unat_sub)
      (use lt ea in \<open>simp_all add: word_le_nat_alt\<close>)
  have d: "unat (?d div 32) = unat ?d div 32" by (simp add: unat_div_distrib)
  have "unat (?d mod 32) = unat ?d mod 32" by (simp add: unat_mod_distrib)
  moreover have "unat (?d mod 32) \<noteq> 0" using assms(2) by (simp only: unsigned_eq_0_iff not_False_eq_True)
  ultimately have "unat ?d mod 32 \<noteq> 0" by argo
  then have "unat (?ea - s_low_pc g) div 32 = unat (?d div 32)"
    unfolding eal d by (rule div_pred_not_dvd)
  moreover have "s_low_pc g \<le> ?ea" "?ea < s_high_pc g"
    using lt ea by (simp_all add: word_le_nat_alt word_less_nat_alt)
  ultimately have "in_bucket g (unat (?d div 32)) ?ea"
    unfolding in_bucket_def by blast
  moreover have "unat (?d div 32) < 2 ^ 27" unfolding d by (rule bucket_less)
  ultimately show "pcsamples_at (snd (nios2_pcsample ?ea g)) (s_pcsamples g + of_nat (2 * unat (?d div 32))) =
      pcsamples_at g (s_pcsamples g + of_nat (2 * unat (?d div 32))) + 1"
    by (simp only: nios2_pcsample_counts [OF assms(3)] if_True)
qed

text \<open>The block has exactly as many halfwords as there are whole buckets; a refused request is taken for a block.\<close>

lemma nios2_pcsample_init_refused:
  assumes "gmon_sbrk limit ((s_high_pc g - s_low_pc g) div 32 * 2) (g, s) = (- 1, g\<lparr>gmon_heap_end := e\<rparr>, s)"
    and "alt_tick_rate A \<noteq> 0"
  shows "case nios2_pcsample_init limit alarm fn (g, A, s) of (r, g', _) \<Rightarrow> r = 0 \<and> s_pcsamples g' = 0xFFFFFFFF"
  using assms
  by (auto simp: nios2_pcsample_init_def alt_ticks_per_second_def Let_def PCSAMPLE_BYTES_PER_BUCKET_def
      clear_samples_fields split: prod.splits)

text \<open>The allocator does not see a refusal either: with no room in the heap it returns the address
  \<open>0xFFFFFFFF\<close>, and after it low addresses that nobody has granted.\<close>

theorem mcount_allocate_exhausted:
  assumes "unat limit < 2 ^ 30" and "unat (gmon_heap_end g) \<le> unat limit" and "unat limit < unat (gmon_heap_end g) + 1020"
    and "mcount_slab_size g < 12"
  shows "case mcount_allocate limit 12 (g, s) of (p, g1, s1) \<Rightarrow> p = 0xFFFFFFFF \<and>
    fst (mcount_allocate limit 12 (g1, s1)) = 11"
proof -
  let ?a = "4 * ((unat (gmon_heap_end g) + 3) div 4)"
  have "\<not> ?a + 1020 \<le> unat limit" using assms(3) by presburger
  with alt_sbrk_eq [of limit 1020 "gmon_heap_end g" s] assms(1,2)
  have "alt_sbrk limit 1020 (gmon_heap_end g, s) = (- 1, of_nat ?a, s)" by (simp add: Let_def)
  with assms(4) show ?thesis
    by (simp add: mcount_allocate_def gmon_sbrk_def MCOUNT_SLAB_INCREMENT_def)
qed

end
