(* ===== verification/Hal_Channel.thy ===== *)
theory Hal_Channel
  imports Hal_System
begin

text \<open>
  The interfaces of applications to DMA channels (\<open>HAL/inc/sys/alt_dma.h\<close>, \<open>alt_dma_dev.h\<close>) and to flash
  devices (\<open>alt_flash.h\<close>, \<open>alt_flash_dev.h\<close>): a driver registers a structure of function pointers on a list,
  an application finds it by name and calls through it. A handle is the address of the structure; the structures
  are a function of the address. A missing operation is a null function pointer.
\<close>

section \<open>The devices\<close>

text \<open>\<open>'x\<close> is the state behind the devices. The operations get the handle that they were called through.\<close>

type_synonym ('a, 'x) operation = "u32 \<Rightarrow> 'a \<Rightarrow> 'x fstate \<Rightarrow> (int \<times> 'x fstate) call"

record 'x alt_dma_txchan_dev =
  tx_name :: string
  tx_space :: "(unit, 'x) operation option"
  tx_dma_send :: "(u32 \<times> u32 \<times> u32 \<times> u32, 'x) operation option"
  tx_ioctl :: "(int \<times> u32, 'x) operation option"

record 'x alt_dma_rxchan_dev =
  rx_name :: string
  rx_depth :: u32
  rx_prepare :: "(u32 \<times> u32 \<times> u32 \<times> u32, 'x) operation option"
  rx_ioctl :: "(int \<times> u32, 'x) operation option"

record flash_region =
  fr_offset :: int
  region_size :: int
  number_of_blocks :: int
  block_size :: int

text \<open>The data that an operation reads or writes is part of the state, its address an argument.\<close>

record 'x alt_flash_dev =
  fl_name :: string
  fl_open :: "(u32 \<Rightarrow> string \<Rightarrow> 'x fstate \<Rightarrow> u32 \<times> 'x fstate) option"
  fl_close :: "(u32 \<Rightarrow> 'x fstate \<Rightarrow> 'x fstate) option"
  fl_write :: "(int \<times> u32 \<times> int, 'x) operation option"
  fl_read :: "(int \<times> u32 \<times> int, 'x) operation option"
  fl_get_info :: "(u32 \<times> u32, 'x) operation option"
  fl_erase_block :: "(int, 'x) operation option"
  fl_write_block :: "(int \<times> int \<times> u32 \<times> int, 'x) operation option"
  fl_base_addr :: u32
  fl_length :: int
  fl_number_of_regions :: int
  region_info :: "flash_region list"
  fl_lock :: "(u32, 'x) operation option"

text \<open>A call through a function pointer of the structure at the handle.\<close>

definition call_through :: "('a, 'x) operation option \<Rightarrow> u32 \<Rightarrow> 'a \<Rightarrow> 'x fstate \<Rightarrow> (int \<times> 'x fstate) call" where
  "call_through f h a st = (case f of None \<Rightarrow> Null_deref | Some f \<Rightarrow> f h a st)"

text \<open>The lists are lists of \<open>alt_dev_llist\<close>, the common first part of all structures: only the name counts.\<close>

definition named :: "(u32 \<Rightarrow> string) \<Rightarrow> 'x devices" where
  "named nm = (\<lambda>d. alt_dev_null\<lparr>dev_name := nm d\<rparr>)"

section \<open>Registration\<close>

text \<open>\<open>list\<close> is the head of the list that each function names.\<close>

definition alt_dma_txchan_reg :: "(u32 \<Rightarrow> 'x alt_dma_txchan_dev) \<Rightarrow> u32 \<Rightarrow> u32 \<Rightarrow> fds \<Rightarrow> int \<times> fds" where
  "alt_dma_txchan_reg T alt_dma_txchan_list dev F =
     alt_dev_llist_insert dev (Some (tx_name (T dev))) alt_dma_txchan_list F"

definition alt_dma_rxchan_reg :: "(u32 \<Rightarrow> 'x alt_dma_rxchan_dev) \<Rightarrow> u32 \<Rightarrow> u32 \<Rightarrow> fds \<Rightarrow> int \<times> fds" where
  "alt_dma_rxchan_reg R alt_dma_rxchan_list dev F =
     alt_dev_llist_insert dev (Some (rx_name (R dev))) alt_dma_rxchan_list F"

definition alt_flash_device_register :: "(u32 \<Rightarrow> 'x alt_flash_dev) \<Rightarrow> u32 \<Rightarrow> u32 \<Rightarrow> fds \<Rightarrow> int \<times> fds" where
  "alt_flash_device_register Fl alt_flash_dev_list fd F =
     alt_dev_llist_insert fd (Some (fl_name (Fl fd))) alt_flash_dev_list F"

section \<open>DMA channels\<close>

text \<open>\<open>dma ? ... : -ENODEV\<close>\<close>

definition on_channel :: "u32 \<Rightarrow> 'x fstate \<Rightarrow> (int \<times> 'x fstate) call \<Rightarrow> (int \<times> 'x fstate) call" where
  "on_channel dma st c = (if dma \<noteq> 0 then c else Returns (- ENODEV, st))"

definition alt_dma_txchan_close :: "u32 \<Rightarrow> int" where "alt_dma_txchan_close dma = 0"

definition alt_dma_txchan_send ::
  "(u32 \<Rightarrow> 'x alt_dma_txchan_dev) \<Rightarrow> u32 \<Rightarrow> u32 \<Rightarrow> u32 \<Rightarrow> u32 \<Rightarrow> u32 \<Rightarrow> 'x fstate \<Rightarrow> (int \<times> 'x fstate) call" where
  "alt_dma_txchan_send T dma src len done_fn handle st =
     on_channel dma st (call_through (tx_dma_send (T dma)) dma (src, len, done_fn, handle) st)"

definition alt_dma_txchan_space :: "(u32 \<Rightarrow> 'x alt_dma_txchan_dev) \<Rightarrow> u32 \<Rightarrow> 'x fstate \<Rightarrow> (int \<times> 'x fstate) call" where
  "alt_dma_txchan_space T dma st = on_channel dma st (call_through (tx_space (T dma)) dma () st)"

definition alt_dma_txchan_ioctl ::
  "(u32 \<Rightarrow> 'x alt_dma_txchan_dev) \<Rightarrow> u32 \<Rightarrow> int \<Rightarrow> u32 \<Rightarrow> 'x fstate \<Rightarrow> (int \<times> 'x fstate) call" where
  "alt_dma_txchan_ioctl T dma req arg st = on_channel dma st (call_through (tx_ioctl (T dma)) dma (req, arg) st)"

definition alt_dma_rxchan_close :: "u32 \<Rightarrow> int" where "alt_dma_rxchan_close dma = 0"

definition alt_dma_rxchan_prepare ::
  "(u32 \<Rightarrow> 'x alt_dma_rxchan_dev) \<Rightarrow> u32 \<Rightarrow> u32 \<Rightarrow> u32 \<Rightarrow> u32 \<Rightarrow> u32 \<Rightarrow> 'x fstate \<Rightarrow> (int \<times> 'x fstate) call" where
  "alt_dma_rxchan_prepare R dma data len done_fn handle st =
     on_channel dma st (call_through (rx_prepare (R dma)) dma (data, len, done_fn, handle) st)"

definition alt_dma_rxchan_ioctl ::
  "(u32 \<Rightarrow> 'x alt_dma_rxchan_dev) \<Rightarrow> u32 \<Rightarrow> int \<Rightarrow> u32 \<Rightarrow> 'x fstate \<Rightarrow> (int \<times> 'x fstate) call" where
  "alt_dma_rxchan_ioctl R dma req arg st = on_channel dma st (call_through (rx_ioctl (R dma)) dma (req, arg) st)"

text \<open>The only one without a check.\<close>

definition alt_dma_rxchan_depth :: "(u32 \<Rightarrow> 'x alt_dma_rxchan_dev) \<Rightarrow> u32 \<Rightarrow> u32 call" where
  "alt_dma_rxchan_depth R dma = (if dma = 0 then Null_deref else Returns (rx_depth (R dma)))"

section \<open>Flash devices\<close>

text \<open>\<open>fd->op\<close>, without a check.\<close>

definition on_flash :: "u32 \<Rightarrow> 'b call \<Rightarrow> 'b call" where
  "on_flash fd c = (if fd = 0 then Null_deref else c)"

definition alt_lock_flash :: "(u32 \<Rightarrow> 'x alt_flash_dev) \<Rightarrow> u32 \<Rightarrow> u32 \<Rightarrow> 'x fstate \<Rightarrow> (int \<times> 'x fstate) call" where
  "alt_lock_flash Fl fd sectors_to_lock st = on_flash fd (call_through (fl_lock (Fl fd)) fd sectors_to_lock st)"

definition alt_write_flash ::
  "(u32 \<Rightarrow> 'x alt_flash_dev) \<Rightarrow> u32 \<Rightarrow> int \<Rightarrow> u32 \<Rightarrow> int \<Rightarrow> 'x fstate \<Rightarrow> (int \<times> 'x fstate) call" where
  "alt_write_flash Fl fd offset src_addr len st =
     on_flash fd (call_through (fl_write (Fl fd)) fd (offset, src_addr, len) st)"

definition alt_read_flash ::
  "(u32 \<Rightarrow> 'x alt_flash_dev) \<Rightarrow> u32 \<Rightarrow> int \<Rightarrow> u32 \<Rightarrow> int \<Rightarrow> 'x fstate \<Rightarrow> (int \<times> 'x fstate) call" where
  "alt_read_flash Fl fd offset dest_addr len st =
     on_flash fd (call_through (fl_read (Fl fd)) fd (offset, dest_addr, len) st)"

definition alt_get_flash_info ::
  "(u32 \<Rightarrow> 'x alt_flash_dev) \<Rightarrow> u32 \<Rightarrow> u32 \<Rightarrow> u32 \<Rightarrow> 'x fstate \<Rightarrow> (int \<times> 'x fstate) call" where
  "alt_get_flash_info Fl fd info number st =
     on_flash fd (call_through (fl_get_info (Fl fd)) fd (info, number) st)"

text \<open>The flush of the data cache after a success is commented out, so \<open>length\<close> is not used.\<close>

definition alt_erase_flash_block ::
  "(u32 \<Rightarrow> 'x alt_flash_dev) \<Rightarrow> u32 \<Rightarrow> int \<Rightarrow> int \<Rightarrow> 'x fstate \<Rightarrow> (int \<times> 'x fstate) call" where
  "alt_erase_flash_block Fl fd offset len st = on_flash fd (call_through (fl_erase_block (Fl fd)) fd offset st)"

definition alt_write_flash_block ::
  "(u32 \<Rightarrow> 'x alt_flash_dev) \<Rightarrow> u32 \<Rightarrow> int \<Rightarrow> int \<Rightarrow> u32 \<Rightarrow> int \<Rightarrow> 'x fstate \<Rightarrow> (int \<times> 'x fstate) call" where
  "alt_write_flash_block Fl fd block_offset data_offset data len st =
     on_flash fd (call_through (fl_write_block (Fl fd)) fd (block_offset, data_offset, data, len) st)"

section \<open>Finding what was registered\<close>

text \<open>The contract that the three kinds of device share: registering puts a device at the front of its list, and
  opening a name on a list gives the first device that has it.\<close>

lemma find_set: "find P xs = Some d \<Longrightarrow> d \<in> set xs"
  by (induction xs) (auto split: if_splits)

locale registry =
  fixes nm :: "u32 \<Rightarrow> string"
    and reg :: "u32 \<Rightarrow> u32 \<Rightarrow> fds \<Rightarrow> int \<times> fds"
    and open_dev :: "u32 \<Rightarrow> string \<Rightarrow> 'x fstate \<Rightarrow> (u32 \<times> 'x fstate) call"
  assumes reg_front: "d \<noteq> 0 \<Longrightarrow> reg l d F = (0, F\<lparr>dev_llist := alt_llist_insert l d (dev_llist F)\<rparr>)"
    and open_first: "dll (dev_llist F) l xs \<Longrightarrow> find (\<lambda>d. nm d = name) xs = Some d \<Longrightarrow> d \<noteq> 0 \<Longrightarrow>
      open_dev l name (F, x) = Returns (d, F, x)"
begin

definition reg_all :: "u32 \<Rightarrow> u32 list \<Rightarrow> fds \<Rightarrow> fds" where
  "reg_all l ds F = fold (\<lambda>d F. snd (reg l d F)) ds F"

lemma reg_all_list:
  assumes "dll (dev_llist F) l xs" and "distinct ds" and "0 \<notin> set ds" and "set ds \<inter> set (l # xs) = {}"
  shows "dll (dev_llist (reg_all l ds F)) l (rev ds @ xs)"
  using assms
proof (induction ds arbitrary: F xs)
  case (Cons d ds)
  have "dll (dev_llist (snd (reg l d F))) l (d # xs)"
    using Cons.prems by (auto simp: reg_front intro!: dll_insert)
  from Cons.IH [OF this] Cons.prems show ?case by (simp add: reg_all_def)
qed (simp add: reg_all_def)

lemma open_latest:
  assumes "dll (dev_llist F) l []" and "distinct ds" and "0 \<notin> set ds" and "l \<notin> set ds"
    and "find (\<lambda>d. nm d = name) (rev ds) = Some d"
  shows "open_dev l name (reg_all l ds F, x) = Returns (d, reg_all l ds F, x)"
proof (rule open_first)
  show "dll (dev_llist (reg_all l ds F)) l (rev ds)" using reg_all_list [OF assms(1)] assms(2-4) by simp
  show "d \<noteq> 0" using assms(3) find_set [OF assms(5)] by auto
qed (rule assms)

end

lemma find_named [simp]: "dev_name (named nm d) = nm d" by (simp add: named_def)

lemma insert_at_front: "d \<noteq> 0 \<Longrightarrow> alt_dev_llist_insert d (Some n) l F =
    (0, F\<lparr>dev_llist := alt_llist_insert l d (dev_llist F)\<rparr>)"
  by (simp add: alt_dev_llist_insert_def)

lemma open_by_name_first:
  fixes x :: 'x
  assumes "dll (dev_llist F) l xs"
  shows "open_by_name (named nm) name l (F, x) =
    (case find (\<lambda>d. nm d = name) xs of None \<Rightarrow> Returns (0, F\<lparr>fd_errno := ENODEV\<rparr>, x)
     | Some d \<Rightarrow> Returns (d, if d = 0 then F\<lparr>fd_errno := ENODEV\<rparr> else F, x))"
  using alt_find_dev_first [OF assms, of "named nm :: 'x devices" name]
  by (cases "find (\<lambda>d. nm d = name) xs") (simp_all add: open_by_name_def set_errno_def)

interpretation tx: registry "\<lambda>d. tx_name (T d)" "alt_dma_txchan_reg T" "alt_dma_txchan_open (named (\<lambda>d. tx_name (T d)))"
  for T :: "u32 \<Rightarrow> 'x alt_dma_txchan_dev"
  by unfold_locales
    (simp_all add: alt_dma_txchan_reg_def alt_dma_txchan_open_def insert_at_front open_by_name_first)

interpretation rx: registry "\<lambda>d. rx_name (R d)" "alt_dma_rxchan_reg R" "alt_dma_rxchan_open (named (\<lambda>d. rx_name (R d)))"
  for R :: "u32 \<Rightarrow> 'x alt_dma_rxchan_dev"
  by unfold_locales
    (simp_all add: alt_dma_rxchan_reg_def alt_dma_rxchan_open_def insert_at_front open_by_name_first)

text \<open>A flash driver without a function to open the device; with one, the result is what it returns.\<close>

lemma flash_open_first:
  fixes x :: 'x
  assumes "dll (dev_llist F) l xs" and "find (\<lambda>d. nm d = name) xs = Some d" and "d \<noteq> 0"
  shows "alt_flash_open_dev (named nm) l (\<lambda>_. None) name (F, x) = Returns (d, F, x)"
  using alt_find_dev_first [OF assms(1), of "named nm :: 'x devices" name] assms(2,3)
  by (simp add: alt_flash_open_dev_def)

interpretation flash: registry "\<lambda>d. fl_name (Fl d)" "alt_flash_device_register Fl"
    "\<lambda>l. alt_flash_open_dev (named (\<lambda>d. fl_name (Fl d))) l (\<lambda>_. None)"
  for Fl :: "u32 \<Rightarrow> 'x alt_flash_dev"
  by unfold_locales (simp_all add: alt_flash_device_register_def insert_at_front flash_open_first)

lemmas channel_calls = alt_dma_txchan_send_def alt_dma_txchan_space_def alt_dma_txchan_ioctl_def
  alt_dma_rxchan_prepare_def alt_dma_rxchan_ioctl_def on_channel_def call_through_def

text \<open>Transmit channels from registration to use. After any drivers have registered on the empty list, opening a
  name gives the one with that name that registered last, and posting a request calls its function with the
  arguments of the caller. When none has the name, \<open>errno\<close> says so, and every request through the null handle is
  refused with the same error, without an effect.\<close>

theorem txchan_finds_latest:
  fixes T :: "u32 \<Rightarrow> 'x alt_dma_txchan_dev"
  assumes "dll (dev_llist F) l []" and "distinct ds" and "0 \<notin> set ds" and "l \<notin> set ds"
  defines "G \<equiv> fold (\<lambda>d F. snd (alt_dma_txchan_reg T l d F)) ds F"
  shows "case find (\<lambda>d. tx_name (T d) = name) (rev ds) of
      Some d \<Rightarrow> alt_dma_txchan_open (named (\<lambda>d. tx_name (T d))) l name (G, x) = Returns (d, G, x) \<and>
        (\<forall>send. tx_dma_send (T d) = Some send \<longrightarrow>
           alt_dma_txchan_send T d src n done_fn h (G, x) = send d (src, n, done_fn, h) (G, x))
    | None \<Rightarrow> alt_dma_txchan_open (named (\<lambda>d. tx_name (T d))) l name (G, x) =
          Returns (0, G\<lparr>fd_errno := ENODEV\<rparr>, x) \<and>
        alt_dma_txchan_send T 0 src n done_fn h (G, x) = Returns (- ENODEV, G, x) \<and>
        alt_dma_txchan_space T 0 (G, x) = Returns (- ENODEV, G, x) \<and>
        alt_dma_txchan_ioctl T 0 req arg (G, x) = Returns (- ENODEV, G, x)"
proof (cases "find (\<lambda>d. tx_name (T d) = name) (rev ds)")
  case None
  have "dll (dev_llist G) l (rev ds)"
    using tx.reg_all_list [OF assms(1)] assms(2-4) by (simp add: G_def tx.reg_all_def)
  with None show ?thesis
    by (simp add: alt_dma_txchan_open_def open_by_name_first channel_calls)
next
  case (Some d)
  have "d \<noteq> 0" using assms(3) find_set [OF Some] by auto
  with Some tx.open_latest [OF assms(1-4) Some] show ?thesis
    by (simp add: G_def tx.reg_all_def channel_calls)
qed

text \<open>Two drivers with the same name: the second one gets the requests.\<close>

theorem txchan_finds_latest_witness:
  "\<exists>G. alt_dma_txchan_open (named (\<lambda>d. ''/dev/dma'')) 8 ''/dev/dma'' (G, ()) = Returns (6, G, ())"
proof -
  let ?T = "\<lambda>d. \<lparr>tx_name = ''/dev/dma'', tx_space = None, tx_dma_send = None, tx_ioctl = None\<rparr> :: unit alt_dma_txchan_dev"
  let ?F = "\<lparr>alt_fd_list = \<lambda>_. \<lparr>fd_dev = 0, fd_priv = 0, fd_flags = 0\<rparr>, alt_max_fd = -1,
    dev_llist = \<lparr>l_next = id, l_prev = id\<rparr>, alt_dev_list = 8, alt_fs_list = 9, fd_errno = 0\<rparr>"
  have "dll (dev_llist ?F) 8 []" by (simp add: dll_def)
  from txchan_finds_latest [OF this, of "[5, 6]" ?T "''/dev/dma''" "()"] show ?thesis by auto
qed

text \<open>The receiving side in the same way; its depth is the one call that follows the null handle, and so does
  every call on a flash device.\<close>

theorem rxchan_finds_latest:
  fixes R :: "u32 \<Rightarrow> 'x alt_dma_rxchan_dev"
  assumes "dll (dev_llist F) l []" and "distinct ds" and "0 \<notin> set ds" and "l \<notin> set ds"
    and "find (\<lambda>d. rx_name (R d) = name) (rev ds) = Some d" and "rx_prepare (R d) = Some prep"
  defines "G \<equiv> fold (\<lambda>d F. snd (alt_dma_rxchan_reg R l d F)) ds F"
  shows "alt_dma_rxchan_open (named (\<lambda>d. rx_name (R d))) l name (G, x) = Returns (d, G, x) \<and>
    alt_dma_rxchan_prepare R d data n done_fn h (G, x) = prep d (data, n, done_fn, h) (G, x) \<and>
    alt_dma_rxchan_depth R d = Returns (rx_depth (R d))"
proof -
  have "d \<noteq> 0" using assms(3) find_set [OF assms(5)] by auto
  with rx.open_latest [OF assms(1-5)] assms(6) show ?thesis
    by (simp add: G_def rx.reg_all_def channel_calls alt_dma_rxchan_depth_def)
qed

lemma null_handles:
  "alt_dma_rxchan_prepare R 0 data n done_fn h st = Returns (- ENODEV, st)"
  "alt_dma_rxchan_ioctl R 0 req arg st = Returns (- ENODEV, st)"
  "alt_dma_rxchan_depth R 0 = Null_deref"
  "alt_lock_flash Fl 0 sectors st = Null_deref" "alt_write_flash Fl 0 ofs a len st = Null_deref"
  "alt_read_flash Fl 0 ofs a len st = Null_deref" "alt_get_flash_info Fl 0 info number st = Null_deref"
  "alt_erase_flash_block Fl 0 ofs len st = Null_deref" "alt_write_flash_block Fl 0 b ofs a len st = Null_deref"
  by (simp_all add: channel_calls alt_dma_rxchan_depth_def on_flash_def alt_lock_flash_def alt_write_flash_def
      alt_read_flash_def alt_get_flash_info_def alt_erase_flash_block_def alt_write_flash_block_def)

end
