(* ===== verification/Exception_Muldiv.thy ===== *)
theory Exception_Muldiv
  imports Npu_Prelude "HOL-Library.Signed_Division"
begin

text \<open>
  The assembly handler of the multiply and divide instructions that the processor does not have
  (\<open>HAL/src/alt_exception_muldiv.S\<close>; the processor of \<open>system.h\<close> has no divider and no \<open>mulx\<close>).
  The entry and exit code (\<open>alt_exception_entry.S\<close>, \<open>alt_irq_entry.S\<close>) is in \<open>Exception_Entry\<close>. Here are the
  splitting of the instruction into its fields and the two loops of 32 turns. The registers that a
  piece of code computes in are the variables of its definition.
\<close>

section \<open>Fields of the instruction\<close>

text \<open>
  \<open>r3\<close>, \<open>r6\<close> and \<open>r7\<close> are the offsets in the stack frame of the registers A, B and C, \<open>r4\<close> is the
  sign-extended immediate and \<open>r5\<close> the opcode.
\<close>

definition split_instruction :: "u32 \<Rightarrow> u32 \<times> u32 \<times> u32 \<times> u32 \<times> u32" where
  "split_instruction r2 =
     (let r3 = word_rotl 7 r2;
          r4 = word_rotl 3 r3;
          r6 = word_rotl 2 r4;
          r4 = signed_drop_bit 16 r4;
          r6 = r6 XOR 0x42;
          r7 = word_rotl 5 r6;
          r5 = r2 AND 0x3f;
          r3 = r3 XOR 0x40;
          r3 = r3 AND 0x7c;
          r6 = r6 AND 0x7c;
          r7 = r7 AND 0x7c
      in (r3, r4, r5, r6, r7))"

section \<open>Division\<close>

text \<open>The loop: \<open>r13\<close> is the remainder, \<open>r3\<close> holds the dividend and the quotient, \<open>r14\<close> counts down.\<close>

definition divide_turn :: "u32 \<Rightarrow> u32 \<times> u32 \<Rightarrow> u32 \<times> u32" where
  "divide_turn r6 = (\<lambda>(r13, r3).
     let r13 = push_bit 1 r13;
         r15 = (if r3 <s 0 then 1 else 0);
         r13 = r13 OR r15;
         r3 = push_bit 1 r3
     in if r13 < r6 then (r13, r3) else (r13 - r6, r3 OR 1))"

partial_function (option) divide_loop :: "u32 \<Rightarrow> u32 \<Rightarrow> u32 \<times> u32 \<Rightarrow> (u32 \<times> u32) option" where
  "divide_loop r14 r6 st =
     (let st = divide_turn r6 st;
          r14 = r14 - 1
      in if r14 \<noteq> 0 then divide_loop r14 r6 st else Some st)"

definition emulate_divide :: "u32 \<Rightarrow> u32 \<Rightarrow> u32 \<Rightarrow> u32 option" where
  "emulate_divide r4 r3 r6 =
     (let r17 = 0;
          (r17, r3, r6) =
            (if r4 XOR 0x25 \<noteq> 0 then (r17, r3, r6)
             else let r17 = r3 XOR r6;
                      r3 = (if 0 \<le>s r3 then r3 else 0 - r3);
                      r6 = (if 0 \<le>s r6 then r6 else 0 - r6)
                  in (r17, r3, r6))
      in case divide_loop 32 r6 (0, r3) of
           None \<Rightarrow> None
         | Some (r13, r3) \<Rightarrow>
             let r9 = r3 in Some (if 0 \<le>s r17 then r9 else 0 - r9))"

section \<open>Multiplication\<close>

text \<open>
  \<open>r9\<close> is the low half of the product, \<open>r10\<close> the high half of the unsigned one; \<open>r6\<close> is the multiplier
  for the first and \<open>r12\<close> for the second.
\<close>

definition multiply_turn :: "u32 \<Rightarrow> u32 \<times> u32 \<times> u32 \<times> u32 \<Rightarrow> u32 \<times> u32 \<times> u32 \<times> u32" where
  "multiply_turn r3 = (\<lambda>(r9, r10, r6, r12).
     let r9 = push_bit 1 r9;
         r15 = r12 AND 1;
         (r10, r15) =
           (if r15 = 0 then (r10, r15)
            else let r10 = r10 + r3; r15 = (if r10 < r3 then 1 else 0) in (r10, word_rotr 1 r15));
         r9 = (if 0 \<le>s r6 then r9 else r9 + r3);
         r10 = drop_bit 1 r10;
         r10 = r10 OR r15;
         r6 = push_bit 1 r6;
         r12 = drop_bit 1 r12
     in (r9, r10, r6, r12))"

partial_function (option) multiply_loop ::
  "u32 \<Rightarrow> u32 \<Rightarrow> u32 \<times> u32 \<times> u32 \<times> u32 \<Rightarrow> (u32 \<times> u32 \<times> u32 \<times> u32) option" where
  "multiply_loop r14 r3 st =
     (let st = multiply_turn r3 st;
          r14 = r14 - 1
      in if r14 \<noteq> 0 then multiply_loop r14 r3 st else Some st)"

definition emulate_multiply :: "u32 \<Rightarrow> u32 \<Rightarrow> u32 \<Rightarrow> u32 option" where
  "emulate_multiply r4 r3 r6 =
     (let r11 = r6
      in case multiply_loop 32 r3 (0, 0, r6, r6) of
           None \<Rightarrow> None
         | Some (r9, r10, r6, r12) \<Rightarrow>
             if r4 XOR 0x27 = 0 then Some r9
             else let r9 = r10
                  in if r4 XOR 0x07 = 0 then Some r9
                     else let r9 = (if 0 \<le>s r3 then r9 else r9 - r11)
                          in if r4 XOR 0x17 = 0 then Some r9
                             else Some (if 0 \<le>s r11 then r9 else r9 - r3))"

section \<open>The loops\<close>

text \<open>A loop that counts a register down to 0 runs its turn as often as the register says.\<close>

lemma countdown_turns:
  assumes loop: "\<And>r st. loop r st = (let st = f st; r = (r :: u32) - 1 in if r \<noteq> 0 then loop r st else Some st)"
    and n: "n < 32"
  shows "loop (of_nat (Suc n)) st = Some ((f ^^ Suc n) st)"
  using n
proof (induction n arbitrary: st)
  case 0
  show ?case by (subst loop) (simp add: Let_def)
next
  case (Suc n)
  have "\<not> 2 ^ LENGTH(32) dvd Suc n" using Suc.prems by (auto dest: dvd_imp_le)
  then have nz: "(of_nat (Suc n) :: u32) \<noteq> 0" unfolding word_of_nat_eq_0_iff .
  have dec: "(of_nat (Suc (Suc n)) :: u32) - 1 = of_nat (Suc n)"
    by (simp only: of_nat_Suc add_diff_cancel_left')
  have "loop (of_nat (Suc (Suc n))) st = loop (of_nat (Suc n)) (f st)"
    by (subst loop) (simp only: Let_def dec nz not_False_eq_True if_True)
  also have "\<dots> = Some ((f ^^ Suc n) (f st))" using Suc by simp
  finally show ?case by (simp only: funpow_Suc_right o_apply)
qed

lemma divide_loop_turns: "divide_loop 32 r6 st = Some ((divide_turn r6 ^^ 32) st)"
  using countdown_turns [of "\<lambda>r. divide_loop r r6", OF divide_loop.simps, of 31 st] by simp

lemma multiply_loop_turns: "multiply_loop 32 r3 st = Some ((multiply_turn r3 ^^ 32) st)"
  using countdown_turns [of "\<lambda>r. multiply_loop r r3", OF multiply_loop.simps, of 31 st] by simp

section \<open>Signs\<close>

lemma bit_31_iff: "bit (w :: u32) 31 \<longleftrightarrow> 2 ^ 31 \<le> unat w"
proof -
  have "unat w < 2 ^ LENGTH(32)" by (rule unsigned_less)
  then have "unat w div 2 ^ 31 < 2" by simp
  then have "odd (unat w div 2 ^ 31) \<longleftrightarrow> unat w div 2 ^ 31 \<noteq> 0" by (auto simp: less_2_cases_iff)
  also have "\<dots> \<longleftrightarrow> 2 ^ 31 \<le> unat w" by (simp add: div_eq_0_iff not_less)
  finally have "bit (unat w) 31 \<longleftrightarrow> 2 ^ 31 \<le> unat w" by (simp only: bit_iff_odd)
  then show ?thesis by (simp add: bit_unsigned_iff)
qed

lemma uint_32_less: "uint (w :: u32) < 2 ^ 32"
proof -
  have "uint w < 2 ^ LENGTH(32)" by (rule unsigned_less)
  then show ?thesis by simp
qed

lemma sint_uint_sign: "sint (w :: u32) = uint w - (if 2 ^ 31 \<le> unat w then 2 ^ 32 else 0)"
proof -
  have "sint w = take_bit (Suc 31) (uint w) - 2 ^ Suc 31 * of_bool (bit (uint w) 31)"
    unfolding sint_uint by (simp only: signed_take_bit_eq_take_bit_minus) simp
  also have "take_bit (Suc 31) (uint w) = uint w"
    using uint_32_less [of w] by (simp add: take_bit_int_eq_self)
  also have "bit (uint w) 31 \<longleftrightarrow> 2 ^ 31 \<le> unat w" by (simp add: bit_unsigned_iff bit_31_iff)
  finally show ?thesis by simp
qed

lemma sign_iff:
  "(w :: u32) <s 0 \<longleftrightarrow> 2 ^ 31 \<le> unat w" "0 \<le>s (w :: u32) \<longleftrightarrow> unat w < 2 ^ 31"
proof -
  have "int (unat w) < 2 ^ 32" "0 \<le> int (unat w)" using uint_32_less [of w] by simp_all
  then have "sint w < 0 \<longleftrightarrow> 2 ^ 31 \<le> unat w"
    unfolding sint_uint_sign by simp
  then show "w <s 0 \<longleftrightarrow> 2 ^ 31 \<le> unat w" "0 \<le>s w \<longleftrightarrow> unat w < 2 ^ 31"
    by (simp_all add: word_sless_alt word_sle_eq not_less [symmetric] del: not_less)
qed

section \<open>Division is right\<close>

text \<open>
  A turn in numbers. After \<open>k\<close> turns \<open>r3\<close> is \<open>L * 2 ^ k + q\<close>: the bits of the dividend that are left, and the
  bits of the quotient so far.
\<close>

lemma shift_in: "push_bit 1 w OR (if b then 1 else 0) = 2 * w + (if b then 1 else (0 :: u32))"
  by (auto simp: or_one_eq push_bit_eq_mult mult.commute)

lemma double_mod_div: "2 * n = 2 * (n mod m) + 2 * m * (n div m)" for n :: nat
  by (metis distrib_left mod_mult_div_eq mult.assoc)

lemma divide_turn_nat:
  assumes R: "R < 2 ^ 31" and X: "X < 2 ^ 32"
  shows "divide_turn r6 (of_nat R, of_nat X) =
    (let R' = 2 * R + X div 2 ^ 31; X' = 2 * (X mod 2 ^ 31)
     in if R' < unat r6 then (of_nat R', of_nat X') else (of_nat R' - r6, of_nat (X' + 1)))"
proof -
  let ?R = "2 * R + X div 2 ^ 31"
  have t: "X div 2 ^ 31 < 2" using X by simp
  have uX: "unat (of_nat X :: u32) = X" unfolding unat_of_nat using X by simp
  have "X div 2 ^ 31 = (if 2 ^ 31 \<le> X then 1 else 0)" using t by (auto simp: div_eq_0_iff not_le intro: le_antisym)
  then have r13: "push_bit 1 (of_nat R) OR (if (of_nat X :: u32) <s 0 then 1 else 0) = (of_nat ?R :: u32)"
    unfolding shift_in sign_iff uX by simp
  have uR: "unat (of_nat ?R :: u32) = ?R" unfolding unat_of_nat using R t by simp
  have "2 * X = 2 * (X mod 2 ^ 31) + 2 ^ 32 * (X div 2 ^ 31)"
    using double_mod_div [of X "2 ^ 31"] by simp
  then have "(of_nat (2 * X) :: u32) = of_nat (2 * (X mod 2 ^ 31)) + 2 ^ 32 * of_nat (X div 2 ^ 31)"
    by (simp only: of_nat_add of_nat_mult of_nat_power of_nat_numeral)
  moreover have "(2 :: u32) ^ 32 = 0" by (subst exp_eq_zero_iff) simp
  ultimately have "(of_nat (2 * X) :: u32) = of_nat (2 * (X mod 2 ^ 31))" by (simp only: mult_zero_left add_0_right)
  then have r3: "push_bit 1 (of_nat X :: u32) = of_nat (2 * (X mod 2 ^ 31))"
    by (simp add: push_bit_eq_mult mult.commute)
  have r3': "(of_nat (2 * m) :: u32) OR 1 = of_nat (2 * m + 1)" for m
    by (simp add: or_one_eq)
  show ?thesis
    unfolding divide_turn_def prod.case Let_def r13 r3 r3' word_less_nat_alt uR by (rule refl)
qed

lemma divide_digits:
  assumes "q < 2 ^ k" and "k + j = 31"
  shows "(L * 2 ^ k + q) div 2 ^ 31 = L div 2 ^ j" "(L * 2 ^ k + q) mod 2 ^ 31 = L mod 2 ^ j * 2 ^ k + (q :: nat)"
proof -
  have e: "(2 :: nat) ^ 31 = 2 ^ k * 2 ^ j" unfolding power_add [symmetric] assms(2) by (rule refl)
  have "(L * 2 ^ k + q) div 2 ^ k = L" using assms(1) by simp
  then show "(L * 2 ^ k + q) div 2 ^ 31 = L div 2 ^ j" unfolding e div_mult2_eq by simp
  show "(L * 2 ^ k + q) mod 2 ^ 31 = L mod 2 ^ j * 2 ^ k + q"
    unfolding e mod_mult2_eq using assms(1) by simp
qed

text \<open>The invariant of the division by \<open>D\<close>; for a divisor of 0 every bit of the quotient is 1.\<close>

definition divided :: "nat \<Rightarrow> nat \<Rightarrow> nat \<Rightarrow> u32 \<times> u32 \<Rightarrow> bool" where
  "divided N D k st \<longleftrightarrow> (\<exists>R L q. st = (of_nat R, of_nat (L * 2 ^ k + q)) \<and> L < 2 ^ (32 - k) \<and> q < 2 ^ k \<and>
     N = (q * D + R) * 2 ^ (32 - k) + L \<and> R < D)"

lemma divide_turn_divided:
  assumes "divided N (unat r6) k st" and k: "k < 32" and N: "N < 2 ^ 32"
  shows "divided N (unat r6) (Suc k) (divide_turn r6 st)"
proof -
  define j where "j = 31 - k"
  have j: "k + j = 31" "32 - k = Suc j" "32 - Suc k = j" using k by (simp_all add: j_def)
  from assms(1) obtain R L q where st: "st = (of_nat R, of_nat (L * 2 ^ k + q))"
    and L: "L < 2 ^ Suc j" and q: "q < 2 ^ k" and e: "N = (q * unat r6 + R) * 2 ^ Suc j + L" and RD: "R < unat r6"
    unfolding divided_def j by blast
  have p31: "(2 :: nat) ^ 31 = 2 ^ k * 2 ^ j" unfolding power_add [symmetric] j(1) by (rule refl)
  have p32: "(2 :: nat) ^ 32 = 2 ^ k * 2 ^ Suc j" using p31 by (simp add: mult.commute)
  have "R * 2 ^ Suc j \<le> N" using e by (simp add: algebra_simps)
  also have "N < 2 ^ k * 2 ^ Suc j" using N unfolding p32 .
  finally have "R < 2 ^ k" by (simp only: mult_less_cancel2)
  then have R: "R < 2 ^ 31" using j by (metis le_add1 less_le_trans one_le_numeral power_increasing)
  have "L * 2 ^ k + q < Suc L * 2 ^ k" using q by simp
  also have "\<dots> \<le> 2 ^ Suc j * 2 ^ k" using L by (intro mult_le_mono1) simp
  finally have X: "L * 2 ^ k + q < 2 ^ 32" unfolding p32 by (simp only: mult.commute)
  define t where "t = L div 2 ^ j"
  have Lt: "L = t * 2 ^ j + L mod 2 ^ j" unfolding t_def by (simp only: div_mult_mod_eq)
  have t2: "2 * (L mod 2 ^ j * 2 ^ k + q) = L mod 2 ^ j * 2 ^ Suc k + 2 * q" by simp
  note turn = divide_turn_nat [OF R X, of r6, folded st, unfolded divide_digits [OF q j(1)] Let_def t2, folded t_def]
  have eN: "N = (2 * q * unat r6 + (2 * R + t)) * 2 ^ j + L mod 2 ^ j"
    unfolding e by (subst Lt) (simp add: algebra_simps)
  have Lm: "L mod 2 ^ j < 2 ^ j" by simp
  show ?thesis
  proof (cases "2 * R + t < unat r6")
    case True
    then have "divide_turn r6 st = (of_nat (2 * R + t), of_nat (L mod 2 ^ j * 2 ^ Suc k + 2 * q))"
      using turn by simp
    moreover have "2 * q < 2 ^ Suc k" using q by simp
    ultimately show ?thesis unfolding divided_def j using Lm eN True by blast
  next
    case False
    have tt: "t < 2" unfolding t_def using L by (simp add: less_mult_imp_div_less mult.commute)
    have "divide_turn r6 st = (of_nat (2 * R + t - unat r6), of_nat (L mod 2 ^ j * 2 ^ Suc k + (2 * q + 1)))"
      using turn False by (simp add: of_nat_diff)
    moreover have "2 * R + t - unat r6 < unat r6" using RD tt by simp
    moreover have "N = ((2 * q + 1) * unat r6 + (2 * R + t - unat r6)) * 2 ^ j + L mod 2 ^ j"
      using eN False by (simp add: algebra_simps)
    moreover have "2 * q + 1 < 2 ^ Suc k" using q by simp
    ultimately show ?thesis unfolding divided_def j using Lm by blast
  qed
qed

lemma divide_loop_divided:
  assumes "r6 \<noteq> 0"
  shows "divide_loop 32 r6 (0, r3) = Some (of_nat (unat r3 mod unat r6), of_nat (unat r3 div unat r6))"
proof -
  have N: "unat r3 < 2 ^ 32"
  proof -
    have "unat r3 < 2 ^ LENGTH(32)" by (rule unsigned_less)
    then show ?thesis by simp
  qed
  have D: "0 < unat r6" using assms by (simp add: unat_gt_0)
  have "divided (unat r3) (unat r6) k ((divide_turn r6 ^^ k) (0, r3))" if "k \<le> 32" for k
    using that
  proof (induction k)
    case 0
    show ?case unfolding divided_def
      by (rule exI [of _ 0], rule exI [of _ "unat r3"], rule exI [of _ 0]) (use N D in simp)
  next
    case (Suc k)
    then show ?case using divide_turn_divided [OF _ _ N] by simp
  qed
  from this [of 32] obtain R L q where st: "(divide_turn r6 ^^ 32) (0, r3) = (of_nat R, of_nat (L * 2 ^ 32 + q))"
    and L: "L < 2 ^ (32 - 32)" and q: "unat r3 = (q * unat r6 + R) * 2 ^ (32 - 32) + L" "R < unat r6"
    unfolding divided_def by blast
  from L q have "L = 0" "unat r3 = q * unat r6 + R" by simp_all
  with q(2) have "L = 0" "q = unat r3 div unat r6" "R = unat r3 mod unat r6" by simp_all
  with st show ?thesis unfolding divide_loop_turns by simp
qed

text \<open>By 0.\<close>

lemma divide_turn_zero: "divide_turn 0 (r13, r3) = (2 * r13 + (if r3 <s 0 then 1 else 0), 2 * r3 + 1)"
proof -
  have or1: "(2 * w) OR 1 = 2 * w + (1 :: u32)" for w by (simp add: or_one_eq)
  have pb: "push_bit 1 r3 = 2 * r3" by (simp add: push_bit_eq_mult mult.commute)
  show ?thesis unfolding divide_turn_def prod.case Let_def shift_in pb or1 by simp
qed

lemma divide_loop_zero: "\<exists>r13. divide_loop 32 0 (0, r3) = Some (r13, - 1)"
proof -
  have "snd ((divide_turn 0 ^^ k) (r13, r3)) = 2 ^ k * r3 + (2 ^ k - 1)" for k r13
  proof (induction k)
    case (Suc k)
    obtain a b where ab: "(divide_turn 0 ^^ k) (r13, r3) = (a, b)" by (cases "(divide_turn 0 ^^ k) (r13, r3)")
    with Suc have b: "b = 2 ^ k * r3 + (2 ^ k - 1)" by simp
    have "(divide_turn 0 ^^ Suc k) (r13, r3) = divide_turn 0 (a, b)" by (simp add: ab)
    then have "snd ((divide_turn 0 ^^ Suc k) (r13, r3)) = 2 * b + 1" by (simp add: divide_turn_zero)
    also have "\<dots> = 2 ^ Suc k * r3 + (2 ^ Suc k - 1)" unfolding b by (simp add: algebra_simps)
    finally show ?case .
  qed simp
  moreover have "(2 :: u32) ^ 32 = 0" by (subst exp_eq_zero_iff) simp
  ultimately have "snd ((divide_turn 0 ^^ 32) (0, r3)) = - 1"
    by (simp only: mult_zero_left add_0_left diff_0)
  then show ?thesis unfolding divide_loop_turns by (metis prod.collapse)
qed

lemma xor_zero_iff: "a XOR b = 0 \<longleftrightarrow> a = (b :: u32)"
proof
  assume "a XOR b = 0"
  then have "(a XOR b) XOR b = b" by simp
  then show "a = b" by (simp add: ac_simps)
qed simp

text \<open>\<open>divu\<close> is the quotient; by 0 it is all ones.\<close>

lemma emulate_divu:
  assumes "r4 \<noteq> 0x25"
  shows "emulate_divide r4 r3 r6 = Some (if r6 = 0 then - 1 else r3 div r6)"
proof -
  have "r4 XOR 0x25 \<noteq> 0" using assms by (simp add: xor_zero_iff)
  moreover have "of_nat (unat r3 div unat r6) = r3 div r6" by (simp flip: unat_div_distrib)
  ultimately show ?thesis
    using divide_loop_divided [of r6 r3] divide_loop_zero [of r3]
    by (auto simp: emulate_divide_def sign_iff)
qed

text \<open>\<open>div\<close> truncates towards 0; the quotient of the least number by - 1 wraps around to itself.\<close>

lemma unat_abs_value: "unat (if 0 \<le>s w then w else 0 - w) = nat \<bar>sint (w :: u32)\<bar>"
proof (cases "unat w < 2 ^ 31")
  case True
  then show ?thesis unfolding sign_iff sint_uint_sign by simp
next
  case False
  then have "int (2 ^ 31) \<le> int (unat w)" by (simp only: not_less of_nat_le_iff)
  then have u: "2 ^ 31 \<le> uint w" "uint w < 2 ^ 32" using uint_32_less [of w] by simp_all
  have "uint (0 - w) = (- uint w) mod 2 ^ 32" by (simp add: uint_word_ariths)
  also have "\<dots> = 2 ^ 32 - uint w" using u by (simp add: zmod_zminus1_eq_if)
  finally have "unat (0 - w) = nat (2 ^ 32 - uint w)" by (simp only: unat_eq_nat_uint)
  with False u show ?thesis unfolding sign_iff sint_uint_sign by simp
qed

lemma emulate_div:
  assumes "r6 \<noteq> 0"
  shows "emulate_divide 0x25 r3 r6 = Some (word_of_int (sint r3 sdiv sint r6))"
proof -
  let ?a = "if 0 \<le>s r3 then r3 else 0 - r3" and ?b = "if 0 \<le>s r6 then r6 else 0 - r6"
  let ?q = "of_nat (nat \<bar>sint r3\<bar> div nat \<bar>sint r6\<bar>) :: u32"
  have b: "?b \<noteq> 0" using assms by auto
  have sg: "0 \<le>s w \<longleftrightarrow> 0 \<le> sint w" for w :: u32 by (simp add: word_sle_eq)
  have neg: "0 \<le>s (r3 XOR r6) \<longleftrightarrow> (0 \<le> sint r3 \<longleftrightarrow> 0 \<le> sint r6)"
    unfolding sg [symmetric] unfolding sign_iff not_le [symmetric] bit_31_iff [symmetric] by (simp add: bit_xor_iff)
  have "int (nat \<bar>sint r3\<bar> div nat \<bar>sint r6\<bar>) = \<bar>sint r3\<bar> div \<bar>sint r6\<bar>" by (simp add: zdiv_int)
  then have q: "?q = word_of_int (\<bar>sint r3\<bar> div \<bar>sint r6\<bar>)" by (metis of_int_of_nat_eq)
  have "emulate_divide 0x25 r3 r6 = Some (if 0 \<le>s (r3 XOR r6) then ?q else 0 - ?q)"
    using divide_loop_divided [OF b, of ?a, unfolded unat_abs_value]
    by (simp add: emulate_divide_def Let_def)
  also have "(if 0 \<le>s (r3 XOR r6) then ?q else 0 - ?q) = word_of_int (sint r3 sdiv sint r6)"
    unfolding neg q signed_divide_int_def
    by (cases "sint r3" "0 :: int" rule: linorder_cases; cases "sint r6" "0 :: int" rule: linorder_cases) simp_all
  finally show ?thesis .
qed

section \<open>Multiplication is right\<close>

text \<open>
  After \<open>k\<close> turns on a multiplicand \<open>a\<close> and a multiplier \<open>b\<close>: \<open>r9\<close> is the product with the top \<open>k\<close> bits of \<open>b\<close>,
  \<open>r10\<close> the product with its low \<open>k\<close> bits without the last \<open>k\<close> digits.
\<close>

definition multiplied :: "nat \<Rightarrow> nat \<Rightarrow> nat \<Rightarrow> u32 \<times> u32 \<times> u32 \<times> u32 \<Rightarrow> bool" where
  "multiplied a b k = (\<lambda>(r9, r10, r6, r12). r9 = of_nat (a * (b div 2 ^ (32 - k))) \<and>
     unat r10 = a * (b mod 2 ^ k) div 2 ^ k \<and> r6 = of_nat (b * 2 ^ k) \<and> unat r12 = b div 2 ^ k)"

text \<open>The high half: the carry of the addition becomes the top bit of the halved sum.\<close>

lemma drop_1_or_top: "unat (drop_bit 1 z OR 2 ^ 31) = unat z div 2 + 2 ^ 31" for z :: u32
proof -
  have d: "unat (drop_bit 1 z) = unat z div 2" by (simp add: drop_bit_Suc unat_div_distrib)
  have "unat z < 2 ^ LENGTH(32)" by (rule unsigned_less)
  then have l: "unat z div 2 < 2 ^ 31" by simp
  have "drop_bit 1 z AND 2 ^ 31 = 0"
    by (rule bit_word_eqI)
      (unfold bit_and_iff bit_drop_bit_eq bit_exp_iff bit_0_eq bot_apply, auto dest: bit_imp_le_length)
  then have e: "drop_bit 1 z OR 2 ^ 31 = drop_bit 1 z + 2 ^ 31" by (simp only: disjunctive_add_eq_or)
  have u: "unat (2 ^ 31 :: u32) = 2 ^ 31" by simp
  show ?thesis unfolding e unat_word_ariths(1) d u using l by simp
qed

lemma rotr_one: "word_rotr 1 (1 :: u32) = 2 ^ 31"
proof (rule bit_word_eqI)
  fix n :: nat assume n: "n < LENGTH(32)"
  have "(n + 1) mod 32 = 0 \<longleftrightarrow> n = 31" using n by (cases "n = 31") auto
  with n show "bit (word_rotr 1 (1 :: u32)) n \<longleftrightarrow> bit (2 ^ 31 :: u32) n"
    unfolding bit_word_rotr_iff bit_1_iff bit_exp_iff by auto
qed

lemma add_carry_halved:
  "unat (drop_bit 1 (x + y) OR word_rotr 1 (if x + y < y then 1 else (0 :: u32))) = (unat x + unat y) div 2"
proof -
  have "unat x < 2 ^ LENGTH(32)" "unat y < 2 ^ LENGTH(32)" by (rule unsigned_less)+
  then have x: "unat x < 2 ^ 32" "unat y < 2 ^ 32" by simp_all
  show ?thesis
  proof (cases "unat x + unat y < 2 ^ 32")
    case True
    then have s: "unat (x + y) = unat x + unat y" by (simp add: unat_word_ariths)
    then have "\<not> x + y < y" by (simp add: word_less_nat_alt)
    with s show ?thesis by (simp add: drop_bit_Suc unat_div_distrib)
  next
    case False
    then have s: "unat (x + y) = unat x + unat y - 2 ^ 32"
      using x by (simp add: unat_word_ariths mod_if)
    then have c: "x + y < y" using x False by (simp add: word_less_nat_alt)
    have "(unat x + unat y - 2 ^ 32) div 2 + 2 ^ 31 = (unat x + unat y) div 2" using False by simp
    then show ?thesis by (simp only: c if_True rotr_one drop_1_or_top s)
  qed
qed

lemma and_one_bit: "w AND 1 = (if odd (unat w) then 1 else (0 :: u32))"
proof -
  have "odd w \<longleftrightarrow> odd (unat w)" using bit_unsigned_iff [of w 0, where 'a = nat] by (simp add: bit_0)
  then show ?thesis by (auto simp: and_one_eq mod_2_eq_odd)
qed

lemma top_digit:
  assumes "k + j = 31"
  shows "unat (of_nat (b * 2 ^ k) :: u32) div 2 ^ 31 = b div 2 ^ j mod 2"
proof -
  have e: "(2 :: nat) ^ LENGTH(32) = 2 ^ k * (2 ^ j * 2)" "(2 :: nat) ^ 31 = 2 ^ k * 2 ^ j"
    unfolding power_add [symmetric] mult.assoc [symmetric] power_Suc2 [symmetric] using assms by simp_all
  have "unat (of_nat (b * 2 ^ k) :: u32) = 2 ^ k * (b mod (2 ^ j * 2))"
    unfolding unat_of_nat e by (simp only: mult.commute [of b] mult_mod_right)
  then have "unat (of_nat (b * 2 ^ k) :: u32) div 2 ^ 31 = b mod (2 ^ j * 2) div 2 ^ j"
    unfolding e by (simp only: div_mult_mult1 power_eq_0_iff) simp
  also have "\<dots> = b div 2 ^ j mod 2" by (simp add: mod_mult2_eq)
  finally show ?thesis .
qed

lemma low_half_step:
  assumes "r9 = of_nat (a * (b div 2 ^ Suc j))" and "r3 = of_nat a" and "t = b div 2 ^ j mod 2"
  shows "(if t = 0 then push_bit 1 r9 else push_bit 1 r9 + r3) = (of_nat (a * (b div 2 ^ j)) :: u32)"
proof -
  have "b div 2 ^ j = 2 * (b div 2 ^ Suc j) + t"
    using assms(3) by (simp add: div_mult2_eq power_Suc2 del: power_Suc)
  moreover have "t = 0 \<or> t = 1" using assms(3) by auto
  ultimately show ?thesis using assms(1,2) by (auto simp: push_bit_eq_mult algebra_simps)
qed

lemma high_half_step:
  "(a * (b mod 2 ^ k) div 2 ^ k + a * (b div 2 ^ k mod 2)) div 2 = a * (b mod 2 ^ Suc k) div 2 ^ Suc k" for a b :: nat
proof -
  have "b mod 2 ^ Suc k = 2 ^ k * (b div 2 ^ k mod 2) + b mod 2 ^ k"
    by (simp only: power_Suc2 mod_mult2_eq)
  then have "a * (b mod 2 ^ Suc k) = a * (b mod 2 ^ k) + (a * (b div 2 ^ k mod 2)) * 2 ^ k"
    by (simp add: algebra_simps)
  then have "a * (b mod 2 ^ Suc k) div 2 ^ k = a * (b mod 2 ^ k) div 2 ^ k + a * (b div 2 ^ k mod 2)" by simp
  then show ?thesis by (simp only: power_Suc2 div_mult2_eq)
qed

lemma multiply_turn_multiplied:
  assumes "multiplied (unat r3) b k st" and k: "k < 32"
  shows "multiplied (unat r3) b (Suc k) (multiply_turn r3 st)"
proof -
  define j where "j = 31 - k"
  have j: "k + j = 31" "32 - k = Suc j" "32 - Suc k = j" using k by (simp_all add: j_def)
  obtain r9 r10 r6 r12 where st: "st = (r9, r10, r6, r12)" by (rule prod_cases4)
  with assms(1) have r9: "r9 = of_nat (unat r3 * (b div 2 ^ Suc j))"
    and r10: "unat r10 = unat r3 * (b mod 2 ^ k) div 2 ^ k" and r6: "r6 = of_nat (b * 2 ^ k)"
    and r12: "unat r12 = b div 2 ^ k"
    unfolding multiplied_def j by simp_all
  have top: "0 \<le>s r6 \<longleftrightarrow> b div 2 ^ j mod 2 = 0"
    unfolding sign_iff top_digit [OF j(1), of b, folded r6, symmetric] by (simp add: div_eq_0_iff)
  have one: "word_rotr 1 (0 :: u32) = 0" by (rule bit_word_eqI) (simp add: bit_word_rotr_iff)
  have low: "(if 0 \<le>s r6 then push_bit 1 r9 else push_bit 1 r9 + r3) = of_nat (unat r3 * (b div 2 ^ j))"
    unfolding top by (rule low_half_step [OF r9 _ refl]) simp
  let ?h = "if r12 AND 1 = 0 then (r10, r12 AND 1)
    else (r10 + r3, word_rotr 1 (if r10 + r3 < r3 then 1 else 0))"
  have "unat (drop_bit 1 (fst ?h) OR snd ?h) = (unat r10 + unat r3 * (b div 2 ^ k mod 2)) div 2"
  proof (cases "even (b div 2 ^ k)")
    case True
    then show ?thesis by (simp add: and_one_bit r12 drop_bit_Suc unat_div_distrib)
  next
    case False
    then have "r12 AND 1 = 1" "b div 2 ^ k mod 2 = 1" by (simp_all add: and_one_bit r12 odd_iff_mod_2_eq_one)
    then have "?h = (r10 + r3, word_rotr 1 (if r10 + r3 < r3 then 1 else 0))" by simp
    with \<open>b div 2 ^ k mod 2 = 1\<close> show ?thesis by (simp only: fst_conv snd_conv add_carry_halved mult_1_right)
  qed
  then have high: "unat (drop_bit 1 (fst ?h) OR snd ?h) = unat r3 * (b mod 2 ^ Suc k) div 2 ^ Suc k"
    unfolding r10 high_half_step .
  have "multiply_turn r3 st = (if 0 \<le>s r6 then push_bit 1 r9 else push_bit 1 r9 + r3,
      drop_bit 1 (fst ?h) OR snd ?h, push_bit 1 r6, drop_bit 1 r12)"
    unfolding st by (simp add: multiply_turn_def Let_def)
  moreover have "push_bit 1 r6 = of_nat (b * 2 ^ Suc k)" unfolding r6 by (simp add: push_bit_eq_mult)
  moreover have "unat (drop_bit 1 r12) = b div 2 ^ Suc k"
    by (simp add: drop_bit_Suc unat_div_distrib r12 div_mult2_eq power_Suc2 del: power_Suc)
  ultimately show ?thesis unfolding multiplied_def j using low high by simp
qed

lemma multiply_loop_multiplied:
  obtains r6' r12' where "multiply_loop 32 r3 (0, 0, r6, r6) =
    Some (r3 * r6, word_of_int (uint r3 * uint r6 div 2 ^ 32), r6', r12')"
proof -
  have "unat r6 < 2 ^ LENGTH(32)" by (rule unsigned_less)
  then have b: "unat r6 < 2 ^ 32" by simp
  have "multiplied (unat r3) (unat r6) k ((multiply_turn r3 ^^ k) (0, 0, r6, r6))" if "k \<le> 32" for k
    using that
  proof (induction k)
    case 0
    show ?case using b by (simp add: multiplied_def)
  next
    case (Suc k)
    then show ?case using multiply_turn_multiplied by simp
  qed
  then have m: "multiplied (unat r3) (unat r6) 32 ((multiply_turn r3 ^^ 32) (0, 0, r6, r6))" by simp
  obtain r9 r10 r6' r12' where st: "(multiply_turn r3 ^^ 32) (0, 0, r6, r6) = (r9, r10, r6', r12')"
    by (rule prod_cases4)
  have bm: "unat r6 mod 2 ^ 32 = unat r6" using b by (rule mod_less)
  have "r9 = r3 * r6" and h: "unat r10 = unat r3 * unat r6 div 2 ^ 32"
    using m unfolding st multiplied_def prod.case bm by simp_all
  have "uint r10 = uint r3 * uint r6 div 2 ^ 32"
    using arg_cong [OF h, of int] by (simp add: zdiv_int)
  then have "r10 = word_of_int (uint r3 * uint r6 div 2 ^ 32)" by (metis word_of_int_uint)
  with \<open>r9 = r3 * r6\<close> st show ?thesis using that unfolding multiply_loop_turns by simp
qed

text \<open>The low half, and the high half of the product of two numbers read with or without a sign.\<close>

lemma emulate_mul: "emulate_multiply 0x27 r3 r6 = Some (r3 * r6)"
proof -
  obtain r6' r12' where "multiply_loop 32 r3 (0, 0, r6, r6) =
    Some (r3 * r6, word_of_int (uint r3 * uint r6 div 2 ^ 32), r6', r12')" by (rule multiply_loop_multiplied)
  then show ?thesis by (simp add: emulate_multiply_def)
qed

lemma sint_uint_cases: "sint (w :: u32) = uint w - (if 0 \<le>s w then 0 else 2 ^ 32)"
  unfolding sint_uint_sign sign_iff by simp

lemma div_minus_mult: "(x - y * m) div m = x div m - (y :: int)" if "m \<noteq> 0"
proof -
  have "(x - y * m) div m = (x + (- y) * m) div m" by simp
  also have "\<dots> = - y + x div m" using that by (rule div_mult_self1)
  finally show ?thesis by simp
qed

lemma high_mulxsu:
  fixes r3 r6 :: u32
  shows "(if 0 \<le>s r3 then word_of_int (uint r3 * uint r6 div 2 ^ 32) else word_of_int (uint r3 * uint r6 div 2 ^ 32) - r6) =
    (word_of_int (sint r3 * uint r6 div 2 ^ 32) :: u32)"
proof (cases "0 \<le>s r3")
  case False
  then have s: "sint r3 = uint r3 - 2 ^ 32" by (simp only: sint_uint_cases if_False)
  have "sint r3 * uint r6 div 2 ^ 32 = uint r3 * uint r6 div 2 ^ 32 - uint r6"
    unfolding s left_diff_distrib mult.commute [of "2 ^ 32"] by (rule div_minus_mult) simp
  with False show ?thesis by simp
qed (simp add: sint_uint_cases)

lemma high_mulxss:
  fixes r3 r6 :: u32
  shows "(if 0 \<le>s r6 then word_of_int (sint r3 * uint r6 div 2 ^ 32) else word_of_int (sint r3 * uint r6 div 2 ^ 32) - r3) =
    (word_of_int (sint r3 * sint r6 div 2 ^ 32) :: u32)"
proof (cases "0 \<le>s r6")
  case False
  then have s: "sint r6 = uint r6 - 2 ^ 32" by (simp only: sint_uint_cases if_False)
  have "sint r3 * sint r6 div 2 ^ 32 = sint r3 * uint r6 div 2 ^ 32 - sint r3"
    unfolding s right_diff_distrib by (rule div_minus_mult) simp
  with False show ?thesis by simp
qed (simp add: sint_uint_cases [of r6])

lemma emulate_mulx:
  "emulate_multiply 0x07 r3 r6 = Some (word_of_int (uint r3 * uint r6 div 2 ^ 32))"
  "emulate_multiply 0x17 r3 r6 = Some (word_of_int (sint r3 * uint r6 div 2 ^ 32))"
  "emulate_multiply 0x1f r3 r6 = Some (word_of_int (sint r3 * sint r6 div 2 ^ 32))"
proof -
  obtain r6' r12' where loop: "multiply_loop 32 r3 (0, 0, r6, r6) =
    Some (r3 * r6, word_of_int (uint r3 * uint r6 div 2 ^ 32), r6', r12')" by (rule multiply_loop_multiplied)
  show "emulate_multiply 0x07 r3 r6 = Some (word_of_int (uint r3 * uint r6 div 2 ^ 32))"
    unfolding emulate_multiply_def Let_def loop option.case prod.case by simp
  show "emulate_multiply 0x17 r3 r6 = Some (word_of_int (sint r3 * uint r6 div 2 ^ 32))"
    unfolding emulate_multiply_def Let_def loop option.case prod.case high_mulxsu by simp
  show "emulate_multiply 0x1f r3 r6 = Some (word_of_int (sint r3 * sint r6 div 2 ^ 32))"
    unfolding emulate_multiply_def Let_def loop option.case prod.case high_mulxsu high_mulxss by simp
qed

end
