(* ===== verification/Exception_Entry.thy ===== *)
theory Exception_Entry
  imports Exception_Muldiv
begin

text \<open>
  The exception handler in assembly: saving and restoring the registers (\<open>HAL/src/alt_exception_entry.S\<close>),
  the test for an interrupt (\<open>alt_irq_entry.S\<close>), the emulation of an instruction
  (\<open>alt_exception_muldiv.S\<close>), the trap instruction (\<open>alt_exception_trap.S\<close>) and the call of the C handler.
  As configured in \<open>system.h\<close>: no separate exception stack, no stack check, no 16-bit instructions.
  With \<open>ALT_NO_INSTRUCTION_EMULATION\<close>, which \<open>public.mk\<close> sets, the emulation and the trap section are not
  linked; the handler is modelled with both. The two C functions that are called are parameters on the state.
\<close>

section \<open>State\<close>

text \<open>
  The registers by number, with 0 in register 0, the words of the memory by address, and the control
  registers. \<open>sp\<close> is register 27, \<open>ea\<close> register 29, \<open>ra\<close> register 31.
\<close>

record nios =
  n_reg :: "nat \<Rightarrow> u32"
  n_mem :: "u32 \<Rightarrow> u32"
  n_estatus :: u32
  n_ipending :: u32

definition set_reg :: "nat \<Rightarrow> u32 \<Rightarrow> nios \<Rightarrow> nios" where
  "set_reg r v s = s\<lparr>n_reg := (n_reg s)(r := v)\<rparr>"

text \<open>Sequences of \<open>stw r, offset(sp)\<close> and of \<open>ldw r, offset(sp)\<close>, and \<open>addi sp, sp, k\<close>.\<close>

definition stw_sp :: "nat \<times> u32 \<Rightarrow> nios \<Rightarrow> nios" where
  "stw_sp = (\<lambda>(r, off) s. s\<lparr>n_mem := (n_mem s)(n_reg s 27 + off := n_reg s r)\<rparr>)"

definition ldw_sp :: "nat \<times> u32 \<Rightarrow> nios \<Rightarrow> nios" where
  "ldw_sp = (\<lambda>(r, off) s. set_reg r (n_mem s (n_reg s 27 + off)) s)"

definition addi_sp :: "u32 \<Rightarrow> nios \<Rightarrow> nios" where
  "addi_sp k s = set_reg 27 (n_reg s 27 + k) s"

section \<open>Entry and exit\<close>

definition exception_entry :: "nios \<Rightarrow> nios" where
  "exception_entry s =
     (let s = addi_sp (- 76) s;
          s = fold stw_sp [(31, 0), (1, 8), (2, 12), (3, 16), (4, 20), (5, 24), (6, 28), (7, 32)] s;
          s = set_reg 5 (n_estatus s) s;
          s = fold stw_sp [(8, 36), (9, 40), (10, 44), (11, 48), (12, 52), (13, 56), (14, 60), (15, 64)] s;
          s = stw_sp (5, 68) s;
          s = set_reg 15 (n_reg s 29 - 4) s
      in stw_sp (15, 72) s)"

definition exception_exit :: "nios \<Rightarrow> nios" where
  "exception_exit s =
     (let s = fold ldw_sp [(5, 68), (29, 72), (31, 0)] s;
          s = s\<lparr>n_estatus := n_reg s 5\<rparr>;
          s = fold ldw_sp [(1, 8), (2, 12), (3, 16), (4, 20), (5, 24), (6, 28), (7, 32)] s;
          s = fold ldw_sp [(8, 36), (9, 40), (10, 44), (11, 48), (12, 52), (13, 56), (14, 60), (15, 64)] s
      in addi_sp 76 s)"

text \<open>The interrupt test: \<open>estatus\<close> is still in \<open>r5\<close>.\<close>

definition irq_test :: "nios \<Rightarrow> bool \<times> nios" where
  "irq_test s =
     (let s = set_reg 4 (n_ipending s) s;
          s = set_reg 2 (n_reg s 5 AND 1) s
      in (n_reg s 2 \<noteq> 0 \<and> n_reg s 4 \<noteq> 0, s))"

section \<open>Emulation\<close>

text \<open>
  \<open>Some (True, _)\<close> is the branch to the exit, \<open>Some (False, _)\<close> falls through to the next handler. The
  registers \<open>r3\<close> to \<open>r17\<close> that the code computes in are its variables: \<open>r3\<close> to \<open>r15\<close> are reloaded by the exit
  code or set again before they are used, and \<open>r16\<close> and \<open>r17\<close> are reloaded here.
\<close>

definition store_result :: "u32 \<Rightarrow> u32 \<Rightarrow> nios \<Rightarrow> nios" where
  "store_result r7 r9 s =
     (let s = s\<lparr>n_mem := (n_mem s)(r7 + n_reg s 27 := r9)\<rparr>;
          s = fold ldw_sp [(16, 0), (17, 4), (18, 8), (19, 12), (20, 16), (21, 20), (22, 24), (23, 28)] s;
          s = ldw_sp (28, 48) s
      in addi_sp 60 s)"

definition emulation_saves :: "nios \<Rightarrow> nios" where
  "emulation_saves s =
     (let s = addi_sp (- 60) s;
          s = stw_sp (0, 64) s;
          s = fold stw_sp [(16, 0), (17, 4), (18, 8), (19, 12), (20, 16), (21, 20), (22, 24), (23, 28)] s
      in fold stw_sp [(26, 40), (27, 44), (28, 48)] s)"

definition emulate_instruction :: "nios \<Rightarrow> (bool \<times> nios) option" where
  "emulate_instruction s =
     (case split_instruction (n_reg s 2) of (r3, r4, r5, r6, r7) \<Rightarrow>
      let s = emulation_saves s;
          r3 = n_mem s (r3 + n_reg s 27)
      in if r5 = 0x24
         then let r7 = r6; r6 = r4; r4 = 0x27
              in map_option (\<lambda>r9. (True, store_result r7 r9 s)) (emulate_multiply r4 r3 r6)
         else let r6 = n_mem s (r6 + n_reg s 27);
                  r4 = drop_bit 5 r4;
                  r4 = r4 AND 0x3f
              in if r5 \<noteq> 0x3a then Some (False, addi_sp 60 s)
                 else if r4 = 0x24 then map_option (\<lambda>r9. (True, store_result r7 r9 s)) (emulate_divide r4 r3 r6)
                 else if r4 = 0x27 \<or> r4 = 0x07 \<or> r4 = 0x17 \<or> r4 = 0x1f
                 then map_option (\<lambda>r9. (True, store_result r7 r9 s)) (emulate_multiply r4 r3 r6)
                 else if r4 \<noteq> 0x25 then Some (False, addi_sp 60 s)
                 else map_option (\<lambda>r9. (True, store_result r7 r9 s)) (emulate_divide r4 r3 r6))"

text \<open>
  The handler. \<open>None\<close> is a \<open>break\<close>, a loop that does not end, or a C function that does not return. After
  the C function for unknown exceptions, 0 in \<open>r2\<close> means that the instruction is issued again.
\<close>

definition alt_exception_handler ::
  "(nios \<Rightarrow> nios option) \<Rightarrow> (nios \<Rightarrow> nios option) \<Rightarrow> nios \<Rightarrow> nios option" where
  "alt_exception_handler irq_handler exception_entry_c s =
     (case irq_test (exception_entry s) of (irq, s) \<Rightarrow>
      if irq then map_option exception_exit (irq_handler s)
      else let s = stw_sp (29, 72) s;
               s = set_reg 2 (n_mem s (n_reg s 29 - 4)) s
           in case emulate_instruction s of
                None \<Rightarrow> None
              | Some (handled, s) \<Rightarrow>
                  if handled then Some (exception_exit s)
                  else if n_reg s 2 = 0x003b683a then None
                  else case exception_entry_c (set_reg 4 (n_reg s 29 - 4) s) of
                         None \<Rightarrow> None
                       | Some s \<Rightarrow>
                           if n_reg s 2 \<noteq> 0 then Some (exception_exit s)
                           else let s = set_reg 15 (n_reg s 29 - 4) s
                                in Some (exception_exit (stw_sp (15, 72) s)))"

section \<open>The stack frame\<close>

text \<open>The word at an offset from the stack pointer. All the code above addresses memory through it.\<close>

definition slot :: "nios \<Rightarrow> u32 \<Rightarrow> u32" where "slot s off = n_mem s (n_reg s 27 + off)"

lemma set_reg_fields [simp]:
  "n_reg (set_reg r v s) = (n_reg s)(r := v)" "n_mem (set_reg r v s) = n_mem s"
  "n_estatus (set_reg r v s) = n_estatus s" "n_ipending (set_reg r v s) = n_ipending s"
  by (simp_all add: set_reg_def)

lemma stw_sp_fields [simp]:
  "n_reg (stw_sp x s) = n_reg s" "n_estatus (stw_sp x s) = n_estatus s" "n_ipending (stw_sp x s) = n_ipending s"
  by (cases x; simp add: stw_sp_def)+

lemma slot_stw [simp]: "slot (stw_sp (r, off) s) = (slot s)(off := n_reg s r)"
  by (auto simp: stw_sp_def slot_def fun_eq_iff)

lemma slot_set_reg [simp]: "r \<noteq> 27 \<Longrightarrow> slot (set_reg r v s) = slot s"
  by (simp add: slot_def fun_eq_iff)

lemma addi_sp_fields [simp]:
  "n_reg (addi_sp k s) = (n_reg s)(27 := n_reg s 27 + k)" "n_estatus (addi_sp k s) = n_estatus s"
  "n_ipending (addi_sp k s) = n_ipending s" "n_mem (addi_sp k s) = n_mem s"
  by (simp_all add: addi_sp_def)

lemma slot_addi: "slot (addi_sp k s) off = slot s (off + k)"
  by (simp add: slot_def ac_simps)

lemma ldw_sp_fields [simp]:
  "n_reg (ldw_sp (r, off) s) = (n_reg s)(r := slot s off)" "n_mem (ldw_sp x s) = n_mem s"
  "n_estatus (ldw_sp x s) = n_estatus s" "n_ipending (ldw_sp x s) = n_ipending s"
  by (simp_all add: ldw_sp_def slot_def split: prod.splits)

lemma slot_ldw [simp]: "r \<noteq> 27 \<Longrightarrow> slot (ldw_sp (r, off) s) = slot s"
  by (simp add: slot_def fun_eq_iff)

lemma slot_mem [simp]: "slot (s\<lparr>n_mem := (n_mem s)(a + n_reg s 27 := v)\<rparr>) = (slot s)(a := v)"
  by (auto simp: slot_def fun_eq_iff ac_simps)

lemma slot_estatus [simp]: "slot (s\<lparr>n_estatus := v\<rparr>) = slot s"
  by (simp add: slot_def fun_eq_iff)

lemma n_mem_slot: "n_mem s a = slot s (a - n_reg s 27)" "n_mem s (r + n_reg s 27) = slot s r"
  by (simp_all add: slot_def ac_simps)

text \<open>What the exit code restores.\<close>

definition exit_offset :: "nat \<Rightarrow> u32" where
  "exit_offset r = (if r = 29 then 72 else if r = 31 then 0 else of_nat (4 * r + 4))"

lemma exception_exit_regs:
  "n_reg (exception_exit s) r =
     (if r \<in> {1..15} \<union> {29, 31} then slot s (exit_offset r) else if r = 27 then n_reg s 27 + 76 else n_reg s r)"
proof -
  have "{1..15 :: nat} = {1, 2, 3, 4, 5, 6, 7, 8, 9, 10, 11, 12, 13, 14, 15}"
    by (auto, presburger)
  then show ?thesis by (simp add: exception_exit_def Let_def exit_offset_def)
qed

lemma exception_exit_fields:
  "n_mem (exception_exit s) = n_mem s" "n_estatus (exception_exit s) = slot s 68"
  "n_ipending (exception_exit s) = n_ipending s"
  by (simp_all add: exception_exit_def Let_def)

text \<open>What the entry code saves, and the registers it uses.\<close>

definition entry_words :: "nios \<Rightarrow> (u32 \<times> u32) list" where
  "entry_words s = [(72, n_reg s 29 - 4), (68, n_estatus s), (64, n_reg s 15), (60, n_reg s 14), (56, n_reg s 13),
     (52, n_reg s 12), (48, n_reg s 11), (44, n_reg s 10), (40, n_reg s 9), (36, n_reg s 8), (32, n_reg s 7),
     (28, n_reg s 6), (24, n_reg s 5), (20, n_reg s 4), (16, n_reg s 3), (12, n_reg s 2), (8, n_reg s 1),
     (0, n_reg s 31)]"

lemma exception_entry_slot:
  "slot (exception_entry s) off = (case map_of (entry_words s) off of Some v \<Rightarrow> v | None \<Rightarrow> slot s (off - 76))"
  by (simp add: exception_entry_def Let_def entry_words_def slot_addi)

lemma exception_entry_regs:
  "n_reg (exception_entry s) = (n_reg s)(27 := n_reg s 27 - 76, 5 := n_estatus s, 15 := n_reg s 29 - 4)"
  by (simp add: exception_entry_def Let_def fun_eq_iff)

lemma exception_entry_fields:
  "n_ipending (exception_entry s) = n_ipending s" "n_estatus (exception_entry s) = n_estatus s"
  by (simp_all add: exception_entry_def Let_def)

text \<open>
  A handler in C keeps the registers that the calling convention preserves, the processor's own ones, and the
  frame of its caller.
\<close>

definition kept_regs :: "nat list" where
  "kept_regs = [0, 16, 17, 18, 19, 20, 21, 22, 23, 24, 25, 26, 27, 28, 30]"

definition frame_offsets :: "u32 list" where
  "frame_offsets = [0, 8, 12, 16, 20, 24, 28, 32, 36, 40, 44, 48, 52, 56, 60, 64, 68, 72]"

definition c_call :: "nios \<Rightarrow> nios \<Rightarrow> bool" where
  "c_call s s' \<longleftrightarrow> list_all (\<lambda>r. n_reg s' r = n_reg s r) kept_regs \<and>
     list_all (\<lambda>off. slot s' off = slot s off) frame_offsets"

text \<open>A statement on all registers is a conjunction.\<close>

lemma all_regs:
  "(\<forall>r < 32. P (r :: nat)) \<longleftrightarrow>
     P 0 \<and> P 1 \<and> P 2 \<and> P 3 \<and> P 4 \<and> P 5 \<and> P 6 \<and> P 7 \<and>
     P 8 \<and> P 9 \<and> P 10 \<and> P 11 \<and> P 12 \<and> P 13 \<and> P 14 \<and> P 15 \<and>
     P 16 \<and> P 17 \<and> P 18 \<and> P 19 \<and> P 20 \<and> P 21 \<and> P 22 \<and> P 23 \<and>
     P 24 \<and> P 25 \<and> P 26 \<and> P 27 \<and> P 28 \<and> P 29 \<and> P 30 \<and> P 31"
  by (simp add: numeral_eq_Suc All_less_Suc) blast

text \<open>C14: 
  An interrupt is transparent: whatever the interrupt handler does, as long as it follows the calling
  convention, the interrupted program finds every register as it was, and the interrupted
  instruction, which has not been executed, is the one it continues with.
\<close>

theorem interrupt_transparent:
  assumes "n_estatus s AND 1 \<noteq> 0" and "n_ipending s \<noteq> 0"
    and "\<And>t. \<exists>t'. irq_handler t = Some t' \<and> c_call t t'"
  shows "\<exists>s'. alt_exception_handler irq_handler c_handler s = Some s' \<and> n_estatus s' = n_estatus s \<and>
    (\<forall>r<32. n_reg s' r = (if r = 29 then n_reg s 29 - 4 else n_reg s r))"
proof -
  define e where "e = snd (irq_test (exception_entry s))"
  have irq: "irq_test (exception_entry s) = (True, e)"
    using assms(1,2) by (simp add: e_def irq_test_def Let_def exception_entry_regs exception_entry_fields)
  have e_slot: "slot e = slot (exception_entry s)" and e_reg: "n_reg e r = n_reg (exception_entry s) r"
    if "r \<noteq> 4" "r \<noteq> 2" for r
    using that by (simp_all add: e_def irq_test_def Let_def)
  obtain t where t: "irq_handler e = Some t" "c_call e t" using assms(3) by blast
  have "n_reg (exception_exit t) r = (if r = 29 then n_reg s 29 - 4 else n_reg s r)" if r: "r < 32" for r
  proof -
    have "\<forall>r<32. n_reg (exception_exit t) r = (if r = 29 then n_reg s 29 - 4 else n_reg s r)"
      unfolding all_regs
      using t(2) by (simp add: exception_exit_regs exit_offset_def c_call_def kept_regs_def frame_offsets_def
          e_slot [of 0] e_reg exception_entry_slot exception_entry_regs entry_words_def)
    with r show ?thesis by blast
  qed
  moreover have "n_estatus (exception_exit t) = n_estatus s"
    using t(2) by (simp add: exception_exit_fields c_call_def frame_offsets_def e_slot [of 0]
        exception_entry_slot entry_words_def)
  ultimately show ?thesis using irq t(1) by (simp add: alt_exception_handler_def)
qed

section \<open>The fields of the instruction\<close>

definition field_A :: "u32 \<Rightarrow> nat" where "field_A i = unat (drop_bit 27 i)"
definition field_B :: "u32 \<Rightarrow> nat" where "field_B i = unat (drop_bit 22 i AND 0x1f)"
definition field_C :: "u32 \<Rightarrow> nat" where "field_C i = unat (drop_bit 17 i AND 0x1f)"
definition field_OPX :: "u32 \<Rightarrow> u32" where "field_OPX i = drop_bit 11 i AND 0x3f"
definition field_OP :: "u32 \<Rightarrow> u32" where "field_OP i = i AND 0x3f"
definition field_IMM16 :: "u32 \<Rightarrow> u32" where "field_IMM16 i = scast (ucast (drop_bit 6 i) :: u16)"

text \<open>The place of a register in the frame of the emulation code: exclusive or swaps the two halves.\<close>

definition reg_slot :: "nat \<Rightarrow> u32" where "reg_slot r = of_nat (4 * (r XOR 16))"

lemma bit_high: "32 \<le> n \<Longrightarrow> \<not> bit (i :: u32) n"
  using bit_imp_le_length [of i n] by auto

lemma split_A: "(word_rotl 7 i XOR 0x40) AND 0x7c = push_bit 2 (drop_bit 27 i XOR 0x10)" for i :: u32
proof (rule bit_word_eqI)
  have "\<forall>n<32. bit ((word_rotl 7 i XOR 0x40) AND 0x7c) n \<longleftrightarrow> bit (push_bit 2 (drop_bit 27 i XOR 0x10)) n"
    unfolding all_regs by (simp add: bit_simps bit_high)
  then show "bit ((word_rotl 7 i XOR 0x40) AND 0x7c) n = bit (push_bit 2 (drop_bit 27 i XOR 0x10)) n" if "n < LENGTH(32)" for n
    using that by simp
qed

lemma split_B: "(word_rotl 2 (word_rotl 3 (word_rotl 7 i)) XOR 0x42) AND 0x7c = push_bit 2 ((drop_bit 22 i AND 0x1f) XOR 0x10)" for i :: u32
proof (rule bit_word_eqI)
  have "\<forall>n<32. bit ((word_rotl 2 (word_rotl 3 (word_rotl 7 i)) XOR 0x42) AND 0x7c) n \<longleftrightarrow> bit (push_bit 2 ((drop_bit 22 i AND 0x1f) XOR 0x10)) n"
    unfolding all_regs by (simp add: bit_simps bit_high)
  then show "bit ((word_rotl 2 (word_rotl 3 (word_rotl 7 i)) XOR 0x42) AND 0x7c) n = bit (push_bit 2 ((drop_bit 22 i AND 0x1f) XOR 0x10)) n" if "n < LENGTH(32)" for n
    using that by simp
qed

lemma split_C: "word_rotl 5 (word_rotl 2 (word_rotl 3 (word_rotl 7 i)) XOR 0x42) AND 0x7c = push_bit 2 ((drop_bit 17 i AND 0x1f) XOR 0x10)" for i :: u32
proof (rule bit_word_eqI)
  have "\<forall>n<32. bit (word_rotl 5 (word_rotl 2 (word_rotl 3 (word_rotl 7 i)) XOR 0x42) AND 0x7c) n \<longleftrightarrow> bit (push_bit 2 ((drop_bit 17 i AND 0x1f) XOR 0x10)) n"
    unfolding all_regs by (simp add: bit_simps bit_high)
  then show "bit (word_rotl 5 (word_rotl 2 (word_rotl 3 (word_rotl 7 i)) XOR 0x42) AND 0x7c) n = bit (push_bit 2 ((drop_bit 17 i AND 0x1f) XOR 0x10)) n" if "n < LENGTH(32)" for n
    using that by simp
qed

lemma split_IMM16: "signed_drop_bit 16 (word_rotl 3 (word_rotl 7 i)) = field_IMM16 i" for i :: u32
proof (rule bit_word_eqI)
  have "\<forall>n<32. bit (signed_drop_bit 16 (word_rotl 3 (word_rotl 7 i))) n \<longleftrightarrow> bit (field_IMM16 i) n"
    unfolding all_regs by (simp add: bit_simps bit_high field_IMM16_def)
  then show "bit (signed_drop_bit 16 (word_rotl 3 (word_rotl 7 i))) n = bit (field_IMM16 i) n" if "n < LENGTH(32)" for n
    using that by simp
qed

lemma split_OPX: "drop_bit 5 (field_IMM16 i) AND 0x3f = field_OPX i" for i :: u32
proof (rule bit_word_eqI)
  have "\<forall>n<32. bit (drop_bit 5 (field_IMM16 i) AND 0x3f) n \<longleftrightarrow> bit (field_OPX i) n"
    unfolding all_regs by (simp add: bit_simps bit_high field_IMM16_def field_OPX_def)
  then show "bit (drop_bit 5 (field_IMM16 i) AND 0x3f) n = bit (field_OPX i) n" if "n < LENGTH(32)" for n
    using that by simp
qed

lemma reg_slot_word: "push_bit 2 (x XOR 0x10) = reg_slot (unat (x :: u32))"
proof -
  have "unat x XOR 16 = unat (x XOR 0x10)" by (simp add: unsigned_xor_eq)
  then have "reg_slot (unat x) = of_nat (4 * unat (x XOR 0x10))" by (simp only: reg_slot_def)
  also have "\<dots> = push_bit 2 (x XOR 0x10)" by (simp add: push_bit_eq_mult mult.commute)
  finally show ?thesis by simp
qed

text \<open>Splitting is right.\<close>

lemma split_instruction_eq:
  "split_instruction i =
     (reg_slot (field_A i), field_IMM16 i, field_OP i, reg_slot (field_B i), reg_slot (field_C i))"
  unfolding split_instruction_def Let_def split_A split_B split_C split_IMM16 reg_slot_word
    field_A_def field_B_def field_C_def field_OP_def by (rule refl)

lemma field_less: "field_A i < 32" "field_B i < 32" "field_C i < 32"
proof -
  have "unat i < 2 ^ LENGTH(32)" by (rule unsigned_less)
  then have "unat i div 2 ^ 27 < 32" by simp
  then show "field_A i < 32" by (simp add: field_A_def drop_bit_eq_div unat_div_distrib)
  have m: "unat (x AND 0x1f) < 32" for x :: u32
  proof -
    have "x AND 0x1f = take_bit 5 x" by (simp add: take_bit_eq_mask mask_eq_exp_minus_1)
    then have "unat (x AND 0x1f) = take_bit 5 (unat x)" by (simp add: unsigned_take_bit_eq)
    then show ?thesis using take_bit_nat_less_exp [of 5 "unat x"] by simp
  qed
  show "field_B i < 32" "field_C i < 32" by (simp_all only: field_B_def field_C_def m)
qed

lemma reg_slot_inj:
  assumes "r < 32" and "r' < 32"
  shows "reg_slot r = reg_slot r' \<longleftrightarrow> r = r'"
proof
  have "\<forall>r<32. unat (reg_slot r) = 4 * (r XOR 16)" unfolding all_regs by (simp add: reg_slot_def)
  moreover assume "reg_slot r = reg_slot r'"
  ultimately have "4 * (r XOR 16) = 4 * (r' XOR 16)" using assms by metis
  then have "(r XOR 16) XOR 16 = (r' XOR 16) XOR 16" by simp
  then show "r = r'" by (simp only: xor.assoc xor_self_eq xor.right_neutral)
qed simp

section \<open>Emulation is right\<close>

text \<open>The state in which the emulation code finds the program \<open>s\<close>, whose instruction is in \<open>r2\<close>.\<close>

definition at_emulation :: "nios \<Rightarrow> nios" where
  "at_emulation s =
     (let t = stw_sp (29, 72) (snd (irq_test (exception_entry s)))
      in set_reg 2 (n_mem t (n_reg t 29 - 4)) t)"

lemma at_emulation_slot:
  "slot (at_emulation s) = (slot (exception_entry s))(72 := n_reg s 29)"
  by (simp add: at_emulation_def irq_test_def Let_def exception_entry_regs fun_eq_iff)

lemma at_emulation_regs:
  "r \<noteq> 2 \<Longrightarrow> n_reg (at_emulation s) r =
    (if r = 4 then n_ipending s else n_reg (exception_entry s) r)"
  by (simp add: at_emulation_def irq_test_def Let_def exception_entry_fields)

lemma emulation_saves_slot:
  "slot (emulation_saves t) off =
    (case map_of [(48, n_reg t 28), (44, n_reg t 27 - 60), (40, n_reg t 26), (28, n_reg t 23), (24, n_reg t 22),
       (20, n_reg t 21), (16, n_reg t 20), (12, n_reg t 19), (8, n_reg t 18), (4, n_reg t 17), (0, n_reg t 16),
       (64, n_reg t 0)] off of Some v \<Rightarrow> v | None \<Rightarrow> slot t (off - 60))"
  by (simp add: emulation_saves_def Let_def slot_addi)

lemma emulation_saves_regs: "n_reg (emulation_saves t) = (n_reg t)(27 := n_reg t 27 - 60)"
  by (simp add: emulation_saves_def Let_def fun_eq_iff)

text \<open>The operands: the stack pointer is saved after it has been moved.\<close>

definition operand :: "nios \<Rightarrow> nat \<Rightarrow> u32" where
  "operand s r = (if r = 27 then n_reg s 27 - 136 else n_reg s r)"

lemma saved_operand:
  assumes "r < 32" and "r \<notin> {24, 25, 29, 30}"
  shows "slot (emulation_saves (at_emulation s)) (reg_slot r) = operand s r"
proof -
  have "\<forall>r<32. r \<notin> {24, 25, 29, 30} \<longrightarrow> slot (emulation_saves (at_emulation s)) (reg_slot r) = operand s r"
    unfolding all_regs by (simp add: reg_slot_def emulation_saves_slot at_emulation_slot at_emulation_regs
        exception_entry_slot exception_entry_regs entry_words_def operand_def)
  with assms show ?thesis by blast
qed

text \<open>The registers after the exit: those that are reloaded come from their places in the frame.\<close>

definition reloaded :: "nat \<Rightarrow> bool" where "reloaded r \<longleftrightarrow> r \<notin> {0, 24, 25, 26, 27, 29, 30}"

lemma exit_store_result:
  "(\<forall>r<32. reloaded r \<longrightarrow> n_reg (exception_exit (store_result a v f)) r = ((slot f)(a := v)) (reg_slot r))"
  unfolding all_regs
  by (simp add: reloaded_def reg_slot_def exception_exit_regs exit_offset_def store_result_def Let_def slot_addi)

lemma reg_slot_ne:
  assumes "c < 32"
  shows "reg_slot c \<noteq> 128" "reg_slot c \<noteq> 132"
proof -
  have "\<forall>r<32. reg_slot r \<noteq> 128 \<and> reg_slot r \<noteq> 132" unfolding all_regs by (simp add: reg_slot_def)
  with assms show "reg_slot c \<noteq> 128" "reg_slot c \<noteq> 132" by blast+
qed

lemma store_result_fields:
  "n_reg (store_result a v f) r =
     (if r = 27 then n_reg f 27 + 60 else if r = 28 \<or> 16 \<le> r \<and> r \<le> 23 then ((slot f)(a := v)) (reg_slot r) else n_reg f r)"
  "slot (store_result a v f) off = ((slot f)(a := v)) (off + 60)"
proof -
  have "16 \<le> r \<and> r \<le> 23 \<longleftrightarrow> r = 16 \<or> r = 17 \<or> r = 18 \<or> r = 19 \<or> r = 20 \<or> r = 21 \<or> r = 22 \<or> r = 23" by auto
  then show "n_reg (store_result a v f) r =
     (if r = 27 then n_reg f 27 + 60 else if r = 28 \<or> 16 \<le> r \<and> r \<le> 23 then ((slot f)(a := v)) (reg_slot r) else n_reg f r)"
    by (auto simp: store_result_def Let_def reg_slot_def)
  show "slot (store_result a v f) off = ((slot f)(a := v)) (off + 60)"
    by (simp add: store_result_def Let_def slot_addi)
qed

lemma saved_control:
  "slot (emulation_saves (at_emulation s)) 132 = n_reg s 29" "slot (emulation_saves (at_emulation s)) 128 = n_estatus s"
  by (simp_all add: emulation_saves_slot at_emulation_slot exception_entry_slot entry_words_def)

lemma kept_by_emulation:
  "\<forall>r \<in> {0, 24, 25, 26, 30}. n_reg (exception_exit (store_result a v (emulation_saves (at_emulation s)))) r = n_reg s r"
  "n_reg (exception_exit (store_result a v (emulation_saves (at_emulation s)))) 27 = n_reg s 27"
  by (simp_all add: exception_exit_regs store_result_fields(1) emulation_saves_regs at_emulation_regs exception_entry_regs)

lemma emulation_restores:
  fixes c :: nat and s :: nios and v :: u32
  assumes "c < 32" and "n_reg s 0 = 0"
  defines "s' \<equiv> exception_exit (store_result (reg_slot c) v (emulation_saves (at_emulation s)))"
  shows "\<forall>r<32. n_reg s' r = (if r = c \<and> reloaded c then v else n_reg s r)" and "n_estatus s' = n_estatus s"
proof -
  let ?f = "emulation_saves (at_emulation s)"
  have n: "n_reg s' r = (if r = c \<and> reloaded c then v else n_reg s r)" if r: "r < 32" for r
  proof (cases "reloaded r")
    case True
    then have "n_reg s' r = ((slot ?f)(reg_slot c := v)) (reg_slot r)"
      using exit_store_result r by (simp add: s'_def)
    also have "\<dots> = (if r = c then v else operand s r)"
      using reg_slot_inj [OF r assms(1)] saved_operand [OF r] True by (auto simp: reloaded_def)
    also have "\<dots> = (if r = c \<and> reloaded c then v else n_reg s r)"
      using True by (auto simp: operand_def reloaded_def)
    finally show ?thesis .
  next
    case False
    then consider "r \<in> {0, 24, 25, 26, 30}" | "r = 27" | "r = 29" unfolding reloaded_def by blast
    then have "n_reg s' r = n_reg s r"
    proof cases
      case 3
      have "n_reg s' 29 = ((slot ?f)(reg_slot c := v)) 132"
        by (simp add: s'_def exception_exit_regs exit_offset_def store_result_fields(2))
      with 3 reg_slot_ne(2) [OF assms(1)] show ?thesis by (simp only: fun_upd_apply saved_control) simp
    qed (use kept_by_emulation in \<open>simp_all only: s'_def\<close>)
    with False show ?thesis by auto
  qed
  then show "\<forall>r<32. n_reg s' r = (if r = c \<and> reloaded c then v else n_reg s r)" by blast
  show "n_estatus s' = n_estatus s"
  proof -
    have "n_estatus s' = ((slot ?f)(reg_slot c := v)) 128"
      by (simp add: s'_def exception_exit_fields store_result_fields(2))
    with reg_slot_ne(1) [OF assms(1)] show ?thesis by (simp only: fun_upd_apply saved_control) simp
  qed
qed

text \<open>The words below the stack pointer that the handler and the emulation code write.\<close>

definition frame_words :: "u32 list" where
  "frame_words = [0, 4, 8, 12, 16, 20, 24, 28, 32, 36, 40, 44, 48, 52, 56, 60, 64, 68, 72, 76, 80, 84, 88, 92,
     96, 100, 104, 108, 112, 116, 120, 124, 128, 132]"

definition in_frame :: "nios \<Rightarrow> u32 \<Rightarrow> bool" where
  "in_frame s a \<longleftrightarrow> a - (n_reg s 27 - 136) \<in> set frame_words"

lemma outside_slots:
  assumes "x \<notin> set frame_words"
  shows "slot (emulation_saves (at_emulation s)) x = slot s (x - 136)"
    and "c < 32 \<Longrightarrow> reg_slot c \<noteq> x"
proof -
  have x: "x \<noteq> 0" "x \<noteq> 4" "x \<noteq> 8" "x \<noteq> 12" "x \<noteq> 16" "x \<noteq> 20"
    "x \<noteq> 24" "x \<noteq> 28" "x \<noteq> 32" "x \<noteq> 36" "x \<noteq> 40" "x \<noteq> 44"
    "x \<noteq> 48" "x \<noteq> 52" "x \<noteq> 56" "x \<noteq> 60" "x \<noteq> 64" "x \<noteq> 68"
    "x \<noteq> 72" "x \<noteq> 76" "x \<noteq> 80" "x \<noteq> 84" "x \<noteq> 88" "x \<noteq> 92"
    "x \<noteq> 96" "x \<noteq> 100" "x \<noteq> 104" "x \<noteq> 108" "x \<noteq> 112" "x \<noteq> 116"
    "x \<noteq> 120" "x \<noteq> 124" "x \<noteq> 128" "x \<noteq> 132"
    using assms by (simp_all add: frame_words_def)
  have "\<forall>r<32. reg_slot r \<noteq> x" unfolding all_regs using x by (simp add: reg_slot_def)
  then show "reg_slot c \<noteq> x" if "c < 32" using that by blast
  show "slot (emulation_saves (at_emulation s)) x = slot s (x - 136)"
    using x by (simp add: emulation_saves_slot at_emulation_slot exception_entry_slot entry_words_def diff_eq_eq)
qed

lemma emulation_keeps_memory:
  assumes "c < 32" and "\<not> in_frame s a"
  shows "n_mem (exception_exit (store_result (reg_slot c) v (emulation_saves (at_emulation s)))) a = n_mem s a"
proof -
  let ?f = "emulation_saves (at_emulation s)"
  let ?x = "a - (n_reg s 27 - 136)"
  have x: "?x \<notin> set frame_words" using assms(2) by (simp add: in_frame_def)
  have "n_reg ?f 27 = n_reg s 27 - 136"
    by (simp add: emulation_saves_regs at_emulation_regs exception_entry_regs)
  then have "n_mem (store_result (reg_slot c) v ?f) a = ((slot ?f)(reg_slot c := v)) ?x"
    by (auto simp: store_result_def Let_def n_mem_slot(1) [of _ a] diff_eq_eq)
  also have "\<dots> = slot s (?x - 136)"
    using outside_slots(1) [OF x] outside_slots(2) [OF x assms(1)]
    by (simp only: fun_upd_apply not_sym [OF outside_slots(2) [OF x assms(1)]] if_False)
  finally show ?thesis by (simp add: exception_exit_fields slot_def)
qed

text \<open>The instruction that the emulation code sees.\<close>

lemma emulated_instruction:
  assumes "\<not> in_frame s (n_reg s 29 - 4)"
  shows "n_reg (at_emulation s) 2 = n_mem s (n_reg s 29 - 4)"
proof -
  let ?a = "n_reg s 29 - 4" and ?t = "snd (irq_test (exception_entry s))"
  let ?x = "?a - (n_reg s 27 - 136)"
  have x: "?x \<notin> set frame_words" using assms by (simp add: in_frame_def)
  have t: "slot ?t = slot (exception_entry s)" "n_reg ?t 27 = n_reg s 27 - 76" "n_reg ?t 29 = n_reg s 29"
    by (simp_all add: irq_test_def Let_def exception_entry_regs)
  have "slot (emulation_saves (at_emulation s)) ?x = slot (at_emulation s) (?x - 60)"
    using x by (simp add: emulation_saves_slot frame_words_def)
  then have "slot (at_emulation s) (?x - 60) = n_mem s ?a"
    using outside_slots(1) [OF x, of s] by (simp add: slot_def)
  moreover have "slot (at_emulation s) = slot (stw_sp (29, 72) ?t)"
    by (simp add: at_emulation_def Let_def)
  moreover have "?x - 60 = ?a - n_reg (stw_sp (29, 72) ?t) 27" by (simp add: t)
  ultimately show ?thesis by (simp add: at_emulation_def Let_def n_mem_slot(1) [of "stw_sp (29, 72) ?t"] t)
qed

text \<open>What the instructions compute, by their OPX field.\<close>

definition nios_result :: "u32 \<Rightarrow> u32 \<Rightarrow> u32 \<Rightarrow> u32" where
  "nios_result opx a b =
     (if opx = 0x24 then a div b
      else if opx = 0x25 then word_of_int (sint a sdiv sint b)
      else if opx = 0x27 then a * b
      else if opx = 0x07 then word_of_int (uint a * uint b div 2 ^ 32)
      else if opx = 0x17 then word_of_int (sint a * uint b div 2 ^ 32)
      else word_of_int (sint a * sint b div 2 ^ 32))"

lemma handler_emulates:
  assumes "n_estatus s AND 1 = 0 \<or> n_ipending s = 0"
    and "emulate_instruction (at_emulation s) = Some (True, t)"
  shows "alt_exception_handler irqh ch s = Some (exception_exit t)"
proof -
  define e where "e = snd (irq_test (exception_entry s))"
  have irq: "irq_test (exception_entry s) = (False, e)"
    using assms(1) by (auto simp: e_def irq_test_def Let_def exception_entry_regs exception_entry_fields)
  show ?thesis using assms(2)
    unfolding alt_exception_handler_def at_emulation_def Let_def e_def [symmetric] irq prod.case if_False
    by simp
qed

lemma emulate_rtype:
  assumes "i = n_reg t 2" and "field_OP i = 0x3a" and "field_OPX i \<in> {0x24, 0x25, 0x27, 0x07, 0x17, 0x1f}"
    and "a = slot (emulation_saves t) (reg_slot (field_A i))" and "b = slot (emulation_saves t) (reg_slot (field_B i))"
    and "field_OPX i \<in> {0x24, 0x25} \<Longrightarrow> b \<noteq> 0"
  shows "emulate_instruction t =
    Some (True, store_result (reg_slot (field_C i)) (nios_result (field_OPX i) a b) (emulation_saves t))"
proof -
  have ab: "n_mem (emulation_saves t) (reg_slot (field_A i) + n_reg (emulation_saves t) 27) = a"
    "n_mem (emulation_saves t) (reg_slot (field_B i) + n_reg (emulation_saves t) 27) = b"
    using assms(4,5) by (simp_all only: n_mem_slot(2))
  show ?thesis
    using assms(2,3,6) emulate_divu [of "0x24" a b]
    unfolding emulate_instruction_def assms(1) [symmetric] split_instruction_eq prod.case Let_def ab split_OPX
    by (auto simp: nios_result_def emulate_div emulate_mul emulate_mulx)
qed

text \<open>The general case, with the operands as they are saved and the destination as it is reloaded.\<close>

lemma emulation_general:
  assumes "n_estatus s AND 1 = 0 \<or> n_ipending s = 0" and "n_reg s 0 = 0"
    and "emulate_instruction (at_emulation s) = Some (True, store_result (reg_slot c) v (emulation_saves (at_emulation s)))"
    and "c < 32"
  shows "\<exists>s'. alt_exception_handler irqh ch s = Some s' \<and> n_estatus s' = n_estatus s \<and>
    (\<forall>r<32. n_reg s' r = (if r = c \<and> reloaded c then v else n_reg s r)) \<and>
    (\<forall>a. \<not> in_frame s a \<longrightarrow> n_mem s' a = n_mem s a)"
  using handler_emulates [OF assms(1,3)] emulation_restores [OF assms(4,2)] emulation_keeps_memory [OF assms(4)]
  by blast

lemma emulation_rtype:
  assumes "n_estatus s AND 1 = 0 \<or> n_ipending s = 0" and "n_reg s 0 = 0"
    and "i = n_mem s (n_reg s 29 - 4)" and "\<not> in_frame s (n_reg s 29 - 4)"
    and "field_OP i = 0x3a" and "field_OPX i \<in> {0x24, 0x25, 0x27, 0x07, 0x17, 0x1f}"
    and "field_A i \<notin> {24, 25, 29, 30}" and "field_B i \<notin> {24, 25, 29, 30}"
    and "field_OPX i \<in> {0x24, 0x25} \<Longrightarrow> operand s (field_B i) \<noteq> 0"
  shows "\<exists>s'. alt_exception_handler irqh ch s = Some s' \<and> n_estatus s' = n_estatus s \<and>
    (\<forall>r<32. n_reg s' r = (if r = field_C i \<and> reloaded r
       then nios_result (field_OPX i) (operand s (field_A i)) (operand s (field_B i)) else n_reg s r)) \<and>
    (\<forall>a. \<not> in_frame s a \<longrightarrow> n_mem s' a = n_mem s a)"
proof -
  have i: "i = n_reg (at_emulation s) 2" using emulated_instruction [OF assms(4)] assms(3) by simp
  note a = saved_operand [OF field_less(1) assms(7), of s] and b = saved_operand [OF field_less(2) assms(8), of s]
  from emulation_general [OF assms(1,2) emulate_rtype [OF i assms(5,6) a [symmetric] b [symmetric] assms(9)] field_less(3),
      of irqh ch]
  show ?thesis by auto
qed

text \<open>C12: Emulation is exact: for every multiplication of two registers, and every division of two registers whose
  divisor is not zero, whatever their other values, the handler returns to the next instruction, the destination
  register holds the result of the instruction, every other register, the status and all memory but the frame below
  the stack pointer are as before. The operands are not the temporary, breakpoint and exception registers nor the
  stack pointer, the destination is not one of these nor the global pointer, and no interrupt is pending. Division
  by zero, and the multiplication with an immediate operand (\<open>emulation_muli\<close>), lie outside this theorem.\<close>

theorem emulation_executes:
  assumes "n_estatus s AND 1 = 0 \<or> n_ipending s = 0" and "n_reg s 0 = 0"
    and "i = n_mem s (n_reg s 29 - 4)" and "\<not> in_frame s (n_reg s 29 - 4)"
    and "field_OP i = 0x3a" and "field_OPX i \<in> {0x24, 0x25, 0x27, 0x07, 0x17, 0x1f}"
    and "field_A i \<notin> {24, 25, 27, 29, 30}" and "field_B i \<notin> {24, 25, 27, 29, 30}"
    and "field_C i \<notin> {24, 25, 26, 27, 29, 30}"
    and "field_OPX i \<in> {0x24, 0x25} \<Longrightarrow> n_reg s (field_B i) \<noteq> 0"
  shows "\<exists>s'. alt_exception_handler irqh ch s = Some s' \<and> n_estatus s' = n_estatus s \<and>
    (\<forall>r<32. n_reg s' r = (if r = field_C i \<and> r \<noteq> 0
       then nios_result (field_OPX i) (n_reg s (field_A i)) (n_reg s (field_B i)) else n_reg s r)) \<and>
    (\<forall>a. \<not> in_frame s a \<longrightarrow> n_mem s' a = n_mem s a)"
proof -
  have ab: "field_A i \<notin> {24, 25, 29, 30}" "field_B i \<notin> {24, 25, 29, 30}" using assms(7,8) by auto
  have op: "operand s (field_A i) = n_reg s (field_A i)" "operand s (field_B i) = n_reg s (field_B i)"
    using assms(7,8) by (simp_all add: operand_def)
  have c: "r = field_C i \<and> reloaded r \<longleftrightarrow> r = field_C i \<and> r \<noteq> 0" for r
    using assms(9) by (auto simp: reloaded_def)
  from emulation_rtype [OF assms(1-6) ab, unfolded op c, OF assms(10)] show ?thesis .
qed

text \<open>The same for the multiplication with an immediate operand, whose destination is register B.\<close>

lemma emulation_muli:
  assumes "n_estatus s AND 1 = 0 \<or> n_ipending s = 0" and "n_reg s 0 = 0"
    and "i = n_mem s (n_reg s 29 - 4)" and "\<not> in_frame s (n_reg s 29 - 4)"
    and "field_OP i = 0x24" and "field_A i \<notin> {24, 25, 27, 29, 30}" and "field_B i \<notin> {24, 25, 26, 27, 29, 30}"
  shows "\<exists>s'. alt_exception_handler irqh ch s = Some s' \<and> n_estatus s' = n_estatus s \<and>
    (\<forall>r<32. n_reg s' r = (if r = field_B i \<and> r \<noteq> 0 then n_reg s (field_A i) * field_IMM16 i else n_reg s r)) \<and>
    (\<forall>a. \<not> in_frame s a \<longrightarrow> n_mem s' a = n_mem s a)"
proof -
  have i: "i = n_reg (at_emulation s) 2" using emulated_instruction [OF assms(4)] assms(3) by simp
  have "field_A i \<notin> {24, 25, 29, 30}" using assms(6) by auto
  from saved_operand [OF field_less(1) this, of s] assms(6)
  have a: "n_mem (emulation_saves (at_emulation s)) (reg_slot (field_A i) + n_reg (emulation_saves (at_emulation s)) 27) =
      n_reg s (field_A i)"
    by (simp add: n_mem_slot(2) operand_def)
  have e: "emulate_instruction (at_emulation s) = Some (True, store_result (reg_slot (field_B i))
      (n_reg s (field_A i) * field_IMM16 i) (emulation_saves (at_emulation s)))"
    unfolding emulate_instruction_def i [symmetric] split_instruction_eq prod.case Let_def a assms(5)
    by (simp add: emulate_mul)
  have c: "r = field_B i \<and> reloaded (field_B i) \<longleftrightarrow> r = field_B i \<and> r \<noteq> 0" for r
    using assms(7) by (auto simp: reloaded_def)
  from emulation_general [OF assms(1,2) e field_less(2), unfolded c] show ?thesis .
qed

text \<open>A program at \<open>0x1000\<close> that divides - 7 in \<open>r2\<close> by 2 in \<open>r3\<close> into \<open>r4\<close>.\<close>

definition div_program :: nios where
  "div_program = \<lparr>n_reg = (\<lambda>_. 0)(2 := - 7, 3 := 2, 27 := 0x9000, 29 := 0x1004),
     n_mem = (\<lambda>_. 0)(0x1000 := 0x10C9283A), n_estatus = 1, n_ipending = 0\<rparr>"

lemma div_program_fields:
  "field_OP 0x10C9283A = 0x3a" "field_OPX 0x10C9283A = 0x25" "field_A 0x10C9283A = 2" "field_B 0x10C9283A = 3"
  "field_C 0x10C9283A = 4"
  by (simp_all add: field_OP_def field_OPX_def field_A_def field_B_def field_C_def)

lemma div_program_regs:
  "n_reg div_program 0 = 0" "n_reg div_program 2 = - 7" "n_reg div_program 3 = 2" "n_reg div_program 29 = 0x1004"
  "n_ipending div_program = 0" "n_mem div_program 0x1000 = 0x10C9283A" "\<not> in_frame div_program 0x1000"
  by (simp_all add: div_program_def in_frame_def frame_words_def)

lemma emulation_executes_witness:
  "\<exists>s'. alt_exception_handler Some Some div_program = Some s' \<and> n_reg s' 4 = - 3 \<and> n_reg s' 2 = - 7 \<and> n_reg s' 29 = 0x1004"
proof -
  have "\<exists>s'. alt_exception_handler Some Some div_program = Some s' \<and> n_estatus s' = n_estatus div_program \<and>
      (\<forall>r<32. n_reg s' r = (if r = 4 \<and> r \<noteq> 0 then nios_result 0x25 (- 7) 2 else n_reg div_program r)) \<and>
      (\<forall>a. \<not> in_frame div_program a \<longrightarrow> n_mem s' a = n_mem div_program a)"
    by (rule emulation_executes [where i = "0x10C9283A" and s = div_program, unfolded div_program_fields div_program_regs(2,3)])
      (simp_all add: div_program_regs)
  then obtain s' where s': "alt_exception_handler Some Some div_program = Some s'"
    "\<forall>r<32. n_reg s' r = (if r = 4 \<and> r \<noteq> 0 then nios_result 0x25 (- 7) 2 else n_reg div_program r)"
    by blast
  have "nios_result 0x25 (- 7) 2 = - 3" by (simp add: nios_result_def signed_divide_int_def)
  then have "n_reg s' 4 = - 3" using s'(2) by simp
  moreover have "n_reg s' 2 = - 7" "n_reg s' 29 = 0x1004" using s'(2) div_program_regs by simp_all
  ultimately show ?thesis using s'(1) by blast
qed

text \<open>
  The stack pointer as an operand is wrong: what is saved is the stack pointer of the handler, 136 lower. And a
  result for the global pointer is lost: its place in the frame is written and never read back.
\<close>

lemma emulation_stack_pointer:
  assumes "n_estatus s AND 1 = 0 \<or> n_ipending s = 0" and "n_reg s 0 = 0"
    and "i = n_mem s (n_reg s 29 - 4)" and "\<not> in_frame s (n_reg s 29 - 4)"
    and "field_OP i = 0x3a" and "field_OPX i = 0x27"
    and "field_A i = 27" and "field_B i = 2" and "field_C i = 3"
  shows "\<exists>s'. alt_exception_handler irqh ch s = Some s' \<and> n_reg s' 3 = (n_reg s 27 - 136) * n_reg s 2"
proof -
  have "\<exists>s'. alt_exception_handler irqh ch s = Some s' \<and> n_estatus s' = n_estatus s \<and>
    (\<forall>r<32. n_reg s' r = (if r = field_C i \<and> reloaded r
       then nios_result (field_OPX i) (operand s (field_A i)) (operand s (field_B i)) else n_reg s r)) \<and>
    (\<forall>a. \<not> in_frame s a \<longrightarrow> n_mem s' a = n_mem s a)"
    by (rule emulation_rtype [OF assms(1-5)]) (simp_all add: assms(6-9))
  then show ?thesis by (auto simp: assms(6-9) operand_def reloaded_def nios_result_def)
qed

lemma emulation_global_pointer:
  assumes "n_estatus s AND 1 = 0 \<or> n_ipending s = 0" and "n_reg s 0 = 0"
    and "i = n_mem s (n_reg s 29 - 4)" and "\<not> in_frame s (n_reg s 29 - 4)"
    and "field_OP i = 0x3a" and "field_OPX i = 0x27"
    and "field_A i = 2" and "field_B i = 3" and "field_C i = 26"
  shows "\<exists>s'. alt_exception_handler irqh ch s = Some s' \<and> (\<forall>r<32. n_reg s' r = n_reg s r)"
proof -
  have "\<exists>s'. alt_exception_handler irqh ch s = Some s' \<and> n_estatus s' = n_estatus s \<and>
    (\<forall>r<32. n_reg s' r = (if r = field_C i \<and> reloaded r
       then nios_result (field_OPX i) (operand s (field_A i)) (operand s (field_B i)) else n_reg s r)) \<and>
    (\<forall>a. \<not> in_frame s a \<longrightarrow> n_mem s' a = n_mem s a)"
    by (rule emulation_rtype [OF assms(1-5)]) (simp_all add: assms(6-9))
  then show ?thesis by (auto simp: assms(9) reloaded_def)
qed

lemma interrupt_transparent_witness:
  "\<exists>s'. alt_exception_handler Some Some (div_program\<lparr>n_ipending := 4\<rparr>) = Some s' \<and> n_reg s' 29 = 0x1000 \<and>
    n_reg s' 2 = - 7"
proof -
  have "c_call t t" for t by (simp add: c_call_def list_all_iff)
  then have "\<exists>s'. alt_exception_handler Some Some (div_program\<lparr>n_ipending := 4\<rparr>) = Some s' \<and>
      n_estatus s' = n_estatus (div_program\<lparr>n_ipending := 4\<rparr>) \<and>
      (\<forall>r<32. n_reg s' r = (if r = 29 then n_reg (div_program\<lparr>n_ipending := 4\<rparr>) 29 - 4
         else n_reg (div_program\<lparr>n_ipending := 4\<rparr>) r))"
    by (intro interrupt_transparent) (simp_all add: div_program_def)
  then show ?thesis by (auto simp: div_program_def)
qed

end
