(* ===== verification/Soc_Map.thy ===== *)
theory Soc_Map
  imports Board_Init
begin

text \<open>
  The system as the generated header describes it (\<open>system.h\<close>, \<open>linker.h\<close>): the macros of every module as a
  table, the address map they give, and how the drivers' structures are built from them
  (\<open>ALTERA_MSGDMA_..._INSTANCE\<close> of \<open>altera_msgdma.h\<close>). The theorems relate the map to what the drivers do.
\<close>

section \<open>The macros of \<open>system.h\<close>\<close>

text \<open>A macro of a module, without the module's prefix; \<open>CLASS\<close> is the macro \<open>ALT_MODULE_CLASS_...\<close>.\<close>

datatype macro_value = Num int | Name string

type_synonym module_cfg = "(string \<times> macro_value) list"

definition address_span_extender_0_cntl_cfg :: module_cfg where
  "address_span_extender_0_cntl_cfg =
    [(''BASE'', Num 0x80), (''BURSTCOUNT_WIDTH'', Num 1), (''BYTEENABLE_WIDTH'', Num 4),
     (''CNTL_ADDRESS_WIDTH'', Num 1), (''DATA_WIDTH'', Num 32), (''IRQ'', Num (- 1)),
     (''IRQ_INTERRUPT_CONTROLLER_ID'', Num (- 1)), (''MASTER_ADDRESS_WIDTH'', Num 0x20),
     (''MAX_BURST_BYTES'', Num 4), (''MAX_BURST_WORDS'', Num 1),
     (''NAME'', Name ''/dev/address_span_extender_0_cntl''),
     (''SLAVE_ADDRESS_SHIFT'', Num 0x2), (''SLAVE_ADDRESS_WIDTH'', Num 0x19),
     (''SPAN'', Num 8), (''SUB_WINDOW_COUNT'', Num 1),
     (''TYPE'', Name ''altera_address_span_extender''),
     (''CLASS'', Name ''altera_address_span_extender'')]"

definition address_span_extender_0_windowed_slave_cfg :: module_cfg where
  "address_span_extender_0_windowed_slave_cfg =
    [(''BASE'', Num 0x8000000), (''BURSTCOUNT_WIDTH'', Num 1), (''BYTEENABLE_WIDTH'', Num 4),
     (''CNTL_ADDRESS_WIDTH'', Num 1), (''DATA_WIDTH'', Num 32), (''IRQ'', Num (- 1)),
     (''IRQ_INTERRUPT_CONTROLLER_ID'', Num (- 1)), (''MASTER_ADDRESS_WIDTH'', Num 0x20),
     (''MAX_BURST_BYTES'', Num 4), (''MAX_BURST_WORDS'', Num 1),
     (''NAME'', Name ''/dev/address_span_extender_0_windowed_slave''),
     (''SLAVE_ADDRESS_SHIFT'', Num 0x2), (''SLAVE_ADDRESS_WIDTH'', Num 0x19),
     (''SPAN'', Num 134217728), (''SUB_WINDOW_COUNT'', Num 1),
     (''TYPE'', Name ''altera_address_span_extender''),
     (''CLASS'', Name ''altera_address_span_extender'')]"

definition ddr_read_st_csr_cfg :: module_cfg where
  "ddr_read_st_csr_cfg =
    [(''CLASS'', Name ''altera_msgdma''), (''BASE'', Num 0x31000), (''BURST_ENABLE'', Num 1),
     (''BURST_WRAPPING_SUPPORT'', Num 0), (''CHANNEL_ENABLE'', Num 0),
     (''CHANNEL_ENABLE_DERIVED'', Num 0), (''CHANNEL_WIDTH'', Num 8),
     (''DATA_FIFO_DEPTH'', Num 128), (''DATA_WIDTH'', Num 64),
     (''DESCRIPTOR_FIFO_DEPTH'', Num 128), (''DMA_MODE'', Num 1),
     (''ENHANCED_FEATURES'', Num 0), (''ERROR_ENABLE'', Num 0),
     (''ERROR_ENABLE_DERIVED'', Num 0), (''ERROR_WIDTH'', Num 8), (''IRQ'', Num 2),
     (''IRQ_INTERRUPT_CONTROLLER_ID'', Num 0), (''MAX_BURST_COUNT'', Num 16),
     (''MAX_BYTE'', Num 4096), (''MAX_STRIDE'', Num 1),
     (''NAME'', Name ''/dev/ddr_read_st_csr''), (''PACKET_ENABLE'', Num 1),
     (''PACKET_ENABLE_DERIVED'', Num 1), (''PREFETCHER_ENABLE'', Num 0),
     (''PROGRAMMABLE_BURST_ENABLE'', Num 0), (''RESPONSE_PORT'', Num 2), (''SPAN'', Num 32),
     (''STRIDE_ENABLE'', Num 0), (''STRIDE_ENABLE_DERIVED'', Num 0),
     (''TRANSFER_TYPE'', Name ''Aligned Accesses''), (''TYPE'', Name ''altera_msgdma'')]"

definition ddr_read_st_descriptor_slave_cfg :: module_cfg where
  "ddr_read_st_descriptor_slave_cfg =
    [(''CLASS'', Name ''altera_msgdma''), (''BASE'', Num 0x31040), (''BURST_ENABLE'', Num 1),
     (''BURST_WRAPPING_SUPPORT'', Num 0), (''CHANNEL_ENABLE'', Num 0),
     (''CHANNEL_ENABLE_DERIVED'', Num 0), (''CHANNEL_WIDTH'', Num 8),
     (''DATA_FIFO_DEPTH'', Num 128), (''DATA_WIDTH'', Num 64),
     (''DESCRIPTOR_FIFO_DEPTH'', Num 128), (''DMA_MODE'', Num 1),
     (''ENHANCED_FEATURES'', Num 0), (''ERROR_ENABLE'', Num 0),
     (''ERROR_ENABLE_DERIVED'', Num 0), (''ERROR_WIDTH'', Num 8), (''IRQ'', Num (- 1)),
     (''IRQ_INTERRUPT_CONTROLLER_ID'', Num (- 1)), (''MAX_BURST_COUNT'', Num 16),
     (''MAX_BYTE'', Num 4096), (''MAX_STRIDE'', Num 1),
     (''NAME'', Name ''/dev/ddr_read_st_descriptor_slave''), (''PACKET_ENABLE'', Num 1),
     (''PACKET_ENABLE_DERIVED'', Num 1), (''PREFETCHER_ENABLE'', Num 0),
     (''PROGRAMMABLE_BURST_ENABLE'', Num 0), (''RESPONSE_PORT'', Num 2), (''SPAN'', Num 16),
     (''STRIDE_ENABLE'', Num 0), (''STRIDE_ENABLE_DERIVED'', Num 0),
     (''TRANSFER_TYPE'', Name ''Aligned Accesses''), (''TYPE'', Name ''altera_msgdma'')]"

definition ddr_write_st_csr_cfg :: module_cfg where
  "ddr_write_st_csr_cfg =
    [(''CLASS'', Name ''altera_msgdma''), (''BASE'', Num 0x31020), (''BURST_ENABLE'', Num 1),
     (''BURST_WRAPPING_SUPPORT'', Num 0), (''CHANNEL_ENABLE'', Num 0),
     (''CHANNEL_ENABLE_DERIVED'', Num 0), (''CHANNEL_WIDTH'', Num 8),
     (''DATA_FIFO_DEPTH'', Num 128), (''DATA_WIDTH'', Num 64),
     (''DESCRIPTOR_FIFO_DEPTH'', Num 128), (''DMA_MODE'', Num 2),
     (''ENHANCED_FEATURES'', Num 0), (''ERROR_ENABLE'', Num 0),
     (''ERROR_ENABLE_DERIVED'', Num 0), (''ERROR_WIDTH'', Num 8), (''IRQ'', Num 3),
     (''IRQ_INTERRUPT_CONTROLLER_ID'', Num 0), (''MAX_BURST_COUNT'', Num 16),
     (''MAX_BYTE'', Num 4096), (''MAX_STRIDE'', Num 1),
     (''NAME'', Name ''/dev/ddr_write_st_csr''), (''PACKET_ENABLE'', Num 1),
     (''PACKET_ENABLE_DERIVED'', Num 1), (''PREFETCHER_ENABLE'', Num 0),
     (''PROGRAMMABLE_BURST_ENABLE'', Num 0), (''RESPONSE_PORT'', Num 2), (''SPAN'', Num 32),
     (''STRIDE_ENABLE'', Num 0), (''STRIDE_ENABLE_DERIVED'', Num 0),
     (''TRANSFER_TYPE'', Name ''Aligned Accesses''), (''TYPE'', Name ''altera_msgdma'')]"

definition ddr_write_st_descriptor_slave_cfg :: module_cfg where
  "ddr_write_st_descriptor_slave_cfg =
    [(''CLASS'', Name ''altera_msgdma''), (''BASE'', Num 0x31050), (''BURST_ENABLE'', Num 1),
     (''BURST_WRAPPING_SUPPORT'', Num 0), (''CHANNEL_ENABLE'', Num 0),
     (''CHANNEL_ENABLE_DERIVED'', Num 0), (''CHANNEL_WIDTH'', Num 8),
     (''DATA_FIFO_DEPTH'', Num 128), (''DATA_WIDTH'', Num 64),
     (''DESCRIPTOR_FIFO_DEPTH'', Num 128), (''DMA_MODE'', Num 2),
     (''ENHANCED_FEATURES'', Num 0), (''ERROR_ENABLE'', Num 0),
     (''ERROR_ENABLE_DERIVED'', Num 0), (''ERROR_WIDTH'', Num 8), (''IRQ'', Num (- 1)),
     (''IRQ_INTERRUPT_CONTROLLER_ID'', Num (- 1)), (''MAX_BURST_COUNT'', Num 16),
     (''MAX_BYTE'', Num 4096), (''MAX_STRIDE'', Num 1),
     (''NAME'', Name ''/dev/ddr_write_st_descriptor_slave''), (''PACKET_ENABLE'', Num 1),
     (''PACKET_ENABLE_DERIVED'', Num 1), (''PREFETCHER_ENABLE'', Num 0),
     (''PROGRAMMABLE_BURST_ENABLE'', Num 0), (''RESPONSE_PORT'', Num 2), (''SPAN'', Num 16),
     (''STRIDE_ENABLE'', Num 0), (''STRIDE_ENABLE_DERIVED'', Num 0),
     (''TRANSFER_TYPE'', Name ''Aligned Accesses''), (''TYPE'', Name ''altera_msgdma'')]"

definition jtag_uart_cfg :: module_cfg where
  "jtag_uart_cfg =
    [(''CLASS'', Name ''altera_avalon_jtag_uart''), (''BASE'', Num 0x70000), (''IRQ'', Num 0),
     (''IRQ_INTERRUPT_CONTROLLER_ID'', Num 0), (''NAME'', Name ''/dev/jtag_uart''),
     (''READ_DEPTH'', Num 64), (''READ_THRESHOLD'', Num 8), (''SPAN'', Num 8),
     (''TYPE'', Name ''altera_avalon_jtag_uart''), (''WRITE_DEPTH'', Num 64),
     (''WRITE_THRESHOLD'', Num 8)]"

definition npu_ctrl_cfg :: module_cfg where
  "npu_ctrl_cfg =
    [(''CLASS'', Name ''altera_avalon_mm_bridge''), (''BASE'', Num 0x30000), (''IRQ'', Num (- 1)),
     (''IRQ_INTERRUPT_CONTROLLER_ID'', Num (- 1)), (''NAME'', Name ''/dev/npu_ctrl''),
     (''SPAN'', Num 1024), (''TYPE'', Name ''altera_avalon_mm_bridge'')]"

definition onchip_memory2_0_cfg :: module_cfg where
  "onchip_memory2_0_cfg =
    [(''CLASS'', Name ''altera_avalon_onchip_memory2''),
     (''ALLOW_IN_SYSTEM_MEMORY_CONTENT_EDITOR'', Num 0),
     (''ALLOW_MRAM_SIM_CONTENTS_ONLY_FILE'', Num 0), (''BASE'', Num 0x80000),
     (''CONTENTS_INFO'', Name ''''), (''DUAL_PORT'', Num 0),
     (''GUI_RAM_BLOCK_TYPE'', Name ''AUTO''),
     (''INIT_CONTENTS_FILE'', Name ''soc_system_onchip_memory2_0''),
     (''INIT_MEM_CONTENT'', Num 1), (''INSTANCE_ID'', Name ''NONE''), (''IRQ'', Num (- 1)),
     (''IRQ_INTERRUPT_CONTROLLER_ID'', Num (- 1)), (''NAME'', Name ''/dev/onchip_memory2_0''),
     (''NON_DEFAULT_INIT_FILE_ENABLED'', Num 0), (''RAM_BLOCK_TYPE'', Name ''AUTO''),
     (''READ_DURING_WRITE_MODE'', Name ''DONT_CARE''), (''SINGLE_CLOCK_OP'', Num 0),
     (''SIZE_MULTIPLE'', Num 1), (''SIZE_VALUE'', Num 100000), (''SPAN'', Num 100000),
     (''TYPE'', Name ''altera_avalon_onchip_memory2''), (''WRITABLE'', Num 1)]"

definition timer_0_cfg :: module_cfg where
  "timer_0_cfg =
    [(''CLASS'', Name ''altera_avalon_timer''), (''ALWAYS_RUN'', Num 0), (''BASE'', Num 0x60),
     (''COUNTER_SIZE'', Num 32), (''FIXED_PERIOD'', Num 0), (''FREQ'', Num 50000000),
     (''IRQ'', Num 1), (''IRQ_INTERRUPT_CONTROLLER_ID'', Num 0), (''LOAD_VALUE'', Num 49999),
     (''MULT'', Name ''0.001''), (''NAME'', Name ''/dev/timer_0''), (''PERIOD'', Num 1),
     (''PERIOD_UNITS'', Name ''ms''), (''RESET_OUTPUT'', Num 0), (''SNAPSHOT'', Num 1),
     (''SPAN'', Num 32), (''TICKS_PER_SEC'', Num 1000), (''TIMEOUT_PULSE_OUTPUT'', Num 0),
     (''TYPE'', Name ''altera_avalon_timer'')]"

definition cfg_num :: "module_cfg \<Rightarrow> string \<Rightarrow> int" where
  "cfg_num c k = (case map_of c k of Some (Num n) \<Rightarrow> n | _ \<Rightarrow> 0)"

definition cfg_name :: "module_cfg \<Rightarrow> string \<Rightarrow> string" where
  "cfg_name c k = (case map_of c k of Some (Name s) \<Rightarrow> s | _ \<Rightarrow> [])"

text \<open>The slaves by their addresses, and the regions of the linker.\<close>

definition slaves :: "module_cfg list" where
  "slaves = [timer_0_cfg, address_span_extender_0_cntl_cfg, npu_ctrl_cfg, ddr_read_st_csr_cfg, ddr_write_st_csr_cfg,
     ddr_read_st_descriptor_slave_cfg, ddr_write_st_descriptor_slave_cfg, jtag_uart_cfg, onchip_memory2_0_cfg,
     address_span_extender_0_windowed_slave_cfg]"

definition RESET_REGION :: "int \<times> int" where "RESET_REGION = (0x80000, 32)"
definition ONCHIP_MEMORY2_0_REGION :: "int \<times> int" where "ONCHIP_MEMORY2_0_REGION = (0x80020, 99968)"

section \<open>The drivers' structures\<close>

text \<open>The initializers, with the members that the driver reads. The response slave's members are not in the model of
  the structure, since no function reads them.\<close>

definition ALTERA_MSGDMA_CSR_DESCRIPTOR_SLAVE_INSTANCE :: "module_cfg \<Rightarrow> module_cfg \<Rightarrow> 'h msgdma_dev" where
  "ALTERA_MSGDMA_CSR_DESCRIPTOR_SLAVE_INSTANCE csr_if desc_if =
     \<lparr>csr_base = word_of_int (cfg_num csr_if ''BASE''), descriptor_base = word_of_int (cfg_num desc_if ''BASE''),
      prefetcher_base = 0, descriptor_fifo_depth = word_of_int (cfg_num desc_if ''DESCRIPTOR_FIFO_DEPTH''),
      callback = None, callback_context = 0, dev_control = 0,
      max_byte = word_of_int (cfg_num csr_if ''MAX_BYTE''), max_stride = word_of_int (cfg_num csr_if ''MAX_STRIDE''),
      enhanced_features = word_of_int (cfg_num csr_if ''ENHANCED_FEATURES''),
      prefetcher_enable = word_of_int (cfg_num csr_if ''PREFETCHER_ENABLE'')\<rparr>"

definition ALTERA_MSGDMA_CSR_PREFETCHER_CSR_INSTANCE :: "module_cfg \<Rightarrow> module_cfg \<Rightarrow> 'h msgdma_dev" where
  "ALTERA_MSGDMA_CSR_PREFETCHER_CSR_INSTANCE csr_if pref_if =
     \<lparr>csr_base = word_of_int (cfg_num csr_if ''BASE''), descriptor_base = 0,
      prefetcher_base = word_of_int (cfg_num pref_if ''BASE''), descriptor_fifo_depth = 0,
      callback = None, callback_context = 0, dev_control = 0,
      max_byte = word_of_int (cfg_num csr_if ''MAX_BYTE''), max_stride = word_of_int (cfg_num csr_if ''MAX_STRIDE''),
      enhanced_features = word_of_int (cfg_num csr_if ''ENHANCED_FEATURES''),
      prefetcher_enable = word_of_int (cfg_num csr_if ''PREFETCHER_ENABLE'')\<rparr>"

section \<open>The address map\<close>

text \<open>The processor has 28 address lines; bit 31 of a pointer only bypasses the data cache.\<close>

definition bus_address :: "u32 \<Rightarrow> int" where "bus_address a = uint (a AND 0x0FFFFFFF)"

definition within :: "module_cfg \<Rightarrow> int \<Rightarrow> bool" where
  "within c a \<longleftrightarrow> cfg_num c ''BASE'' \<le> a \<and> a < cfg_num c ''BASE'' + cfg_num c ''SPAN''"

definition selected :: "int \<Rightarrow> string list" where
  "selected a = map (\<lambda>c. cfg_name c ''NAME'') (filter (\<lambda>c. within c a) slaves)"

lemmas module_cfgs = timer_0_cfg_def address_span_extender_0_cntl_cfg_def npu_ctrl_cfg_def ddr_read_st_csr_cfg_def
  ddr_write_st_csr_cfg_def ddr_read_st_descriptor_slave_cfg_def ddr_write_st_descriptor_slave_cfg_def jtag_uart_cfg_def
  onchip_memory2_0_cfg_def address_span_extender_0_windowed_slave_cfg_def

lemma cfg_bases [simp]:
  "cfg_num timer_0_cfg ''BASE'' = 0x60" "cfg_num address_span_extender_0_cntl_cfg ''BASE'' = 0x80"
  "cfg_num npu_ctrl_cfg ''BASE'' = 0x30000" "cfg_num ddr_read_st_csr_cfg ''BASE'' = 0x31000"
  "cfg_num ddr_write_st_csr_cfg ''BASE'' = 0x31020" "cfg_num ddr_read_st_descriptor_slave_cfg ''BASE'' = 0x31040"
  "cfg_num ddr_write_st_descriptor_slave_cfg ''BASE'' = 0x31050" "cfg_num jtag_uart_cfg ''BASE'' = 0x70000"
  "cfg_num onchip_memory2_0_cfg ''BASE'' = 0x80000" "cfg_num address_span_extender_0_windowed_slave_cfg ''BASE'' = 0x8000000"
  by (simp_all add: cfg_num_def module_cfgs)

lemma cfg_spans [simp]:
  "cfg_num timer_0_cfg ''SPAN'' = 32" "cfg_num address_span_extender_0_cntl_cfg ''SPAN'' = 8"
  "cfg_num npu_ctrl_cfg ''SPAN'' = 1024" "cfg_num ddr_read_st_csr_cfg ''SPAN'' = 32"
  "cfg_num ddr_write_st_csr_cfg ''SPAN'' = 32" "cfg_num ddr_read_st_descriptor_slave_cfg ''SPAN'' = 16"
  "cfg_num ddr_write_st_descriptor_slave_cfg ''SPAN'' = 16" "cfg_num jtag_uart_cfg ''SPAN'' = 8"
  "cfg_num onchip_memory2_0_cfg ''SPAN'' = 100000" "cfg_num address_span_extender_0_windowed_slave_cfg ''SPAN'' = 0x8000000"
  by (simp_all add: cfg_num_def module_cfgs)

text \<open>The slaves lie one after the other, so no address selects two of them.\<close>

lemma filter_disjoint:
  fixes f :: "'a \<Rightarrow> int \<times> int"
  assumes "sorted_wrt (\<lambda>x y. fst (f x) + snd (f x) \<le> fst (f y)) xs"
  shows "length (filter (\<lambda>x. fst (f x) \<le> a \<and> a < fst (f x) + snd (f x)) xs) \<le> 1"
  using assms
proof (induction xs)
  case (Cons x xs)
  show ?case
  proof (cases "fst (f x) \<le> a \<and> a < fst (f x) + snd (f x)")
    case True
    with Cons.prems have "filter (\<lambda>x. fst (f x) \<le> a \<and> a < fst (f x) + snd (f x)) xs = []"
      by (fastforce simp: filter_empty_conv)
    with True show ?thesis by simp
  next
    case False
    with Cons show ?thesis by auto
  qed
qed simp

lemma address_map_disjoint: "length (selected a) \<le> 1"
  using filter_disjoint [of "\<lambda>c. (cfg_num c ''BASE'', cfg_num c ''SPAN'')" slaves a]
  by (simp add: selected_def within_def slaves_def)

lemma cfg_names [simp]:
  "cfg_name timer_0_cfg ''NAME'' = ''/dev/timer_0''" "cfg_name npu_ctrl_cfg ''NAME'' = ''/dev/npu_ctrl''"
  "cfg_name address_span_extender_0_cntl_cfg ''NAME'' = ''/dev/address_span_extender_0_cntl''"
  "cfg_name ddr_read_st_csr_cfg ''NAME'' = ''/dev/ddr_read_st_csr''"
  "cfg_name ddr_write_st_csr_cfg ''NAME'' = ''/dev/ddr_write_st_csr''"
  "cfg_name ddr_read_st_descriptor_slave_cfg ''NAME'' = ''/dev/ddr_read_st_descriptor_slave''"
  "cfg_name ddr_write_st_descriptor_slave_cfg ''NAME'' = ''/dev/ddr_write_st_descriptor_slave''"
  "cfg_name jtag_uart_cfg ''NAME'' = ''/dev/jtag_uart''" "cfg_name onchip_memory2_0_cfg ''NAME'' = ''/dev/onchip_memory2_0''"
  "cfg_name address_span_extender_0_windowed_slave_cfg ''NAME'' = ''/dev/address_span_extender_0_windowed_slave''"
  by (simp_all add: cfg_name_def module_cfgs)

text \<open>The registers that the NPU driver uses, by the slave they belong to.\<close>

lemma selected_registers:
  "selected 0x30000 = [''/dev/npu_ctrl'']" "selected 0x30004 = [''/dev/npu_ctrl'']" "selected 0x3001C = [''/dev/npu_ctrl'']"
  "selected 0x31000 = [''/dev/ddr_read_st_csr'']" "selected 0x31020 = [''/dev/ddr_write_st_csr'']"
  "selected 0x31040 = [''/dev/ddr_read_st_descriptor_slave'']" "selected 0x31044 = [''/dev/ddr_read_st_descriptor_slave'']"
  "selected 0x31048 = [''/dev/ddr_read_st_descriptor_slave'']" "selected 0x3104C = [''/dev/ddr_read_st_descriptor_slave'']"
  "selected 0x31050 = [''/dev/ddr_write_st_descriptor_slave'']" "selected 0x31054 = [''/dev/ddr_write_st_descriptor_slave'']"
  "selected 0x31058 = [''/dev/ddr_write_st_descriptor_slave'']" "selected 0x3105C = [''/dev/ddr_write_st_descriptor_slave'']"
  by (simp_all add: selected_def within_def slaves_def)

fun access_address :: "access \<Rightarrow> u32 option" where
  "access_address (Rd a v) = Some a"
| "access_address (Wr32 a v) = Some a"
| "access_address (Wr16 a v) = Some a"
| "access_address (Wr8 a v) = Some a"
| "access_address _ = None"

text \<open>Every access among \<open>es\<close> selects exactly one slave, and one of the names.\<close>

definition only_on :: "string list \<Rightarrow> access list \<Rightarrow> bool" where
  "only_on names es \<longleftrightarrow> list_all (\<lambda>e. case access_address e of None \<Rightarrow> True
     | Some a \<Rightarrow> list_ex (\<lambda>n. selected (bus_address a) = [n]) names) es"

lemma only_on_append [simp]: "only_on names (es @ es') \<longleftrightarrow> only_on names es \<and> only_on names es'"
  by (simp add: only_on_def)

lemma only_on_Cons:
  "only_on names (e # es) \<longleftrightarrow> (case access_address e of None \<Rightarrow> True
     | Some a \<Rightarrow> list_ex (\<lambda>n. selected (bus_address a) = [n]) names) \<and> only_on names es"
  "only_on names []"
  by (simp_all add: only_on_def)

lemma polled_only_on:
  assumes "polled resp a h h'" and "list_ex (\<lambda>n. selected (bus_address a) = [n]) names"
  shows "\<exists>t. h' = h @ t \<and> only_on names t"
proof -
  obtain t where t: "h' = h @ t" "\<forall>x\<in>set t. \<exists>v. x = Rd a v" using polled_appends [OF assms(1)] by blast
  have "only_on names t" unfolding only_on_def list_all_iff
  proof
    fix x assume "x \<in> set t"
    then obtain v where "x = Rd a v" using t(2) by blast
    with assms(2) show "case access_address x of None \<Rightarrow> True
        | Some a \<Rightarrow> list_ex (\<lambda>n. selected (bus_address a) = [n]) names" by simp
  qed
  with t(1) show ?thesis by blast
qed

lemma bus_addresses:
  "bus_address 0x30000 = 0x30000" "bus_address 0x30004 = 0x30004" "bus_address 0x3001C = 0x3001C"
  "bus_address 0x31000 = 0x31000" "bus_address 0x31020 = 0x31020"
  "bus_address 0x31040 = 0x31040" "bus_address 0x31044 = 0x31044" "bus_address 0x31048 = 0x31048" "bus_address 0x3104C = 0x3104C"
  "bus_address 0x31050 = 0x31050" "bus_address 0x31054 = 0x31054" "bus_address 0x31058 = 0x31058" "bus_address 0x3105C = 0x3105C"
  by (simp_all add: bus_address_def)

lemmas driver_map = selected_registers bus_addresses only_on_Cons push_trace_def board_defs

lemma load_weights_in_map:
  assumes "npu_load_weights (trace_bus resp) nios_board w n s = Some s'"
  shows "\<exists>es. hw s' = hw s @ es \<and>
    only_on [''/dev/npu_ctrl'', ''/dev/ddr_read_st_csr'', ''/dev/ddr_read_st_descriptor_slave''] es"
proof -
  let ?names = "[''/dev/npu_ctrl'', ''/dev/ddr_read_st_csr'', ''/dev/ddr_read_st_descriptor_slave'']"
  let ?h = "hw s @ Wr32 (NPU_CTRL_BASE nios_board) 3 #
            push_trace (DDR_READ_ST_DESCRIPTOR_SLAVE_BASE nios_board) w 0 (of_nat (64 * n)) 0x80000300"
  from assms obtain h1 h2 where p: "polled resp 0x31000 ?h h1" "polled resp 0x30004 h1 h2"
    and s': "hw s' = h2 @ [Wr32 (NPU_CTRL_BASE nios_board + 28) 1, Wr32 (NPU_CTRL_BASE nios_board + 28) 0]"
    unfolding npu_load_weights_alt bind_poll_trace by (auto simp: board_defs)
  obtain t1 where t1: "h1 = ?h @ t1" "only_on ?names t1"
    using polled_only_on [OF p(1), of ?names] by (auto simp: driver_map)
  obtain t2 where t2: "h2 = h1 @ t2" "only_on ?names t2"
    using polled_only_on [OF p(2), of ?names] by (auto simp: driver_map)
  show ?thesis unfolding s' t1(1) t2(1) append_assoc
    by (rule exI, rule conjI, rule refl) (use t1(2) t2(2) in \<open>simp add: driver_map\<close>)
qed

lemma wait_execution_in_map:
  assumes "npu_wait_execution (trace_bus resp) nios_board s = Some s'"
  shows "\<exists>es. hw s' = hw s @ es \<and> only_on [''/dev/npu_ctrl'', ''/dev/ddr_write_st_csr''] es"
proof -
  let ?names = "[''/dev/npu_ctrl'', ''/dev/ddr_write_st_csr'']"
  from assms obtain h1 h2 where p: "polled resp 0x31020 (hw s) h1" "polled resp 0x30004 h1 h2" and s': "hw s' = h2"
    unfolding npu_wait_execution_def bind_poll_trace poll_npu_idle_trace by (auto simp: board_defs)
  obtain t1 where t1: "h1 = hw s @ t1" "only_on ?names t1"
    using polled_only_on [OF p(1), of ?names] by (auto simp: driver_map)
  obtain t2 where t2: "h2 = h1 @ t2" "only_on ?names t2"
    using polled_only_on [OF p(2), of ?names] by (auto simp: driver_map)
  from s' t1 t2 show ?thesis by auto
qed

text \<open>C39: The driver stays on its slaves: no address of the map selects two slaves, and on arbitrary hardware every
  access that loading weights, streaming in, streaming out and waiting make selects exactly one, which is one of the
  slaves that this call is meant for.\<close>

theorem driver_accesses_in_map:
  assumes "npu_load_weights (trace_bus resp) nios_board w n s = Some s1"
    and "npu_wait_execution (trace_bus resp) nios_board t = Some t1"
  shows "length (selected a) \<le> 1 \<and>
    (\<exists>es. hw s1 = hw s @ es \<and>
       only_on [''/dev/npu_ctrl'', ''/dev/ddr_read_st_csr'', ''/dev/ddr_read_st_descriptor_slave''] es) \<and>
    (\<exists>es. hw (npu_load_matrix (trace_bus resp) nios_board src m u) = hw u @ es \<and>
       only_on [''/dev/npu_ctrl'', ''/dev/ddr_read_st_descriptor_slave''] es) \<and>
    (\<exists>es. hw (npu_get_matrix (trace_bus resp) nios_board dst m u) = hw u @ es \<and>
       only_on [''/dev/ddr_write_st_descriptor_slave''] es) \<and>
    (\<exists>es. hw t1 = hw t @ es \<and> only_on [''/dev/npu_ctrl'', ''/dev/ddr_write_st_csr''] es)"
  using address_map_disjoint [of a] load_weights_in_map [OF assms(1)] wait_execution_in_map [OF assms(2)]
  by (simp add: npu_control_trace driver_map)

lemma driver_accesses_in_map_witness:
  "(\<exists>s1. npu_load_weights (trace_bus (\<lambda>_ _. 0)) nios_board 0x8000000 1 (reset_machine []) = Some s1 \<and>
     (\<exists>es. hw s1 = es \<and>
        only_on [''/dev/npu_ctrl'', ''/dev/ddr_read_st_csr'', ''/dev/ddr_read_st_descriptor_slave''] es)) \<and>
   length (selected 0x31050) = 1"
proof -
  have p: "polled (\<lambda>_ _. 0) a h (h @ [Rd a 0])" for a h
    unfolding polled_def by (rule exI [of _ 0]) simp
  have "\<exists>s1. npu_load_weights (trace_bus (\<lambda>_ _. 0)) nios_board 0x8000000 1 (reset_machine []) = Some s1"
    unfolding npu_load_weights_alt bind_poll_trace using p by blast
  then obtain s1 where s1: "npu_load_weights (trace_bus (\<lambda>_ _. 0)) nios_board 0x8000000 1 (reset_machine []) = Some s1" ..
  have "\<exists>t1. npu_wait_execution (trace_bus (\<lambda>_ _. 0)) nios_board (reset_machine []) = Some t1"
    unfolding npu_wait_execution_def bind_poll_trace poll_npu_idle_trace using p by blast
  then obtain t1 where t1: "npu_wait_execution (trace_bus (\<lambda>_ _. 0)) nios_board (reset_machine []) = Some t1" ..
  from driver_accesses_in_map [OF s1 t1] s1 show ?thesis by (simp add: reset_machine_def selected_registers)
qed

section \<open>Consistency with the drivers' constants\<close>

text \<open>The structures of the two DMA controllers are what the initializer makes of the tables.\<close>

lemma msgdma_instances:
  "ddr_read_st = ALTERA_MSGDMA_CSR_DESCRIPTOR_SLAVE_INSTANCE ddr_read_st_csr_cfg ddr_read_st_descriptor_slave_cfg"
  "ddr_write_st = ALTERA_MSGDMA_CSR_DESCRIPTOR_SLAVE_INSTANCE ddr_write_st_csr_cfg ddr_write_st_descriptor_slave_cfg"
  by (simp_all add: ddr_read_st_def ddr_write_st_def ALTERA_MSGDMA_CSR_DESCRIPTOR_SLAVE_INSTANCE_def board_defs)
    (simp_all add: cfg_num_def module_cfgs)

text \<open>The interrupts of different modules are different.\<close>

lemma interrupts_distinct:
  "map (\<lambda>c. cfg_num c ''IRQ'') (filter (\<lambda>c. 0 \<le> cfg_num c ''IRQ'') slaves) = [1, 2, 3, 0]"
  "word_of_int (cfg_num timer_0_cfg ''IRQ'') = TIMER_0_IRQ" "word_of_int (cfg_num jtag_uart_cfg ''IRQ'') = JTAG_UART_IRQ"
  "word_of_int (cfg_num ddr_read_st_csr_cfg ''IRQ'') = DDR_READ_ST_CSR_IRQ"
  "word_of_int (cfg_num ddr_write_st_csr_cfg ''IRQ'') = DDR_WRITE_ST_CSR_IRQ"
  by (simp_all add: slaves_def cfg_num_def module_cfgs TIMER_0_IRQ_def JTAG_UART_IRQ_def
      DDR_READ_ST_CSR_IRQ_def DDR_WRITE_ST_CSR_IRQ_def)

text \<open>The period of the timer is one tick of the system clock.\<close>

lemma timer_period:
  "(cfg_num timer_0_cfg ''LOAD_VALUE'' + 1) * cfg_num timer_0_cfg ''TICKS_PER_SEC'' = cfg_num timer_0_cfg ''FREQ''"
  "uint (ALTERA_AVALON_TIMER_FREQ TIMER_0_FREQ TIMER_0_PERIOD TIMER_0_PERIOD_UNITS) = cfg_num timer_0_cfg ''TICKS_PER_SEC''"
  by (simp add: cfg_num_def module_cfgs) (simp add: timer_freq cfg_num_def module_cfgs)

text \<open>The two regions of the linker fill the memory.\<close>

lemma linker_regions:
  "fst RESET_REGION = cfg_num onchip_memory2_0_cfg ''BASE''"
  "fst RESET_REGION + snd RESET_REGION = fst ONCHIP_MEMORY2_0_REGION"
  "fst ONCHIP_MEMORY2_0_REGION + snd ONCHIP_MEMORY2_0_REGION =
     cfg_num onchip_memory2_0_cfg ''BASE'' + cfg_num onchip_memory2_0_cfg ''SPAN''"
  by (simp_all add: RESET_REGION_def ONCHIP_MEMORY2_0_REGION_def)

end
