(* ===== verification/Spec2Isabelle.thy ===== *)
theory Spec2Isabelle
  imports Npu_Driver Msgdma_Prefetcher Jtag_Device Hal_Time Hal_Irq Hal_Fd Hal_Memory Hal_Stdio Hal_Log
    Hal_System Board_Init Mem_Verify Npu_App Linux_Port Rtl_Bus Hal_Gmon Hal_Channel Exception_Entry Soc_Map
begin

text \<open>
  Verification library for an 8 x 8 systolic-array NPU on a Cyclone V: the NPU test programs,
  their drivers, the hardware abstraction layer (HAL) under them, and the NPU's register transfer
  level description. Sources are named relative to \<open>src/\<close>.

  Parts of the program and how they interact. The application (\<open>software/npu\<close>, and a copy for
  Linux in \<open>linux_software/npu_test\<close>) formats matrices, moves them through two modular SGDMA
  controllers into and out of the NPU, and compares the results with a reference. On the Nios II
  it runs on the HAL (\<open>software/npu_bsp\<close>): \<open>alt_main\<close> initialises interrupts, timer, UART and
  DMA controllers, opens the three standard descriptors on the UART, and calls \<open>main\<close>. The NPU
  (\<open>rtl\<close>) takes eight bytes per beat from the read DMA, multiplies them with the weights it holds in
  a systolic array, and gives a row of eight sums as four flits to the write DMA.

  Theories, each with the state of its component as a record and one definition per function,
  named as in the C code:

  \<^item> \<open>Npu_Prelude\<close>: machine integers, counted loops (\<open>for_range\<close>), waiting loops (\<open>spin_while\<close>),
    bytes of words, errno values, collections of rewrite rules.
  \<^item> \<open>Soc_Bus\<close>: the access macros of \<open>io.h\<close> over a bus that is a parameter; every access is
    recorded, \<open>trace_bus resp\<close> answers from the recorded history, so that a theorem for all
    \<open>resp\<close> holds for arbitrary hardware. The processor's interrupt enable bit.
  \<^item> \<open>Npu_Format\<close>, \<open>Npu_Driver\<close>, \<open>Npu_App\<close>: \<open>software/npu/main.c\<close> and \<open>common.c\<close>: the layout of the
    buffers, the exact register accesses of the driver, termination and verdict of the tests.
  \<^item> \<open>Linux_Port\<close>: \<open>linux_software/npu_test/main.c\<close>: its driver is the same, its tests and menu.
  \<^item> \<open>Mem_Verify\<close>: \<open>software/npu/mem_verify.c\<close>.
  \<^item> \<open>Msgdma\<close>, \<open>Msgdma_Prefetcher\<close>: \<open>drivers/src/altera_msgdma.c\<close>: which outcome a transfer has, as a
    relation on the values read (\<open>async_outcome\<close>, \<open>sync_outcome\<close>, \<open>start_outcome\<close>) with the exact trace
    of accesses, descriptor lists as rings in memory (locale \<open>desc_list\<close> for the two kinds of descriptor).
  \<^item> \<open>Jtag_Polled\<close>: \<open>altera_avalon_jtag_uart_*.c\<close> in the small version that polls, on arbitrary hardware.
    It is the one the build uses: \<open>software/npu_bsp/public.mk\<close> sets \<open>ALT_USE_SMALL_DRIVERS\<close>.
  \<^item> \<open>Ring_Buffer\<close>, \<open>Jtag_Uart\<close>, \<open>Jtag_Device\<close>: the interrupt-driven version, for a build without that
    setting. Interrupts are steps of the environment between the accesses to shared variables (locale
    \<open>uart_env\<close>, interpreted on the interrupt routine itself).
  \<^item> \<open>Hal_Llist\<close>, \<open>Hal_Alarm\<close>, \<open>Hal_Time\<close>, \<open>Hal_Irq\<close>, \<open>Hal_Fd\<close>, \<open>Hal_Memory\<close>, \<open>Hal_Stdio\<close>, \<open>Hal_Log\<close>,
    \<open>Hal_System\<close>: the HAL: circular lists, alarms refined to countdown timers, time of day,
    interrupt table and dispatcher, file descriptors and devices, caches and heap, the two
    printf implementations, logging, exceptions and the remaining system calls.
  \<^item> \<open>Hal_Gmon\<close>: the profiler. Its lists in memory, with the search in assembly, refine a map from pairs of
    addresses to counts, also while the timer samples and when a call starts the sampler; the slab
    allocator keeps every structure below its pointer.
  \<^item> \<open>Hal_Channel\<close>: DMA channels and flash devices, from registration to calls through the function pointers
    (locale \<open>registry\<close>, interpreted for the three kinds of device).
  \<^item> \<open>Exception_Muldiv\<close>, \<open>Exception_Entry\<close>: the exception handler in assembly. The loops that emulate
    multiplication and division are the operations of the words; the frame on the stack is a function
    from offsets to words (\<open>slot\<close>), so that saving and reloading are updates of it.
  \<^item> \<open>Board_Init\<close>: the start-up from \<open>alt_main\<close> on in the configuration of \<open>public.mk\<close>, where the
    components meet; the console is the polled UART behind a file descriptor.
  \<^item> \<open>Soc_Map\<close>: the macros of \<open>system.h\<close> by module, the address map they give, and that the NPU driver stays on
    its own slaves.
  \<^item> \<open>Rtl_Mac\<close>, \<open>Rtl_Core\<close>, \<open>Rtl_Stream\<close>, \<open>Rtl_Npu\<close>: the modules of \<open>rtl\<close>, one record of registers and
    one step function per module, wires as functions of the registers and inputs, the array of any
    size \<open>N\<close>. One application of \<open>unit_step\<close> is one clock cycle of \<open>npu_unit\<close>.
  \<^item> \<open>Elastic_Pipe\<close>: the abstract specification of the data path, a pipeline with backpressure that is a
    queue and that drains. \<open>Rtl_Calc\<close>: the core refines it, stage \<open>d\<close> being the anti-diagonal \<open>d\<close> of the
    array with its skew and deskew registers. \<open>Rtl_Load\<close>: the invariant of weight loading. \<open>Rtl_Run\<close>:
    runs of the core. \<open>Rtl_Phases\<close>: the unit through load, latch and multiply. \<open>Rtl_Drain\<close>: progress.
  \<^item> \<open>Rtl_System\<close>: the flits are the exact products, in order and framed, and with the driver's
    formatting and parsing around it the NPU computes \<open>cpu_matmul_8x8\<close>. \<open>Rtl_Bus\<close>: the registers of
    the unit as a device on the driver's bus, on which the driver's element test passes.

  Conventions. A loop that may run forever is a \<open>partial_function\<close> or a search whose value \<open>None\<close>
  means that it never returns, so there is no fuel; where a function returns, that is proved.
  A pointer is the 32-bit address, a null pointer is 0. Errors are negative numbers as in the C
  code, or branches of the type \<open>call\<close> for what C leaves undefined. In the hardware theories a run is a
  list of cycles, and the bounds are numbers of cycles: 14 idle cycles (\<open>2N - 2\<close>) before the latch, 724
  ready cycles to drain a batch of eight rows, 764 to drain any state.

  The DMA engines between memory and NPU are vendor code outside the sources: they are the relations
  \<open>dma_reads\<close> and \<open>dma_writes\<close>, hypotheses of the theorems that use them. The state of the FIFO memory
  after reset, which the hardware leaves open, is zero in the model; no theorem reads it before it is written.

  Configuration. \<open>public.mk\<close> is followed where the parts are put together (\<open>Board_Init\<close>). Some parts of
  the sources are modelled though this build does not link or enable them: the interrupt-driven UART, the
  profiler (\<open>hal.enable_gprof\<close> is false), the logging hooks (no log port), the emulation of
  instructions and the trap (\<open>ALT_NO_INSTRUCTION_EMULATION\<close>). The variants of the system calls for
  \<open>ALT_USE_DIRECT_DRIVERS\<close>, which is not set, are left out.

  Not modelled: assembly before \<open>alt_main\<close> (\<open>crt0.S\<close>) and the entry for memory errors, the build files
  and vendor IP generated by the tools, the C library, and the locks that are empty without an operating system.
\<close>

end
